(* ===== verification/JNet_Prelude.thy ===== *)
theory JNet_Prelude
  imports Complex_Main "HOL-Library.Word" "HOL-Library.Char_ord"
begin

unbundle bit_operations_syntax

text \<open>
  What every component of the development shares: the machine types of the C++ code, the
  result type of operations that can go wrong, raw memory as the buffers see it, the
  byte layout of fixed-width integers on a little-endian host, and the lemmas on words,
  lists and results that the component proofs are built on.

  The code is C++11 built by the Makefile with \<^verbatim>\<open>-O0 -g\<close> and no \<^verbatim>\<open>NDEBUG\<close>, so an
  \<^verbatim>\<open>assert\<close> that fails stops the program; it is an error value here. An access
  outside an allocated object, through a null pointer or to a freed object is undefined
  in C++; it is an error value too, never a silently chosen result.
\<close>

section \<open>Collections of rewrite rules\<close>

named_theorems res_simps \<open>unfolding the result monad\<close>
named_theorems nowrap \<open>machine arithmetic that does not wrap, read as arithmetic on naturals\<close>

section \<open>Machine types\<close>

type_synonym size_t = "64 word"
type_synonym int32 = "32 word"
type_synonym int64 = "64 word"
type_synonym byte = char

text \<open>A cell of freshly allocated memory (\<^verbatim>\<open>new char[n]\<close>) has an indeterminate value, \<open>None\<close>.\<close>

type_synonym cell = "byte option"

section \<open>Results\<close>

text \<open>
  The ways an operation ends badly: an assertion that fails, an access outside an object,
  through a null pointer, to a freed object or of an indeterminate value, a division by zero, and the
  exceptions that the standard library and a failed allocation throw.
\<close>

datatype cxx_error =
    AssertFailed
  | NullPointer
  | OutOfBounds
  | UseAfterFree
  | Indeterminate
  | LengthError
  | OutOfRange
  | BadCast
  | BadAlloc
  | DivByZero

type_synonym 'a res = "cxx_error + 'a"

definition rbind :: "'a res \<Rightarrow> ('a \<Rightarrow> 'b res) \<Rightarrow> 'b res" where
  "rbind m f = (case m of Inl e \<Rightarrow> Inl e | Inr x \<Rightarrow> f x)"

definition cxx_assert :: "bool \<Rightarrow> unit res" where
  "cxx_assert p = (if p then Inr () else Inl AssertFailed)"

lemma rbind_simps [simp, res_simps]:
  "rbind (Inl e) f = Inl e"
  "rbind (Inr x) f = f x"
  by (simp_all add: rbind_def)

lemma rbind_Inr_iff: "rbind m f = Inr y \<longleftrightarrow> (\<exists>x. m = Inr x \<and> f x = Inr y)"
  by (cases m) auto

lemma rbind_InrE:
  assumes "rbind m f = Inr y"
  obtains x where "m = Inr x" "f x = Inr y"
  using assms by (auto simp: rbind_Inr_iff)

lemma rbind_assoc: "rbind (rbind m f) g = rbind m (\<lambda>x. rbind (f x) g)"
  by (cases m) auto

lemma cxx_assert_simps [simp, res_simps]:
  "cxx_assert True = Inr ()"
  "cxx_assert False = Inl AssertFailed"
  by (simp_all add: cxx_assert_def)

lemma cxx_assert_Inr_iff [simp]: "cxx_assert p = Inr u \<longleftrightarrow> p"
  by (auto simp: cxx_assert_def)

text \<open>Running the same fallible step over the elements of a list, stopping at the first error.\<close>

fun rfold :: "('a \<Rightarrow> 's \<Rightarrow> 's res) \<Rightarrow> 'a list \<Rightarrow> 's \<Rightarrow> 's res" where
  "rfold f [] s = Inr s"
| "rfold f (x # xs) s = rbind (f x s) (rfold f xs)"

lemma rfold_append: "rfold f (xs @ ys) s = rbind (rfold f xs s) (rfold f ys)"
proof (induction xs arbitrary: s)
  case (Cons x xs)
  have eq: "rfold f (xs @ ys) = (\<lambda>s. rbind (rfold f xs s) (rfold f ys))"
    using Cons.IH by (rule ext)
  show ?case by (simp only: append_Cons rfold.simps eq rbind_assoc)
qed simp

text \<open>An invariant of the step is an invariant of the whole run.\<close>

lemma rfold_invariant:
  assumes "rfold f xs s = Inr s'" and "I s"
    and "\<And>x s s'. x \<in> set xs \<Longrightarrow> I s \<Longrightarrow> f x s = Inr s' \<Longrightarrow> I s'"
  shows "I s'"
  using assms
proof (induction xs arbitrary: s)
  case (Cons x xs)
  from Cons.prems(1) obtain s1 where s1: "f x s = Inr s1" "rfold f xs s1 = Inr s'"
    by (auto elim: rbind_InrE)
  have "I s1" using Cons.prems(2,3) s1(1) by auto
  then show ?case using Cons.IH [OF s1(2)] Cons.prems(3) by auto
qed simp

section \<open>Raw memory\<close>

text \<open>
  An allocated character array is a list of cells, a null pointer is \<open>None\<close>. Reading or
  writing a range checks that the whole range lies in the array; a range of length 0
  touches nothing.
\<close>

type_synonym mem = "cell list option"

fun mem_cells :: "mem \<Rightarrow> cell list" where
  "mem_cells None = []"
| "mem_cells (Some cs) = cs"

definition new_chars :: "size_t \<Rightarrow> mem" where
  "new_chars n = Some (replicate (unat n) None)"

definition mem_read :: "mem \<Rightarrow> size_t \<Rightarrow> size_t \<Rightarrow> cell list res" where
  "mem_read m off len =
     (if len = 0 then Inr []
      else case m of
        None \<Rightarrow> Inl NullPointer
      | Some cs \<Rightarrow>
          if unat off + unat len \<le> length cs then Inr (take (unat len) (drop (unat off) cs))
          else Inl OutOfBounds)"

definition list_splice :: "'a list \<Rightarrow> nat \<Rightarrow> 'a list \<Rightarrow> 'a list" where
  "list_splice xs i ys = take i xs @ ys @ drop (i + length ys) xs"

definition mem_write :: "mem \<Rightarrow> size_t \<Rightarrow> cell list \<Rightarrow> mem res" where
  "mem_write m off xs =
     (if xs = [] then Inr m
      else case m of
        None \<Rightarrow> Inl NullPointer
      | Some cs \<Rightarrow>
          if unat off + length xs \<le> length cs then Inr (Some (list_splice cs (unat off) xs))
          else Inl OutOfBounds)"

lemma length_list_splice [simp]:
  "i + length ys \<le> length xs \<Longrightarrow> length (list_splice xs i ys) = length xs"
  by (simp add: list_splice_def)

lemma list_splice_mid [simp]:
  "i + length ys \<le> length xs \<Longrightarrow> take (length ys) (drop i (list_splice xs i ys)) = ys"
  by (simp add: list_splice_def)

lemma list_splice_before:
  "j + n \<le> i \<Longrightarrow> i + length ys \<le> length xs \<Longrightarrow>
   take n (drop j (list_splice xs i ys)) = take n (drop j xs)"
  by (auto simp: list_splice_def drop_take)

lemma list_splice_extend:
  assumes "j \<le> i" and "i + length ys \<le> length xs"
  shows "take (i - j + length ys) (drop j (list_splice xs i ys)) = take (i - j) (drop j xs) @ ys"
proof -
  have "drop j (list_splice xs i ys) = take (i - j) (drop j xs) @ ys @ drop (i + length ys) xs"
    using assms by (simp add: list_splice_def drop_take)
  moreover have "length (take (i - j) (drop j xs)) = i - j"
    using assms by simp
  ultimately show ?thesis by simp
qed

lemma list_splice_zero: "list_splice xs 0 ys = ys @ drop (length ys) xs"
  by (simp add: list_splice_def)

section \<open>Arithmetic that does not wrap\<close>

lemma unat_plus_nowrap [nowrap]:
  fixes a b :: size_t
  shows "unat a + unat b < 2 ^ 64 \<Longrightarrow> unat (a + b) = unat a + unat b"
  by (simp add: unat_word_ariths)

lemma unat_minus_nowrap [nowrap]:
  fixes a b :: size_t
  shows "unat b \<le> unat a \<Longrightarrow> unat (a - b) = unat a - unat b"
  by (simp add: unat_sub word_le_nat_alt)

lemma unat_double_nowrap [nowrap]:
  fixes a :: size_t
  shows "2 * unat a < 2 ^ 64 \<Longrightarrow> unat (2 * a) = 2 * unat a"
  by (simp add: unat_word_ariths)

lemma unat_of_nat_nowrap [nowrap]: "n < 2 ^ 64 \<Longrightarrow> unat (of_nat n :: size_t) = n"
  by (simp add: unat_of_nat)

lemma unat_max_word: "unat (max a b :: size_t) = max (unat a) (unat b)"
  by (auto simp: max_def word_le_nat_alt)

lemma unat_eq_0_size: "unat (a :: size_t) = 0 \<longleftrightarrow> a = 0"
  by (rule unat_eq_0)

text \<open>Signed reading of a word.\<close>

lemma sint_cases:
  fixes w :: "'a::len word"
  shows "sint w = (if uint w < 2 ^ (LENGTH('a) - 1) then uint w else uint w - 2 ^ LENGTH('a))"
proof -
  define n where "n = LENGTH('a) - 1"
  have l: "LENGTH('a) = Suc n" by (simp add: n_def)
  have b: "0 \<le> uint w" "uint w < 2 ^ Suc n" using unsigned_less [of w, where 'a = int] l by auto
  have p: "(2 :: int) ^ Suc n = 2 ^ n + 2 ^ n" by simp
  have s: "sint w = (uint w + 2 ^ n) mod 2 ^ Suc n - 2 ^ n"
    by (simp add: sint_uint signed_take_bit_eq_take_bit_shift take_bit_eq_mod n_def)
  show ?thesis
  proof (cases "uint w < 2 ^ n")
    case True
    then have "(uint w + 2 ^ n) mod 2 ^ Suc n = uint w + 2 ^ n" using b p by (intro mod_pos_pos_trivial) auto
    then show ?thesis using s True by (simp add: n_def)
  next
    case False
    have "(uint w + 2 ^ n) mod 2 ^ Suc n = (uint w - 2 ^ n + 2 ^ Suc n) mod 2 ^ Suc n" using p by (simp add: algebra_simps)
    also have "\<dots> = uint w - 2 ^ n" using False b p by (subst mod_add_self2, intro mod_pos_pos_trivial) auto
    finally show ?thesis using s False p by (simp add: l)
  qed
qed

lemma uint_unat_less: "uint w < 2 ^ n \<longleftrightarrow> unat w < 2 ^ n"
proof -
  have "uint w < 2 ^ n \<longleftrightarrow> int (unat w) < int (2 ^ n)" by simp
  then show ?thesis by (simp only: of_nat_less_iff)
qed

lemma sint_nonneg_iff:
  fixes w :: "'a::len word"
  shows "0 \<le> sint w \<longleftrightarrow> unat w < 2 ^ (LENGTH('a) - 1)"
proof -
  have b: "uint w < 2 ^ LENGTH('a)" "0 \<le> uint w" using unsigned_less [of w, where 'a = int] by auto
  have "0 \<le> sint w \<longleftrightarrow> uint w < 2 ^ (LENGTH('a) - 1)"
  proof (cases "uint w < 2 ^ (LENGTH('a) - 1)")
    case True
    then have "sint w = uint w" by (simp only: sint_cases if_True)
    then show ?thesis using True b by linarith
  next
    case False
    then have "sint w = uint w - 2 ^ LENGTH('a)" by (simp only: sint_cases if_False)
    then show ?thesis using False b by linarith
  qed
  then show ?thesis by (simp only: uint_unat_less)
qed

lemma sint_nonneg_eq:
  fixes w :: "'a::len word"
  assumes "0 \<le> sint w"
  shows "sint w = uint w"
  using assms [unfolded sint_nonneg_iff] by (simp only: sint_cases uint_unat_less if_True)

lemma scast_nonneg:
  fixes len :: int32
  assumes "0 \<le> sint len"
  shows "unat (scast len :: int64) = unat len"
proof -
  have u: "unat len < 2 ^ 64" using unsigned_less [of len, where 'a = nat] by simp
  have "(scast len :: int64) = word_of_int (sint len)" by (rule scast_eq)
  also have "\<dots> = of_nat (unat len)" by (simp only: sint_nonneg_eq [OF assms] of_nat_unat ucast_eq [symmetric] unsigned_of_nat)
  finally show ?thesis using u by (simp only: unat_of_nat_nowrap)
qed
section \<open>Integers in memory\<close>

text \<open>
  The host is little-endian (x86-64): a \<open>k\<close>-byte integer lies in memory with its least
  significant byte first. Converting to network order swaps the bytes.
\<close>

fun le_enc :: "nat \<Rightarrow> nat \<Rightarrow> byte list" where
  "le_enc 0 v = []"
| "le_enc (Suc k) v = char_of (v mod 256) # le_enc k (v div 256)"

fun le_dec :: "byte list \<Rightarrow> nat" where
  "le_dec [] = 0"
| "le_dec (c # cs) = of_char c + 256 * le_dec cs"

lemma of_char_less_256: "(of_char c :: nat) < 256"
proof -
  have "(of_char c :: nat) mod 256 < 256" by simp
  then show ?thesis by (simp only: of_char_mod_256)
qed

lemma length_le_enc [simp]: "length (le_enc k v) = k"
  by (induction k arbitrary: v) auto

lemma le_dec_enc: "le_dec (le_enc k v) = v mod 256 ^ k"
proof (induction k arbitrary: v)
  case (Suc k)
  then show ?case by (simp add: mod_mult2_eq)
qed simp

lemma le_dec_bound: "le_dec cs < 256 ^ length cs"
proof (induction cs)
  case (Cons c cs)
  have "of_char c + 256 * le_dec cs < 256 * 256 ^ length cs"
    using Cons of_char_less_256 [of c] by linarith
  then show ?case by simp
qed simp

lemma le_enc_dec: "le_enc (length cs) (le_dec cs) = cs"
proof (induction cs)
  case (Cons c cs)
  have "(of_char c + 256 * le_dec cs) mod 256 = (of_char c :: nat)"
    using of_char_less_256 [of c] by simp
  moreover have "(of_char c + 256 * le_dec cs) div 256 = le_dec cs"
    using of_char_less_256 [of c] by simp
  ultimately show ?case using Cons by simp
qed simp

lemma le_enc_4:
  "le_enc 4 v =
     [char_of (v mod 256), char_of (v div 256 mod 256),
      char_of (v div 256 div 256 mod 256), char_of (v div 256 div 256 div 256 mod 256)]"
proof -
  have "(4 :: nat) = Suc (Suc (Suc (Suc 0)))" by simp
  then show ?thesis by (simp only: le_enc.simps)
qed

definition bytes32 :: "32 word \<Rightarrow> byte list" where
  "bytes32 w = le_enc 4 (unat w)"

definition word32 :: "byte list \<Rightarrow> 32 word" where
  "word32 bs = of_nat (le_dec bs)"

definition bytes64 :: "64 word \<Rightarrow> byte list" where
  "bytes64 w = le_enc 8 (unat w)"

definition word64 :: "byte list \<Rightarrow> 64 word" where
  "word64 bs = of_nat (le_dec bs)"

definition bswap32 :: "32 word \<Rightarrow> 32 word" where
  "bswap32 w = word32 (rev (bytes32 w))"

abbreviation htonl :: "32 word \<Rightarrow> 32 word" where
  "htonl \<equiv> bswap32"

abbreviation ntohl :: "32 word \<Rightarrow> 32 word" where
  "ntohl \<equiv> bswap32"

lemma length_bytes32 [simp]: "length (bytes32 w) = 4"
  by (simp add: bytes32_def)

lemma length_bytes64 [simp]: "length (bytes64 w) = 8"
  by (simp add: bytes64_def)

lemma word32_bytes32 [simp]: "word32 (bytes32 w) = w"
proof -
  have "unat w < 2 ^ 32" using unsigned_less [of w, where 'a = nat] by simp
  then show ?thesis by (simp add: word32_def bytes32_def le_dec_enc)
qed

lemma word64_bytes64 [simp]: "word64 (bytes64 w) = w"
proof -
  have "unat w < 2 ^ 64" using unsigned_less [of w, where 'a = nat] by simp
  then show ?thesis by (simp add: word64_def bytes64_def le_dec_enc)
qed

lemma bytes32_word32:
  assumes "length bs = 4"
  shows "bytes32 (word32 bs) = bs"
proof -
  have "le_dec bs < 2 ^ 32" using le_dec_bound [of bs] assms by simp
  then show ?thesis using le_enc_dec [of bs] assms
    by (simp add: bytes32_def word32_def unat_of_nat)
qed

lemma bytes32_bswap32: "bytes32 (bswap32 w) = rev (bytes32 w)"
  by (simp add: bswap32_def bytes32_word32)

lemma bswap32_bswap32 [simp]: "bswap32 (bswap32 w) = w"
  by (simp add: bytes32_bswap32 bswap32_def [of "bswap32 w"])

section \<open>Lists\<close>

lemma map_Some_eq_iff [simp]: "map Some xs = map Some ys \<longleftrightarrow> xs = ys"
  by (auto intro: list.inj_map_strong)

lemma take_map_Some: "take n (map Some xs) = map Some (take n xs)"
  by (rule take_map)

text \<open>Reading initialised cells as bytes; an indeterminate cell is an error.\<close>

definition cells_bytes :: "cell list \<Rightarrow> byte list res" where
  "cells_bytes cs = (if None \<in> set cs then Inl Indeterminate else Inr (map the cs))"

lemma cells_bytes_map_Some [simp]: "cells_bytes (map Some bs) = Inr bs"
proof -
  have "None \<notin> set (map Some bs)" by (induction bs) auto
  then show ?thesis by (simp add: cells_bytes_def comp_def)
qed

end
