(* ===== verification/Slice.thy ===== *)
theory Slice
  imports JNet_Prelude "HOL-Library.List_Lexorder" "HOL-Library.Sublist"
begin

text \<open>
  \<^verbatim>\<open>Slice\<close> of \<^verbatim>\<open>net/slice.h\<close>: a pointer into external storage and a size. The pointer is
  the list of the bytes from where it points to the end of the storage, so that advancing
  it drops bytes and reading past the storage is an error.
\<close>

section \<open>State and operations\<close>

record slice =
  sl_data :: "byte list"
  sl_size :: nat

definition Slice_empty_new :: slice where
  "Slice_empty_new = \<lparr>sl_data = [], sl_size = 0\<rparr>"

definition Slice_new :: "byte list \<Rightarrow> nat \<Rightarrow> slice" where
  "Slice_new d n = \<lparr>sl_data = d, sl_size = n\<rparr>"

definition Slice_of_string :: "byte list \<Rightarrow> slice" where
  "Slice_of_string s = \<lparr>sl_data = s, sl_size = length s\<rparr>"

definition Slice_empty :: "slice \<Rightarrow> bool" where
  "Slice_empty s \<longleftrightarrow> sl_size s = 0"

definition Slice_nth :: "slice \<Rightarrow> nat \<Rightarrow> byte res" where
  "Slice_nth s n =
     rbind (cxx_assert (n < sl_size s)) (\<lambda>_.
     if n < length (sl_data s) then Inr (sl_data s ! n) else Inl OutOfBounds)"

definition Slice_clear :: "slice \<Rightarrow> slice" where
  "Slice_clear s = s\<lparr>sl_data := [], sl_size := 0\<rparr>"

definition Slice_remove_prefix :: "slice \<Rightarrow> nat \<Rightarrow> slice res" where
  "Slice_remove_prefix s n =
     rbind (cxx_assert (n \<le> sl_size s)) (\<lambda>_.
     Inr (s\<lparr>sl_data := drop n (sl_data s), sl_size := sl_size s - n\<rparr>))"

definition Slice_ToString :: "slice \<Rightarrow> byte list res" where
  "Slice_ToString s =
     (if sl_size s \<le> length (sl_data s) then Inr (take (sl_size s) (sl_data s)) else Inl OutOfBounds)"

text \<open>\<^verbatim>\<open>memcmp\<close> compares as unsigned characters; only the sign of its result is specified.\<close>

fun memcmp :: "byte list \<Rightarrow> byte list \<Rightarrow> nat \<Rightarrow> int res" where
  "memcmp xs ys 0 = Inr 0"
| "memcmp (x # xs) (y # ys) (Suc n) =
     (if x < y then Inr (-1) else if y < x then Inr 1 else memcmp xs ys n)"
| "memcmp _ _ (Suc n) = Inl OutOfBounds"

definition Slice_starts_with :: "slice \<Rightarrow> slice \<Rightarrow> bool res" where
  "Slice_starts_with s x =
     (if sl_size s \<ge> sl_size x
      then rbind (memcmp (sl_data s) (sl_data x) (sl_size x)) (\<lambda>r. Inr (r = 0))
      else Inr False)"

definition Slice_eq :: "slice \<Rightarrow> slice \<Rightarrow> bool res" where
  "Slice_eq x y =
     (if sl_size x = sl_size y
      then rbind (memcmp (sl_data x) (sl_data y) (sl_size x)) (\<lambda>r. Inr (r = 0))
      else Inr False)"

definition Slice_ne :: "slice \<Rightarrow> slice \<Rightarrow> bool res" where
  "Slice_ne x y = rbind (Slice_eq x y) (\<lambda>r. Inr (\<not> r))"

definition Slice_compare :: "slice \<Rightarrow> slice \<Rightarrow> int res" where
  "Slice_compare s b =
     (let min_len = (if sl_size s < sl_size b then sl_size s else sl_size b) in
      rbind (memcmp (sl_data s) (sl_data b) min_len) (\<lambda>r.
      Inr (if r = 0
           then if sl_size s < sl_size b then -1 else if sl_size s > sl_size b then 1 else r
           else r)))"

section \<open>What a slice denotes\<close>

definition slice_wf :: "slice \<Rightarrow> bool" where
  "slice_wf s \<longleftrightarrow> sl_size s \<le> length (sl_data s)"

definition slice_view :: "slice \<Rightarrow> byte list" where
  "slice_view s = take (sl_size s) (sl_data s)"

text \<open>Three-way comparison in the lexicographic order of byte strings.\<close>

definition three_way :: "byte list \<Rightarrow> byte list \<Rightarrow> int" where
  "three_way xs ys = (if xs < ys then -1 else if xs = ys then 0 else 1)"

lemma length_slice_view [simp]: "slice_wf s \<Longrightarrow> length (slice_view s) = sl_size s"
  by (simp add: slice_wf_def slice_view_def)

lemma slice_wf_of_string [simp]: "slice_wf (Slice_of_string s)" "slice_view (Slice_of_string s) = s"
  by (simp_all add: slice_wf_def slice_view_def Slice_of_string_def)

text \<open>Within bounds \<^verbatim>\<open>memcmp\<close> is the three-way comparison of the two prefixes.\<close>

lemma memcmp_three_way:
  "n \<le> length xs \<Longrightarrow> n \<le> length ys \<Longrightarrow> memcmp xs ys n = Inr (three_way (take n xs) (take n ys))"
  by (induction xs ys n rule: memcmp.induct) (auto simp: three_way_def)

lemma three_way_eq_0 [simp]: "three_way xs ys = 0 \<longleftrightarrow> xs = ys"
  by (simp add: three_way_def)

text \<open>Comparing the common length first and the lengths second is the lexicographic order.\<close>

lemma three_way_prefix:
  "three_way xs ys =
     (let n = min (length xs) (length ys); r = three_way (take n xs) (take n ys) in
      if r = 0 then if length xs < length ys then -1 else if length xs > length ys then 1 else r
      else r)"
proof (induction xs arbitrary: ys)
  case Nil
  then show ?case by (cases ys) (simp_all add: three_way_def)
next
  case (Cons x xs)
  show ?case
  proof (cases ys)
    case Nil
    then show ?thesis by (simp add: three_way_def)
  next
    case (Cons y ys')
    then show ?thesis using Cons.IH [of ys'] by (auto simp: three_way_def Let_def split: if_splits)
  qed
qed

lemma compare_view:
  assumes "slice_wf a" and "slice_wf b"
  shows "Slice_compare a b = Inr (three_way (slice_view a) (slice_view b))"
proof -
  let ?n = "min (sl_size a) (sl_size b)"
  have eq: "(if sl_size a < sl_size b then sl_size a else sl_size b) = ?n" by (simp add: min_def)
  have m: "memcmp (sl_data a) (sl_data b) ?n
      = Inr (three_way (take ?n (slice_view a)) (take ?n (slice_view b)))"
    using assms by (simp add: memcmp_three_way slice_wf_def slice_view_def)
  show ?thesis
    unfolding three_way_prefix [of "slice_view a"]
    by (simp only: Slice_compare_def eq Let_def m rbind_simps length_slice_view [OF assms(1)]
        length_slice_view [OF assms(2)])
qed

lemma eq_view:
  assumes "slice_wf a" and "slice_wf b"
  shows "Slice_eq a b = Inr (slice_view a = slice_view b)"
proof (cases "sl_size a = sl_size b")
  case True
  with assms show ?thesis by (simp add: Slice_eq_def memcmp_three_way slice_wf_def slice_view_def)
next
  case False
  then have "slice_view a \<noteq> slice_view b" using assms by (metis length_slice_view)
  with False show ?thesis by (simp add: Slice_eq_def)
qed

lemma prefix_iff_take: "prefix xs ys \<longleftrightarrow> length xs \<le> length ys \<and> take (length xs) ys = xs"
  by (metis append_eq_conv_conj prefix_def prefix_length_le take_is_prefix)

lemma starts_with_view:
  assumes "slice_wf a" and "slice_wf x"
  shows "Slice_starts_with a x = Inr (prefix (slice_view x) (slice_view a))"
proof (cases "sl_size x \<le> sl_size a")
  case True
  then have "take (sl_size x) (slice_view a) = take (sl_size x) (sl_data a)"
    by (simp add: slice_view_def)
  with True assms show ?thesis
    by (simp add: Slice_starts_with_def memcmp_three_way prefix_iff_take slice_wf_def)
      (simp add: slice_view_def)
next
  case False
  then show ?thesis
    using assms prefix_length_le [of "slice_view x" "slice_view a"] by (auto simp: Slice_starts_with_def)
qed

lemma remove_prefix_view:
  "slice_wf s \<Longrightarrow> n \<le> sl_size s \<Longrightarrow>
   \<exists>s'. Slice_remove_prefix s n = Inr s' \<and> slice_wf s' \<and> slice_view s' = drop n (slice_view s)"
  by (simp add: Slice_remove_prefix_def slice_wf_def slice_view_def drop_take)

section \<open>Properties\<close>

text \<open>
  C40. Comparison of slices depends only on the bytes they denote: \<^verbatim>\<open>compare\<close> is the
  three-way lexicographic order of byte strings, \<^verbatim>\<open>==\<close> is equality of the bytes,
  \<^verbatim>\<open>starts_with\<close> is the prefix order, and none of them reads outside the two slices.
\<close>

theorem Slice_compare_order:
  assumes "slice_wf a" and "slice_wf b"
  shows "Slice_compare a b = Inr (three_way (slice_view a) (slice_view b)) \<and>
    Slice_eq a b = Inr (slice_view a = slice_view b) \<and>
    Slice_starts_with a b = Inr (prefix (slice_view b) (slice_view a))"
  using assms by (simp add: compare_view eq_view starts_with_view)

theorem Slice_compare_order_witness:
  "Slice_compare (Slice_of_string ''abc'') (Slice_of_string ''ab'') = Inr 1 \<and>
   Slice_starts_with (Slice_of_string ''abc'') (Slice_of_string ''ab'') = Inr True"
  using Slice_compare_order [of "Slice_of_string ''abc''" "Slice_of_string ''ab''"]
  by (simp add: three_way_def)

end
