(* ===== verification/Buffer.thy ===== *)
theory Buffer
  imports JNet_Prelude
begin

text \<open>
  The byte buffer of \<^verbatim>\<open>net/buffer.h\<close> and \<^verbatim>\<open>net/buffer.cc\<close>: a heap array with a
  consumed prefix \<open>[0, b)\<close>, the unread bytes \<open>[b, e)\<close> and free space \<open>[e, cap)\<close>.
  The fields are kept at their machine width (\<^verbatim>\<open>size_t\<close>, 64 bits) and the array is raw
  memory, so an access outside it is an error of the model.

  The interface to the components that use a buffer (\<^verbatim>\<open>TcpConn\<close>, the codecs) is the
  locale \<open>byte_queue\<close>: bytes come out in the order they went in. The model of the buffer
  is an interpretation of it.
\<close>

section \<open>State and operations\<close>

record buffer =
  buf_mem :: mem
  buf_b :: size_t
  buf_e :: size_t
  buf_cap :: size_t
  buf_exp :: size_t
  buf_extra :: int32

definition Buffer_new :: buffer where
  "Buffer_new =
     \<lparr>buf_mem = None, buf_b = 0, buf_e = 0, buf_cap = 0, buf_exp = 4096, buf_extra = 0\<rparr>"

definition Buffer_Clear :: "buffer \<Rightarrow> buffer" where
  "Buffer_Clear b = b\<lparr>buf_mem := None, buf_cap := 0, buf_b := 0, buf_e := 0\<rparr>"

definition Buffer_GetSize :: "buffer \<Rightarrow> size_t" where
  "Buffer_GetSize b = buf_e b - buf_b b"

definition Buffer_IsEmpty :: "buffer \<Rightarrow> bool" where
  "Buffer_IsEmpty b \<longleftrightarrow> buf_e b = buf_b b"

definition Buffer_GetSpace :: "buffer \<Rightarrow> size_t" where
  "Buffer_GetSpace b = buf_cap b - buf_e b"

text \<open>Pointers into the array are offsets from its start.\<close>

definition Buffer_Begin :: "buffer \<Rightarrow> size_t" where
  "Buffer_Begin b = buf_b b"

definition Buffer_End :: "buffer \<Rightarrow> size_t" where
  "Buffer_End b = buf_e b"

definition Buffer_AddSize :: "buffer \<Rightarrow> size_t \<Rightarrow> buffer" where
  "Buffer_AddSize b len = b\<lparr>buf_e := buf_e b + len\<rparr>"

definition Buffer_SetSuggestSize :: "buffer \<Rightarrow> size_t \<Rightarrow> buffer" where
  "Buffer_SetSuggestSize b sz = b\<lparr>buf_exp := sz\<rparr>"

text \<open>The body of \<^verbatim>\<open>MoveHead\<close> is empty in the source.\<close>

definition Buffer_MoveHead :: "buffer \<Rightarrow> buffer" where
  "Buffer_MoveHead b = b"

definition Buffer_Expand :: "buffer \<Rightarrow> size_t \<Rightarrow> buffer res" where
  "Buffer_Expand b len =
     (let ncap = max (buf_exp b) (max (2 * buf_cap b) (Buffer_GetSize b + len)) in
      rbind (mem_read (buf_mem b) (Buffer_Begin b) (Buffer_End b - Buffer_Begin b)) (\<lambda>old.
      rbind (mem_write (new_chars ncap) 0 old) (\<lambda>p.
      Inr (b\<lparr>buf_e := buf_e b - buf_b b, buf_b := 0, buf_mem := p, buf_cap := ncap\<rparr>))))"

definition Buffer_MakeRoom :: "buffer \<Rightarrow> size_t \<Rightarrow> (size_t \<times> buffer) res" where
  "Buffer_MakeRoom b len =
     rbind (if buf_e b + len \<le> buf_cap b then Inr b
            else if Buffer_GetSize b + len < buf_cap b then Inr (Buffer_MoveHead b)
            else Buffer_Expand b len)
       (\<lambda>b'. Inr (Buffer_End b', b'))"

text \<open>The overload without an argument, which \<^verbatim>\<open>TcpConn::HandleRead\<close> calls before each read.\<close>

definition Buffer_MakeRoom0 :: "buffer \<Rightarrow> buffer res" where
  "Buffer_MakeRoom0 b = (if Buffer_GetSpace b < buf_exp b then Buffer_Expand b 0 else Inr b)"

definition Buffer_EnsureWriteableBytes :: "buffer \<Rightarrow> size_t \<Rightarrow> buffer res" where
  "Buffer_EnsureWriteableBytes b len =
     (if Buffer_GetSize b < len then rbind (Buffer_MakeRoom b len) (\<lambda>(_, b'). Inr b') else Inr b)"

definition Buffer_AllocRoom :: "buffer \<Rightarrow> size_t \<Rightarrow> (size_t \<times> buffer) res" where
  "Buffer_AllocRoom b len =
     rbind (Buffer_MakeRoom b len) (\<lambda>(p, b'). Inr (p, Buffer_AddSize b' len))"

definition Buffer_Append :: "buffer \<Rightarrow> byte list \<Rightarrow> buffer res" where
  "Buffer_Append b bs =
     rbind (Buffer_AllocRoom b (of_nat (length bs))) (\<lambda>(p, b').
     rbind (mem_write (buf_mem b') p (map Some bs)) (\<lambda>m.
     Inr (b'\<lparr>buf_mem := m\<rparr>)))"

text \<open>
  The overload for a C string appends the characters before the first NUL; the one for
  \<^verbatim>\<open>std::string\<close> appends all of them.
\<close>

definition cstr :: "byte list \<Rightarrow> byte list" where
  "cstr s = takeWhile (\<lambda>c. c \<noteq> CHR 0x00) s"

definition Buffer_Append_cstr :: "buffer \<Rightarrow> byte list \<Rightarrow> buffer res" where
  "Buffer_Append_cstr b s = Buffer_Append b (cstr s)"

definition Buffer_AppendInt32 :: "buffer \<Rightarrow> int32 \<Rightarrow> buffer res" where
  "Buffer_AppendInt32 b num = Buffer_Append b (bytes32 (htonl num))"

definition Buffer_PeekInt32 :: "buffer \<Rightarrow> int32 res" where
  "Buffer_PeekInt32 b =
     rbind (cxx_assert (4 \<le> Buffer_GetSize b)) (\<lambda>_.
     rbind (mem_read (buf_mem b) (Buffer_Begin b) 4) (\<lambda>cs.
     rbind (cells_bytes cs) (\<lambda>be32. Inr (ntohl (word32 be32)))))"

text \<open>The \<^verbatim>\<open>const\<close> overload neither checks the size nor converts the byte order.\<close>

definition Buffer_PeekInt32_const :: "buffer \<Rightarrow> int32 res" where
  "Buffer_PeekInt32_const b =
     rbind (mem_read (buf_mem b) (Buffer_Begin b) 4) (\<lambda>cs.
     rbind (cells_bytes cs) (\<lambda>be32. Inr (word32 be32)))"

definition Buffer_Consume :: "buffer \<Rightarrow> size_t \<Rightarrow> buffer" where
  "Buffer_Consume b len =
     (let b' = b\<lparr>buf_b := buf_b b + len\<rparr> in
      if Buffer_GetSize b' = 0 then Buffer_Clear b' else b')"

text \<open>
  Copying copies the fields and then the unread bytes into a new array; the cells outside
  the unread range keep the indeterminate values of the allocation.
\<close>

definition Buffer_CopyFrom :: "buffer \<Rightarrow> buffer res" where
  "Buffer_CopyFrom b =
     (if buf_mem b = None then Inr b
      else rbind (mem_read (buf_mem b) (Buffer_Begin b) (Buffer_GetSize b)) (\<lambda>cs.
           rbind (mem_write (new_chars (buf_cap b)) (Buffer_Begin b) cs) (\<lambda>m.
           Inr (b\<lparr>buf_mem := m\<rparr>))))"

text \<open>Assignment drops the array of the target and copies, unless both are the same object.\<close>

definition Buffer_assign :: "bool \<Rightarrow> buffer \<Rightarrow> buffer \<Rightarrow> buffer res" where
  "Buffer_assign same this b = (if same then Inr this else Buffer_CopyFrom b)"

text \<open>The overloads of \<^verbatim>\<open>Append\<close> for strings and for values of a type, given by the bytes of the value, and the two \<^verbatim>\<open>Peek\<close>.\<close>

definition Buffer_Append_string :: "buffer \<Rightarrow> byte list \<Rightarrow> buffer res" where
  "Buffer_Append_string b str = Buffer_Append b str"

definition Buffer_AppendValue :: "buffer \<Rightarrow> byte list \<Rightarrow> buffer res" where
  "Buffer_AppendValue b v = Buffer_Append b v"

definition Buffer_Peek :: "buffer \<Rightarrow> size_t" where
  "Buffer_Peek b = Buffer_Begin b"

text \<open>
  \<^verbatim>\<open>Absorb\<close> of a different buffer: swap the two objects when this one is empty (and swap
  the suggested sizes back), append and clear otherwise. Absorbing itself does nothing.
\<close>

definition Buffer_Absorb :: "buffer \<Rightarrow> buffer \<Rightarrow> (buffer \<times> buffer) res" where
  "Buffer_Absorb this b =
     (if Buffer_GetSize this = 0
      then Inr (b\<lparr>buf_exp := buf_exp this\<rparr>, this\<lparr>buf_exp := buf_exp b\<rparr>)
      else rbind (mem_read (buf_mem b) (Buffer_Begin b) (Buffer_GetSize b)) (\<lambda>cs.
           rbind (cells_bytes cs) (\<lambda>bs.
           rbind (Buffer_Append this bs) (\<lambda>this'. Inr (this', Buffer_Clear b)))))"

definition Buffer_Absorb_self :: "buffer \<Rightarrow> buffer" where
  "Buffer_Absorb_self this = this"

section \<open>Well-formedness and contents\<close>

lemma cstr_terminated: "CHR 0x00 \<notin> set m \<Longrightarrow> cstr (m @ CHR 0x00 # rest) = m"
  unfolding cstr_def by (induction m) auto

definition buffer_wf :: "buffer \<Rightarrow> bool" where
  "buffer_wf b \<longleftrightarrow>
     unat (buf_b b) \<le> unat (buf_e b) \<and> unat (buf_e b) \<le> unat (buf_cap b) \<and>
     length (mem_cells (buf_mem b)) = unat (buf_cap b)"

text \<open>The unread bytes, as cells.\<close>

definition content :: "buffer \<Rightarrow> cell list" where
  "content b =
     take (unat (buf_e b) - unat (buf_b b)) (drop (unat (buf_b b)) (mem_cells (buf_mem b)))"

text \<open>
  The situation in which \<^verbatim>\<open>MakeRoom\<close> takes its second branch: the free space behind the
  unread bytes is too short for \<open>n\<close> more, the free space on both sides is not.
\<close>

definition needs_move :: "buffer \<Rightarrow> nat \<Rightarrow> bool" where
  "needs_move b n \<longleftrightarrow>
     unat (buf_cap b) < unat (buf_e b) + n \<and>
     unat (buf_e b) - unat (buf_b b) + n < unat (buf_cap b)"

text \<open>Sizes that real allocations have: nothing wraps around.\<close>

definition buffer_small :: "buffer \<Rightarrow> nat \<Rightarrow> bool" where
  "buffer_small b n \<longleftrightarrow> 2 * unat (buf_cap b) + n < 2 ^ 64"


lemma buffer_wf_new: "buffer_wf Buffer_new"
  by (simp add: buffer_wf_def Buffer_new_def)

lemma content_new [simp]: "content Buffer_new = []"
  by (simp add: content_def Buffer_new_def)

lemma buffer_wf_Clear [simp]: "buffer_wf (Buffer_Clear b)"
  by (simp add: buffer_wf_def Buffer_Clear_def)

lemma content_Clear [simp]: "content (Buffer_Clear b) = []"
  by (simp add: content_def Buffer_Clear_def)

lemma unat_GetSize: "buffer_wf b \<Longrightarrow> unat (Buffer_GetSize b) = unat (buf_e b) - unat (buf_b b)"
  by (simp add: buffer_wf_def Buffer_GetSize_def nowrap)

lemma unat_GetSpace: "buffer_wf b \<Longrightarrow> unat (Buffer_GetSpace b) = unat (buf_cap b) - unat (buf_e b)"
  by (simp add: buffer_wf_def Buffer_GetSpace_def nowrap)

lemma length_content: "buffer_wf b \<Longrightarrow> length (content b) = unat (Buffer_GetSize b)"
  by (auto simp: unat_GetSize content_def buffer_wf_def split: option.splits)

lemma length_content_less: "buffer_wf b \<Longrightarrow> length (content b) < 2 ^ 64"
  using unsigned_less [of "Buffer_GetSize b", where 'a = nat] by (simp add: length_content)

lemma GetSize_eq_0_iff: "buffer_wf b \<Longrightarrow> Buffer_GetSize b = 0 \<longleftrightarrow> content b = []"
  using length_content [of b] by (simp flip: unat_eq_0 length_0_conv)

lemma IsEmpty_iff: "buffer_wf b \<Longrightarrow> Buffer_IsEmpty b \<longleftrightarrow> content b = []"
  by (simp add: Buffer_IsEmpty_def flip: GetSize_eq_0_iff) (simp add: Buffer_GetSize_def)

lemma mem_read_content:
  "buffer_wf b \<Longrightarrow> mem_read (buf_mem b) (Buffer_Begin b) (Buffer_GetSize b) = Inr (content b)"
  by (auto simp: mem_read_def Buffer_Begin_def unat_GetSize GetSize_eq_0_iff
      content_def buffer_wf_def split: option.splits)

lemma mem_read_prefix:
  assumes "buffer_wf b" and "unat n \<le> length (content b)"
  shows "mem_read (buf_mem b) (Buffer_Begin b) n = Inr (take (unat n) (content b))"
proof (cases "n = 0")
  case False
  then have n0: "unat n > 0" by (simp add: unat_gt_0)
  with assms obtain cs where cs: "buf_mem b = Some cs"
    by (cases "buf_mem b") (auto simp: content_def)
  have "unat (buf_b b) + unat n \<le> length cs"
    using assms length_content [OF assms(1)] n0 cs
    by (auto simp: buffer_wf_def unat_GetSize)
  then show ?thesis using False cs assms length_content [OF assms(1)]
    by (simp add: mem_read_def Buffer_Begin_def content_def min_def unat_GetSize)
qed (simp add: mem_read_def)

section \<open>Growing the array\<close>

text \<open>
  \<^verbatim>\<open>Expand\<close> keeps the unread bytes, moves them to the start of a larger array and never
  touches memory outside either array.
\<close>

lemma Expand_unfold:
  assumes "buffer_wf b"
  shows "Buffer_Expand b len =
    (let ncap = max (buf_exp b) (max (2 * buf_cap b) (Buffer_GetSize b + len)) in
     rbind (mem_write (new_chars ncap) 0 (content b)) (\<lambda>p.
     Inr (b\<lparr>buf_e := Buffer_GetSize b, buf_b := 0, buf_mem := p, buf_cap := ncap\<rparr>)))"
proof -
  have "Buffer_End b - Buffer_Begin b = Buffer_GetSize b" "buf_e b - buf_b b = Buffer_GetSize b"
    by (simp_all add: Buffer_End_def Buffer_Begin_def Buffer_GetSize_def)
  then show ?thesis by (simp only: Buffer_Expand_def mem_read_content [OF assms] rbind_simps)
qed

lemma moved_content:
  assumes "buffer_wf b" and "length (content b) \<le> n"
  shows "take (unat (Buffer_GetSize b)) (list_splice (replicate n None) 0 (content b)) = content b"
  using assms by (simp add: list_splice_zero length_content [symmetric])

lemma mem_write_new:
  "length xs \<le> unat n \<Longrightarrow> mem_write (new_chars n) 0 xs = Inr (Some (list_splice (replicate (unat n) None) 0 xs))"
  by (auto simp: mem_write_def new_chars_def list_splice_zero)

lemma mem_write_new_Inr:
  "mem_write (new_chars n) 0 xs = Inr p \<Longrightarrow>
   length xs \<le> unat n \<and> p = Some (list_splice (replicate (unat n) None) 0 xs)"
  by (auto simp: mem_write_def new_chars_def list_splice_zero split: if_splits)

lemma Expand_Inr:
  assumes "buffer_wf b" and "Buffer_Expand b len = Inr b'"
  shows "buffer_wf b' \<and> content b' = content b \<and> buf_b b' = 0 \<and> buf_e b' = Buffer_GetSize b
    \<and> buf_exp b' = buf_exp b \<and> buf_extra b' = buf_extra b
    \<and> buf_cap b' = max (buf_exp b) (max (2 * buf_cap b) (Buffer_GetSize b + len))"
proof -
  let ?ncap = "max (buf_exp b) (max (2 * buf_cap b) (Buffer_GetSize b + len))"
  from assms obtain p where p: "mem_write (new_chars ?ncap) 0 (content b) = Inr p"
    and b': "b' = b\<lparr>buf_e := Buffer_GetSize b, buf_b := 0, buf_mem := p, buf_cap := ?ncap\<rparr>"
    by (auto simp: Expand_unfold Let_def elim!: rbind_InrE)
  note p' = mem_write_new_Inr [OF p]
  have "buffer_wf b'"
    using p' length_content [OF assms(1)] by (simp add: buffer_wf_def b')
  moreover have "content b' = content b"
    unfolding content_def [of b'] using p' moved_content [OF assms(1)] by (simp add: b')
  ultimately show ?thesis by (simp add: b')
qed

lemma Expand_ok:
  assumes wf: "buffer_wf b" and small: "unat (Buffer_GetSize b) + unat len < 2 ^ 64"
  shows "\<exists>b'. Buffer_Expand b len = Inr b'"
proof -
  have "length (content b) \<le> unat (max (buf_exp b) (max (2 * buf_cap b) (Buffer_GetSize b + len)))"
    using small by (simp add: unat_max_word unat_plus_nowrap length_content [OF wf])
  then show ?thesis by (simp add: Expand_unfold [OF wf] mem_write_new Let_def)
qed

section \<open>Appending\<close>

lemma content_append_at_end:
  assumes wf: "buffer_wf b" and mem: "buf_mem b = Some cs"
    and fits: "unat (buf_e b) + length xs \<le> length cs" and len: "length xs < 2 ^ 64"
    and b': "b' = b\<lparr>buf_e := buf_e b + of_nat (length xs), buf_mem := Some (list_splice cs (unat (buf_e b)) xs)\<rparr>"
  shows "buffer_wf b' \<and> content b' = content b @ xs"
proof -
  have cap: "length cs = unat (buf_cap b)" "unat (buf_b b) \<le> unat (buf_e b)"
    using wf mem by (simp_all add: buffer_wf_def)
  have "unat (buf_e b) + length xs < 2 ^ 64"
    using fits cap unsigned_less [of "buf_cap b", where 'a = nat] by simp
  then have e: "unat (buf_e b + of_nat (length xs)) = unat (buf_e b) + length xs"
    using len by (simp add: unat_plus_nowrap unat_of_nat_nowrap)
  have "content b' = content b @ xs"
    using list_splice_extend [of "unat (buf_b b)" "unat (buf_e b)" xs cs] cap fits mem
    by (simp add: content_def b' e)
  moreover have "buffer_wf b'" using fits cap by (simp add: buffer_wf_def b' e)
  ultimately show ?thesis by simp
qed

text \<open>
  A step that makes room: it keeps the contents and the well-formedness, and afterwards the
  write position is the end of the contents.
\<close>

lemma MakeRoom_Inr:
  assumes "buffer_wf b" and "Buffer_MakeRoom b len = Inr (p, b')"
  shows "buffer_wf b' \<and> content b' = content b \<and> p = buf_e b' \<and> buf_exp b' = buf_exp b
    \<and> buf_extra b' = buf_extra b"
  using assms Expand_Inr [OF assms(1), of len]
  by (auto simp: Buffer_MakeRoom_def Buffer_MoveHead_def Buffer_End_def split: if_splits
      elim!: rbind_InrE)

lemma Append_Inr:
  assumes wf: "buffer_wf b" and len: "length bs < 2 ^ 64" and ok: "Buffer_Append b bs = Inr b'"
  shows "buffer_wf b' \<and> content b' = content b @ map Some bs \<and> buf_exp b' = buf_exp b
    \<and> buf_extra b' = buf_extra b"
proof -
  from ok obtain p b1 m where mk: "Buffer_MakeRoom b (of_nat (length bs)) = Inr (p, b1)"
    and m: "mem_write (buf_mem b1) p (map Some bs) = Inr m"
    and b': "b' = b1\<lparr>buf_e := buf_e b1 + of_nat (length bs), buf_mem := m\<rparr>"
    by (auto simp: Buffer_Append_def Buffer_AllocRoom_def Buffer_AddSize_def elim!: rbind_InrE)
  note b1 = MakeRoom_Inr [OF wf mk]
  show ?thesis
  proof (cases bs)
    case Nil
    with m b1 b' show ?thesis
      by (simp add: mem_write_def buffer_wf_def content_def)
  next
    case Cons
    with m b1 obtain cs where cs: "buf_mem b1 = Some cs"
      "unat (buf_e b1) + length (map Some bs) \<le> length cs"
      "m = Some (list_splice cs (unat (buf_e b1)) (map Some bs))"
      by (auto simp: mem_write_def split: option.splits if_splits)
    show ?thesis
      using content_append_at_end [of b1 cs "map Some bs" b'] b1 b' cs len by simp
  qed
qed

text \<open>Appending succeeds exactly when the second branch of \<^verbatim>\<open>MakeRoom\<close> is not taken.\<close>

text \<open>Whatever the sizes, appending fails in no other way than by leaving the allocation.\<close>

lemma mem_write_Some: "(\<exists>cs'. mem_write (Some cs) p xs = Inr (Some cs')) \<or> mem_write (Some cs) p xs = Inl OutOfBounds"
  by (simp add: mem_write_def)

lemma MakeRoom_result:
  assumes wf: "buffer_wf b"
  shows "(\<exists>p b'. Buffer_MakeRoom b n = Inr (p, b') \<and> (n = 0 \<or> buf_mem b' \<noteq> None)) \<or> Buffer_MakeRoom b n = Inl OutOfBounds"
proof (cases "buf_e b + n \<le> buf_cap b \<or> Buffer_GetSize b + n < buf_cap b")
  case True
  have "buf_mem b = None \<Longrightarrow> buf_cap b = 0 \<and> buf_e b = 0" using wf by (auto simp: buffer_wf_def unat_eq_zero)
  then show ?thesis using True by (auto simp: Buffer_MakeRoom_def Buffer_MoveHead_def)
next
  case False
  let ?ncap = "max (buf_exp b) (max (2 * buf_cap b) (Buffer_GetSize b + n))"
  show ?thesis
    using False mem_write_Some [of "replicate (unat ?ncap) None" 0 "content b"]
    by (auto simp: Buffer_MakeRoom_def Expand_unfold [OF wf] new_chars_def Let_def)
qed

lemma Append_result:
  assumes wf: "buffer_wf b" and len: "length bs < 2 ^ 64"
  shows "(\<exists>b'. Buffer_Append b bs = Inr b') \<or> Buffer_Append b bs = Inl OutOfBounds"
proof -
  let ?n = "of_nat (length bs) :: size_t"
  have "?n = 0 \<longleftrightarrow> bs = []" using unat_of_nat_nowrap [OF len] by (metis length_0_conv unat_eq_zero of_nat_0)
  then have wr: "(\<exists>m. mem_write (buf_mem b') p (map Some bs) = Inr m) \<or> mem_write (buf_mem b') p (map Some bs) = Inl OutOfBounds"
    if "?n = 0 \<or> buf_mem b' \<noteq> None" for b' p
    using that by (auto simp: mem_write_def split: if_splits)
  consider p b' where "Buffer_MakeRoom b ?n = Inr (p, b')" "?n = 0 \<or> buf_mem b' \<noteq> None" | "Buffer_MakeRoom b ?n = Inl OutOfBounds"
    using MakeRoom_result [OF wf, of ?n] by blast
  then show ?thesis
  proof cases
    case 1
    then show ?thesis using wr [OF 1(2), of p] by (auto simp: Buffer_Append_def Buffer_AllocRoom_def Buffer_AddSize_def)
  qed (simp add: Buffer_Append_def Buffer_AllocRoom_def)
qed

lemma Append_room:
  assumes wf: "buffer_wf b" and small: "buffer_small b (length bs)"
    and nomove: "\<not> needs_move b (length bs)"
  shows "\<exists>b'. Buffer_Append b bs = Inr b'"
proof -
  let ?n = "of_nat (length bs) :: size_t"
  have le: "unat (buf_b b) \<le> unat (buf_e b)" "unat (buf_e b) \<le> unat (buf_cap b)"
    and n: "unat ?n = length bs"
    using wf small by (auto simp: buffer_wf_def buffer_small_def unat_of_nat_nowrap)
  have sum: "unat (buf_e b + ?n) = unat (buf_e b) + length bs"
    "unat (Buffer_GetSize b + ?n) = unat (buf_e b) - unat (buf_b b) + length bs"
    using le n small by (simp_all add: buffer_small_def unat_plus_nowrap unat_GetSize [OF wf])
  show ?thesis
  proof (cases "buf_e b + ?n \<le> buf_cap b")
    case True
    then have fits: "unat (buf_e b) + length bs \<le> unat (buf_cap b)"
      using sum by (simp add: word_le_nat_alt)
    have "\<exists>m. mem_write (buf_mem b) (buf_e b) (map Some bs) = Inr m"
      using wf fits by (auto simp: mem_write_def buffer_wf_def split: option.splits)
    then show ?thesis using True
      by (auto simp: Buffer_Append_def Buffer_AllocRoom_def Buffer_AddSize_def Buffer_MakeRoom_def
          Buffer_End_def)
  next
    case False
    with nomove sum have big: "\<not> Buffer_GetSize b + ?n < buf_cap b"
      by (auto simp: needs_move_def word_le_nat_alt word_less_nat_alt)
    have "unat (Buffer_GetSize b) + unat ?n < 2 ^ 64"
      using le n small by (simp add: buffer_small_def unat_GetSize [OF wf])
    from Expand_ok [OF wf this] obtain b1 where b1: "Buffer_Expand b ?n = Inr b1" by blast
    note i = Expand_Inr [OF wf b1]
    have cap: "unat (buf_e b1) + length bs \<le> unat (buf_cap b1)"
      using i sum(2) n by (simp add: unat_max_word unat_GetSize [OF wf])
    have "\<exists>m. mem_write (buf_mem b1) (buf_e b1) (map Some bs) = Inr m"
      using i cap by (auto simp: mem_write_def buffer_wf_def split: option.splits)
    then show ?thesis using False big b1
      by (auto simp: Buffer_Append_def Buffer_AllocRoom_def Buffer_AddSize_def Buffer_MakeRoom_def
          Buffer_End_def)
  qed
qed

lemma Append_move:
  assumes wf: "buffer_wf b" and small: "buffer_small b (length bs)"
    and move: "needs_move b (length bs)"
  shows "Buffer_Append b bs = Inl OutOfBounds"
proof -
  let ?n = "of_nat (length bs) :: size_t"
  have le: "unat (buf_b b) \<le> unat (buf_e b)" "unat (buf_e b) \<le> unat (buf_cap b)"
    and n: "unat ?n = length bs"
    using wf small by (auto simp: buffer_wf_def buffer_small_def unat_of_nat_nowrap)
  have sum: "unat (buf_e b + ?n) = unat (buf_e b) + length bs"
    "unat (Buffer_GetSize b + ?n) = unat (buf_e b) - unat (buf_b b) + length bs"
    using le n small by (simp_all add: buffer_small_def unat_plus_nowrap unat_GetSize [OF wf])
  have br: "\<not> buf_e b + ?n \<le> buf_cap b" "Buffer_GetSize b + ?n < buf_cap b"
    using move sum by (auto simp: needs_move_def word_le_nat_alt word_less_nat_alt)
  have "buf_cap b \<noteq> 0" "bs \<noteq> []" using move le by (auto simp: needs_move_def)
  then obtain cs where "buf_mem b = Some cs" "length cs = unat (buf_cap b)"
    using wf by (cases "buf_mem b") (auto simp: buffer_wf_def simp flip: unat_eq_0_size)
  then show ?thesis using br move \<open>bs \<noteq> []\<close>
    by (simp add: Buffer_Append_def Buffer_AllocRoom_def Buffer_AddSize_def Buffer_MakeRoom_def
        Buffer_MoveHead_def Buffer_End_def mem_write_def needs_move_def)
qed

section \<open>Consuming, copying, absorbing\<close>

lemma Consume_ok:
  assumes wf: "buffer_wf b" and n: "unat n \<le> length (content b)"
  shows "buffer_wf (Buffer_Consume b n) \<and> content (Buffer_Consume b n) = drop (unat n) (content b)
    \<and> buf_exp (Buffer_Consume b n) = buf_exp b"
proof -
  let ?b' = "b\<lparr>buf_b := buf_b b + n\<rparr>"
  have le: "unat (buf_b b) + unat n \<le> unat (buf_e b)"
    using wf n length_content [OF wf] unat_GetSize [OF wf] unfolding buffer_wf_def by linarith
  then have b: "unat (buf_b b + n) = unat (buf_b b) + unat n"
    using unsigned_less [of "buf_e b", where 'a = nat] by (simp add: unat_plus_nowrap)
  have wf': "buffer_wf ?b'" using wf le by (simp add: buffer_wf_def b)
  have c': "content ?b' = drop (unat n) (content b)"
    by (simp add: content_def b drop_take add.commute [of "unat n"])
  show ?thesis
    using wf' c' by (simp add: Buffer_Consume_def Let_def GetSize_eq_0_iff)
      (simp add: Buffer_Clear_def)
qed

text \<open>Consuming everything gives the array back.\<close>

lemma Consume_all:
  assumes "buffer_wf b" and "unat n = length (content b)"
  shows "Buffer_Consume b n = Buffer_Clear b"
proof -
  have "n = Buffer_GetSize b"
    using assms length_content by (simp add: word_unat_eq_iff)
  then show ?thesis
    by (simp add: Buffer_Consume_def Buffer_GetSize_def Buffer_Clear_def Let_def)
qed

lemma CopyFrom_ok:
  assumes wf: "buffer_wf b"
  shows "\<exists>b'. Buffer_CopyFrom b = Inr b' \<and> buffer_wf b' \<and> content b' = content b"
proof (cases "buf_mem b")
  case (Some cs)
  let ?m = "list_splice (replicate (unat (buf_cap b)) None) (unat (buf_b b)) (content b)"
  have len: "length (content b) = unat (buf_e b) - unat (buf_b b)"
    by (simp add: length_content wf unat_GetSize)
  have fits: "unat (buf_b b) + length (content b) \<le> length (replicate (unat (buf_cap b)) (None :: cell))"
    using wf len by (simp add: buffer_wf_def)
  have "mem_write (new_chars (buf_cap b)) (Buffer_Begin b) (content b) = Inr (Some ?m)"
    using fits by (auto simp: mem_write_def new_chars_def Buffer_Begin_def list_splice_def
        simp flip: replicate_add)
  then have copy: "Buffer_CopyFrom b = Inr (b\<lparr>buf_mem := Some ?m\<rparr>)"
    using Some mem_read_content [OF wf] by (simp add: Buffer_CopyFrom_def)
  moreover have "buffer_wf (b\<lparr>buf_mem := Some ?m\<rparr>)"
    using wf fits by (simp add: buffer_wf_def)
  moreover have "content (b\<lparr>buf_mem := Some ?m\<rparr>) = content b"
    using list_splice_mid [OF fits] len by (simp add: content_def [of "b\<lparr>buf_mem := Some ?m\<rparr>"])
  ultimately show ?thesis by blast
qed (auto simp: Buffer_CopyFrom_def wf)

text \<open>An assigned buffer has the unread bytes of the other one, in an array of its own.\<close>

lemma assign_ok:
  assumes "buffer_wf b" and "same \<longrightarrow> this = b"
  shows "\<exists>b'. Buffer_assign same this b = Inr b' \<and> buffer_wf b' \<and> content b' = content b"
  using CopyFrom_ok [OF assms(1)] assms by (auto simp: Buffer_assign_def)

lemma content_cong:
  "buf_mem b = buf_mem c \<Longrightarrow> buf_b b = buf_b c \<Longrightarrow> buf_e b = buf_e c \<Longrightarrow> content b = content c"
  by (simp add: content_def)

lemma content_exp [simp]: "content (b\<lparr>buf_exp := x\<rparr>) = content b"
  by (rule content_cong) simp_all

lemma buffer_wf_exp [simp]: "buffer_wf (b\<lparr>buf_exp := x\<rparr>) = buffer_wf b"
  by (simp add: buffer_wf_def)

lemma Absorb_Inr:
  assumes "buffer_wf this" and "buffer_wf b" and "content b = map Some bs"
    and "Buffer_Absorb this b = Inr (this', b')"
  shows "buffer_wf this' \<and> content this' = content this @ map Some bs \<and> buf_exp this' = buf_exp this
    \<and> buffer_wf b' \<and> content b' = []"
proof (cases "Buffer_GetSize this = 0")
  case True
  then have "content this = []" using assms(1) by (simp add: GetSize_eq_0_iff)
  with True assms show ?thesis by (auto simp: Buffer_Absorb_def)
next
  case False
  have "length bs < 2 ^ 64" using length_content_less [OF assms(2)] assms(3) by simp
  with False assms Append_Inr [OF assms(1)] show ?thesis
    by (auto simp: Buffer_Absorb_def mem_read_content elim!: rbind_InrE)
qed

lemma Absorb_result:
  assumes "buffer_wf this" and "buffer_wf b" and "content b = map Some bs"
  shows "(\<exists>this' b'. Buffer_Absorb this b = Inr (this', b')) \<or> Buffer_Absorb this b = Inl OutOfBounds"
proof -
  have "length bs < 2 ^ 64" using length_content_less [OF assms(2)] assms(3) by simp
  then show ?thesis
    using Append_result [OF assms(1), of bs] assms(2,3) by (auto simp: Buffer_Absorb_def mem_read_content)
qed

lemma MakeRoom0_Inr:
  assumes "buffer_wf b" and "Buffer_MakeRoom0 b = Inr b'"
  shows "buffer_wf b' \<and> content b' = content b \<and> buf_exp b' = buf_exp b"
  using assms Expand_Inr [OF assms(1), of 0] by (auto simp: Buffer_MakeRoom0_def split: if_splits)

section \<open>Integers\<close>

lemma PeekInt32_front:
  assumes "buffer_wf b" and "content b = map Some (bytes32 (htonl num) @ rest)"
  shows "Buffer_PeekInt32 b = Inr num"
proof -
  have ge: "4 \<le> Buffer_GetSize b"
    using length_content [OF assms(1)] assms(2) by (simp add: word_le_nat_alt)
  have len: "unat (4 :: size_t) \<le> length (content b)" using assms(2) by simp
  from mem_read_prefix [OF assms(1) len] assms(2)
  have "mem_read (buf_mem b) (Buffer_Begin b) 4 = Inr (map Some (bytes32 (htonl num)))" by simp
  then show ?thesis using ge by (simp add: Buffer_PeekInt32_def)
qed

section \<open>The interface: a queue of bytes\<close>

datatype bq_op = Put "byte list" | Get nat

fun puts :: "bq_op list \<Rightarrow> byte list" where
  "puts [] = []"
| "puts (Put bs # ops) = bs @ puts ops"
| "puts (Get n # ops) = puts ops"

fun gets :: "bq_op list \<Rightarrow> nat" where
  "gets [] = 0"
| "gets (Put bs # ops) = gets ops"
| "gets (Get n # ops) = n + gets ops"

text \<open>No operation consumes more than the queue then holds, starting with \<open>k\<close> bytes.\<close>

fun bq_within :: "nat \<Rightarrow> bq_op list \<Rightarrow> bool" where
  "bq_within k [] = True"
| "bq_within k (Put bs # ops) = (length bs < 2 ^ 64 \<and> bq_within (k + length bs) ops)"
| "bq_within k (Get n # ops) = (n \<le> k \<and> bq_within (k - n) ops)"

fun bq_exec :: "('q \<Rightarrow> byte list \<Rightarrow> 'q res) \<Rightarrow> ('q \<Rightarrow> nat \<Rightarrow> 'q) \<Rightarrow> bq_op \<Rightarrow> 'q \<Rightarrow> 'q res" where
  "bq_exec put get (Put bs) q = put q bs"
| "bq_exec put get (Get n) q = Inr (get q n)"

locale byte_queue =
  fixes inv :: "'q \<Rightarrow> bool"
    and items :: "'q \<Rightarrow> cell list"
    and put :: "'q \<Rightarrow> byte list \<Rightarrow> 'q res"
    and get :: "'q \<Rightarrow> nat \<Rightarrow> 'q"
  assumes put_ok: "inv q \<Longrightarrow> length bs < 2 ^ 64 \<Longrightarrow> put q bs = Inr q' \<Longrightarrow>
      inv q' \<and> items q' = items q @ map Some bs"
    and get_ok: "inv q \<Longrightarrow> n \<le> length (items q) \<Longrightarrow> inv (get q n) \<and> items (get q n) = drop n (items q)"
begin

lemma exec_fifo:
  assumes "rfold (bq_exec put get) ops q = Inr q'" and "inv q" and "bq_within (length (items q)) ops"
  shows "inv q' \<and> items q' = drop (gets ops) (items q @ map Some (puts ops))
    \<and> gets ops \<le> length (items q) + length (puts ops)"
  using assms
proof (induction ops arbitrary: q)
  case (Cons opn ops)
  from Cons.prems(1) obtain q1 where q1: "bq_exec put get opn q = Inr q1" "rfold (bq_exec put get) ops q1 = Inr q'"
    by (auto elim: rbind_InrE)
  show ?case
  proof (cases opn)
    case (Put bs)
    then have "inv q1" "items q1 = items q @ map Some bs"
      using q1 Cons.prems put_ok [of q bs q1] by auto
    then show ?thesis using Cons.IH [OF q1(2)] Cons.prems Put by (simp add: ac_simps)
  next
    case (Get n)
    then have i: "inv q1" "items q1 = drop n (items q)" "n \<le> length (items q)"
      using q1 Cons.prems get_ok [of q n] by auto
    then show ?thesis using Cons.IH [OF q1(2)] Cons.prems Get by (simp add: add.commute) arith
  qed
qed simp

text \<open>What a framing codec relies on: after reading a prefix the rest is at the front.\<close>

lemma get_prefix:
  assumes "inv q" and "items q = map Some (xs @ ys)"
  shows "inv (get q (length xs)) \<and> items (get q (length xs)) = map Some ys"
  using get_ok [of q "length xs"] assms by simp

end

interpretation bq: byte_queue buffer_wf content Buffer_Append "\<lambda>b n. Buffer_Consume b (of_nat n)"
proof unfold_locales
  fix b bs b'
  assume "buffer_wf b" "length bs < 2 ^ 64" "Buffer_Append b bs = Inr b'"
  then show "buffer_wf b' \<and> content b' = content b @ map Some bs"
    using Append_Inr by blast
next
  fix b n
  assume wf: "buffer_wf b" and n: "n \<le> length (content b)"
  then have "unat (of_nat n :: size_t) = n"
    using length_content_less [OF wf] by (simp add: unat_of_nat_nowrap)
  then show "buffer_wf (Buffer_Consume b (of_nat n)) \<and> content (Buffer_Consume b (of_nat n)) = drop n (content b)"
    using Consume_ok [OF wf, of "of_nat n"] n by simp
qed

text \<open>A sequence of appends and consumes on a buffer.\<close>

definition Buffer_run :: "bq_op list \<Rightarrow> buffer \<Rightarrow> buffer res" where
  "Buffer_run ops b = rfold (bq_exec Buffer_Append (\<lambda>b n. Buffer_Consume b (of_nat n))) ops b"

section \<open>Properties\<close>

text \<open>
  C7. A buffer is a first-in first-out queue of bytes: after any sequence of appends and
  consumes that ends without an error and never consumes more than is there, the unread
  bytes are those held at the start followed by everything appended, less the number of
  bytes consumed; the buffer is well-formed throughout.
\<close>

theorem Buffer_fifo:
  assumes "Buffer_run ops b = Inr b'" and "buffer_wf b" and "bq_within (length (content b)) ops"
  shows "buffer_wf b' \<and> content b' = drop (gets ops) (content b @ map Some (puts ops))"
  using bq.exec_fifo [OF assms [unfolded Buffer_run_def]] by simp

definition example_buffer :: buffer where
  "example_buffer = Buffer_SetSuggestSize Buffer_new 8"

lemma example_buffer_wf: "buffer_wf example_buffer" "content example_buffer = []"
  by (simp_all add: example_buffer_def Buffer_SetSuggestSize_def buffer_wf_new)

lemmas buffer_defs =
  Buffer_new_def Buffer_SetSuggestSize_def Buffer_Append_def Buffer_AllocRoom_def Buffer_MakeRoom_def
  Buffer_Expand_def Buffer_GetSize_def Buffer_Begin_def Buffer_End_def Buffer_AddSize_def
  Buffer_Consume_def Buffer_Clear_def Buffer_MoveHead_def Buffer_IsEmpty_def Buffer_GetSpace_def
  mem_read_def mem_write_def new_chars_def list_splice_def Let_def max_def

lemma example_run:
  "Buffer_run [Put ''abc'', Get 2, Put ''defgh''] example_buffer =
     Inr \<lparr>buf_mem = Some (map Some ''abcdefgh''), buf_b = 2, buf_e = 8, buf_cap = 8, buf_exp = 8, buf_extra = 0\<rparr>"
  by code_simp

theorem Buffer_fifo_witness:
  "content \<lparr>buf_mem = Some (map Some ''abcdefgh''), buf_b = 2, buf_e = 8, buf_cap = 8, buf_exp = 8, buf_extra = 0\<rparr>
     = map Some ''cdefgh''"
  using Buffer_fifo [OF example_run example_buffer_wf(1)] by (simp add: example_buffer_wf)

text \<open>
  C36. What \<^verbatim>\<open>Append\<close> does on every branch of \<^verbatim>\<open>MakeRoom\<close>. If the bytes fit behind the
  unread ones, or the array has to grow, they are appended. In the branch between, where
  only the space on both sides together is enough, \<^verbatim>\<open>MoveHead\<close> moves nothing and the copy
  runs past the end of the array.
\<close>

theorem Buffer_Append_result:
  assumes "buffer_wf b" and "buffer_small b (length bs)"
  shows "if needs_move b (length bs) then Buffer_Append b bs = Inl OutOfBounds
         else \<exists>b'. Buffer_Append b bs = Inr b' \<and> buffer_wf b' \<and> content b' = content b @ map Some bs"
proof -
  have "length bs < 2 ^ 64" using assms(2) by (simp add: buffer_small_def)
  then show ?thesis
    using Append_move [OF assms] Append_room [OF assms] Append_Inr [OF assms(1)] by auto
qed

text \<open>
  Both branches at a buffer of eight cells: seven bytes appended and three consumed leave four
  unread bytes and one free cell at the end; three more bytes fall into the branch between.
\<close>

definition partly_consumed :: buffer where
  "partly_consumed =
     \<lparr>buf_mem = Some (map Some ''abcdefg'' @ [None]), buf_b = 3, buf_e = 7, buf_cap = 8, buf_exp = 8, buf_extra = 0\<rparr>"

lemma partly_consumed_run: "Buffer_run [Put ''abcdefg'', Get 3] example_buffer = Inr partly_consumed"
  by code_simp

theorem Buffer_Append_result_witness:
  "Buffer_run [Put ''abcdefg'', Get 3] example_buffer = Inr partly_consumed \<and>
   Buffer_Append partly_consumed ''xyz'' = Inl OutOfBounds \<and>
   (\<exists>b'. Buffer_Append partly_consumed ''wxyz'' = Inr b' \<and> content b' = map Some ''defgwxyz'')"
proof -
  have wf: "buffer_wf partly_consumed"
    and small: "buffer_small partly_consumed (length ''xyz'')" "buffer_small partly_consumed (length ''wxyz'')"
    and c: "content partly_consumed = map Some ''defg''"
    by (simp_all add: partly_consumed_def buffer_wf_def buffer_small_def content_def)
  have m: "needs_move partly_consumed (length ''xyz'')" "\<not> needs_move partly_consumed (length ''wxyz'')"
    by (simp_all add: partly_consumed_def needs_move_def)
  show ?thesis
    using partly_consumed_run Buffer_Append_result [OF wf small(1)] Buffer_Append_result [OF wf small(2)] m c
    by auto
qed

definition suggests_room :: "buffer \<Rightarrow> bool" where
  "suggests_room b \<longleftrightarrow> buf_cap b = 0 \<or> buf_exp b \<le> buf_cap b"

lemma MakeRoom0_ok:
  assumes wf: "buffer_wf b" and small: "buffer_small b 0" and sr: "suggests_room b"
  shows "\<exists>b'. Buffer_MakeRoom0 b = Inr b' \<and> buffer_wf b' \<and> content b' = content b \<and>
    buf_exp b' = buf_exp b \<and> buf_exp b \<le> Buffer_GetSpace b' \<and> suggests_room b'"
proof (cases "Buffer_GetSpace b < buf_exp b")
  case False
  then show ?thesis using assms by (auto simp: Buffer_MakeRoom0_def)
next
  case True
  have le: "unat (buf_e b) - unat (buf_b b) \<le> unat (buf_cap b)"
    using wf unfolding buffer_wf_def by linarith
  have "unat (Buffer_GetSize b) + unat (0 :: size_t) < 2 ^ 64"
    using unsigned_less [of "Buffer_GetSize b", where 'a = nat] by simp
  from Expand_ok [OF wf this] obtain b' where b': "Buffer_Expand b 0 = Inr b'" by blast
  note i = Expand_Inr [OF wf b']
  have cap: "unat (buf_cap b') = max (unat (buf_exp b)) (2 * unat (buf_cap b))"
    using i small le by (simp add: buffer_small_def unat_max_word unat_double_nowrap unat_GetSize [OF wf])
  have "unat (buf_exp b) \<le> unat (Buffer_GetSpace b')"
    using i cap sr le by (auto simp: unat_GetSpace unat_GetSize [OF wf] suggests_room_def word_le_nat_alt)
  moreover have "suggests_room b'" using i cap by (simp add: suggests_room_def word_le_nat_alt)
  ultimately show ?thesis using True b' i by (simp add: Buffer_MakeRoom0_def word_le_nat_alt)
qed

text \<open>
  Room for a read: in a buffer whose array is at least as large as the suggested size
  (or not allocated yet), the argument-free \<^verbatim>\<open>MakeRoom\<close> succeeds, keeps the contents and
  leaves at least the suggested number of free cells, so that a read is never asked for
  zero bytes. The condition is kept.
\<close>

theorem Buffer_MakeRoom0_space:
  assumes "buffer_wf b" and "buffer_small b 0" and "suggests_room b"
  shows "\<exists>b'. Buffer_MakeRoom0 b = Inr b' \<and> content b' = content b \<and>
    buf_exp b \<le> Buffer_GetSpace b' \<and> suggests_room b'"
  using MakeRoom0_ok [OF assms] by blast

theorem Buffer_MakeRoom0_space_witness:
  "\<exists>b'. Buffer_MakeRoom0 Buffer_new = Inr b' \<and> content b' = [] \<and> 4096 \<le> Buffer_GetSpace b'"
proof -
  have "buffer_small Buffer_new 0" "suggests_room Buffer_new" "buf_exp Buffer_new = 4096"
    by (simp_all add: buffer_small_def suggests_room_def Buffer_new_def)
  then show ?thesis using Buffer_MakeRoom0_space [OF buffer_wf_new] by auto
qed

text \<open>
  The length prefix of a packet: an integer appended to an empty buffer in network byte
  order is read back by \<^verbatim>\<open>PeekInt32\<close>, whatever is appended after it.
\<close>

theorem Buffer_Int32_roundtrip:
  assumes "buffer_wf b" and "content b = []" and "Buffer_AppendInt32 b num = Inr b1"
    and "length bs < 2 ^ 64" and "Buffer_Append b1 bs = Inr b2"
  shows "Buffer_PeekInt32 b2 = Inr num"
proof -
  have 1: "buffer_wf b1" "content b1 = map Some (bytes32 (htonl num))"
    using Append_Inr [of b "bytes32 (htonl num)" b1] assms(1-3) by (simp_all add: Buffer_AppendInt32_def)
  have "buffer_wf b2" "content b2 = map Some (bytes32 (htonl num) @ bs)"
    using Append_Inr [OF 1(1) assms(4,5)] 1(2) by simp_all
  then show ?thesis by (rule PeekInt32_front)
qed

theorem Buffer_Int32_roundtrip_witness:
  "\<exists>b1 b2. Buffer_AppendInt32 example_buffer 258 = Inr b1 \<and> Buffer_Append b1 ''xy'' = Inr b2 \<and>
     content b2 = map Some [CHR 0x00, CHR 0x00, CHR 0x01, CHR 0x02, CHR ''x'', CHR ''y''] \<and>
     Buffer_PeekInt32 b2 = Inr 258"
proof -
  define b1 where "b1 = \<lparr>buf_mem = Some (map Some [CHR 0x00, CHR 0x00, CHR 0x01, CHR 0x02] @ replicate 4 None),
    buf_b = 0, buf_e = 4, buf_cap = 8, buf_exp = 8, buf_extra = 0\<rparr>"
  define b2 where "b2 = \<lparr>buf_mem = Some (map Some [CHR 0x00, CHR 0x00, CHR 0x01, CHR 0x02, CHR ''x'', CHR ''y''] @ replicate 2 None),
    buf_b = 0, buf_e = 6, buf_cap = 8, buf_exp = 8, buf_extra = 0\<rparr>"
  have "bytes32 (htonl 258) = [CHR 0x00, CHR 0x00, CHR 0x01, CHR 0x02]"
    unfolding bytes32_bswap32 by (simp add: bytes32_def le_enc_4 char_of_def bit_0)
  moreover have "Buffer_Append example_buffer [CHR 0x00, CHR 0x00, CHR 0x01, CHR 0x02] = Inr b1"
    unfolding b1_def by code_simp
  ultimately have 1: "Buffer_AppendInt32 example_buffer 258 = Inr b1" by (simp add: Buffer_AppendInt32_def)
  have 2: "Buffer_Append b1 ''xy'' = Inr b2" unfolding b1_def b2_def by code_simp
  have 3: "content b2 = map Some [CHR 0x00, CHR 0x00, CHR 0x01, CHR 0x02, CHR ''x'', CHR ''y'']"
    by (simp add: content_def b2_def)
  have len: "length ''xy'' < 2 ^ 64" by simp
  have "Buffer_PeekInt32 b2 = Inr 258" by (rule Buffer_Int32_roundtrip [OF example_buffer_wf 1 len 2])
  with 1 2 3 show ?thesis by blast
qed

text \<open>
  Absorbing another buffer moves its bytes behind the bytes of this one and leaves the
  other empty, on both branches (the swap when this one is empty, the copy otherwise), and
  keeps the suggested size of this one.
\<close>

theorem Buffer_Absorb_moves:
  assumes "buffer_wf this" and "buffer_wf b" and "content b = map Some bs"
    and "Buffer_Absorb this b = Inr (this', b')"
  shows "content this' = content this @ map Some bs \<and> content b' = [] \<and>
    buffer_wf this' \<and> buffer_wf b' \<and> buf_exp this' = buf_exp this"
  using Absorb_Inr [OF assms] by blast

theorem Buffer_Absorb_moves_witness:
  "\<exists>this' b'. Buffer_Absorb example_buffer partly_consumed = Inr (this', b') \<and>
     content this' = map Some ''defg'' \<and> content b' = []"
proof -
  have pc: "buffer_wf partly_consumed" "content partly_consumed = map Some ''defg''"
    by (simp_all add: partly_consumed_def buffer_wf_def content_def)
  obtain this' b' where ab: "Buffer_Absorb example_buffer partly_consumed = Inr (this', b')"
    using GetSize_eq_0_iff [OF example_buffer_wf(1)] example_buffer_wf(2) by (simp add: Buffer_Absorb_def)
  show ?thesis
    using Buffer_Absorb_moves [OF example_buffer_wf(1) pc ab] ab by (simp add: example_buffer_wf)
qed

end
