(* ===== verification/Codec.thy ===== *)
theory Codec
  imports Buffer
begin

text \<open>
  The line codec and the (unfinished) length codec of \<^verbatim>\<open>net/codec.cc\<close>. Encoding writes to a
  \<^verbatim>\<open>Buffer\<close>; decoding looks for the first line feed in a string.
\<close>

section \<open>Operations\<close>

text \<open>\<^verbatim>\<open>std::string::find\<close> of one character: \<open>None\<close> is \<^verbatim>\<open>npos\<close>.\<close>

fun find_char :: "byte \<Rightarrow> byte list \<Rightarrow> nat option" where
  "find_char c [] = None"
| "find_char c (x # xs) = (if x = c then Some 0 else map_option Suc (find_char c xs))"

text \<open>
  \<^verbatim>\<open>msg.assign(p, n)\<close> with \<open>n = npos\<close> exceeds the maximal size of a string and throws
  \<^verbatim>\<open>std::length_error\<close>. The result is the position converted to a 32-bit \<^verbatim>\<open>int\<close> and the
  message assigned.
\<close>

definition LineCode_TryDecode :: "byte list \<Rightarrow> (int32 \<times> byte list) res" where
  "LineCode_TryDecode data =
     (case find_char (CHR 0x0A) data of
        None \<Rightarrow> Inl LengthError
      | Some pos \<Rightarrow> Inr (of_nat pos, take pos data))"

definition LineCode_Encode :: "byte list \<Rightarrow> buffer \<Rightarrow> buffer res" where
  "LineCode_Encode msg buf = Buffer_Append buf (msg @ [CHR 0x0A])"

definition LengthCode_TryDecode :: "byte list \<Rightarrow> (int32 \<times> byte list) res" where
  "LengthCode_TryDecode data =
     (case find_char (CHR 0x0A) data of
        None \<Rightarrow> Inl LengthError
      | Some pos \<Rightarrow> Inr (of_nat pos, take pos data))"

definition LengthCode_Encode :: "byte list \<Rightarrow> buffer \<Rightarrow> buffer res" where
  "LengthCode_Encode msg buf = Inr buf"

section \<open>Lemmas\<close>

lemma find_char_append:
  "c \<notin> set xs \<Longrightarrow> find_char c (xs @ c # ys) = Some (length xs)"
  by (induction xs) auto

lemma find_char_None: "find_char c xs = None \<longleftrightarrow> c \<notin> set xs"
  by (induction xs) auto

lemma find_char_Some:
  "find_char c xs = Some n \<Longrightarrow> n < length xs \<and> xs ! n = c \<and> c \<notin> set (take n xs)"
proof (induction xs arbitrary: n)
  case (Cons x xs)
  then show ?case by (cases n) (auto split: if_splits)
qed simp

text \<open>The interface a line-oriented protocol relies on, and its client: a stream of messages.\<close>

fun frame_all :: "('m \<Rightarrow> byte list) \<Rightarrow> 'm list \<Rightarrow> byte list" where
  "frame_all enc [] = []"
| "frame_all enc (m # ms) = enc m @ frame_all enc ms"

fun unframe :: "(byte list \<Rightarrow> ('m \<times> nat) option) \<Rightarrow> nat \<Rightarrow> byte list \<Rightarrow> 'm list" where
  "unframe dec 0 bs = []"
| "unframe dec (Suc k) bs =
     (case dec bs of None \<Rightarrow> [] | Some (m, n) \<Rightarrow> m # unframe dec k (drop n bs))"

locale framing =
  fixes valid :: "'m \<Rightarrow> bool"
    and enc :: "'m \<Rightarrow> byte list"
    and dec :: "byte list \<Rightarrow> ('m \<times> nat) option"
  assumes dec_enc: "valid m \<Longrightarrow> dec (enc m @ rest) = Some (m, length (enc m))"
begin

text \<open>Decoding one message after another gives back every message that was framed.\<close>

lemma unframe_frame_all:
  "(\<forall>m \<in> set ms. valid m) \<Longrightarrow> unframe dec (length ms) (frame_all enc ms @ rest) = ms"
  by (induction ms) (auto simp: dec_enc)

end

definition line_valid :: "byte list \<Rightarrow> bool" where
  "line_valid m \<longleftrightarrow> CHR 0x0A \<notin> set m"

definition line_enc :: "byte list \<Rightarrow> byte list" where
  "line_enc m = m @ [CHR 0x0A]"

text \<open>One step of a reader: decode the front and skip the message and its line feed.\<close>

definition line_dec :: "byte list \<Rightarrow> (byte list \<times> nat) option" where
  "line_dec data =
     (case LineCode_TryDecode data of Inl _ \<Rightarrow> None | Inr (_, m) \<Rightarrow> Some (m, Suc (length m)))"

lemma LineCode_TryDecode_line:
  "line_valid m \<Longrightarrow> LineCode_TryDecode (line_enc m @ rest) = Inr (of_nat (length m), m)"
  by (simp add: LineCode_TryDecode_def line_enc_def line_valid_def find_char_append)

interpretation line: framing line_valid line_enc line_dec
proof unfold_locales
  fix m rest
  assume "line_valid m"
  then have "line_dec (line_enc m @ rest) = Some (m, Suc (length m))"
    by (simp add: line_dec_def LineCode_TryDecode_line)
  then show "line_dec (line_enc m @ rest) = Some (m, length (line_enc m))"
    by (simp add: line_enc_def)
qed

section \<open>Properties\<close>

text \<open>
  Messages encoded one after another with the line codec come back in order and
  unchanged when the stream is decoded message by message, if no message contains a line
  feed; what follows the last one does not matter.
\<close>

theorem LineCode_stream_roundtrip:
  assumes "\<forall>m \<in> set ms. line_valid m"
  shows "unframe line_dec (length ms) (frame_all line_enc ms @ rest) = ms"
  using assms by (rule line.unframe_frame_all)

theorem LineCode_stream_roundtrip_witness:
  "unframe line_dec 2 (frame_all line_enc [''ab'', ''c''] @ ''xyz'') = [''ab'', ''c'']"
proof -
  have "\<forall>m \<in> set [''ab'', ''c'']. line_valid m" by (simp add: line_valid_def)
  from LineCode_stream_roundtrip [OF this, of "''xyz''"] show ?thesis by (simp add: numeral_2_eq_2)
qed

text \<open>
  The line codec on a string without a line feed throws: there is no value of
  \<^verbatim>\<open>TryDecode\<close> that means "not complete yet". On every other string it returns the part
  before the first line feed.
\<close>

theorem LineCode_TryDecode_result:
  "if CHR 0x0A \<in> set data
   then \<exists>m rest. data = m @ CHR 0x0A # rest \<and> line_valid m \<and>
     LineCode_TryDecode data = Inr (of_nat (length m), m)
   else LineCode_TryDecode data = Inl LengthError"
proof (cases "find_char (CHR 0x0A) data")
  case None
  then have "CHR 0x0A \<notin> set data" using find_char_None [of "CHR 0x0A" data] by blast
  with None show ?thesis by (simp add: LineCode_TryDecode_def)
next
  case (Some n)
  note n = find_char_Some [OF Some]
  then have "data = take n data @ CHR 0x0A # drop (Suc n) data" using id_take_nth_drop [of n data] by simp
  moreover have "LineCode_TryDecode data = Inr (of_nat (length (take n data)), take n data)"
    using Some n by (simp add: LineCode_TryDecode_def)
  ultimately show ?thesis using n by (metis in_set_conv_nth line_valid_def)
qed

end
