(* ===== verification/Status.thy ===== *)
theory Status
  imports Buffer
begin

text \<open>
  \<^verbatim>\<open>Status\<close> of \<^verbatim>\<open>net/status.h\<close> and \<^verbatim>\<open>net/status.cc\<close>: success is a null pointer, anything
  else a heap array that holds its own length (4 bytes), the code (4 bytes) and the message.
\<close>

section \<open>State and operations\<close>

type_synonym status = mem

definition Status_ok :: status where
  "Status_ok = None"

text \<open>
  The two constructors of an error. Both write the length, the code and the message into a
  fresh array; \<^verbatim>\<open>FromFormat\<close> leaves room for and writes the terminating NUL, the constructor
  from a C string does not. The text that \<^verbatim>\<open>vsnprintf\<close> produces is an argument.
\<close>

definition status_header :: "mem \<Rightarrow> 32 word \<Rightarrow> int32 \<Rightarrow> mem res" where
  "status_header p sz code =
     rbind (mem_write p 0 (map Some (bytes32 sz))) (\<lambda>p.
     mem_write p 4 (map Some (bytes32 code)))"

definition Status_new :: "int32 \<Rightarrow> byte list \<Rightarrow> status res" where
  "Status_new code msg =
     (let sz = of_nat (length (cstr msg)) + 8 :: 32 word in
      rbind (status_header (new_chars (ucast sz)) sz code) (\<lambda>p.
      mem_write p 8 (map Some (take (unat (sz - 8)) (cstr msg)))))"

definition Status_FromFormat :: "int32 \<Rightarrow> byte list \<Rightarrow> status res" where
  "Status_FromFormat code text =
     (let sz = 8 + of_nat (length (cstr text)) + 1 :: 32 word in
      rbind (status_header (new_chars (ucast sz)) sz code) (\<lambda>p.
      mem_write p 8 (map Some (take (unat (sz - 8) - 1) (cstr text) @ [CHR 0x00]))))"

definition Status_Clone :: "status \<Rightarrow> status res" where
  "Status_Clone s =
     (if s = None then Inr s
      else rbind (mem_read s 0 4) (\<lambda>cs.
           rbind (cells_bytes cs) (\<lambda>bs.
           let size = ucast (word32 bs) :: size_t in
           rbind (mem_read s 0 size) (\<lambda>cells.
           mem_write (new_chars size) 0 cells))))"

definition Status_Code :: "status \<Rightarrow> int32 res" where
  "Status_Code s =
     (if s = None then Inr 0
      else rbind (mem_read s 4 4) (\<lambda>cs. rbind (cells_bytes cs) (\<lambda>bs. Inr (word32 bs))))"

definition Status_Ok :: "status \<Rightarrow> bool res" where
  "Status_Ok s = rbind (Status_Code s) (\<lambda>c. Inr (c = 0))"

text \<open>Reading a C string: up to the first NUL, which has to lie inside the array.\<close>

fun read_cstr :: "cell list \<Rightarrow> byte list res" where
  "read_cstr [] = Inl OutOfBounds"
| "read_cstr (None # cs) = Inl Indeterminate"
| "read_cstr (Some c # cs) = (if c = CHR 0x00 then Inr [] else rbind (read_cstr cs) (\<lambda>s. Inr (c # s)))"

definition Status_Msg :: "status \<Rightarrow> byte list res" where
  "Status_Msg s = (case s of None \<Rightarrow> Inr [] | Some cs \<Rightarrow> read_cstr (drop 8 cs))"

section \<open>Layout\<close>

lemma NUL_notin_cstr [simp]: "CHR 0x00 \<notin> set (cstr s)"
  by (auto simp: cstr_def dest: set_takeWhileD)

lemma read_cstr_terminated:
  "CHR 0x00 \<notin> set s \<Longrightarrow> read_cstr (map Some (s @ [CHR 0x00])) = Inr s"
  by (induction s) auto

lemma read_cstr_unterminated: "CHR 0x00 \<notin> set s \<Longrightarrow> read_cstr (map Some s) = Inl OutOfBounds"
  by (induction s) auto

text \<open>Writing the three parts in order fills the array: length, code, message.\<close>

lemma status_layout:
  assumes sz: "unat sz = 8 + length xs"
  shows "rbind (status_header (new_chars (ucast sz)) sz code) (\<lambda>p. mem_write p 8 xs)
    = Inr (Some (map Some (bytes32 sz @ bytes32 code) @ xs))"
proof -
  have u: "unat (ucast sz :: size_t) = 8 + length xs"
    using sz unsigned_less [of sz, where 'a = nat]
    by (simp add: unsigned_ucast_eq take_bit_nat_eq_self)
  have "replicate (8 + length xs) None = replicate 4 None @ replicate 4 None @ replicate (length xs) (None :: cell)"
    by (simp flip: replicate_add)
  then have new: "new_chars (ucast sz) = Some (replicate 4 None @ replicate 4 None @ replicate (length xs) None)"
    by (simp only: new_chars_def u)
  have 1: "mem_write (new_chars (ucast sz)) 0 (map Some (bytes32 sz))
      = Inr (Some (map Some (bytes32 sz) @ replicate 4 None @ replicate (length xs) None))"
    unfolding new by (simp add: mem_write_def list_splice_def) (metis length_0_conv length_bytes32 zero_neq_numeral)
  have 2: "mem_write (Some (map Some (bytes32 sz) @ replicate 4 None @ replicate (length xs) None)) 4 (map Some (bytes32 code))
      = Inr (Some (map Some (bytes32 sz @ bytes32 code) @ replicate (length xs) None))"
    by (simp add: mem_write_def list_splice_def) (metis length_0_conv length_bytes32 zero_neq_numeral)
  have 3: "mem_write (Some (map Some (bytes32 sz @ bytes32 code) @ replicate (length xs) None)) 8 xs
      = Inr (Some (map Some (bytes32 sz @ bytes32 code) @ xs))"
    by (simp add: mem_write_def list_splice_def)
  show ?thesis by (simp only: status_header_def 1 2 3 rbind_simps)
qed


lemma status_reads:
  assumes "s = Some (map Some (bytes32 sz @ bytes32 code) @ xs)" and "unat sz = 8 + length xs"
  shows "Status_Code s = Inr code" and "Status_Msg s = read_cstr xs" and "Status_Clone s = Inr s"
proof -
  have "mem_read s 4 4 = Inr (map Some (bytes32 code))" "mem_read s 0 4 = Inr (map Some (bytes32 sz))"
    using assms(1) by (simp_all add: mem_read_def)
  moreover have u: "unat (ucast sz :: size_t) = 8 + length xs"
    using assms(2) unsigned_less [of sz, where 'a = nat] by (simp add: unsigned_ucast_eq take_bit_nat_eq_self)
  have "mem_read s 0 (ucast sz) = Inr (map Some (bytes32 sz @ bytes32 code) @ xs)"
    using assms(1) u by (auto simp: mem_read_def)
  moreover have "mem_write (new_chars (ucast sz)) 0 (map Some (bytes32 sz @ bytes32 code) @ xs) = Inr s"
    using assms(1) u by (subst mem_write_new) (simp_all add: list_splice_zero)
  ultimately show "Status_Code s = Inr code" "Status_Clone s = Inr s"
    using assms(1) by (simp_all add: Status_Code_def Status_Clone_def Let_def)
  show "Status_Msg s = read_cstr xs" using assms(1) by (simp add: Status_Msg_def)
qed

lemma unat_len32: "length xs + k < 2 ^ 32 \<Longrightarrow> unat (of_nat (length xs) + of_nat k :: 32 word) = length xs + k"
  by (simp add: unat_of_nat flip: of_nat_add)

section \<open>Properties\<close>

text \<open>
  A status built by \<^verbatim>\<open>FromFormat\<close> gives back its code and its message, and the deep copy
  that copy construction and assignment make is equal to it; no access leaves the array.
\<close>

theorem Status_FromFormat_roundtrip:
  assumes "length (cstr text) + 9 < 2 ^ 32"
  shows "\<exists>s. Status_FromFormat code text = Inr s \<and> Status_Code s = Inr code \<and>
    Status_Msg s = Inr (cstr text) \<and> Status_Clone s = Inr s"
proof -
  let ?sz = "8 + of_nat (length (cstr text)) + 1 :: 32 word"
  let ?xs = "map Some (cstr text @ [CHR 0x00])"
  have "?sz = of_nat (length (cstr text)) + of_nat 9" by simp
  then have sz: "unat ?sz = 8 + length ?xs"
    using unat_len32 [OF assms] by (simp only: length_map length_append) simp
  have "?sz - 8 = of_nat (length (cstr text)) + of_nat 1" by simp
  then have sz8: "unat (?sz - 8) - 1 = length (cstr text)"
    using unat_len32 [of "cstr text" 1] assms by (simp add: add.commute)
  have "Status_FromFormat code text = Inr (Some (map Some (bytes32 ?sz @ bytes32 code) @ ?xs))"
    using status_layout [OF sz, of code] by (simp only: Status_FromFormat_def Let_def sz8 take_all order_refl)
  then show ?thesis
    using status_reads [OF refl sz, of code] read_cstr_terminated [of "cstr text"] by auto
qed

theorem Status_FromFormat_roundtrip_witness:
  "\<exists>s. Status_FromFormat 2 ''open /x No such file'' = Inr s \<and> Status_Code s = Inr 2 \<and>
     Status_Msg s = Inr ''open /x No such file'' \<and> Status_Clone s = Inr s"
proof -
  have c: "cstr ''open /x No such file'' = ''open /x No such file''" by (simp add: cstr_def)
  then have "length (cstr ''open /x No such file'') + 9 < 2 ^ 32" by simp
  from Status_FromFormat_roundtrip [OF this, of 2] show ?thesis by (simp only: c)
qed

text \<open>
  A status built from a code and a C string gives back its code, but its array has no
  terminating NUL: reading the message always runs past the end of the array.
\<close>

theorem Status_new_message_overrun:
  assumes "length (cstr msg) + 8 < 2 ^ 32"
  shows "\<exists>s. Status_new code msg = Inr s \<and> Status_Code s = Inr code \<and> Status_Msg s = Inl OutOfBounds"
proof -
  let ?sz = "of_nat (length (cstr msg)) + 8 :: 32 word"
  let ?xs = "map Some (cstr msg)"
  have "?sz = of_nat (length (cstr msg)) + of_nat 8" by simp
  then have sz: "unat ?sz = 8 + length ?xs" using unat_len32 [OF assms] by simp
  have sz8: "unat (?sz - 8) = length (cstr msg)"
    using unat_len32 [of "cstr msg" 0] assms by simp
  have "Status_new code msg = Inr (Some (map Some (bytes32 ?sz @ bytes32 code) @ ?xs))"
    using status_layout [OF sz, of code] by (simp only: Status_new_def Let_def sz8 take_all order_refl)
  then show ?thesis
    using status_reads [OF refl sz, of code] read_cstr_unterminated [of "cstr msg"] by auto
qed

theorem Status_new_message_overrun_witness:
  "\<exists>s. Status_new 9 ''bad'' = Inr s \<and> Status_Code s = Inr 9 \<and> Status_Msg s = Inl OutOfBounds"
proof -
  have "length (cstr ''bad'') + 8 < 2 ^ 32" by (simp add: cstr_def)
  then show ?thesis by (rule Status_new_message_overrun)
qed

end
