(* ===== verification/TimeStamp.thy ===== *)
theory TimeStamp
  imports JNet_Prelude
begin

text \<open>
  Points in time and timers: \<^verbatim>\<open>net/timestamp.h\<close>, \<^verbatim>\<open>net/timestamp.cc\<close> and
  \<^verbatim>\<open>net/timer.h\<close>, \<^verbatim>\<open>net/timer.cc\<close>. A time stamp counts microseconds since the epoch in a
  signed 64-bit integer. Signed overflow is undefined in C++ and no operation relies on it, so the
  count is an \<open>int\<close>: a run whose time stamps leave the 64-bit range is not described.

  A \<^verbatim>\<open>double\<close> is a rational number (every finite double is one). The result of a
  floating-point multiplication or division is the exact rational rounded to a double; the rounding
  of the machine is the parameter \<open>rnd\<close>. Conversion to an integer type truncates towards zero.
\<close>

section \<open>C integer arithmetic\<close>

text \<open>Division and remainder of C++ truncate towards zero.\<close>

definition cquot :: "int \<Rightarrow> int \<Rightarrow> int" where
  "cquot a b = sgn a * sgn b * (\<bar>a\<bar> div \<bar>b\<bar>)"

definition crem :: "int \<Rightarrow> int \<Rightarrow> int" where
  "crem a b = a - b * cquot a b"

definition double_to_int :: "rat \<Rightarrow> int" where
  "double_to_int q = (if q < 0 then - \<lfloor>- q\<rfloor> else \<lfloor>q\<rfloor>)"

lemma cquot_nonneg: "0 \<le> a \<Longrightarrow> 0 < b \<Longrightarrow> cquot a b = a div b"
  by (simp add: cquot_def sgn_if)

lemma crem_nonneg: "0 \<le> a \<Longrightarrow> 0 < b \<Longrightarrow> crem a b = a mod b"
  by (simp add: crem_def cquot_nonneg minus_mult_div_eq_mod)

section \<open>Time stamps\<close>

datatype timestamp = TimeStamp (MicroSecondsSinceEpoch: int)

text \<open>The order of time stamps is the code's \<^verbatim>\<open>operator<\<close>.\<close>

instantiation timestamp :: linorder
begin

definition less_timestamp :: "timestamp \<Rightarrow> timestamp \<Rightarrow> bool" where
  "less_timestamp lhs rhs \<longleftrightarrow> MicroSecondsSinceEpoch lhs < MicroSecondsSinceEpoch rhs"

definition less_eq_timestamp :: "timestamp \<Rightarrow> timestamp \<Rightarrow> bool" where
  "less_eq_timestamp lhs rhs \<longleftrightarrow> MicroSecondsSinceEpoch lhs \<le> MicroSecondsSinceEpoch rhs"

instance
  by intro_classes (auto simp: less_timestamp_def less_eq_timestamp_def intro: timestamp.expand)

end

definition kMicroSecondsPerSecond :: int where
  "kMicroSecondsPerSecond = 1000 * 1000"

definition TimeStamp_InValid :: timestamp where
  "TimeStamp_InValid = TimeStamp 0"

definition TimeStamp_Valid :: "timestamp \<Rightarrow> bool" where
  "TimeStamp_Valid t \<longleftrightarrow> MicroSecondsSinceEpoch t \<noteq> 0"

definition TimeStamp_SecondsSinceEpoch :: "timestamp \<Rightarrow> int" where
  "TimeStamp_SecondsSinceEpoch t = cquot (MicroSecondsSinceEpoch t) kMicroSecondsPerSecond"

definition TimeStamp_FromUnixTime :: "int \<Rightarrow> int \<Rightarrow> timestamp" where
  "TimeStamp_FromUnixTime t microSeconds = TimeStamp (t * kMicroSecondsPerSecond + microSeconds)"

text \<open>\<^verbatim>\<open>gettimeofday\<close> gives the seconds and microseconds; they are arguments.\<close>

definition TimeStamp_Now :: "int \<Rightarrow> int \<Rightarrow> timestamp" where
  "TimeStamp_Now tv_sec tv_usec = TimeStamp (tv_sec * kMicroSecondsPerSecond + tv_usec)"

definition TimeDifference :: "(rat \<Rightarrow> rat) \<Rightarrow> timestamp \<Rightarrow> timestamp \<Rightarrow> rat" where
  "TimeDifference rnd lhs rhs =
     (let diff = MicroSecondsSinceEpoch rhs - MicroSecondsSinceEpoch lhs
      in rnd (rnd (of_int diff) / of_int kMicroSecondsPerSecond))"

definition AddTime :: "(rat \<Rightarrow> rat) \<Rightarrow> timestamp \<Rightarrow> rat \<Rightarrow> timestamp" where
  "AddTime rnd t seconds =
     (let delta = double_to_int (rnd (seconds * of_int kMicroSecondsPerSecond))
      in TimeStamp (MicroSecondsSinceEpoch t + delta))"

section \<open>Timers\<close>

record 'cb timer =
  tm_callback :: 'cb
  tm_expiration :: timestamp
  tm_interval :: rat
  tm_repeat :: bool
  tm_sequence :: int

text \<open>The sequence number is the value of the counter \<^verbatim>\<open>s_numCreated_\<close> before it is incremented.\<close>

definition Timer_new :: "'cb \<Rightarrow> timestamp \<Rightarrow> rat \<Rightarrow> int \<Rightarrow> 'cb timer" where
  "Timer_new cb expir interval numCreated =
     \<lparr>tm_callback = cb, tm_expiration = expir, tm_interval = interval, tm_repeat = interval > 0,
      tm_sequence = numCreated\<rparr>"

definition Timer_Restart :: "(rat \<Rightarrow> rat) \<Rightarrow> timestamp \<Rightarrow> 'cb timer \<Rightarrow> 'cb timer" where
  "Timer_Restart rnd now t =
     (if tm_repeat t then t\<lparr>tm_expiration := AddTime rnd now (tm_interval t)\<rparr>
      else t\<lparr>tm_expiration := TimeStamp_InValid\<rparr>)"

section \<open>Lemmas\<close>

lemma timestamp_less_iff [simp]: "TimeStamp a < TimeStamp b \<longleftrightarrow> a < b"
  by (simp add: less_timestamp_def)

lemma timestamp_le_iff [simp]: "TimeStamp a \<le> TimeStamp b \<longleftrightarrow> a \<le> b"
  by (simp add: less_eq_timestamp_def)

lemma FromUnixTime_SecondsSinceEpoch:
  assumes "0 \<le> t" and "0 \<le> us" and "us < kMicroSecondsPerSecond"
  shows "TimeStamp_SecondsSinceEpoch (TimeStamp_FromUnixTime t us) = t"
proof -
  have "0 \<le> t * kMicroSecondsPerSecond + us" using assms by (simp add: kMicroSecondsPerSecond_def)
  then show ?thesis using assms
    by (simp add: TimeStamp_SecondsSinceEpoch_def TimeStamp_FromUnixTime_def cquot_nonneg
        kMicroSecondsPerSecond_def)
qed

end
