(* ===== verification/TimerQueue.thy ===== *)
theory TimerQueue
  imports TimeStamp "HOL-Library.Product_Lexorder"
begin

text \<open>
  The timer queue of \<^verbatim>\<open>net/timerqueue.h\<close> and \<^verbatim>\<open>net/timerqueue.cc\<close>. The set of pairs
  (expiration, pointer) is the list of its elements in order; the timers themselves live on a heap,
  a map from addresses to timers in which a deleted timer has no value, so that an access to a
  deleted timer is an error. The kernel's timer descriptor is what it was last set to.

  Callbacks run in the loop thread and may add and cancel timers. What a callback does to the queue
  is the parameter \<open>run\<close>; the locale \<open>timer_callbacks\<close> states what the queue relies on, and
  callbacks that perform any list of \<^verbatim>\<open>AddTimer\<close> and \<^verbatim>\<open>Cancel\<close> calls are an
  interpretation of it.
\<close>

section \<open>State\<close>

type_synonym addr = "64 word"
type_synonym entry = "timestamp \<times> addr"

record 'cb tqueue =
  tq_timers :: "entry list"
  tq_heap :: "addr \<rightharpoonup> 'cb timer"
  tq_canceling :: "(addr \<times> int) list"
  tq_armed :: "(timestamp \<times> timestamp \<times> int \<times> int) option"
  tq_created :: int
  tq_tid :: int

definition uintptr_max :: addr where
  "uintptr_max = - 1"

definition TimerQueue_new :: "int \<Rightarrow> 'cb tqueue" where
  "TimerQueue_new tid =
     \<lparr>tq_timers = [], tq_heap = Map.empty, tq_canceling = [], tq_armed = None, tq_created = 0, tq_tid = tid\<rparr>"

section \<open>The timer descriptor\<close>

text \<open>Seconds and nanoseconds from the clock reading \<open>clock\<close> to \<open>when\<close>, at least 100 microseconds.\<close>

definition HowMuchTimeFromNow :: "timestamp \<Rightarrow> timestamp \<Rightarrow> int \<times> int" where
  "HowMuchTimeFromNow clock when' =
     (let d = MicroSecondsSinceEpoch when' - MicroSecondsSinceEpoch clock;
          microseconds = (if d < 100 then 100 else d) in
      (cquot microseconds kMicroSecondsPerSecond, crem microseconds kMicroSecondsPerSecond * 1000))"

text \<open>The descriptor remembers for which expiration and when it was set, and to which delay.\<close>

definition ResetTimerfd :: "timestamp \<Rightarrow> timestamp \<Rightarrow> 'cb tqueue \<Rightarrow> 'cb tqueue" where
  "ResetTimerfd clock expiration q =
     q\<lparr>tq_armed := Some (expiration, clock, HowMuchTimeFromNow clock expiration)\<rparr>"

text \<open>The setting has no interval: once the descriptor has fired and was read it is disarmed.\<close>

definition ReadTimerfd :: "'cb tqueue \<Rightarrow> 'cb tqueue" where
  "ReadTimerfd q = q\<lparr>tq_armed := None\<rparr>"

section \<open>Operations\<close>

definition deref :: "'cb tqueue \<Rightarrow> addr \<Rightarrow> 'cb timer res" where
  "deref q p = (case tq_heap q p of None \<Rightarrow> Inl UseAfterFree | Some t \<Rightarrow> Inr t)"

definition AssertInLoopThread :: "int \<Rightarrow> 'cb tqueue \<Rightarrow> unit res" where
  "AssertInLoopThread tid q = cxx_assert (tid = tq_tid q)"

definition TimerQueue_Insert :: "int \<Rightarrow> addr \<Rightarrow> 'cb tqueue \<Rightarrow> (bool \<times> 'cb tqueue) res" where
  "TimerQueue_Insert tid p q =
     rbind (AssertInLoopThread tid q) (\<lambda>_.
     rbind (deref q p) (\<lambda>t.
     let expiration = tm_expiration t;
         isEarliest = (tq_timers q = [] \<or> expiration < fst (hd (tq_timers q)))
     in Inr (isEarliest, q\<lparr>tq_timers := insort_insert (expiration, p) (tq_timers q)\<rparr>)))"

definition AddTimerInLoop :: "int \<Rightarrow> timestamp \<Rightarrow> addr \<Rightarrow> 'cb tqueue \<Rightarrow> 'cb tqueue res" where
  "AddTimerInLoop tid clock p q =
     rbind (AssertInLoopThread tid q) (\<lambda>_.
     rbind (TimerQueue_Insert tid p q) (\<lambda>(needReset, q').
     if needReset then rbind (deref q' p) (\<lambda>t. Inr (ResetTimerfd clock (tm_expiration t) q'))
     else Inr q'))"

text \<open>
  \<^verbatim>\<open>AddTimer\<close> allocates a timer (at the address \<open>p\<close> that \<^verbatim>\<open>new\<close> returned) and inserts it; the
  caller is the loop thread, so \<^verbatim>\<open>RunInLoop\<close> runs the insertion at once. The result is the identifier.
\<close>

definition AddTimer :: "int \<Rightarrow> timestamp \<Rightarrow> addr \<Rightarrow> 'cb \<Rightarrow> timestamp \<Rightarrow> rat \<Rightarrow> 'cb tqueue
    \<Rightarrow> ((addr option \<times> int) \<times> 'cb tqueue) res" where
  "AddTimer tid clock p cb expiration interval q =
     (let t = Timer_new cb expiration interval (tq_created q);
          q1 = q\<lparr>tq_created := tq_created q + 1, tq_heap := (tq_heap q)(p \<mapsto> t)\<rparr> in
      rbind (AddTimerInLoop tid clock p q1) (\<lambda>q2. Inr ((Some p, tm_sequence t), q2)))"

definition CancelTimerIdInLoop :: "int \<Rightarrow> addr option \<times> int \<Rightarrow> 'cb tqueue \<Rightarrow> 'cb tqueue res" where
  "CancelTimerIdInLoop tid timerid q =
     rbind (AssertInLoopThread tid q) (\<lambda>_.
     case fst timerid of
       None \<Rightarrow> Inr q
     | Some p \<Rightarrow>
         rbind (deref q p) (\<lambda>t.
         Inr (q\<lparr>tq_timers := remove1 (tm_expiration t, p) (tq_timers q)\<rparr>)))"

definition GetExpired :: "timestamp \<Rightarrow> 'cb tqueue \<Rightarrow> entry list \<times> 'cb tqueue" where
  "GetExpired now q =
     (let sentry = (now, uintptr_max) in
      (takeWhile (\<lambda>e. e < sentry) (tq_timers q),
       q\<lparr>tq_timers := dropWhile (\<lambda>e. e < sentry) (tq_timers q)\<rparr>))"

definition run_expired :: "('cb \<Rightarrow> 'cb tqueue \<Rightarrow> 'cb tqueue res) \<Rightarrow> entry \<Rightarrow> 'cb tqueue \<Rightarrow> 'cb tqueue res" where
  "run_expired run it q = rbind (deref q (snd it)) (\<lambda>t. run (tm_callback t) q)"

definition reset_one :: "(rat \<Rightarrow> rat) \<Rightarrow> int \<Rightarrow> timestamp \<Rightarrow> entry \<Rightarrow> 'cb tqueue \<Rightarrow> 'cb tqueue res" where
  "reset_one rnd tid now it q =
     rbind (deref q (snd it)) (\<lambda>t.
     let isCancelled = (tm_repeat t \<and> (snd it, tm_sequence t) \<notin> set (tq_canceling q)) in
     if tm_repeat t \<and> isCancelled
     then rbind (TimerQueue_Insert tid (snd it)
                  (q\<lparr>tq_heap := (tq_heap q)(snd it \<mapsto> Timer_Restart rnd now t)\<rparr>)) (\<lambda>(_, q'). Inr q')
     else Inr (q\<lparr>tq_heap := (tq_heap q)(snd it := None)\<rparr>))"

definition TimerQueue_Reset :: "(rat \<Rightarrow> rat) \<Rightarrow> int \<Rightarrow> timestamp \<Rightarrow> timestamp \<Rightarrow> entry list \<Rightarrow> 'cb tqueue
    \<Rightarrow> 'cb tqueue res" where
  "TimerQueue_Reset rnd tid clock now expired q =
     rbind (rfold (reset_one rnd tid now) expired q) (\<lambda>q.
     rbind (if tq_timers q = [] then Inr TimeStamp_InValid
            else rbind (deref q (snd (hd (tq_timers q)))) (\<lambda>t. Inr (tm_expiration t))) (\<lambda>nextExpire.
     Inr (if TimeStamp_Valid nextExpire then ResetTimerfd clock nextExpire q else q)))"

definition TimerQueue_HandleRead :: "('cb \<Rightarrow> 'cb tqueue \<Rightarrow> 'cb tqueue res) \<Rightarrow> (rat \<Rightarrow> rat) \<Rightarrow> int \<Rightarrow> timestamp
    \<Rightarrow> timestamp \<Rightarrow> 'cb tqueue \<Rightarrow> 'cb tqueue res" where
  "TimerQueue_HandleRead run rnd tid clock now q =
     rbind (AssertInLoopThread tid q) (\<lambda>_.
     let (expired, q1) = GetExpired now (ReadTimerfd q) in
     rbind (rfold (run_expired run) expired (q1\<lparr>tq_canceling := []\<rparr>)) (\<lambda>q2.
     TimerQueue_Reset rnd tid clock now expired q2))"

section \<open>Invariant\<close>

text \<open>
  The queue is a set ordered by expiration and address, and every entry belongs to a live timer that
  expires at that time.
\<close>

definition tq_wf :: "'cb tqueue \<Rightarrow> bool" where
  "tq_wf q \<longleftrightarrow> sorted_wrt (<) (tq_timers q) \<and>
     (\<forall>(e, p) \<in> set (tq_timers q). p \<noteq> uintptr_max \<and> (\<exists>t. tq_heap q p = Some t \<and> tm_expiration t = e))"

definition queued :: "'cb tqueue \<Rightarrow> addr set" where
  "queued q = snd ` set (tq_timers q)"

text \<open>A timer that is live and not in the queue: it has expired and its callback is due or running.\<close>

definition detached :: "'cb tqueue \<Rightarrow> addr \<Rightarrow> 'cb timer \<Rightarrow> bool" where
  "detached q p t \<longleftrightarrow> tq_heap q p = Some t \<and> p \<notin> queued q \<and> p \<noteq> uintptr_max"

text \<open>
  If the earliest timer expires within \<open>V\<close>, the descriptor is set for it or for an earlier time. Between
  the reading of the descriptor and the reset at the end of \<^verbatim>\<open>HandleRead\<close> this holds only for timers
  that expire at the epoch or before.
\<close>

definition armed_on :: "(timestamp \<Rightarrow> bool) \<Rightarrow> 'cb tqueue \<Rightarrow> bool" where
  "armed_on V q \<longleftrightarrow>
     (tq_timers q \<noteq> [] \<and> V (fst (hd (tq_timers q))) \<longrightarrow>
       (\<exists>e spec. tq_armed q = Some (e, spec) \<and> e \<le> fst (hd (tq_timers q))))"

abbreviation armed_ok :: "'cb tqueue \<Rightarrow> bool" where
  "armed_ok \<equiv> armed_on (\<lambda>_. True)"

abbreviation armed_past :: "'cb tqueue \<Rightarrow> bool" where
  "armed_past \<equiv> armed_on (\<lambda>e. e \<le> TimeStamp 0)"

lemma tq_wf_strict: "tq_wf q \<Longrightarrow> sorted (tq_timers q) \<and> distinct (tq_timers q)"
  by (simp add: tq_wf_def strict_sorted_iff)

lemma tq_wf_live:
  "tq_wf q \<Longrightarrow> (e, p) \<in> set (tq_timers q) \<Longrightarrow> p \<noteq> uintptr_max \<and> (\<exists>t. tq_heap q p = Some t \<and> tm_expiration t = e)"
  by (auto simp: tq_wf_def)

lemma tq_wf_unique:
  "tq_wf q \<Longrightarrow> (e, p) \<in> set (tq_timers q) \<Longrightarrow> (e', p) \<in> set (tq_timers q) \<Longrightarrow> e = e'"
  using tq_wf_live [of q e p] tq_wf_live [of q e' p] by auto

lemma distinct_queued: "tq_wf q \<Longrightarrow> distinct (map snd (tq_timers q))"
proof -
  assume wf: "tq_wf q"
  then have "inj_on snd (set (tq_timers q))"
    using tq_wf_unique [OF wf] by (auto simp: inj_on_def)
  then show ?thesis using tq_wf_strict [OF wf] by (simp add: distinct_map)
qed

lemma insort_insert_strict:
  "sorted_wrt (<) xs \<Longrightarrow> sorted_wrt (<) (insort_insert x (xs :: 'a :: linorder list))"
  by (simp add: strict_sorted_iff sorted_insort_insert distinct_insort_insert)

declare set_insort_insert [simp]

text \<open>Inserting a detached timer.\<close>

lemma Insert_ok:
  assumes "tq_wf q" and "detached q p t" and "tid = tq_tid q"
  shows "\<exists>b. TimerQueue_Insert tid p q = Inr (b, q\<lparr>tq_timers := insort_insert (tm_expiration t, p) (tq_timers q)\<rparr>)
    \<and> b = (tq_timers q = [] \<or> tm_expiration t < fst (hd (tq_timers q)))"
  using assms by (simp add: TimerQueue_Insert_def AssertInLoopThread_def deref_def detached_def Let_def)

lemma tq_wf_insert:
  assumes "tq_wf q" and "tq_heap q p = Some t" and "p \<noteq> uintptr_max"
  shows "tq_wf (q\<lparr>tq_timers := insort_insert (tm_expiration t, p) (tq_timers q)\<rparr>)"
  using assms by (auto simp: tq_wf_def insort_insert_strict)

text \<open>Writing to a timer outside the queue, or deleting it, does not concern the queue.\<close>

lemma tq_wf_heap_upd:
  "tq_wf q \<Longrightarrow> p \<notin> queued q \<Longrightarrow> tq_wf (q\<lparr>tq_heap := (tq_heap q)(p := x)\<rparr>)"
  by (fastforce simp: tq_wf_def queued_def image_iff)

lemma tq_wf_cong:
  "tq_timers q = tq_timers q' \<Longrightarrow> tq_heap q = tq_heap q' \<Longrightarrow> tq_wf q = tq_wf q'"
  by (simp add: tq_wf_def)

lemma hd_insort_insert_le:
  fixes x :: "'a :: linorder"
  assumes "sorted xs"
  shows "xs \<noteq> [] \<Longrightarrow> hd (insort_insert x xs) = (if x < hd xs then x else hd xs)"
  using assms by (cases xs) (auto simp: insort_insert_key_def)

lemma AddTimerInLoop_ok:
  assumes wf: "tq_wf q" and d: "detached q p t" and tid: "tid = tq_tid q" and armed: "armed_on V q"
  shows "\<exists>q'. AddTimerInLoop tid clock p q = Inr q' \<and> tq_wf q' \<and> armed_on V q' \<and> tq_tid q' = tq_tid q \<and>
    tq_heap q' = tq_heap q \<and> tq_canceling q' = tq_canceling q \<and>
    set (tq_timers q') = insert (tm_expiration t, p) (set (tq_timers q))"
proof -
  let ?q1 = "q\<lparr>tq_timers := insort_insert (tm_expiration t, p) (tq_timers q)\<rparr>"
  have wf1: "tq_wf ?q1" using wf d by (intro tq_wf_insert) (auto simp: detached_def)
  show ?thesis
  proof (cases "tq_timers q = [] \<or> tm_expiration t < fst (hd (tq_timers q))")
    case True
    then have hd: "hd (insort_insert (tm_expiration t, p) (tq_timers q)) = (tm_expiration t, p)"
    proof
      assume "tq_timers q = []"
      then show ?thesis by (simp add: insort_insert_key_def)
    next
      assume "tm_expiration t < fst (hd (tq_timers q))"
      then show ?thesis
        using hd_insort_insert_le [of "tq_timers q" "(tm_expiration t, p)"] tq_wf_strict [OF wf]
        by (cases "tq_timers q") (auto simp: insort_insert_key_def less_prod_def)
    qed
    let ?q2 = "ResetTimerfd clock (tm_expiration t) ?q1"
    have "AddTimerInLoop tid clock p q = Inr ?q2"
      using Insert_ok [OF wf d tid] True d tid
      by (auto simp: AddTimerInLoop_def AssertInLoopThread_def deref_def detached_def)
    moreover have "tq_wf ?q2" using wf1 by (simp add: ResetTimerfd_def tq_wf_def)
    moreover have "armed_on V ?q2" by (simp add: armed_on_def ResetTimerfd_def hd)
    ultimately show ?thesis by (simp add: ResetTimerfd_def)
  next
    case False
    then have "AddTimerInLoop tid clock p q = Inr ?q1"
      using Insert_ok [OF wf d tid] tid by (auto simp: AddTimerInLoop_def AssertInLoopThread_def)
    moreover have "fst (hd (insort_insert (tm_expiration t, p) (tq_timers q))) = fst (hd (tq_timers q))"
      using False hd_insort_insert_le [of "tq_timers q" "(tm_expiration t, p)"] tq_wf_strict [OF wf]
      by (auto simp: less_prod_def)
    then have "armed_on V ?q1" using armed False by (simp add: armed_on_def)
    ultimately show ?thesis using wf1 by simp
  qed
qed

lemma tq_wf_remove1: "tq_wf q \<Longrightarrow> tq_wf (q\<lparr>tq_timers := remove1 x (tq_timers q)\<rparr>)"
  by (auto simp: tq_wf_def strict_sorted_iff sorted_remove1 dest!: notin_set_remove1 set_remove1_subset [THEN subsetD])

lemma hd_remove1_ge:
  fixes xs :: "entry list"
  assumes "sorted xs" and "remove1 x xs \<noteq> []"
  shows "fst (hd xs) \<le> fst (hd (remove1 x xs))"
proof -
  have "hd (remove1 x xs) \<in> set xs"
    using assms(2) by (meson hd_in_set set_remove1_subset subsetD)
  then have "hd xs \<le> hd (remove1 x xs)" using assms(1) by (cases xs) auto
  then show ?thesis by (auto simp: less_eq_prod_def)
qed

lemma Cancel_ok:
  assumes "tq_wf q" and "armed_on V q" and "CancelTimerIdInLoop tid timerid q = Inr q'"
    and "\<And>x y. V y \<Longrightarrow> x \<le> y \<Longrightarrow> V x"
  shows "tq_wf q' \<and> armed_on V q' \<and> tq_tid q' = tq_tid q \<and> tq_heap q' = tq_heap q \<and>
    tq_canceling q' = tq_canceling q \<and> set (tq_timers q') \<subseteq> set (tq_timers q)"
proof (cases "fst timerid")
  case None
  then show ?thesis using assms by (auto simp: CancelTimerIdInLoop_def elim!: rbind_InrE)
next
  case (Some p)
  then obtain x where q': "q' = q\<lparr>tq_timers := remove1 (x, p) (tq_timers q)\<rparr>"
    using assms(3) by (auto simp: CancelTimerIdInLoop_def rbind_Inr_iff)
  have "armed_on V q'"
  proof -
    have le: "remove1 (x, p) (tq_timers q) \<noteq> [] \<Longrightarrow>
        fst (hd (tq_timers q)) \<le> fst (hd (remove1 (x, p) (tq_timers q)))"
      using hd_remove1_ge [of "tq_timers q" "(x, p)"] tq_wf_strict [OF assms(1)] by simp
    moreover have "remove1 (x, p) (tq_timers q) \<noteq> [] \<Longrightarrow> tq_timers q \<noteq> []" by auto
    ultimately show ?thesis
      using assms(2) assms(4) [OF _ le] by (auto simp: armed_on_def q' intro: order_trans)
  qed
  then show ?thesis
    using q' tq_wf_remove1 [OF assms(1)] by (simp add: set_remove1_subset)
qed

text \<open>The sentry splits the ordered queue at the time of the reading.\<close>

lemma less_sentry: "p \<noteq> uintptr_max \<Longrightarrow> (e :: timestamp, p) < (now, uintptr_max) \<longleftrightarrow> e \<le> now"
proof -
  assume "p \<noteq> uintptr_max"
  moreover have "p \<le> uintptr_max" by (simp add: uintptr_max_def)
  ultimately have "p < uintptr_max" by simp
  then show ?thesis by (auto simp: less_prod_def)
qed

lemma sorted_takeWhile_dropWhile:
  fixes x :: "'a :: linorder"
  assumes "sorted xs"
  shows "takeWhile (\<lambda>e. e < x) xs = filter (\<lambda>e. e < x) xs"
    and "dropWhile (\<lambda>e. e < x) xs = filter (\<lambda>e. \<not> e < x) xs"
proof -
  show "takeWhile (\<lambda>e. e < x) xs = filter (\<lambda>e. e < x) xs"
    using assms
  proof (induction xs)
    case (Cons a xs)
    then have "\<not> a < x \<Longrightarrow> \<forall>y \<in> set xs. \<not> y < x" by force
    then show ?case using Cons by (auto simp: filter_empty_conv eq_commute [of "[]"])
  qed simp
  show "dropWhile (\<lambda>e. e < x) xs = filter (\<lambda>e. \<not> e < x) xs"
    using assms
  proof (induction xs)
    case (Cons a xs)
    then have "\<not> a < x \<Longrightarrow> \<forall>y \<in> set xs. \<not> y < x" by force
    then show ?case using Cons by auto
  qed simp
qed

lemma GetExpired_split:
  assumes wf: "tq_wf q"
  shows "GetExpired now q =
    (filter (\<lambda>(e, p). e \<le> now) (tq_timers q), q\<lparr>tq_timers := filter (\<lambda>(e, p). now < e) (tq_timers q)\<rparr>)"
proof -
  have eq: "(x < (now, uintptr_max)) = (case x of (e, p) \<Rightarrow> e \<le> now)" if "x \<in> set (tq_timers q)" for x
  proof (cases x)
    case (Pair e p)
    then show ?thesis using that tq_wf_live [OF wf, of e p] less_sentry [of p e now] by simp
  qed
  have neq: "(\<not> x < (now, uintptr_max)) = (case x of (e, p) \<Rightarrow> now < e)" if "x \<in> set (tq_timers q)" for x
    using eq [OF that] by (simp add: case_prod_beta not_le)
  have "takeWhile (\<lambda>e. e < (now, uintptr_max)) (tq_timers q) = filter (\<lambda>(e, p). e \<le> now) (tq_timers q)"
    using sorted_takeWhile_dropWhile(1) [of "tq_timers q" "(now, uintptr_max)"] tq_wf_strict [OF wf]
      filter_cong [OF refl eq] by simp
  moreover have "dropWhile (\<lambda>e. e < (now, uintptr_max)) (tq_timers q) = filter (\<lambda>(e, p). now < e) (tq_timers q)"
    using sorted_takeWhile_dropWhile(2) [of "tq_timers q" "(now, uintptr_max)"] tq_wf_strict [OF wf]
      filter_cong [OF refl neq] by simp
  ultimately show ?thesis by (simp add: GetExpired_def Let_def)
qed

lemma tq_wf_filter: "tq_wf q \<Longrightarrow> tq_wf (q\<lparr>tq_timers := filter P (tq_timers q)\<rparr>)"
  by (auto simp: tq_wf_def sorted_wrt_filter)

text \<open>The expired timers are detached after the split.\<close>

lemma GetExpired_detached:
  assumes wf: "tq_wf q" and ge: "GetExpired now q = (expired, q')" and it: "(e, p) \<in> set expired"
  shows "\<exists>t. detached q' p t \<and> tm_expiration t = e"
proof -
  have ex: "expired = filter (\<lambda>(e, p). e \<le> now) (tq_timers q)"
    and q': "q' = q\<lparr>tq_timers := filter (\<lambda>(e, p). now < e) (tq_timers q)\<rparr>"
    using ge GetExpired_split [OF wf, of now] by simp_all
  from it ex have mem: "(e, p) \<in> set (tq_timers q)" "e \<le> now" by auto
  obtain t where t: "tq_heap q p = Some t" "tm_expiration t = e" "p \<noteq> uintptr_max"
    using tq_wf_live [OF wf mem(1)] by blast
  have "p \<notin> queued q'"
    using mem(2) tq_wf_unique [OF wf mem(1)] by (auto simp: queued_def q')
  then show ?thesis using t by (auto simp: detached_def q')
qed

section \<open>Running the callbacks and resetting the queue\<close>

text \<open>
  What the reset of one expired timer does: a repeating timer is restarted and queued again, any
  other is deleted.
\<close>

lemma reset_one_ok:
  assumes wf: "tq_wf q" and d: "detached q p t" and tid: "tid = tq_tid q" and c: "tq_canceling q = []"
  shows "reset_one rnd tid now (e, p) q = Inr
    (if tm_repeat t
     then q\<lparr>tq_heap := (tq_heap q)(p \<mapsto> Timer_Restart rnd now t),
            tq_timers := insort_insert (tm_expiration (Timer_Restart rnd now t), p) (tq_timers q)\<rparr>
     else q\<lparr>tq_heap := (tq_heap q)(p := None)\<rparr>)"
  using d tid c
  by (simp add: reset_one_def deref_def detached_def Let_def TimerQueue_Insert_def AssertInLoopThread_def)

definition reset_heap :: "(rat \<Rightarrow> rat) \<Rightarrow> timestamp \<Rightarrow> addr set \<Rightarrow> (addr \<rightharpoonup> 'cb timer) \<Rightarrow> addr \<rightharpoonup> 'cb timer" where
  "reset_heap rnd now ps h p =
     (if p \<in> ps
      then case h p of None \<Rightarrow> None | Some t \<Rightarrow> if tm_repeat t then Some (Timer_Restart rnd now t) else None
      else h p)"

definition restarted :: "(rat \<Rightarrow> rat) \<Rightarrow> timestamp \<Rightarrow> addr set \<Rightarrow> (addr \<rightharpoonup> 'cb timer) \<Rightarrow> entry set" where
  "restarted rnd now ps h =
     {(AddTime rnd now (tm_interval t), p) |p t. p \<in> ps \<and> h p = Some t \<and> tm_repeat t}"

lemma Restart_expiration: "tm_repeat t \<Longrightarrow> tm_expiration (Timer_Restart rnd now t) = AddTime rnd now (tm_interval t)"
  by (simp add: Timer_Restart_def)

lemma restarted_insert:
  "p \<notin> ps \<Longrightarrow> h p = Some t \<Longrightarrow> restarted rnd now (insert p ps) h =
    (if tm_repeat t then {(AddTime rnd now (tm_interval t), p)} else {}) \<union> restarted rnd now ps h"
  by (auto simp: restarted_def)

lemma restarted_frame: "p \<notin> ps \<Longrightarrow> restarted rnd now ps (h(p := x)) = restarted rnd now ps h"
  unfolding restarted_def by (intro Collect_cong) (metis fun_upd_other)

lemma reset_all_ok:
  assumes "tq_wf q" and "distinct (map snd es)" and "\<forall>it \<in> set es. \<exists>t. detached q (snd it) t"
    and "tid = tq_tid q" and "tq_canceling q = []"
  shows "\<exists>q'. rfold (reset_one rnd tid now) es q = Inr q' \<and> tq_wf q' \<and> tq_tid q' = tq_tid q \<and>
    tq_armed q' = tq_armed q \<and> tq_heap q' = reset_heap rnd now (snd ` set es) (tq_heap q) \<and>
    set (tq_timers q') = set (tq_timers q) \<union> restarted rnd now (snd ` set es) (tq_heap q)"
  using assms
proof (induction es arbitrary: q)
  case Nil
  then show ?case by (simp add: reset_heap_def restarted_def fun_eq_iff)
next
  case (Cons it es)
  obtain e p where it: "it = (e, p)" by (cases it)
  from Cons.prems(3) it obtain t where t: "detached q p t" by auto
  define q1 where "q1 = (if tm_repeat t
     then q\<lparr>tq_heap := (tq_heap q)(p \<mapsto> Timer_Restart rnd now t),
            tq_timers := insort_insert (tm_expiration (Timer_Restart rnd now t), p) (tq_timers q)\<rparr>
     else q\<lparr>tq_heap := (tq_heap q)(p := None)\<rparr>)"
  have step: "reset_one rnd tid now it q = Inr q1"
    unfolding it q1_def by (rule reset_one_ok [OF Cons.prems(1) t Cons.prems(4,5)])
  have wf0: "tq_wf (q\<lparr>tq_heap := (tq_heap q)(p := x)\<rparr>)" for x
    using Cons.prems(1) t by (intro tq_wf_heap_upd) (auto simp: detached_def)
  have wf1: "tq_wf q1"
    using wf0 [of None] wf0 [of "Some (Timer_Restart rnd now t)"] t
      tq_wf_insert [of "q\<lparr>tq_heap := (tq_heap q)(p \<mapsto> Timer_Restart rnd now t)\<rparr>" p "Timer_Restart rnd now t"]
    by (simp add: q1_def detached_def)
  have det: "\<forall>it \<in> set es. \<exists>t. detached q1 (snd it) t"
    using Cons.prems(2,3) it by (fastforce simp: q1_def detached_def queued_def image_iff)
  have dist: "distinct (map snd es)" and frame: "tid = tq_tid q1" "tq_canceling q1 = []"
    using Cons.prems by (simp_all add: q1_def)
  obtain q' where q': "rfold (reset_one rnd tid now) es q1 = Inr q'" "tq_wf q'" "tq_tid q' = tq_tid q1"
    "tq_armed q' = tq_armed q1" "tq_heap q' = reset_heap rnd now (snd ` set es) (tq_heap q1)"
    "set (tq_timers q') = set (tq_timers q1) \<union> restarted rnd now (snd ` set es) (tq_heap q1)"
    using Cons.IH [OF wf1 dist det frame] by blast
  have p: "p \<notin> snd ` set es" using Cons.prems(2) it by simp
  have "tq_heap q' = reset_heap rnd now (snd ` set (it # es)) (tq_heap q)"
    using p t it by (auto simp: q'(5) q1_def reset_heap_def detached_def fun_eq_iff)
  moreover have "set (tq_timers q') = set (tq_timers q) \<union> restarted rnd now (snd ` set (it # es)) (tq_heap q)"
    using p t it by (simp add: q'(6) q1_def restarted_insert restarted_frame detached_def Restart_expiration)
  ultimately show ?case using q'(1-4) step by (simp add: q1_def)
qed

text \<open>Restarted timers expire after the epoch, so they do not disturb the setting for timers before it.\<close>

lemma armed_past_frame:
  assumes "armed_past q" and "tq_armed q' = tq_armed q"
    and "sorted (tq_timers q)" and "sorted (tq_timers q')"
    and "set (tq_timers q') = set (tq_timers q) \<union> R" and "\<forall>(e, p) \<in> R. TimeStamp 0 < e"
  shows "armed_past q'"
proof -
  have "\<exists>e spec. tq_armed q' = Some (e, spec) \<and> e \<le> fst (hd (tq_timers q'))"
    if ne: "tq_timers q' \<noteq> []" and past: "fst (hd (tq_timers q')) \<le> TimeStamp 0"
  proof -
    obtain e p where hd': "hd (tq_timers q') = (e, p)" by force
    then have "(e, p) \<in> set (tq_timers q')" using ne hd_in_set by fastforce
    moreover have "(e, p) \<notin> R" using assms(6) past hd' by auto
    ultimately have mem: "(e, p) \<in> set (tq_timers q)" using assms(5) by simp
    then have ne0: "tq_timers q \<noteq> []" by auto
    have le: "hd (tq_timers q) \<le> (e, p)" using mem assms(3) by (cases "tq_timers q") auto
    have "hd (tq_timers q) \<in> set (tq_timers q')" using ne0 assms(5) by simp
    then have "(e, p) \<le> hd (tq_timers q)" using assms(4) ne hd' by (cases "tq_timers q'") auto
    then have "hd (tq_timers q) = (e, p)" using le by simp
    then show ?thesis using assms(1,2) past ne0 hd' by (simp add: armed_on_def)
  qed
  then show ?thesis by (simp add: armed_on_def)
qed

text \<open>Rounding is assumed to keep the sign, as rounding to the nearest double does.\<close>

lemma AddTime_ge:
  assumes "0 \<le> s" and "\<forall>x. 0 \<le> x \<longrightarrow> 0 \<le> rnd x"
  shows "t \<le> AddTime rnd t s"
proof -
  have "0 \<le> rnd (s * of_int kMicroSecondsPerSecond)" using assms by (simp add: kMicroSecondsPerSecond_def)
  then have "0 \<le> double_to_int (rnd (s * of_int kMicroSecondsPerSecond))" by (simp add: double_to_int_def)
  then show ?thesis by (cases t) (simp add: AddTime_def Let_def)
qed

text \<open>A repeating timer has a positive interval; the constructor sees to it.\<close>

definition intervals_ok :: "'cb tqueue \<Rightarrow> bool" where
  "intervals_ok q \<longleftrightarrow> (\<forall>p t. tq_heap q p = Some t \<longrightarrow> tm_repeat t = (tm_interval t > 0))"

lemma TimerQueue_Reset_ok:
  assumes "tq_wf q" and "distinct (map snd es)" and "\<forall>it \<in> set es. \<exists>t. detached q (snd it) t"
    and "tid = tq_tid q" and "tq_canceling q = []" and "armed_past q" and "intervals_ok q"
    and now: "TimeStamp 0 < now" and rnd: "\<forall>x. 0 \<le> x \<longrightarrow> 0 \<le> rnd x"
  shows "\<exists>q'. TimerQueue_Reset rnd tid clock now es q = Inr q' \<and> tq_wf q' \<and> armed_ok q' \<and> tq_tid q' = tq_tid q \<and>
    tq_heap q' = reset_heap rnd now (snd ` set es) (tq_heap q) \<and>
    set (tq_timers q') = set (tq_timers q) \<union> restarted rnd now (snd ` set es) (tq_heap q)"
proof -
  obtain q1 where q1: "rfold (reset_one rnd tid now) es q = Inr q1" "tq_wf q1" "tq_tid q1 = tq_tid q"
    "tq_armed q1 = tq_armed q" "tq_heap q1 = reset_heap rnd now (snd ` set es) (tq_heap q)"
    "set (tq_timers q1) = set (tq_timers q) \<union> restarted rnd now (snd ` set es) (tq_heap q)"
    using reset_all_ok [OF assms(1-5)] by blast
  have "TimeStamp 0 < AddTime rnd now i" if "0 < i" for i
    using now AddTime_ge [of i rnd now] that rnd by force
  then have "\<forall>(e, p) \<in> restarted rnd now (snd ` set es) (tq_heap q). TimeStamp 0 < e"
    using assms(7) by (auto simp: restarted_def intervals_ok_def)
  then have past: "armed_past q1"
    using armed_past_frame [OF assms(6) q1(4) _ _ q1(6)] tq_wf_strict [OF assms(1)] tq_wf_strict [OF q1(2)] by simp
  show ?thesis
  proof (cases "tq_timers q1")
    case Nil
    then have "TimerQueue_Reset rnd tid clock now es q = Inr q1"
      using q1(1) by (simp add: TimerQueue_Reset_def TimeStamp_Valid_def TimeStamp_InValid_def)
    then show ?thesis using q1 Nil by (simp add: armed_on_def)
  next
    case (Cons it rest)
    obtain e p where it: "it = (e, p)" by force
    then obtain t where t: "tq_heap q1 p = Some t" "tm_expiration t = e"
      using tq_wf_live [OF q1(2), of e p] Cons by auto
    let ?q2 = "if TimeStamp_Valid e then ResetTimerfd clock e q1 else q1"
    have "TimerQueue_Reset rnd tid clock now es q = Inr ?q2"
      using q1(1) t Cons it by (simp add: TimerQueue_Reset_def deref_def)
    moreover have "armed_ok ?q2"
    proof (cases "TimeStamp_Valid e")
      case True
      then show ?thesis using Cons it by (simp add: armed_on_def ResetTimerfd_def)
    next
      case False
      then have "e = TimeStamp 0" by (cases e) (simp add: TimeStamp_Valid_def)
      then show ?thesis using past False Cons it by (simp add: armed_on_def)
    qed
    moreover have "tq_wf ?q2" using q1(2) by (simp add: ResetTimerfd_def tq_wf_def)
    ultimately show ?thesis using q1 by (simp add: ResetTimerfd_def)
  qed
qed

section \<open>Callbacks\<close>

text \<open>What holds of the queue while callbacks run.\<close>

definition tq_running :: "'cb tqueue \<Rightarrow> bool" where
  "tq_running q \<longleftrightarrow> tq_wf q \<and> armed_past q \<and> intervals_ok q"

definition callbacks_of :: "'cb tqueue \<Rightarrow> entry list \<Rightarrow> 'cb list" where
  "callbacks_of q es = map (\<lambda>it. tm_callback (the (tq_heap q (snd it)))) es"

definition after_split :: "timestamp \<Rightarrow> 'cb tqueue \<Rightarrow> 'cb tqueue" where
  "after_split now q =
     q\<lparr>tq_timers := filter (\<lambda>(e, p). now < e) (tq_timers q), tq_canceling := [], tq_armed := None\<rparr>"

definition expired_at :: "timestamp \<Rightarrow> 'cb tqueue \<Rightarrow> entry list" where
  "expired_at now q = filter (\<lambda>(e, p). e \<le> now) (tq_timers q)"

lemma GetExpired_after_split:
  "tq_wf q \<Longrightarrow> GetExpired now (ReadTimerfd q) =
    (expired_at now q, (ReadTimerfd q)\<lparr>tq_timers := filter (\<lambda>(e, p). now < e) (tq_timers q)\<rparr>)"
  using GetExpired_split [of "ReadTimerfd q" now] by (simp add: ReadTimerfd_def tq_wf_def expired_at_def)

lemma after_split_detached:
  assumes wf: "tq_wf q"
  shows "\<forall>it \<in> set (expired_at now q). \<exists>t. detached (after_split now q) (snd it) t"
proof
  fix it
  assume it: "it \<in> set (expired_at now q)"
  obtain e p where ep: "it = (e, p)" by force
  have "\<exists>t. detached (q\<lparr>tq_timers := filter (\<lambda>(e, p). now < e) (tq_timers q)\<rparr>) p t \<and> tm_expiration t = e"
    using GetExpired_detached [OF wf GetExpired_split [OF wf]] it ep by (simp add: expired_at_def)
  then show "\<exists>t. detached (after_split now q) (snd it) t"
    by (auto simp: ep after_split_def detached_def queued_def)
qed

lemma after_split_running:
  assumes wf: "tq_wf q" and i: "intervals_ok q" and now: "TimeStamp 0 < now"
  shows "tq_running (after_split now q)"
proof -
  let ?xs = "filter (\<lambda>(e, p). now < e) (tq_timers q)"
  have "TimeStamp 0 < fst (hd ?xs)" if "?xs \<noteq> []"
    using hd_in_set [OF that] now by auto
  then have "armed_past (after_split now q)" by (auto simp: armed_on_def after_split_def)
  moreover have "tq_wf (after_split now q)"
    using tq_wf_filter [OF wf, of "\<lambda>(e, p). now < e"] by (simp add: after_split_def tq_wf_def)
  ultimately show ?thesis using i by (simp add: tq_running_def intervals_ok_def after_split_def)
qed

text \<open>
  What the queue relies on when it runs a callback: the callback keeps the queue well formed, leaves
  the cancelled set alone, and does not touch timers that are not in the queue.
\<close>

locale timer_callbacks =
  fixes run :: "'cb \<Rightarrow> 'cb tqueue \<Rightarrow> 'cb tqueue res"
  assumes run_running: "tq_running q \<Longrightarrow> run cb q = Inr q' \<Longrightarrow>
      tq_running q' \<and> tq_tid q' = tq_tid q \<and> tq_canceling q' = tq_canceling q"
    and run_detached: "tq_running q \<Longrightarrow> run cb q = Inr q' \<Longrightarrow> detached q p t \<Longrightarrow> detached q' p t"
begin

text \<open>Every expired timer's own callback runs, in the order of expiration, even if others added or cancelled timers.\<close>

lemma run_all:
  assumes "tq_running q" and "\<forall>it \<in> set es. \<exists>t. detached q (snd it) t"
  shows "rfold (run_expired run) es q = rfold run (callbacks_of q es) q"
  using assms
proof (induction es arbitrary: q)
  case (Cons it es)
  obtain t where t: "detached q (snd it) t" using Cons.prems(2) by auto
  then have heap: "tq_heap q (snd it) = Some t" by (simp add: detached_def)
  show ?case
  proof (cases "run (tm_callback t) q")
    case (Inl e)
    then show ?thesis using heap by (simp add: run_expired_def deref_def callbacks_of_def)
  next
    case (Inr q1)
    have pres: "detached q p u \<Longrightarrow> detached q1 p u" for p u
      using run_detached [OF Cons.prems(1) Inr] .
    have "callbacks_of q1 es = callbacks_of q es"
      unfolding callbacks_of_def
    proof (rule map_cong [OF refl])
      fix x
      assume "x \<in> set es"
      then obtain u where "detached q (snd x) u" using Cons.prems(2) by auto
      then show "tm_callback (the (tq_heap q1 (snd x))) = tm_callback (the (tq_heap q (snd x)))"
        using pres by (fastforce simp: detached_def)
    qed
    moreover have "rfold (run_expired run) es q1 = rfold run (callbacks_of q1 es) q1"
    proof (rule Cons.IH)
      show "tq_running q1" using run_running [OF Cons.prems(1) Inr] by simp
      show "\<forall>it \<in> set es. \<exists>t. detached q1 (snd it) t" using Cons.prems(2) pres by (meson list.set_intros(2))
    qed
    moreover have "run_expired run it q = Inr q1" using heap Inr by (simp add: run_expired_def deref_def)
    moreover have "callbacks_of q (it # es) = tm_callback t # callbacks_of q es"
      using heap by (simp add: callbacks_of_def)
    ultimately show ?thesis using Inr by simp
  qed
qed (simp add: callbacks_of_def)

lemma run_list:
  assumes "tq_running q" and "rfold run cbs q = Inr q'"
  shows "tq_running q' \<and> tq_tid q' = tq_tid q \<and> tq_canceling q' = tq_canceling q \<and>
    (\<forall>p t. detached q p t \<longrightarrow> detached q' p t)"
proof (rule rfold_invariant [OF assms(2)])
  show "tq_running q \<and> tq_tid q = tq_tid q \<and> tq_canceling q = tq_canceling q \<and>
    (\<forall>p t. detached q p t \<longrightarrow> detached q p t)" using assms(1) by simp
next
  fix cb q1 q2
  assume "tq_running q1 \<and> tq_tid q1 = tq_tid q \<and> tq_canceling q1 = tq_canceling q \<and>
      (\<forall>p t. detached q p t \<longrightarrow> detached q1 p t)"
    and "run cb q1 = Inr q2"
  then show "tq_running q2 \<and> tq_tid q2 = tq_tid q \<and> tq_canceling q2 = tq_canceling q \<and>
      (\<forall>p t. detached q p t \<longrightarrow> detached q2 p t)"
    using run_running [of q1 cb q2] run_detached [of q1 cb q2] by auto
qed

lemma HandleRead_runs:
  assumes wf: "tq_wf q" and i: "intervals_ok q" and tid: "tid = tq_tid q" and now: "TimeStamp 0 < now"
  shows "TimerQueue_HandleRead run rnd tid clock now q =
    rbind (rfold run (callbacks_of q (expired_at now q)) (after_split now q))
      (TimerQueue_Reset rnd tid clock now (expired_at now q))"
proof -
  have "(ReadTimerfd q)\<lparr>tq_timers := filter (\<lambda>(e, p). now < e) (tq_timers q)\<rparr>\<lparr>tq_canceling := []\<rparr> = after_split now q"
    by (simp add: ReadTimerfd_def after_split_def)
  moreover have "callbacks_of (after_split now q) es = callbacks_of q es" for es
    by (simp add: callbacks_of_def after_split_def)
  ultimately show ?thesis
    using GetExpired_after_split [OF wf, of now] tid
      run_all [OF after_split_running [OF wf i now] after_split_detached [OF wf]]
    by (simp add: TimerQueue_HandleRead_def AssertInLoopThread_def)
qed

lemma HandleRead_total:
  assumes wf: "tq_wf q" and i: "intervals_ok q" and tid: "tid = tq_tid q" and now: "TimeStamp 0 < now"
    and rnd: "\<forall>x. 0 \<le> x \<longrightarrow> 0 \<le> rnd x"
    and run: "rfold run (callbacks_of q (expired_at now q)) (after_split now q) = Inr q2"
  shows "\<exists>q'. TimerQueue_HandleRead run rnd tid clock now q = Inr q' \<and> tq_wf q' \<and> armed_ok q' \<and>
    tq_heap q' = reset_heap rnd now (snd ` set (expired_at now q)) (tq_heap q2) \<and>
    set (tq_timers q') = set (tq_timers q2) \<union> restarted rnd now (snd ` set (expired_at now q)) (tq_heap q2) \<and>
    intervals_ok q2 \<and> tq_tid q' = tq_tid q \<and>
    (\<forall>p \<in> snd ` set (expired_at now q). tq_heap q2 p = tq_heap q p \<and> p \<notin> queued q2)"
proof -
  note r = run_list [OF after_split_running [OF wf i now] run]
  have det: "\<forall>it \<in> set (expired_at now q). \<exists>t. detached q2 (snd it) t"
    using r after_split_detached [OF wf, of now] by blast
  have "distinct (map snd (expired_at now q))"
    using distinct_queued [OF wf] by (simp add: expired_at_def distinct_map_filter)
  moreover have "tq_tid q2 = tq_tid q" "tq_canceling q2 = []" using r by (simp_all add: after_split_def)
  moreover have "\<forall>p \<in> snd ` set (expired_at now q). tq_heap q2 p = tq_heap q p \<and> p \<notin> queued q2"
  proof
    fix p
    assume "p \<in> snd ` set (expired_at now q)"
    then obtain t where "detached (after_split now q) p t" using after_split_detached [OF wf, of now] by auto
    moreover from this have "detached q2 p t" using r by blast
    ultimately show "tq_heap q2 p = tq_heap q p \<and> p \<notin> queued q2" by (simp add: detached_def after_split_def)
  qed
  ultimately show ?thesis
    using TimerQueue_Reset_ok [of q2 "expired_at now q" tid now rnd clock] r det tid now rnd
      HandleRead_runs [OF wf i tid now, of rnd clock] run by (auto simp: tq_running_def)
qed

end

section \<open>Callbacks that add and cancel timers\<close>

text \<open>
  A callback is a list of calls on the queue. Allocation returns an address that is not in use.
\<close>

datatype tq_action =
    AddT addr "tq_action list" timestamp rat
  | CancelT "addr option" int

type_synonym callback = "tq_action list"

definition run_action :: "int \<Rightarrow> timestamp \<Rightarrow> tq_action \<Rightarrow> callback tqueue \<Rightarrow> callback tqueue res" where
  "run_action tid clock a q =
     (case a of
        AddT p cb expiration interval \<Rightarrow>
          if tq_heap q p \<noteq> None \<or> p = uintptr_max then Inl BadAlloc
          else rbind (AddTimer tid clock p cb expiration interval q) (\<lambda>(_, q'). Inr q')
      | CancelT p sequence \<Rightarrow> CancelTimerIdInLoop tid (p, sequence) q)"

definition run_actions :: "int \<Rightarrow> timestamp \<Rightarrow> callback \<Rightarrow> callback tqueue \<Rightarrow> callback tqueue res" where
  "run_actions tid clock = rfold (run_action tid clock)"

lemma tq_wf_fresh:
  assumes "tq_wf q" and "tq_heap q p = None"
  shows "p \<notin> queued q"
  using assms by (fastforce simp: tq_wf_def queued_def)

lemma AddTimer_ok:
  assumes wf: "tq_wf q" and arm: "armed_on V q" and i: "intervals_ok q"
    and fresh: "tq_heap q p = None" "p \<noteq> uintptr_max" and tid: "tid = tq_tid q"
  shows "\<exists>q'. AddTimer tid clock p cb expiration interval q = Inr ((Some p, tq_created q), q') \<and>
    tq_wf q' \<and> armed_on V q' \<and> intervals_ok q' \<and> tq_tid q' = tq_tid q \<and> tq_canceling q' = tq_canceling q \<and>
    tq_heap q' = (tq_heap q)(p \<mapsto> Timer_new cb expiration interval (tq_created q)) \<and>
    set (tq_timers q') = insert (expiration, p) (set (tq_timers q))"
proof -
  let ?t = "Timer_new cb expiration interval (tq_created q)"
  let ?q1 = "q\<lparr>tq_created := tq_created q + 1, tq_heap := (tq_heap q)(p \<mapsto> ?t)\<rparr>"
  note nq = tq_wf_fresh [OF wf fresh(1)]
  have "tq_wf (q\<lparr>tq_heap := (tq_heap q)(p \<mapsto> ?t)\<rparr>)" using tq_wf_heap_upd [OF wf nq] .
  then have wf1: "tq_wf ?q1" by (simp add: tq_wf_def)
  have d1: "detached ?q1 p ?t" using nq fresh by (simp add: detached_def queued_def)
  have arm1: "armed_on V ?q1" using arm by (simp add: armed_on_def)
  have i1: "intervals_ok ?q1" using i by (simp add: intervals_ok_def Timer_new_def)
  obtain q' where q': "AddTimerInLoop tid clock p ?q1 = Inr q'" "tq_wf q'" "armed_on V q'"
      "tq_tid q' = tq_tid ?q1" "tq_heap q' = tq_heap ?q1" "tq_canceling q' = tq_canceling ?q1"
      "set (tq_timers q') = insert (tm_expiration ?t, p) (set (tq_timers ?q1))"
    using AddTimerInLoop_ok [OF wf1 d1 _ arm1, of tid clock] tid by auto
  then have "intervals_ok q'" using i1 by (simp add: intervals_ok_def)
  then show ?thesis using q' by (simp add: AddTimer_def Let_def Timer_new_def)
qed

lemma detached_frame:
  assumes "detached q p t" and "tq_heap q' p = tq_heap q p" and "p \<in> queued q' \<Longrightarrow> p \<in> queued q"
  shows "detached q' p t"
  using assms by (auto simp: detached_def)

lemma run_action_ok:
  assumes wf: "tq_wf q" and arm: "armed_on V q" and i: "intervals_ok q"
    and run: "run_action tid clock a q = Inr q'" and V: "\<And>x y. V y \<Longrightarrow> x \<le> y \<Longrightarrow> V x"
  shows "tq_wf q' \<and> armed_on V q' \<and> intervals_ok q' \<and> tq_tid q' = tq_tid q \<and> tq_canceling q' = tq_canceling q \<and>
    (\<forall>p t. detached q p t \<longrightarrow> detached q' p t)"
proof (cases a)
  case (AddT p cb expiration interval)
  then have fresh: "tq_heap q p = None" "p \<noteq> uintptr_max"
    using run by (auto simp: run_action_def split: if_splits)
  have tid: "tid = tq_tid q"
    using run AddT fresh
    by (auto simp: run_action_def AddTimer_def AddTimerInLoop_def AssertInLoopThread_def Let_def elim!: rbind_InrE)
  obtain q2 where q2: "AddTimer tid clock p cb expiration interval q = Inr ((Some p, tq_created q), q2)"
    "tq_wf q2 \<and> armed_on V q2 \<and> intervals_ok q2 \<and> tq_tid q2 = tq_tid q \<and> tq_canceling q2 = tq_canceling q"
    "tq_heap q2 = (tq_heap q)(p \<mapsto> Timer_new cb expiration interval (tq_created q))"
    "set (tq_timers q2) = insert (expiration, p) (set (tq_timers q))"
    using AddTimer_ok [OF wf arm i fresh tid, of clock cb expiration interval] by blast
  have "q2 = q'" using run AddT fresh q2(1) by (simp add: run_action_def)
  moreover have "queued q2 = insert p (queued q)" by (simp add: queued_def q2(4))
  ultimately show ?thesis using q2(2,3) fresh by (auto simp: detached_def)
next
  case (CancelT p s)
  then have "CancelTimerIdInLoop tid (p, s) q = Inr q'" using run by (simp add: run_action_def)
  from Cancel_ok [OF wf arm this] V
  have c: "tq_wf q' \<and> armed_on V q' \<and> tq_tid q' = tq_tid q \<and> tq_heap q' = tq_heap q \<and>
    tq_canceling q' = tq_canceling q \<and> set (tq_timers q') \<subseteq> set (tq_timers q)" by blast
  then have "queued q' \<subseteq> queued q" by (auto simp: queued_def)
  then show ?thesis using c i by (auto simp: intervals_ok_def detached_def)
qed

lemma run_actions_ok:
  assumes "tq_running q" and "run_actions tid clock cb q = Inr q'"
  shows "tq_running q' \<and> tq_tid q' = tq_tid q \<and> tq_canceling q' = tq_canceling q \<and>
    (\<forall>p t. detached q p t \<longrightarrow> detached q' p t)"
  using assms unfolding run_actions_def
proof (induction cb arbitrary: q)
  case (Cons a cb)
  then obtain q1 where q1: "run_action tid clock a q = Inr q1" "rfold (run_action tid clock) cb q1 = Inr q'"
    by (auto elim: rbind_InrE)
  have 1: "tq_running q1 \<and> tq_tid q1 = tq_tid q \<and> tq_canceling q1 = tq_canceling q \<and>
      (\<forall>p t. detached q p t \<longrightarrow> detached q1 p t)"
    using run_action_ok [of q "\<lambda>e. e \<le> TimeStamp 0", OF _ _ _ q1(1)] Cons.prems(1) by (auto simp: tq_running_def)
  then show ?case using Cons.IH [OF _ q1(2)] by auto
qed simp

interpretation tcb: timer_callbacks "run_actions tid clock" for tid clock
  using run_actions_ok by unfold_locales blast+

section \<open>Reachable queues\<close>

text \<open>The queues a program can reach with calls from the loop thread and with firings of the descriptor.\<close>

inductive tq_reach :: "(rat \<Rightarrow> rat) \<Rightarrow> int \<Rightarrow> callback tqueue \<Rightarrow> bool" for rnd tid where
  start: "tq_reach rnd tid (TimerQueue_new tid)"
| call: "tq_reach rnd tid q \<Longrightarrow> run_action tid clock a q = Inr q' \<Longrightarrow> tq_reach rnd tid q'"
| fire: "tq_reach rnd tid q \<Longrightarrow> TimeStamp 0 < now \<Longrightarrow>
    TimerQueue_HandleRead (run_actions tid clock) rnd tid clock' now q = Inr q' \<Longrightarrow> tq_reach rnd tid q'"

text \<open>
  The delay handed to the kernel is at least 100 microseconds, is the distance to the expiration
  when that is larger, and is a proper time specification: the nanoseconds are below one second.
\<close>

lemma HowMuchTimeFromNow_spec:
  assumes "HowMuchTimeFromNow clock when' = (tv_sec, tv_nsec)"
  shows "0 \<le> tv_sec \<and> 0 \<le> tv_nsec \<and> tv_nsec < 1000000000 \<and>
    tv_sec * 1000000000 + tv_nsec =
      1000 * max 100 (MicroSecondsSinceEpoch when' - MicroSecondsSinceEpoch clock)"
proof -
  define us where "us = max 100 (MicroSecondsSinceEpoch when' - MicroSecondsSinceEpoch clock)"
  have us: "100 \<le> us" by (simp add: us_def)
  have "tv_sec = us div 1000000" "tv_nsec = us mod 1000000 * 1000"
    using assms us
    by (auto simp: HowMuchTimeFromNow_def Let_def us_def max_def cquot_nonneg crem_nonneg kMicroSecondsPerSecond_def
        split: if_splits)
  moreover have "us div 1000000 * 1000000 + us mod 1000000 = us" by simp
  moreover have "us mod 1000000 < 1000000" "0 \<le> us mod 1000000" "0 \<le> us div 1000000" using us by simp_all
  ultimately show ?thesis unfolding us_def [symmetric] by (intro conjI) linarith+
qed

text \<open>
  What the descriptor is set for is the expiration of a live timer, outside \<open>D\<close>, and the setting is the delay from the reading of the
  clock at that moment. While callbacks run, \<open>D\<close> are the timers that have expired.
\<close>

definition armed_live :: "addr set \<Rightarrow> 'cb tqueue \<Rightarrow> bool" where
  "armed_live D q \<longleftrightarrow> (\<forall>e c spec. tq_armed q = Some (e, c, spec) \<longrightarrow>
     spec = HowMuchTimeFromNow c e \<and> (\<exists>p t. p \<notin> D \<and> tq_heap q p = Some t \<and> tm_expiration t = e))"

lemma armed_live_mono:
  assumes "armed_live D q" and "tq_armed q' = tq_armed q" and "\<And>p. p \<in> dom (tq_heap q) - D \<Longrightarrow> tq_heap q' p = tq_heap q p"
    and sub: "D' \<subseteq> D"
  shows "armed_live D' q'"
  unfolding armed_live_def
proof (intro allI impI)
  fix e c spec
  assume "tq_armed q' = Some (e, c, spec)"
  then have "tq_armed q = Some (e, c, spec)" using assms(2) by simp
  then obtain p t where "spec = HowMuchTimeFromNow c e" "p \<notin> D" "tq_heap q p = Some t" "tm_expiration t = e"
    using assms(1) unfolding armed_live_def by blast
  then show "spec = HowMuchTimeFromNow c e \<and> (\<exists>p t. p \<notin> D' \<and> tq_heap q' p = Some t \<and> tm_expiration t = e)"
    using assms(3) [of p] sub by auto
qed

lemma run_action_armed:
  assumes run: "run_action tid clock a q = Inr q'" and live: "armed_live D q" "D \<subseteq> dom (tq_heap q)"
  shows "armed_live D q' \<and> D \<subseteq> dom (tq_heap q')"
proof (cases a)
  case (AddT p cb expiration interval)
  then have fresh: "tq_heap q p = None" using run by (auto simp: run_action_def split: if_splits)
  let ?t = "Timer_new cb expiration interval (tq_created q)"
  let ?h = "(tq_heap q)(p \<mapsto> ?t)"
  have q': "tq_heap q' = ?h \<and> (tq_armed q' = tq_armed q \<or> tq_armed q' = Some (expiration, clock, HowMuchTimeFromNow clock expiration))"
    using run AddT fresh
    by (auto simp: run_action_def AddTimer_def AddTimerInLoop_def TimerQueue_Insert_def deref_def ResetTimerfd_def Timer_new_def Let_def
        split: if_splits elim!: rbind_InrE)
  have p: "p \<notin> D" using live(2) fresh by auto
  show ?thesis
  proof (cases "tq_armed q' = tq_armed q")
    case True
    have "tq_heap q' x = tq_heap q x" if "x \<in> dom (tq_heap q) - D" for x using that q' fresh by auto
    then have "armed_live D q'" using armed_live_mono [OF live(1) True] by blast
    then show ?thesis using q' live(2) by auto
  next
    case False
    then show ?thesis using q' p live(2) by (auto simp: armed_live_def Timer_new_def)
  qed
next
  case (CancelT p n)
  then have "tq_heap q' = tq_heap q" "tq_armed q' = tq_armed q"
    using run by (auto simp: run_action_def CancelTimerIdInLoop_def split: option.splits elim!: rbind_InrE)
  then show ?thesis using armed_live_mono [OF live(1), of q' D] live(2) by simp
qed

lemma run_callbacks_armed:
  assumes "rfold (run_actions tid clock) cbs q = Inr q'" and "armed_live D q \<and> D \<subseteq> dom (tq_heap q)"
  shows "armed_live D q' \<and> D \<subseteq> dom (tq_heap q')"
  using assms
proof (rule rfold_invariant)
  fix cb q1 q2
  assume "armed_live D q1 \<and> D \<subseteq> dom (tq_heap q1)" "run_actions tid clock cb q1 = Inr q2"
  then show "armed_live D q2 \<and> D \<subseteq> dom (tq_heap q2)"
    unfolding run_actions_def using rfold_invariant [of "run_action tid clock" cb q1 q2 "\<lambda>q. armed_live D q \<and> D \<subseteq> dom (tq_heap q)"]
      run_action_armed by blast
qed

text \<open>The reset sets the descriptor for the first timer of the queue, or leaves it as it is.\<close>

lemma Reset_armed:
  assumes "TimerQueue_Reset rnd tid clock now es q = Inr q'" and "tq_wf q'"
  shows "tq_armed q' = (if tq_timers q' = [] \<or> fst (hd (tq_timers q')) = TimeStamp 0 then tq_armed q
    else Some (fst (hd (tq_timers q')), clock, HowMuchTimeFromNow clock (fst (hd (tq_timers q')))))"
proof -
  obtain q1 where q1: "rfold (reset_one rnd tid now) es q = Inr q1" using assms(1) by (auto simp: TimerQueue_Reset_def elim!: rbind_InrE)
  have "tq_armed q1 = tq_armed q"
    using q1 by (rule rfold_invariant)
      (auto simp: reset_one_def TimerQueue_Insert_def Let_def split: if_splits elim!: rbind_InrE)
  moreover have "\<exists>t. tq_heap q' (snd x) = Some t \<and> tm_expiration t = fst x" if "x \<in> set (tq_timers q')" for x
    using tq_wf_live [OF assms(2), of "fst x" "snd x"] that by simp
  note live = this [OF hd_in_set]
  have valid: "TimeStamp_Valid e \<longleftrightarrow> e \<noteq> TimeStamp 0" for e by (cases e) (simp add: TimeStamp_Valid_def)
  show ?thesis
  proof (cases "tq_timers q1 = []")
    case True
    then have "q' = q1" using assms(1) q1 by (simp add: TimerQueue_Reset_def TimeStamp_Valid_def TimeStamp_InValid_def)
    then show ?thesis using True calculation by simp
  next
    case False
    then obtain t where t: "tq_heap q1 (snd (hd (tq_timers q1))) = Some t"
      "q' = (if TimeStamp_Valid (tm_expiration t) then ResetTimerfd clock (tm_expiration t) q1 else q1)"
      using assms(1) q1 by (auto simp: TimerQueue_Reset_def deref_def split: option.splits elim!: rbind_InrE)
    then have same: "tq_timers q' = tq_timers q1" "tq_heap q' = tq_heap q1" by (simp_all add: ResetTimerfd_def)
    then have "tm_expiration t = fst (hd (tq_timers q'))" using live t(1) False by fastforce
    then show ?thesis using t(2) same False calculation valid by (simp add: ResetTimerfd_def)
  qed
qed

lemma HandleRead_armed:
  assumes wf: "tq_wf q" "intervals_ok q" "tid = tq_tid q" "TimeStamp 0 < now" "\<forall>x. 0 \<le> x \<longrightarrow> 0 \<le> rnd x"
    and h: "TimerQueue_HandleRead (run_actions tid clock) rnd tid clock' now q = Inr q'"
  shows "armed_live {} q'"
proof -
  let ?D = "snd ` set (expired_at now q)"
  obtain q2 where q2: "rfold (run_actions tid clock) (callbacks_of q (expired_at now q)) (after_split now q) = Inr q2"
    "TimerQueue_Reset rnd tid clock' now (expired_at now q) q2 = Inr q'"
    using h tcb.HandleRead_runs [OF wf(1-4)] by (auto elim: rbind_InrE)
  have q': "tq_wf q'" "tq_heap q' = reset_heap rnd now ?D (tq_heap q2)"
    using tcb.HandleRead_total [OF wf q2(1), where clock = clock'] h by auto
  have "armed_live ?D (after_split now q) \<and> ?D \<subseteq> dom (tq_heap (after_split now q))"
    using after_split_detached [OF wf(1), of now] by (auto simp: armed_live_def after_split_def detached_def)
  then have live: "armed_live ?D q2" using run_callbacks_armed [OF q2(1)] by blast
  show ?thesis
  proof (cases "tq_armed q' = tq_armed q2")
    case True
    then show ?thesis using armed_live_mono [OF live True, of "{}"] q'(2) by (simp add: reset_heap_def)
  next
    case False
    then have ne: "tq_timers q' \<noteq> []"
      and arm: "tq_armed q' = Some (fst (hd (tq_timers q')), clock', HowMuchTimeFromNow clock' (fst (hd (tq_timers q'))))"
      using Reset_armed [OF q2(2) q'(1)] by (auto split: if_splits)
    obtain t where "tq_heap q' (snd (hd (tq_timers q'))) = Some t" "tm_expiration t = fst (hd (tq_timers q'))"
      using tq_wf_live [OF q'(1), of "fst (hd (tq_timers q'))" "snd (hd (tq_timers q'))"] hd_in_set [OF ne] by auto
    then show ?thesis using arm by (auto simp: armed_live_def)
  qed
qed

lemma reset_heap_intervals:
  "intervals_ok q \<Longrightarrow> tq_heap q' = reset_heap rnd now ps (tq_heap q) \<Longrightarrow> intervals_ok q'"
  by (auto simp: intervals_ok_def reset_heap_def Timer_Restart_def split: if_splits option.splits)

lemma HandleRead_keeps:
  assumes "tq_wf q" and "intervals_ok q" and "tid = tq_tid q" and "TimeStamp 0 < now"
    and "\<forall>x. 0 \<le> x \<longrightarrow> 0 \<le> rnd x"
    and h: "TimerQueue_HandleRead (run_actions tid clock) rnd tid clock' now q = Inr q'"
  shows "tq_wf q' \<and> armed_ok q' \<and> intervals_ok q' \<and> tq_tid q' = tq_tid q"
proof -
  obtain q2 where q2: "rfold (run_actions tid clock) (callbacks_of q (expired_at now q)) (after_split now q) = Inr q2"
    using h tcb.HandleRead_runs [OF assms(1-4)] by (auto elim: rbind_InrE)
  have t: "tq_wf q' \<and> armed_ok q' \<and> tq_heap q' = reset_heap rnd now (snd ` set (expired_at now q)) (tq_heap q2) \<and>
      intervals_ok q2 \<and> tq_tid q' = tq_tid q"
    using tcb.HandleRead_total [OF assms(1-5) q2, where clock = clock'] h by auto
  then show ?thesis using reset_heap_intervals [of q2 q'] by blast
qed

lemma tq_reach_ok:
  assumes "tq_reach rnd tid q" and rnd: "\<forall>x. 0 \<le> x \<longrightarrow> 0 \<le> rnd x"
  shows "tq_wf q \<and> armed_ok q \<and> intervals_ok q \<and> tq_tid q = tid \<and> armed_live {} q"
  using assms(1)
proof induction
  case start
  then show ?case by (simp add: TimerQueue_new_def tq_wf_def armed_on_def intervals_ok_def armed_live_def)
next
  case (call q clock a q')
  then show ?case using run_action_ok [of q "\<lambda>_. True" tid clock a q'] run_action_armed [of tid clock a q q' "{}"] by simp
next
  case (fire q now clock clock' q')
  then show ?case using HandleRead_keeps [of q tid now rnd clock clock' q'] HandleRead_armed [of q tid now rnd clock clock' q'] rnd by simp
qed

text \<open>A concrete queue with a repeating timer at 10 ms and a one-shot timer at 20 ms; the first one's callback adds a timer.\<close>

definition example_tq :: "callback tqueue" where
  "example_tq =
     (case run_actions 7 (TimeStamp 1)
        [AddT 64 [AddT 192 [] (TimeStamp 90000) 0] (TimeStamp 10000) 1, AddT 128 [] (TimeStamp 20000) 0] (TimerQueue_new 7) of
        Inl _ \<Rightarrow> TimerQueue_new 7
      | Inr q \<Rightarrow> q)"

lemma example_tq_run:
  "run_actions 7 (TimeStamp 1)
     [AddT 64 [AddT 192 [] (TimeStamp 90000) 0] (TimeStamp 10000) 1, AddT 128 [] (TimeStamp 20000) 0] (TimerQueue_new 7)
   = Inr example_tq"
  by (simp add: example_tq_def run_actions_def run_action_def AddTimer_def AddTimerInLoop_def TimerQueue_Insert_def
      AssertInLoopThread_def deref_def TimerQueue_new_def Timer_new_def uintptr_max_def insort_insert_key_def
      ResetTimerfd_def Let_def)

lemma tq_reach_actions:
  "tq_reach rnd tid q \<Longrightarrow> run_actions tid clock cb q = Inr q' \<Longrightarrow> tq_reach rnd tid q'"
  unfolding run_actions_def
  by (induction cb arbitrary: q) (auto elim!: rbind_InrE intro: tq_reach.call)

lemma example_tq_reach: "tq_reach rnd 7 example_tq"
  using tq_reach_actions [OF tq_reach.start example_tq_run] .

lemma example_tq_timers: "tq_timers example_tq = [(TimeStamp 10000, 64), (TimeStamp 20000, 128)]"
  by (simp add: example_tq_def run_actions_def run_action_def AddTimer_def AddTimerInLoop_def TimerQueue_Insert_def
      AssertInLoopThread_def deref_def TimerQueue_new_def Timer_new_def uintptr_max_def insort_insert_key_def
      ResetTimerfd_def Let_def)

section \<open>Properties\<close>

text \<open>
  C12. Whatever sequence of additions, cancellations and firings the queue went through, with callbacks that add and cancel timers: the
  queue is ordered and every entry points to a live timer that expires at that time. Whenever a timer is queued, the timer descriptor is
  armed: it was set, at the reading \<open>c\<close> of the clock, to a proper delay that ends at the expiration \<open>e\<close> of a timer or, if that is nearer
  than 100 microseconds or past, 100 microseconds after the reading. The expiration is the earliest one in the queue, or an earlier one,
  and then it is that of a timer that was cancelled: cancelling leaves the descriptor as it is. So no timer is forgotten. Rounding is assumed to
  keep non-negative numbers non-negative.
\<close>

theorem TimerQueue_reachable_invariant:
  assumes "tq_reach rnd tid q" and "\<forall>x. 0 \<le> x \<longrightarrow> 0 \<le> rnd x"
  shows "sorted_wrt (<) (tq_timers q) \<and>
    (\<forall>(e, p) \<in> set (tq_timers q). \<exists>t. tq_heap q p = Some (t :: callback timer) \<and> tm_expiration t = e) \<and>
    (tq_timers q \<noteq> [] \<longrightarrow> (\<exists>e c tv_sec tv_nsec. tq_armed q = Some (e, c, tv_sec, tv_nsec) \<and>
      0 \<le> tv_sec \<and> 0 \<le> tv_nsec \<and> tv_nsec < 1000000000 \<and>
      1000 * MicroSecondsSinceEpoch c + tv_sec * 1000000000 + tv_nsec =
        1000 * max (MicroSecondsSinceEpoch e) (MicroSecondsSinceEpoch c + 100) \<and>
      (e = fst (hd (tq_timers q)) \<or>
        e < fst (hd (tq_timers q)) \<and> (\<exists>p t. tq_heap q p = Some t \<and> tm_expiration t = e \<and> p \<notin> snd ` set (tq_timers q)))))"
proof -
  have q: "tq_wf q" "armed_ok q" "armed_live {} q" using tq_reach_ok [OF assms] by simp_all
  have "\<exists>e c tv_sec tv_nsec. tq_armed q = Some (e, c, tv_sec, tv_nsec) \<and> 0 \<le> tv_sec \<and> 0 \<le> tv_nsec \<and> tv_nsec < 1000000000 \<and>
      1000 * MicroSecondsSinceEpoch c + tv_sec * 1000000000 + tv_nsec =
        1000 * max (MicroSecondsSinceEpoch e) (MicroSecondsSinceEpoch c + 100) \<and>
      (e = fst (hd (tq_timers q)) \<or>
        e < fst (hd (tq_timers q)) \<and> (\<exists>p t. tq_heap q p = Some t \<and> tm_expiration t = e \<and> p \<notin> snd ` set (tq_timers q)))"
    if ne: "tq_timers q \<noteq> []"
  proof -
    obtain e c tv_sec tv_nsec where a: "tq_armed q = Some (e, c, tv_sec, tv_nsec)" "e \<le> fst (hd (tq_timers q))"
      using q(2) ne by (auto simp: armed_on_def)
    obtain p t where p: "HowMuchTimeFromNow c e = (tv_sec, tv_nsec)" "tq_heap q p = Some t" "tm_expiration t = e"
      using q(3) a(1) by (force simp: armed_live_def)
    have "p \<notin> snd ` set (tq_timers q)" if "e < fst (hd (tq_timers q))"
    proof
      assume "p \<in> snd ` set (tq_timers q)"
      then have "(e, p) \<in> set (tq_timers q)" using tq_wf_live [OF q(1)] p(2,3) by fastforce
      then have "hd (tq_timers q) \<le> (e, p)" using tq_wf_strict [OF q(1)] by (cases "tq_timers q") auto
      then show False using that by (auto simp: less_eq_prod_def)
    qed
    then have "e = fst (hd (tq_timers q)) \<or>
        e < fst (hd (tq_timers q)) \<and> (\<exists>p t. tq_heap q p = Some t \<and> tm_expiration t = e \<and> p \<notin> snd ` set (tq_timers q))"
      using a(2) p(2,3) by (metis order_le_less)
    moreover have "1000 * MicroSecondsSinceEpoch c + tv_sec * 1000000000 + tv_nsec =
        1000 * max (MicroSecondsSinceEpoch e) (MicroSecondsSinceEpoch c + 100)"
      using HowMuchTimeFromNow_spec [OF p(1)] by (simp add: max_def split: if_splits)
    ultimately show ?thesis using a(1) HowMuchTimeFromNow_spec [OF p(1)] by blast
  qed
  then show ?thesis using q(1) by (fastforce simp: tq_wf_def)
qed

theorem TimerQueue_reachable_invariant_witness:
  "\<exists>e c tv_sec tv_nsec. tq_armed example_tq = Some (e, c, tv_sec, tv_nsec) \<and> e \<le> TimeStamp 10000 \<and>
    1000 * MicroSecondsSinceEpoch c + tv_sec * 1000000000 + tv_nsec = 1000 * max (MicroSecondsSinceEpoch e) (MicroSecondsSinceEpoch c + 100)"
  using TimerQueue_reachable_invariant [OF example_tq_reach [of "\<lambda>x. x"]] example_tq_timers by fastforce

text \<open>
  C13. When the descriptor fires, exactly the timers whose expiration is not after the reading of the clock leave the queue, and the
  others stay. The callbacks of the expired timers then run, once each and in the order of expiration, on that queue with the
  descriptor disarmed. If one fails, the handler fails with its error. Otherwise the handler returns: compared with what the callbacks left, the queue
  has the repeating ones of the expired timers again, each restarted one interval after the reading of the clock, the others of the
  expired timers are deleted and not queued, no other timer is touched, and the descriptor is set for the earliest queued timer, unless that
  expires at the epoch.
\<close>

theorem TimerQueue_HandleRead_result:
  assumes "tq_wf q" and "intervals_ok q" and "tid = tq_tid q" and "TimeStamp 0 < now"
    and "\<forall>x. 0 \<le> x \<longrightarrow> 0 \<le> rnd x"
  shows "case rfold (run_actions tid clock)
        (map (\<lambda>(e, p). tm_callback (the (tq_heap q p))) (filter (\<lambda>(e, p). e \<le> now) (tq_timers q)))
        (q\<lparr>tq_timers := filter (\<lambda>(e, p). now < e) (tq_timers q), tq_canceling := [], tq_armed := None\<rparr>) of
      Inl err \<Rightarrow> TimerQueue_HandleRead (run_actions tid clock) rnd tid clock' now q = Inl err
    | Inr q2 \<Rightarrow> (\<exists>q'. TimerQueue_HandleRead (run_actions tid clock) rnd tid clock' now q = Inr q' \<and> tq_wf q' \<and>
        set (tq_timers q') = set (tq_timers q2) \<union>
          {(AddTime rnd now (tm_interval t), p) |e p t. (e, p) \<in> set (tq_timers q) \<and> e \<le> now \<and> tq_heap q p = Some t \<and> tm_repeat t} \<and>
        (\<forall>(e, p) \<in> set (tq_timers q). e \<le> now \<longrightarrow> (\<exists>t. tq_heap q p = Some t \<and>
          (if tm_repeat t then tq_heap q' p = Some (Timer_Restart rnd now t)
           else tq_heap q' p = None \<and> p \<notin> snd ` set (tq_timers q')))) \<and>
        (\<forall>p. p \<notin> snd ` set (filter (\<lambda>(e, p). e \<le> now) (tq_timers q)) \<longrightarrow> tq_heap q' p = tq_heap q2 p) \<and>
        (tq_timers q' \<noteq> [] \<and> fst (hd (tq_timers q')) \<noteq> TimeStamp 0 \<longrightarrow>
          tq_armed q' = Some (fst (hd (tq_timers q')), clock', HowMuchTimeFromNow clock' (fst (hd (tq_timers q'))))))"
proof -
  let ?ps = "snd ` set (expired_at now q)"
  have cbs: "map (\<lambda>(e, p). tm_callback (the (tq_heap q p))) (filter (\<lambda>(e, p). e \<le> now) (tq_timers q)) =
      callbacks_of q (expired_at now q)" by (auto simp: callbacks_of_def expired_at_def)
  have split: "q\<lparr>tq_timers := filter (\<lambda>(e, p). now < e) (tq_timers q), tq_canceling := [], tq_armed := None\<rparr> = after_split now q"
    by (simp add: after_split_def)
  show ?thesis
    unfolding cbs split
  proof (cases "rfold (run_actions tid clock) (callbacks_of q (expired_at now q)) (after_split now q)", goal_cases)
    case (1 err)
    then show ?case using tcb.HandleRead_runs [OF assms(1-4)] by simp
  next
    case (2 q2)
    obtain q' where q': "TimerQueue_HandleRead (run_actions tid clock) rnd tid clock' now q = Inr q'" "tq_wf q'"
      "tq_heap q' = reset_heap rnd now ?ps (tq_heap q2)"
      "set (tq_timers q') = set (tq_timers q2) \<union> restarted rnd now ?ps (tq_heap q2)"
      "\<forall>p \<in> ?ps. tq_heap q2 p = tq_heap q p \<and> p \<notin> queued q2"
      using tcb.HandleRead_total [OF assms 2] by blast
    have run: "TimerQueue_Reset rnd tid clock' now (expired_at now q) q2 = Inr q'"
      using q'(1) tcb.HandleRead_runs [OF assms(1-4)] 2 by simp
    have expired: "p \<in> ?ps \<longleftrightarrow> (\<exists>e. (e, p) \<in> set (tq_timers q) \<and> e \<le> now)" for p by (force simp: expired_at_def)
    have R: "restarted rnd now ?ps (tq_heap q2) =
        {(AddTime rnd now (tm_interval t), p) |e p t. (e, p) \<in> set (tq_timers q) \<and> e \<le> now \<and> tq_heap q p = Some t \<and> tm_repeat t}"
      using q'(5) unfolding restarted_def expired by (intro Collect_cong) (metis expired)
    have S: "\<exists>t. tq_heap q p = Some t \<and> (if tm_repeat t then tq_heap q' p = Some (Timer_Restart rnd now t)
        else tq_heap q' p = None \<and> p \<notin> snd ` set (tq_timers q'))" if it: "(e, p) \<in> set (tq_timers q)" "e \<le> now" for e p
    proof -
      obtain t where t: "tq_heap q p = Some t" using tq_wf_live [OF assms(1) it(1)] by blast
      have p: "p \<in> ?ps" using it expired by blast
      then have "tq_heap q2 p = Some t" "p \<notin> queued q2" using q'(5) t by auto
      then show ?thesis using p t by (auto simp: q'(3,4) reset_heap_def restarted_def queued_def image_Un)
    qed
    have "\<forall>(e, p) \<in> set (tq_timers q). e \<le> now \<longrightarrow> (\<exists>t. tq_heap q p = Some t \<and>
        (if tm_repeat t then tq_heap q' p = Some (Timer_Restart rnd now t) else tq_heap q' p = None \<and> p \<notin> snd ` set (tq_timers q')))"
      using S by blast
    moreover have "\<forall>p. p \<notin> snd ` set (filter (\<lambda>(e, p). e \<le> now) (tq_timers q)) \<longrightarrow> tq_heap q' p = tq_heap q2 p"
      by (simp add: q'(3) reset_heap_def expired_at_def)
    moreover have "tq_timers q' \<noteq> [] \<and> fst (hd (tq_timers q')) \<noteq> TimeStamp 0 \<longrightarrow>
        tq_armed q' = Some (fst (hd (tq_timers q')), clock', HowMuchTimeFromNow clock' (fst (hd (tq_timers q'))))"
      using Reset_armed [OF run q'(2)] by simp
    ultimately show ?case using q'(1,2) q'(4) [unfolded R] unfolding 2 sum.case by blast
  qed
qed

lemma example_tq_ok: "tq_wf example_tq" "intervals_ok example_tq" "tq_tid example_tq = 7"
  using tq_reach_ok [OF example_tq_reach [of "\<lambda>x. x"]] by simp_all

lemma example_tq_heap:
  "tq_heap example_tq =
    [64 \<mapsto> Timer_new [AddT 192 [] (TimeStamp 90000) 0] (TimeStamp 10000) 1 0, 128 \<mapsto> Timer_new [] (TimeStamp 20000) 0 1]"
  by (simp add: example_tq_def run_actions_def run_action_def AddTimer_def AddTimerInLoop_def TimerQueue_Insert_def
      AssertInLoopThread_def deref_def TimerQueue_new_def Timer_new_def uintptr_max_def insort_insert_key_def
      ResetTimerfd_def Let_def)

lemma example_tq_callbacks:
  "\<exists>q2. rfold (run_actions 7 (TimeStamp 30001)) (callbacks_of example_tq (expired_at (TimeStamp 30000) example_tq))
      (after_split (TimeStamp 30000) example_tq) = Inr q2"
  by (simp add: example_tq_timers example_tq_heap example_tq_ok(3) callbacks_of_def expired_at_def after_split_def
      run_actions_def run_action_def AddTimer_def AddTimerInLoop_def TimerQueue_Insert_def
      AssertInLoopThread_def deref_def Timer_new_def uintptr_max_def insort_insert_key_def ResetTimerfd_def Let_def)

theorem TimerQueue_HandleRead_result_witness:
  "\<exists>q'. TimerQueue_HandleRead (run_actions 7 (TimeStamp 30001)) (\<lambda>x. x) 7 (TimeStamp 30002) (TimeStamp 30000) example_tq
      = Inr q' \<and> set (tq_timers q') = {(TimeStamp 90000, 192), (TimeStamp 1030000, 64)} \<and> tq_heap q' 128 = None"
proof -
  have ps: "x \<in> {(AddTime (\<lambda>x. x) (TimeStamp 30000) (tm_interval t), p) |e p t.
      (e, p) \<in> set (tq_timers example_tq) \<and> e \<le> TimeStamp 30000 \<and> tq_heap example_tq p = Some t \<and> tm_repeat t} \<longleftrightarrow>
      x = (TimeStamp 1030000, 64)" for x
    by (auto simp: example_tq_timers example_tq_heap Timer_new_def AddTime_def Let_def double_to_int_def kMicroSecondsPerSecond_def)
  show ?thesis
    using TimerQueue_HandleRead_result [OF example_tq_ok(1,2) example_tq_ok(3) [symmetric], of "TimeStamp 30000" "\<lambda>x. x" "TimeStamp 30001" "TimeStamp 30002"]
    unfolding set_eq_iff Un_iff ps
    by (auto simp: example_tq_timers example_tq_heap example_tq_ok(3) run_actions_def run_action_def AddTimer_def AddTimerInLoop_def
        TimerQueue_Insert_def AssertInLoopThread_def deref_def Timer_new_def uintptr_max_def insort_insert_key_def ResetTimerfd_def Let_def)
qed

text \<open>
  A cancellation of a timer that has expired in this round, its own callback's included, changes nothing:
  the timer is not in the queue any more, and the set of cancelled timers that the reset consults is never
  filled. A repeating timer cannot be stopped from its own callback.
\<close>

theorem Cancel_expired_no_effect:
  assumes "tq_wf q" and "GetExpired now q = (expired, q1)" and "(e, p) \<in> set expired" and "tid = tq_tid q"
  shows "CancelTimerIdInLoop tid (Some p, sequence) q1 = Inr q1"
proof -
  obtain t where t: "detached q1 p t" using GetExpired_detached [OF assms(1-3)] by blast
  have "tq_tid q1 = tid" using assms(2,4) by (auto simp: GetExpired_def Let_def)
  moreover have "(tm_expiration t, p) \<notin> set (tq_timers q1)" using t by (force simp: detached_def queued_def)
  ultimately show ?thesis using t
    by (simp add: CancelTimerIdInLoop_def AssertInLoopThread_def deref_def detached_def remove1_idem)
qed

theorem Cancel_expired_no_effect_witness:
  "CancelTimerIdInLoop 7 (Some 64, 0) (snd (GetExpired (TimeStamp 30000) example_tq)) =
    Inr (snd (GetExpired (TimeStamp 30000) example_tq))"
  using Cancel_expired_no_effect [OF example_tq_ok(1) surjective_pairing, of "TimeStamp 10000" 64 "TimeStamp 30000" 7 0]
  by (simp add: GetExpired_def Let_def example_tq_timers example_tq_ok(3))

lemma example_tq_fires:
  "\<exists>q'. TimerQueue_HandleRead (run_actions 7 (TimeStamp 30001)) (\<lambda>x. x) 7 (TimeStamp 30002) (TimeStamp 30000) example_tq = Inr q'"
proof -
  obtain q2 where q2: "rfold (run_actions 7 (TimeStamp 30001)) (callbacks_of example_tq (expired_at (TimeStamp 30000) example_tq))
      (after_split (TimeStamp 30000) example_tq) = Inr q2"
    using example_tq_callbacks by blast
  show ?thesis
    using tcb.HandleRead_total [OF example_tq_ok(1,2) example_tq_ok(3) [symmetric] _ _ q2, of "\<lambda>x. x", where clock = "TimeStamp 30002"]
    by auto
qed

text \<open>Cancelling a one-shot timer that has fired.\<close>

lemma Cancel_after_fire_lemma:
  assumes "tq_wf q" and "intervals_ok q" and "tid = tq_tid q" and "TimeStamp 0 < now"
    and "\<forall>x. 0 \<le> x \<longrightarrow> 0 \<le> rnd x"
    and "TimerQueue_HandleRead (run_actions tid clock) rnd tid clock' now q = Inr q'"
    and "(e, p) \<in> set (expired_at now q)" and "tq_heap q p = Some t" and "\<not> tm_repeat t"
  shows "CancelTimerIdInLoop tid (Some p, tm_sequence t) q' = Inl UseAfterFree"
proof -
  obtain q2 where q2: "rfold (run_actions tid clock) (callbacks_of q (expired_at now q)) (after_split now q) = Inr q2"
    using assms(6) tcb.HandleRead_runs [OF assms(1-4)] by (auto elim: rbind_InrE)
  have r: "tq_heap q' = reset_heap rnd now (snd ` set (expired_at now q)) (tq_heap q2)" "tq_tid q' = tq_tid q"
    "\<forall>p \<in> snd ` set (expired_at now q). tq_heap q2 p = tq_heap q p"
    using tcb.HandleRead_total [OF assms(1-5) q2, where clock = clock'] assms(6) by auto
  have p: "p \<in> snd ` set (expired_at now q)" using assms(7) by force
  moreover have "tq_heap q2 p = Some t" using r(3) p assms(8) by metis
  ultimately have "tq_heap q' p = None" using r(1) assms(9) by (simp add: reset_heap_def)
  then show ?thesis using assms(3) r(2) by (simp add: CancelTimerIdInLoop_def AssertInLoopThread_def deref_def)
qed

text \<open>
  A timer identifier outlives its timer: after a one-shot timer has fired, cancelling it
  dereferences the deleted timer.
\<close>

theorem Cancel_after_fire_dangling:
  assumes "tq_wf q" and "intervals_ok q" and "tid = tq_tid q" and "TimeStamp 0 < now"
    and "\<forall>x. 0 \<le> x \<longrightarrow> 0 \<le> rnd x"
    and "TimerQueue_HandleRead (run_actions tid clock) rnd tid clock' now q = Inr q'"
    and "(e, p) \<in> set (expired_at now q)" and "tq_heap q p = Some t" and "\<not> tm_repeat t"
  shows "CancelTimerIdInLoop tid (Some p, tm_sequence t) q' = Inl UseAfterFree"
  using Cancel_after_fire_lemma [OF assms] .

theorem Cancel_after_fire_dangling_witness:
  "\<exists>q'. TimerQueue_HandleRead (run_actions 7 (TimeStamp 30001)) (\<lambda>x. x) 7 (TimeStamp 30002) (TimeStamp 30000) example_tq
      = Inr q' \<and> CancelTimerIdInLoop 7 (Some 128, 1) q' = Inl UseAfterFree"
  using example_tq_fires Cancel_after_fire_dangling [OF example_tq_ok(1,2) example_tq_ok(3) [symmetric], of "TimeStamp 30000" "\<lambda>x. x"
        "TimeStamp 30001" "TimeStamp 30002" _ "TimeStamp 20000" 128]
    by (fastforce simp: expired_at_def example_tq_timers example_tq_heap Timer_new_def)

text \<open>The delay of the descriptor on an example.\<close>

theorem HowMuchTimeFromNow_spec_witness:
  "HowMuchTimeFromNow (TimeStamp 5) (TimeStamp 2500005) = (2, 500000000) \<and> (500000000 :: int) < 1000000000"
proof -
  have "HowMuchTimeFromNow (TimeStamp 5) (TimeStamp 2500005) = (2, 500000000)"
    by (simp add: HowMuchTimeFromNow_def cquot_def crem_def kMicroSecondsPerSecond_def Let_def)
  then show ?thesis using HowMuchTimeFromNow_spec [of "TimeStamp 5" "TimeStamp 2500005" 2 500000000] by simp
qed

end
