(* ===== verification/Channel.thy ===== *)
theory Channel
  imports JNet_Prelude
begin

text \<open>
  Channels (\<^verbatim>\<open>net/channel.h\<close>, \<^verbatim>\<open>net/channel.cc\<close>): the event masks of a descriptor and the
  dispatch of the events that the poller reported to the callbacks. Masks are 16 bit words, as the
  code's \<^verbatim>\<open>short\<close>. A callback may do anything to the program's state, also delete the channel whose
  event is being handled; \<open>get\<close> reads the channel from that state and fails once it is gone.
\<close>

section \<open>Event masks\<close>

abbreviation POLLIN :: "16 word" where "POLLIN \<equiv> 0x1"
abbreviation POLLPRI :: "16 word" where "POLLPRI \<equiv> 0x2"
abbreviation POLLOUT :: "16 word" where "POLLOUT \<equiv> 0x4"
abbreviation POLLERR :: "16 word" where "POLLERR \<equiv> 0x8"
abbreviation POLLHUP :: "16 word" where "POLLHUP \<equiv> 0x10"
abbreviation POLLNVAL :: "16 word" where "POLLNVAL \<equiv> 0x20"
abbreviation POLLRDHUP :: "16 word" where "POLLRDHUP \<equiv> 0x2000"

definition kWriteEvent :: "16 word" where
  "kWriteEvent = POLLOUT"

definition kReadEvent :: "16 word" where
  "kReadEvent = POLLIN OR POLLPRI"

definition has_event :: "16 word \<Rightarrow> 16 word \<Rightarrow> bool" where
  "has_event ev m \<longleftrightarrow> ev AND m \<noteq> 0"

section \<open>Channels\<close>

datatype cb_kind = CloseCallback | ErrorCallback | ReadCallback | WriteCallback

text \<open>The index is not initialised by the constructors; the poller sets it.\<close>

record channel =
  ch_events :: "16 word"
  ch_revents :: "16 word"
  ch_fd :: int
  ch_id :: int
  ch_index :: "nat option"
  ch_callbacks :: "cb_kind set"

definition Channel_new :: "int \<Rightarrow> 16 word \<Rightarrow> int \<Rightarrow> channel" where
  "Channel_new fd events ids =
     \<lparr>ch_events = events, ch_revents = 0, ch_fd = fd, ch_id = ids + 1, ch_index = None, ch_callbacks = {}\<rparr>"

definition Channel_SetCallback :: "cb_kind \<Rightarrow> channel \<Rightarrow> channel" where
  "Channel_SetCallback k c = c\<lparr>ch_callbacks := insert k (ch_callbacks c)\<rparr>"

text \<open>The masks that the four switches set; each is followed by an update of the poller.\<close>

definition enable_read :: "channel \<Rightarrow> channel" where
  "enable_read c = c\<lparr>ch_events := ch_events c OR kReadEvent\<rparr>"

definition enable_write :: "channel \<Rightarrow> channel" where
  "enable_write c = c\<lparr>ch_events := ch_events c OR kWriteEvent\<rparr>"

definition disable_read :: "channel \<Rightarrow> channel" where
  "disable_read c = c\<lparr>ch_events := ch_events c AND NOT kReadEvent\<rparr>"

definition disable_write :: "channel \<Rightarrow> channel" where
  "disable_write c = c\<lparr>ch_events := ch_events c AND NOT kWriteEvent\<rparr>"

definition IsWriting :: "channel \<Rightarrow> bool" where
  "IsWriting c \<longleftrightarrow> has_event (ch_events c) kWriteEvent"

definition IsReading :: "channel \<Rightarrow> bool" where
  "IsReading c \<longleftrightarrow> has_event (ch_events c) kReadEvent"

definition SetREvents :: "16 word \<Rightarrow> channel \<Rightarrow> channel" where
  "SetREvents ev c = c\<lparr>ch_revents := ev\<rparr>"

section \<open>Dispatch\<close>

definition live_channel :: "('s \<Rightarrow> channel option) \<Rightarrow> 's \<Rightarrow> channel res" where
  "live_channel get s = (case get s of None \<Rightarrow> Inl UseAfterFree | Some c \<Rightarrow> Inr c)"

text \<open>One test of the received events, and the callback it leads to.\<close>

definition dispatch_if :: "('s \<Rightarrow> channel option) \<Rightarrow> (cb_kind \<Rightarrow> 's \<Rightarrow> 's res) \<Rightarrow> (16 word \<Rightarrow> bool) \<Rightarrow> cb_kind
    \<Rightarrow> 's \<Rightarrow> 's res" where
  "dispatch_if get run test k s =
     rbind (live_channel get s) (\<lambda>c.
     if test (ch_revents c) \<and> k \<in> ch_callbacks c then run k s else Inr s)"

definition Channel_HandleEvent :: "('s \<Rightarrow> channel option) \<Rightarrow> (cb_kind \<Rightarrow> 's \<Rightarrow> 's res) \<Rightarrow> 's \<Rightarrow> 's res" where
  "Channel_HandleEvent get run s =
     rbind (dispatch_if get run (\<lambda>r. has_event r POLLHUP \<and> \<not> has_event r POLLIN) CloseCallback s) (\<lambda>s.
     rbind (dispatch_if get run (\<lambda>r. has_event r (POLLERR OR POLLNVAL)) ErrorCallback s) (\<lambda>s.
     rbind (dispatch_if get run (\<lambda>r. has_event r (POLLIN OR POLLPRI OR POLLRDHUP)) ReadCallback s) (\<lambda>s.
     dispatch_if get run (\<lambda>r. has_event r POLLOUT) WriteCallback s)))"

text \<open>The callbacks due for a mask, in the order of the code.\<close>

definition due :: "16 word \<Rightarrow> cb_kind list" where
  "due r =
     (if bit r 4 \<and> \<not> bit r 0 then [CloseCallback] else []) @
     (if bit r 3 \<or> bit r 5 then [ErrorCallback] else []) @
     (if bit r 0 \<or> bit r 1 \<or> bit r 13 then [ReadCallback] else []) @
     (if bit r 2 then [WriteCallback] else [])"

section \<open>Lemmas\<close>

lemma has_event_or: "has_event ev (a OR b) \<longleftrightarrow> has_event ev a \<or> has_event ev b"
  by (simp add: has_event_def bit.conj_disj_distrib or_eq_0_iff)

lemma has_event_push: "has_event ev (push_bit n 1) \<longleftrightarrow> bit ev n"
  unfolding has_event_def bit_iff_and_push_bit_not_eq_0 ..

lemma mask_bits [simp]:
  "has_event ev POLLIN \<longleftrightarrow> bit ev 0" "has_event ev POLLPRI \<longleftrightarrow> bit ev 1" "has_event ev POLLOUT \<longleftrightarrow> bit ev 2"
  "has_event ev POLLERR \<longleftrightarrow> bit ev 3" "has_event ev POLLHUP \<longleftrightarrow> bit ev 4" "has_event ev POLLNVAL \<longleftrightarrow> bit ev 5"
  "has_event ev POLLRDHUP \<longleftrightarrow> bit ev 13"
  using has_event_push [of ev 0] has_event_push [of ev 1] has_event_push [of ev 2] has_event_push [of ev 3]
    has_event_push [of ev 4] has_event_push [of ev 5] has_event_push [of ev 13]
  by (simp_all add: push_bit_of_1)

lemma has_read_mask: "has_event ev kReadEvent \<longleftrightarrow> bit ev 0 \<or> bit ev 1"
  unfolding kReadEvent_def has_event_or by simp

lemma has_write_mask: "has_event ev kWriteEvent \<longleftrightarrow> bit ev 2"
  unfolding kWriteEvent_def by simp

lemma read_bits: "bit kReadEvent 0" "bit kReadEvent (Suc 0)" "\<not> bit kReadEvent 2"
  by code_simp+

lemma write_bits: "\<not> bit kWriteEvent 0" "\<not> bit kWriteEvent (Suc 0)" "bit kWriteEvent 2"
  by code_simp+

text \<open>The two switches do not interfere with each other.\<close>

lemma switch_read [simp]:
  "IsReading (enable_read c)" "\<not> IsReading (disable_read c)"
  "IsWriting (enable_read c) = IsWriting c" "IsWriting (disable_read c) = IsWriting c"
  by (simp_all add: IsReading_def IsWriting_def has_read_mask has_write_mask enable_read_def disable_read_def
      bit_or_iff bit_and_iff bit_not_iff read_bits)

lemma switch_write [simp]:
  "IsWriting (enable_write c)" "\<not> IsWriting (disable_write c)"
  "IsReading (enable_write c) = IsReading c" "IsReading (disable_write c) = IsReading c"
  by (simp_all add: IsReading_def IsWriting_def has_read_mask has_write_mask enable_write_def disable_write_def
      bit_or_iff bit_and_iff bit_not_iff write_bits)

lemma dispatch_if_eq:
  assumes "get s = Some c"
  shows "dispatch_if get run test k s = (if test (ch_revents c) \<and> k \<in> ch_callbacks c then run k s else Inr s)"
  using assms by (simp add: dispatch_if_def live_channel_def)

lemma dispatch_if_gone: "get s = None \<Longrightarrow> dispatch_if get run test k s = Inl UseAfterFree"
  by (simp add: dispatch_if_def live_channel_def)

text \<open>One test followed by the rest of a run, when callbacks leave the channel alone.\<close>

lemma dispatch_then:
  assumes get: "get s = Some c"
    and keep: "\<And>k s s'. get s = Some c \<Longrightarrow> run k s = Inr s' \<Longrightarrow> get s' = Some c"
    and rest: "\<And>s. get s = Some c \<Longrightarrow> f s = rfold run ks s"
  shows "rbind (dispatch_if get run test k s) f =
    rfold run ((if test (ch_revents c) \<and> k \<in> ch_callbacks c then [k] else []) @ ks) s"
proof (cases "test (ch_revents c) \<and> k \<in> ch_callbacks c")
  case True
  then show ?thesis
    using dispatch_if_eq [where get = get and s = s and c = c, OF get, of run test k] keep [OF get, of k] rest by (cases "run k s") auto
next
  case False
  then have "dispatch_if get run test k s = Inr s" 
    using dispatch_if_eq [where get = get and s = s and c = c, OF get, of run test k] by auto
  then show ?thesis using False rest [OF get] by auto
qed

text \<open>A read callback that deletes the channel.\<close>

lemma Channel_HandleEvent_deleted_lemma:
  assumes "get s = Some c" and "ReadCallback \<in> ch_callbacks c" and "ReadCallback \<in> set (due (ch_revents c))"
    and "set (due (ch_revents c)) \<inter> {CloseCallback, ErrorCallback} \<inter> ch_callbacks c = {}"
    and "run ReadCallback s = Inr s'" and "get s' = None"
  shows "Channel_HandleEvent get run s = Inl UseAfterFree"
proof -
  let ?r = "ch_revents c"
  have no: "\<not> ((bit ?r 4 \<and> \<not> bit ?r 0) \<and> CloseCallback \<in> ch_callbacks c)"
    "\<not> ((bit ?r 3 \<or> bit ?r 5) \<and> ErrorCallback \<in> ch_callbacks c)"
    using assms(4) by (auto simp: due_def)
  have "dispatch_if get run (\<lambda>r. has_event r POLLHUP \<and> \<not> has_event r POLLIN) CloseCallback s = Inr s"
    "dispatch_if get run (\<lambda>r. has_event r (POLLERR OR POLLNVAL)) ErrorCallback s = Inr s"
    using no unfolding dispatch_if_def live_channel_def has_event_or by (auto simp: assms(1))
  moreover have "bit ?r 0 \<or> bit ?r 1 \<or> bit ?r 13"
    using assms(3) by (auto simp: due_def split: if_splits)
  then have "dispatch_if get run (\<lambda>r. has_event r (POLLIN OR POLLPRI OR POLLRDHUP)) ReadCallback s = Inr s'"
    using assms(2,5) unfolding dispatch_if_def live_channel_def has_event_or by (auto simp: assms(1))
  ultimately show ?thesis
    using dispatch_if_gone [of get s'] assms(6) by (simp add: Channel_HandleEvent_def)
qed

text \<open>As long as callbacks leave the channel alone, those that are due run in order.\<close>

lemma Channel_HandleEvent_due:
  assumes "get s = Some c"
    and "\<And>k s s'. get s = Some c \<Longrightarrow> run k s = Inr s' \<Longrightarrow> get s' = Some c"
  shows "Channel_HandleEvent get run s = rfold run (filter (\<lambda>k. k \<in> ch_callbacks c) (due (ch_revents c))) s"
proof -
  define ks where "ks test k = (if test (ch_revents c) \<and> k \<in> ch_callbacks c then [k] else [])" for test and k :: cb_kind
  have one: "rbind (dispatch_if get run test k s) f = rfold run (ks test k @ ks') s"
    if "get s = Some c" and "\<And>s. get s = Some c \<Longrightarrow> f s = rfold run ks' s" for s test k f ks'
    unfolding ks_def using assms(2) that by (intro dispatch_then) auto
  have last: "dispatch_if get run test k s = rfold run (ks test k) s" if "get s = Some c" for s test k
  proof -
    have "rbind m Inr = m" for m :: "'a res" by (cases m) auto
    then show ?thesis using one [OF that, of Inr "[]" test k] by simp
  qed
  have "Channel_HandleEvent get run s =
      rfold run (ks (\<lambda>r. has_event r POLLHUP \<and> \<not> has_event r POLLIN) CloseCallback @
        ks (\<lambda>r. has_event r (POLLERR OR POLLNVAL)) ErrorCallback @
        ks (\<lambda>r. has_event r (POLLIN OR POLLPRI OR POLLRDHUP)) ReadCallback @
        ks (\<lambda>r. has_event r POLLOUT) WriteCallback) s"
    unfolding Channel_HandleEvent_def by (intro one last assms(1)) assumption
  also have "\<dots> = rfold run (filter (\<lambda>k. k \<in> ch_callbacks c) (due (ch_revents c))) s"
    unfolding ks_def due_def has_event_or by simp
  finally show ?thesis .
qed

section \<open>Properties\<close>

text \<open>
  As long as no callback deletes the channel or changes what was received, handling an event runs
  exactly the registered callbacks that are due for the received mask, once each, in the order close,
  error, read, write; a hang-up with pending input is left to the read callback.
\<close>

theorem Channel_HandleEvent_dispatch:
  assumes "get s = Some c"
    and "\<And>k s s'. get s = Some c \<Longrightarrow> run k s = Inr s' \<Longrightarrow> get s' = Some c"
  shows "Channel_HandleEvent get run s = rfold run (filter (\<lambda>k. k \<in> ch_callbacks c) (due (ch_revents c))) s"
  using assms by (rule Channel_HandleEvent_due)

text \<open>A channel with every callback that has received hang-up, input and output, with a log of the callbacks run.\<close>

definition example_channel :: channel where
  "example_channel =
     (Channel_new 5 kReadEvent 0)\<lparr>ch_revents := POLLIN OR POLLOUT OR POLLHUP,
       ch_callbacks := {CloseCallback, ErrorCallback, ReadCallback, WriteCallback}\<rparr>"

lemma example_due: "due (ch_revents example_channel) = [ReadCallback, WriteCallback]"
  by code_simp

theorem Channel_HandleEvent_dispatch_witness:
  "Channel_HandleEvent (\<lambda>s. Some (fst s)) (\<lambda>k s. Inr (fst s, snd s @ [k])) (example_channel, []) =
    Inr (example_channel, [ReadCallback, WriteCallback])"
proof -
  have "ReadCallback \<in> ch_callbacks example_channel" "WriteCallback \<in> ch_callbacks example_channel"
    by (simp_all add: example_channel_def)
  moreover have "Channel_HandleEvent (\<lambda>s. Some (fst s)) (\<lambda>k s. Inr (fst s, snd s @ [k])) (example_channel, []) =
      rfold (\<lambda>k s. Inr (fst s, snd s @ [k]))
        (filter (\<lambda>k. k \<in> ch_callbacks example_channel) (due (ch_revents example_channel))) (example_channel, [])"
    by (rule Channel_HandleEvent_dispatch) auto
  ultimately show ?thesis by (simp add: example_due)
qed

text \<open>
  If the read callback deletes the channel, handling the event ends in an access to the deleted
  channel: the test for output after it reads the received events again.
\<close>

theorem Channel_HandleEvent_deleted:
  assumes "get s = Some c" and "ReadCallback \<in> ch_callbacks c" and "ReadCallback \<in> set (due (ch_revents c))"
    and "set (due (ch_revents c)) \<inter> {CloseCallback, ErrorCallback} \<inter> ch_callbacks c = {}"
    and "run ReadCallback s = Inr s'" and "get s' = None"
  shows "Channel_HandleEvent get run s = Inl UseAfterFree"
  using Channel_HandleEvent_deleted_lemma [where get = get and run = run and s = s and c = c and s' = s', OF assms] .

theorem Channel_HandleEvent_deleted_witness:
  "Channel_HandleEvent id (\<lambda>k s. Inr (if k = ReadCallback then None else s)) (Some example_channel) = Inl UseAfterFree"
  using Channel_HandleEvent_deleted [of id "Some example_channel" example_channel
      "\<lambda>k s. Inr (if k = ReadCallback then None else s)" None]
  by (simp add: example_due) (simp add: example_channel_def)

end
