(* ===== verification/Poller.thy ===== *)
theory Poller
  imports Channel
begin

text \<open>
  The two pollers: \<^verbatim>\<open>net/poller.h\<close>, \<^verbatim>\<open>net/pollpoller.cc\<close> and \<^verbatim>\<open>net/epollpoller.cc\<close>. Channels live on a
  heap, a map from addresses to channels in which a deleted channel has no value; the pollers hold
  pointers to them. What the kernel reports is an argument of \<^verbatim>\<open>Poll\<close>; the kernel's interest list behind
  an epoll descriptor is kept as the manual page of \<^verbatim>\<open>epoll_ctl\<close> describes it.
\<close>

type_synonym cptr = nat
type_synonym cheap = "cptr \<rightharpoonup> channel"

definition channel_at :: "cheap \<Rightarrow> cptr \<Rightarrow> channel res" where
  "channel_at h c = (case h c of None \<Rightarrow> Inl UseAfterFree | Some ch \<Rightarrow> Inr ch)"

lemma channel_at_Some [simp]: "h c = Some ch \<Longrightarrow> channel_at h c = Inr ch"
  by (simp add: channel_at_def)

section \<open>The poll poller\<close>

record pollfd =
  pfd_fd :: int
  pfd_events :: "16 word"
  pfd_revents :: "16 word"

text \<open>The map from descriptors to channels can hold a null pointer: reading a missing key with \<^verbatim>\<open>[]\<close> inserts one.\<close>

record poll_poller =
  pp_heap :: cheap
  pp_channels :: "int \<rightharpoonup> cptr option"
  pp_pollfds :: "pollfd list"
  pp_tid :: int

definition PollPoller_new :: "int \<Rightarrow> cheap \<Rightarrow> poll_poller" where
  "PollPoller_new tid h = \<lparr>pp_heap = h, pp_channels = Map.empty, pp_pollfds = [], pp_tid = tid\<rparr>"

definition PollPoller_HasChannel :: "int \<Rightarrow> cptr \<Rightarrow> poll_poller \<Rightarrow> bool res" where
  "PollPoller_HasChannel tid c p =
     rbind (cxx_assert (tid = pp_tid p)) (\<lambda>_.
     rbind (channel_at (pp_heap p) c) (\<lambda>ch.
     Inr (pp_channels p (ch_fd ch) = Some (Some c))))"

definition PollPoller_AddChannel :: "int \<Rightarrow> cptr \<Rightarrow> poll_poller \<Rightarrow> poll_poller res" where
  "PollPoller_AddChannel tid c p =
     rbind (cxx_assert (tid = pp_tid p)) (\<lambda>_.
     rbind (channel_at (pp_heap p) c) (\<lambda>ch.
     let pfd = \<lparr>pfd_fd = ch_fd ch, pfd_events = ch_events ch, pfd_revents = 0\<rparr>;
         pfds = pp_pollfds p @ [pfd]
     in Inr (p\<lparr>pp_pollfds := pfds, pp_channels := (pp_channels p)(ch_fd ch \<mapsto> Some c),
               pp_heap := (pp_heap p)(c \<mapsto> ch\<lparr>ch_index := Some (length pfds - 1)\<rparr>)\<rparr>)))"

definition PollPoller_UpdateChannel :: "int \<Rightarrow> cptr \<Rightarrow> poll_poller \<Rightarrow> poll_poller res" where
  "PollPoller_UpdateChannel tid c p =
     rbind (cxx_assert (tid = pp_tid p)) (\<lambda>_.
     rbind (channel_at (pp_heap p) c) (\<lambda>ch.
     rbind (cxx_assert (pp_channels p (ch_fd ch) \<noteq> None)) (\<lambda>_.
     case ch_index ch of
       None \<Rightarrow> Inl Indeterminate
     | Some i \<Rightarrow>
         if i < length (pp_pollfds p)
         then Inr (p\<lparr>pp_pollfds := (pp_pollfds p)[i := \<lparr>pfd_fd = ch_fd ch, pfd_events = ch_events ch, pfd_revents = 0\<rparr>]\<rparr>)
         else Inl OutOfBounds)))"

text \<open>
  In the second branch \<^verbatim>\<open>endPfd\<close> is a reference to the last element of the vector, so after the swap it
  denotes the entry of the channel that is removed.
\<close>

definition PollPoller_RemoveChannel :: "int \<Rightarrow> cptr \<Rightarrow> poll_poller \<Rightarrow> poll_poller res" where
  "PollPoller_RemoveChannel tid c p =
     rbind (cxx_assert (tid = pp_tid p)) (\<lambda>_.
     rbind (channel_at (pp_heap p) c) (\<lambda>ch.
     rbind (cxx_assert (pp_channels p (ch_fd ch) \<noteq> None)) (\<lambda>_.
     rbind (cxx_assert (pp_channels p (ch_fd ch) = Some (Some c))) (\<lambda>_.
     case ch_index ch of
       None \<Rightarrow> Inl Indeterminate
     | Some i \<Rightarrow>
         let pfds = pp_pollfds p; n = length pfds in
         if i + 1 = n then Inr (p\<lparr>pp_pollfds := butlast pfds\<rparr>)
         else if 1 < n then
           if n \<le> i then Inl OutOfBounds
           else
             let swapped = pfds[i := last pfds, n - 1 := pfds ! i];
                 endPfd = last swapped;
                 q = p\<lparr>pp_pollfds := butlast swapped\<rparr>
             in case pp_channels p (pfd_fd endPfd) of
                  None \<Rightarrow> Inr (q\<lparr>pp_channels := (pp_channels p)(pfd_fd endPfd \<mapsto> None)\<rparr>)
                | Some None \<Rightarrow> Inr q
                | Some (Some c2) \<Rightarrow>
                    rbind (channel_at (pp_heap p) c2) (\<lambda>ch2.
                    Inr (q\<lparr>pp_heap := (pp_heap p)(c2 \<mapsto> ch2\<lparr>ch_index := Some i\<rparr>),
                           pp_channels := (pp_channels p)(ch_fd ch := None)\<rparr>))
         else Inr p))))"

text \<open>
  The kernel stores the received events in the vector and returns how many entries have some; the
  loop visits the entries in order until that many were found.
\<close>

fun PollPoller_FillActiveChannels :: "pollfd list \<Rightarrow> int \<Rightarrow> (int \<rightharpoonup> cptr option) \<Rightarrow> cheap \<Rightarrow> (cptr list \<times> cheap) res" where
  "PollPoller_FillActiveChannels [] numEvents chans h = Inr ([], h)"
| "PollPoller_FillActiveChannels (pfd # pfds) numEvents chans h =
     (if numEvents \<le> 0 then Inr ([], h)
      else if sint (pfd_revents pfd) > 0 then
        (case chans (pfd_fd pfd) of
           None \<Rightarrow> Inl OutOfBounds
         | Some None \<Rightarrow> Inl NullPointer
         | Some (Some c) \<Rightarrow>
             rbind (channel_at h c) (\<lambda>ch.
             rbind (PollPoller_FillActiveChannels pfds (numEvents - 1) chans (h(c \<mapsto> SetREvents (pfd_revents pfd) ch))) (\<lambda>(cs, h').
             Inr (c # cs, h'))))
      else PollPoller_FillActiveChannels pfds numEvents chans h)"

definition PollPoller_Poll :: "int \<Rightarrow> 16 word list \<Rightarrow> poll_poller \<Rightarrow> (cptr list \<times> poll_poller) res" where
  "PollPoller_Poll numEvents revents p =
     (let pfds = map2 (\<lambda>pfd r. pfd\<lparr>pfd_revents := r\<rparr>) (pp_pollfds p) revents;
          p1 = p\<lparr>pp_pollfds := pfds\<rparr> in
      if numEvents > 0
      then rbind (PollPoller_FillActiveChannels pfds numEvents (pp_channels p1) (pp_heap p1)) (\<lambda>(cs, h).
           Inr (cs, p1\<lparr>pp_heap := h\<rparr>))
      else Inr ([], p1))"

section \<open>Invariant of the poll poller\<close>

text \<open>Descriptors are distinct, and each entry is known under the channel whose index it has.\<close>

definition pp_wf :: "poll_poller \<Rightarrow> bool" where
  "pp_wf p \<longleftrightarrow> distinct (map pfd_fd (pp_pollfds p)) \<and>
     dom (pp_channels p) = pfd_fd ` set (pp_pollfds p) \<and>
     (\<forall>i < length (pp_pollfds p). \<exists>c ch. pp_channels p (pfd_fd (pp_pollfds p ! i)) = Some (Some c) \<and>
        pp_heap p c = Some ch \<and> ch_fd ch = pfd_fd (pp_pollfds p ! i) \<and> ch_index ch = Some i)"

lemma pp_wf_new [simp]: "pp_wf (PollPoller_new tid h)"
  by (simp add: pp_wf_def PollPoller_new_def)

lemma pp_wf_entry:
  assumes "pp_wf p" and "pp_channels p fd = Some x"
  obtains i c ch where "i < length (pp_pollfds p)" "pfd_fd (pp_pollfds p ! i) = fd" "x = Some c"
    "pp_heap p c = Some ch" "ch_fd ch = fd" "ch_index ch = Some i"
proof -
  have "fd \<in> dom (pp_channels p)" using assms(2) by blast
  then have "fd \<in> pfd_fd ` set (pp_pollfds p)" using assms(1) by (simp add: pp_wf_def)
  then obtain i where i: "i < length (pp_pollfds p)" "pfd_fd (pp_pollfds p ! i) = fd"
    by (auto simp: in_set_conv_nth)
  then obtain c ch where "pp_channels p fd = Some (Some c)" "pp_heap p c = Some ch" "ch_fd ch = fd" "ch_index ch = Some i"
    using assms(1) by (auto simp: pp_wf_def)
  then show ?thesis using that i assms(2) by auto
qed

lemma PollPoller_AddChannel_ok:
  assumes wf: "pp_wf p" and c: "pp_heap p c = Some ch" "pp_channels p (ch_fd ch) = None"
    and new: "\<forall>fd. pp_channels p fd \<noteq> Some (Some c)" and tid: "tid = pp_tid p"
  shows "\<exists>p'. PollPoller_AddChannel tid c p = Inr p' \<and> pp_wf p' \<and> pp_channels p' = (pp_channels p)(ch_fd ch \<mapsto> Some c)"
proof -
  let ?pfd = "\<lparr>pfd_fd = ch_fd ch, pfd_events = ch_events ch, pfd_revents = 0\<rparr>"
  let ?p = "p\<lparr>pp_pollfds := pp_pollfds p @ [?pfd], pp_channels := (pp_channels p)(ch_fd ch \<mapsto> Some c),
      pp_heap := (pp_heap p)(c \<mapsto> ch\<lparr>ch_index := Some (length (pp_pollfds p))\<rparr>)\<rparr>"
  have fresh: "ch_fd ch \<notin> pfd_fd ` set (pp_pollfds p)" using wf c(2) domIff [of "ch_fd ch" "pp_channels p"] by (simp add: pp_wf_def)
  have "\<exists>c' ch'. pp_channels ?p (pfd_fd (pp_pollfds ?p ! i)) = Some (Some c') \<and> pp_heap ?p c' = Some ch' \<and>
      ch_fd ch' = pfd_fd (pp_pollfds ?p ! i) \<and> ch_index ch' = Some i"
    if i: "i < length (pp_pollfds ?p)" for i
  proof (cases "i = length (pp_pollfds p)")
    case True
    then show ?thesis by simp
  next
    case False
    then have i': "i < length (pp_pollfds p)" using i by simp
    then obtain c' ch' where "pp_channels p (pfd_fd (pp_pollfds p ! i)) = Some (Some c')" "pp_heap p c' = Some ch'"
        "ch_fd ch' = pfd_fd (pp_pollfds p ! i)" "ch_index ch' = Some i"
      using wf by (auto simp: pp_wf_def)
    moreover have "pfd_fd (pp_pollfds p ! i) \<noteq> ch_fd ch" using i' fresh by (metis image_eqI nth_mem)
    ultimately show ?thesis using new i' by (auto simp: nth_append)
  qed
  moreover have "distinct (map pfd_fd (pp_pollfds ?p))" "dom (pp_channels ?p) = pfd_fd ` set (pp_pollfds ?p)"
    using wf fresh by (auto simp: pp_wf_def)
  ultimately have "pp_wf ?p" unfolding pp_wf_def by blast
  then show ?thesis using c tid by (simp add: PollPoller_AddChannel_def Let_def)
qed

lemma PollPoller_UpdateChannel_ok:
  assumes wf: "pp_wf p" and c: "pp_heap p c = Some ch" "pp_channels p (ch_fd ch) = Some (Some c)" and tid: "tid = pp_tid p"
  shows "\<exists>p'. PollPoller_UpdateChannel tid c p = Inr p' \<and> pp_wf p' \<and> pp_channels p' = pp_channels p \<and>
    (\<exists>i < length (pp_pollfds p'). pfd_fd (pp_pollfds p' ! i) = ch_fd ch \<and> pfd_events (pp_pollfds p' ! i) = ch_events ch)"
proof -
  obtain i where i: "i < length (pp_pollfds p)" "pfd_fd (pp_pollfds p ! i) = ch_fd ch" "ch_index ch = Some i"
    using pp_wf_entry [OF wf c(2)] c(1) by (metis option.inject)
  let ?pfd = "\<lparr>pfd_fd = ch_fd ch, pfd_events = ch_events ch, pfd_revents = 0\<rparr>"
  let ?p = "p\<lparr>pp_pollfds := (pp_pollfds p)[i := ?pfd]\<rparr>"
  have same: "map pfd_fd (pp_pollfds ?p) = map pfd_fd (pp_pollfds p)"
    using i by (simp add: map_update list_update_same_conv)
  then have nth: "pfd_fd (pp_pollfds ?p ! j) = pfd_fd (pp_pollfds p ! j)" if "j < length (pp_pollfds p)" for j
    using that by (metis length_map nth_map)
  have "pp_wf ?p"
    using wf same nth unfolding pp_wf_def by (metis (no_types, lifting) length_map list.set_map poll_poller.select_convs(1,2)
        poll_poller.surjective poll_poller.update_convs(3))
  moreover have "PollPoller_UpdateChannel tid c p = Inr ?p"
    using c i tid by (simp add: PollPoller_UpdateChannel_def)
  ultimately show ?thesis using i by (auto intro!: exI [of _ i])
qed

lemma pp_wf_entries:
  assumes "pp_wf p" and "pfd \<in> set (pp_pollfds p)"
  shows "\<exists>c ch. pp_channels p (pfd_fd pfd) = Some (Some c) \<and> pp_heap p c = Some ch \<and> ch_fd ch = pfd_fd pfd"
  using assms by (fastforce simp: pp_wf_def in_set_conv_nth)

section \<open>The epoll poller\<close>

datatype epoll_op = EPOLL_CTL_ADD | EPOLL_CTL_DEL | EPOLL_CTL_MOD

text \<open>The kernel's interest list: the mask and the user pointer registered for a descriptor.\<close>

type_synonym interest = "int \<rightharpoonup> 32 word \<times> cptr"

definition epoll_ctl :: "epoll_op \<Rightarrow> int \<Rightarrow> 32 word \<times> cptr \<Rightarrow> interest \<Rightarrow> bool \<times> interest" where
  "epoll_ctl op fd event ks =
     (if fd < 0 then (False, ks)
      else case op of
        EPOLL_CTL_ADD \<Rightarrow> if ks fd = None then (True, ks(fd \<mapsto> event)) else (False, ks)
      | EPOLL_CTL_MOD \<Rightarrow> if ks fd \<noteq> None then (True, ks(fd \<mapsto> event)) else (False, ks)
      | EPOLL_CTL_DEL \<Rightarrow> if ks fd \<noteq> None then (True, ks(fd := None)) else (False, ks))"

record epoll_poller =
  ep_heap :: cheap
  ep_channels :: "int \<rightharpoonup> cptr"
  ep_interest :: interest
  ep_size :: nat
  ep_tid :: int

definition kInitEventListSize :: nat where
  "kInitEventListSize = 16"

definition EpollPoller_new :: "int \<Rightarrow> cheap \<Rightarrow> epoll_poller" where
  "EpollPoller_new tid h =
     \<lparr>ep_heap = h, ep_channels = Map.empty, ep_interest = Map.empty, ep_size = kInitEventListSize, ep_tid = tid\<rparr>"

text \<open>A failing \<^verbatim>\<open>epoll_ctl\<close> is only logged: \<^verbatim>\<open>FATALIF\<close> writes a line and goes on.\<close>

definition EpollPoller_Update :: "epoll_op \<Rightarrow> cptr \<Rightarrow> epoll_poller \<Rightarrow> epoll_poller res" where
  "EpollPoller_Update op c p =
     rbind (channel_at (ep_heap p) c) (\<lambda>ch.
     Inr (p\<lparr>ep_interest := snd (epoll_ctl op (ch_fd ch) (scast (ch_events ch), c) (ep_interest p))\<rparr>))"

definition EpollPoller_UpdateChannel :: "int \<Rightarrow> cptr \<Rightarrow> epoll_poller \<Rightarrow> epoll_poller res" where
  "EpollPoller_UpdateChannel tid c p =
     rbind (cxx_assert (tid = ep_tid p)) (\<lambda>_. EpollPoller_Update EPOLL_CTL_MOD c p)"

definition EpollPoller_AddChannel :: "int \<Rightarrow> cptr \<Rightarrow> epoll_poller \<Rightarrow> epoll_poller res" where
  "EpollPoller_AddChannel tid c p =
     rbind (cxx_assert (tid = ep_tid p)) (\<lambda>_.
     rbind (EpollPoller_Update EPOLL_CTL_ADD c p) (\<lambda>p.
     rbind (channel_at (ep_heap p) c) (\<lambda>ch.
     Inr (p\<lparr>ep_channels := (ep_channels p)(ch_fd ch \<mapsto> c)\<rparr>))))"

definition EpollPoller_RemoveChannel :: "int \<Rightarrow> cptr \<Rightarrow> epoll_poller \<Rightarrow> epoll_poller res" where
  "EpollPoller_RemoveChannel tid c p =
     rbind (cxx_assert (tid = ep_tid p)) (\<lambda>_.
     rbind (channel_at (ep_heap p) c) (\<lambda>ch.
     rbind (cxx_assert (ep_channels p (ch_fd ch) \<noteq> None)) (\<lambda>_.
     rbind (cxx_assert (ep_channels p (ch_fd ch) = Some c)) (\<lambda>_.
     Inr (p\<lparr>ep_channels := (ep_channels p)(ch_fd ch := None)\<rparr>)))))"

definition EpollPoller_HasChannel :: "int \<Rightarrow> cptr \<Rightarrow> epoll_poller \<Rightarrow> bool res" where
  "EpollPoller_HasChannel tid c p =
     rbind (cxx_assert (tid = ep_tid p)) (\<lambda>_.
     rbind (channel_at (ep_heap p) c) (\<lambda>ch.
     Inr (ep_channels p (ch_fd ch) = Some c)))"

fun EpollPoller_FillActiveChannels :: "(32 word \<times> cptr) list \<Rightarrow> cheap \<Rightarrow> (cptr list \<times> cheap) res" where
  "EpollPoller_FillActiveChannels [] h = Inr ([], h)"
| "EpollPoller_FillActiveChannels ((ev, c) # evs) h =
     rbind (channel_at h c) (\<lambda>ch.
     rbind (EpollPoller_FillActiveChannels evs (h(c \<mapsto> SetREvents (ucast ev) ch))) (\<lambda>(cs, h').
     Inr (c # cs, h')))"

text \<open>What \<^verbatim>\<open>epoll_wait\<close> wrote is an argument; \<open>None\<close> is a failed call.\<close>

definition EpollPoller_Poll :: "(32 word \<times> cptr) list option \<Rightarrow> epoll_poller \<Rightarrow> (cptr list \<times> epoll_poller) res" where
  "EpollPoller_Poll ready p =
     (case ready of
        None \<Rightarrow> Inr ([], p)
      | Some evs \<Rightarrow>
          if evs = [] then Inr ([], p)
          else rbind (cxx_assert (length evs \<le> ep_size p)) (\<lambda>_.
               rbind (EpollPoller_FillActiveChannels evs (ep_heap p)) (\<lambda>(cs, h).
               Inr (cs, p\<lparr>ep_heap := h, ep_size := (if length evs = ep_size p then ep_size p * 2 else ep_size p)\<rparr>))))"

section \<open>Channel operations on the epoll poller\<close>

text \<open>
  The channel's switches change its mask and update the poller through the loop. Closing a channel
  closes the descriptor, which takes it off the interest list, and unregisters it; deleting a channel
  closes it first.
\<close>

definition Channel_switch :: "(channel \<Rightarrow> channel) \<Rightarrow> int \<Rightarrow> cptr \<Rightarrow> epoll_poller \<Rightarrow> epoll_poller res" where
  "Channel_switch f tid c p =
     rbind (channel_at (ep_heap p) c) (\<lambda>ch.
     EpollPoller_UpdateChannel tid c (p\<lparr>ep_heap := (ep_heap p)(c \<mapsto> f ch)\<rparr>))"

definition Channel_EnableRead :: "int \<Rightarrow> cptr \<Rightarrow> epoll_poller \<Rightarrow> epoll_poller res" where
  "Channel_EnableRead = Channel_switch enable_read"

definition Channel_EnableWrite :: "int \<Rightarrow> cptr \<Rightarrow> epoll_poller \<Rightarrow> epoll_poller res" where
  "Channel_EnableWrite = Channel_switch enable_write"

definition Channel_DisableRead :: "int \<Rightarrow> cptr \<Rightarrow> epoll_poller \<Rightarrow> epoll_poller res" where
  "Channel_DisableRead = Channel_switch disable_read"

definition Channel_DisableWrite :: "int \<Rightarrow> cptr \<Rightarrow> epoll_poller \<Rightarrow> epoll_poller res" where
  "Channel_DisableWrite = Channel_switch disable_write"

definition Channel_Close :: "int \<Rightarrow> cptr \<Rightarrow> epoll_poller \<Rightarrow> epoll_poller res" where
  "Channel_Close tid c p =
     rbind (channel_at (ep_heap p) c) (\<lambda>ch.
     if 0 \<le> ch_fd ch
     then rbind (EpollPoller_RemoveChannel tid c (p\<lparr>ep_interest := (ep_interest p)(ch_fd ch := None)\<rparr>)) (\<lambda>p.
          Inr (p\<lparr>ep_heap := (ep_heap p)(c \<mapsto> ch\<lparr>ch_fd := - 1\<rparr>)\<rparr>))
     else Inr p)"

definition Channel_delete :: "int \<Rightarrow> cptr \<Rightarrow> epoll_poller \<Rightarrow> epoll_poller res" where
  "Channel_delete tid c p =
     rbind (channel_at (ep_heap p) c) (\<lambda>ch.
     rbind (if ch_fd ch \<noteq> - 1 then Channel_Close tid c p else Inr p) (\<lambda>p.
     Inr (p\<lparr>ep_heap := (ep_heap p)(c := None)\<rparr>)))"

section \<open>The interface the loop relies on\<close>

text \<open>
  A poller keeps a set of registered channels; the channels that may be added are the live, unregistered
  ones. A client that only adds addable channels and updates or closes registered ones never fails,
  and the registered set is what it expects.
\<close>

datatype pl_op = PAdd cptr | PUpdate cptr | PClose cptr

fun pl_spec :: "pl_op \<Rightarrow> cptr set \<times> cptr set \<Rightarrow> (cptr set \<times> cptr set) option" where
  "pl_spec (PAdd c) (reg, free) = (if c \<in> free then Some (insert c reg, free - {c}) else None)"
| "pl_spec (PUpdate c) (reg, free) = (if c \<in> reg then Some (reg, free) else None)"
| "pl_spec (PClose c) (reg, free) = (if c \<in> reg then Some (reg - {c}, free) else None)"

fun pl_specs :: "pl_op list \<Rightarrow> cptr set \<times> cptr set \<Rightarrow> (cptr set \<times> cptr set) option" where
  "pl_specs [] a = Some a"
| "pl_specs (x # xs) a = (case pl_spec x a of None \<Rightarrow> None | Some a' \<Rightarrow> pl_specs xs a')"

locale poller_interface =
  fixes inv :: "'p \<Rightarrow> bool"
    and registered :: "'p \<Rightarrow> cptr set"
    and addable :: "'p \<Rightarrow> cptr set"
    and add :: "cptr \<Rightarrow> 'p \<Rightarrow> 'p res"
    and upd :: "cptr \<Rightarrow> 'p \<Rightarrow> 'p res"
    and cls :: "cptr \<Rightarrow> 'p \<Rightarrow> 'p res"
  assumes add_ok: "inv p \<Longrightarrow> c \<in> addable p \<Longrightarrow>
      \<exists>p'. add c p = Inr p' \<and> inv p' \<and> registered p' = insert c (registered p) \<and> addable p' = addable p - {c}"
    and upd_ok: "inv p \<Longrightarrow> c \<in> registered p \<Longrightarrow>
      \<exists>p'. upd c p = Inr p' \<and> inv p' \<and> registered p' = registered p \<and> addable p' = addable p"
    and cls_ok: "inv p \<Longrightarrow> c \<in> registered p \<Longrightarrow>
      \<exists>p'. cls c p = Inr p' \<and> inv p' \<and> registered p' = registered p - {c} \<and> addable p' = addable p"
begin

definition exec :: "pl_op \<Rightarrow> 'p \<Rightarrow> 'p res" where
  "exec x = (case x of PAdd c \<Rightarrow> add c | PUpdate c \<Rightarrow> upd c | PClose c \<Rightarrow> cls c)"

lemma exec_ok:
  assumes "inv p" and "pl_spec x (registered p, addable p) = Some a"
  shows "\<exists>p'. exec x p = Inr p' \<and> inv p' \<and> (registered p', addable p') = a"
  using assms add_ok [of p] upd_ok [of p] cls_ok [of p]
  by (cases x) (fastforce simp: exec_def split: if_splits)+

lemma run_ok:
  assumes "inv p" and "pl_specs xs (registered p, addable p) = Some a"
  shows "\<exists>p'. rfold exec xs p = Inr p' \<and> inv p' \<and> (registered p', addable p') = a"
  using assms
proof (induction xs arbitrary: p)
  case (Cons x xs)
  then obtain a1 where a1: "pl_spec x (registered p, addable p) = Some a1" "pl_specs xs a1 = Some a"
    by (auto split: option.splits)
  obtain p1 where p1: "exec x p = Inr p1" "inv p1" "(registered p1, addable p1) = a1"
    using exec_ok [OF Cons.prems(1) a1(1)] by blast
  then show ?case using Cons.IH [OF p1(2)] a1(2) by simp
qed simp

end

section \<open>Invariant of the epoll poller\<close>

text \<open>
  Live channels have distinct descriptors; the registered channels are live, and the interest list holds
  exactly them, with their current masks.
\<close>

definition ep_fds :: "epoll_poller \<Rightarrow> bool" where
  "ep_fds p \<longleftrightarrow> (\<forall>c d ch dh. ep_heap p c = Some ch \<and> ep_heap p d = Some dh \<and> ch_fd ch = ch_fd dh \<and> 0 \<le> ch_fd ch \<longrightarrow> c = d)"

definition ep_reg :: "epoll_poller \<Rightarrow> bool" where
  "ep_reg p \<longleftrightarrow> (\<forall>fd c. ep_channels p fd = Some c \<longrightarrow> 0 \<le> fd \<and>
     (\<exists>ch. ep_heap p c = Some ch \<and> ch_fd ch = fd \<and> ep_interest p fd = Some (scast (ch_events ch), c)))"

definition ep_wf :: "epoll_poller \<Rightarrow> bool" where
  "ep_wf p \<longleftrightarrow> ep_fds p \<and> ep_reg p \<and> dom (ep_interest p) = dom (ep_channels p) \<and> 0 < ep_size p"

definition ep_registered :: "epoll_poller \<Rightarrow> cptr set" where
  "ep_registered p = ran (ep_channels p)"

definition ep_addable :: "epoll_poller \<Rightarrow> cptr set" where
  "ep_addable p = {c. \<exists>ch. ep_heap p c = Some ch \<and> 0 \<le> ch_fd ch \<and> c \<notin> ep_registered p}"

lemma ep_registeredE:
  assumes "ep_wf p" and "c \<in> ep_registered p"
  obtains ch where "ep_heap p c = Some ch" "0 \<le> ch_fd ch" "ep_channels p (ch_fd ch) = Some c"
    "ep_interest p (ch_fd ch) = Some (scast (ch_events ch), c)"
  using assms by (fastforce simp: ep_wf_def ep_reg_def ep_registered_def ran_def)

lemma ep_unregistered_fd:
  assumes "ep_wf p" and "ep_heap p c = Some ch" and "c \<notin> ep_registered p" and "0 \<le> ch_fd ch"
  shows "ep_channels p (ch_fd ch) = None \<and> ep_interest p (ch_fd ch) = None"
proof -
  have "ep_channels p (ch_fd ch) \<noteq> Some d" for d
  proof
    assume d: "ep_channels p (ch_fd ch) = Some d"
    then obtain dh where "ep_heap p d = Some dh" "ch_fd dh = ch_fd ch"
      using assms(1) by (fastforce simp: ep_wf_def ep_reg_def)
    then have "d = c" using assms(1,2,4) unfolding ep_wf_def ep_fds_def by metis
    then show False using d assms(3) by (auto simp: ep_registered_def ran_def)
  qed
  then have none: "ep_channels p (ch_fd ch) = None" by (cases "ep_channels p (ch_fd ch)") auto
  then have "ch_fd ch \<notin> dom (ep_interest p)" using assms(1) by (simp add: ep_wf_def domIff)
  then show ?thesis using none by (cases "ep_interest p (ch_fd ch)") auto
qed

lemma ep_channels_unique:
  assumes "ep_wf p" and "ep_channels p fd = Some c" and "ep_channels p fd' = Some c"
  shows "fd = fd'"
  using assms unfolding ep_wf_def ep_reg_def by (metis option.inject)

lemma ran_upd_new: "m k = None \<Longrightarrow> ran (m(k \<mapsto> v)) = insert v (ran m)"
  by (rule ran_map_upd)

lemma EpollPoller_AddChannel_ok:
  assumes wf: "ep_wf p" and tid: "ep_tid p = tid" and c: "c \<in> ep_addable p"
  shows "\<exists>p'. EpollPoller_AddChannel tid c p = Inr p' \<and> (ep_wf p' \<and> ep_tid p' = tid) \<and>
    ep_registered p' = insert c (ep_registered p) \<and> ep_addable p' = ep_addable p - {c}"
proof -
  obtain ch where ch: "ep_heap p c = Some ch" "0 \<le> ch_fd ch" "c \<notin> ep_registered p"
    using c by (auto simp: ep_addable_def)
  note none = ep_unregistered_fd [OF wf ch(1,3,2)]
  let ?p = "p\<lparr>ep_interest := (ep_interest p)(ch_fd ch \<mapsto> (scast (ch_events ch), c)),
      ep_channels := (ep_channels p)(ch_fd ch \<mapsto> c)\<rparr>"
  have run: "EpollPoller_AddChannel tid c p = Inr ?p"
    using ch tid none by (simp add: EpollPoller_AddChannel_def EpollPoller_Update_def epoll_ctl_def)
  have reg: "ep_registered ?p = insert c (ep_registered p)"
    using none by (simp add: ep_registered_def ran_upd_new)
  have "ep_wf ?p" using wf ch by (auto simp: ep_wf_def ep_reg_def ep_fds_def)
  moreover have "ep_addable ?p = ep_addable p - {c}" using reg by (auto simp: ep_addable_def)
  ultimately show ?thesis using run reg tid by auto
qed

lemma EpollPoller_UpdateChannel_ok:
  assumes wf: "ep_wf p" and tid: "ep_tid p = tid" and c: "c \<in> ep_registered p"
  shows "\<exists>p'. EpollPoller_UpdateChannel tid c p = Inr p' \<and> (ep_wf p' \<and> ep_tid p' = tid) \<and>
    ep_registered p' = ep_registered p \<and> ep_addable p' = ep_addable p"
proof -
  obtain ch where ch: "ep_heap p c = Some ch" "0 \<le> ch_fd ch" "ep_channels p (ch_fd ch) = Some c"
    "ep_interest p (ch_fd ch) = Some (scast (ch_events ch), c)"
    using ep_registeredE [OF wf c] .
  then have "EpollPoller_UpdateChannel tid c p = Inr p"
    using tid by (simp add: EpollPoller_UpdateChannel_def EpollPoller_Update_def epoll_ctl_def fun_upd_idem)
  then show ?thesis using wf tid by simp
qed

lemma Channel_Close_ok:
  assumes wf: "ep_wf p" and tid: "ep_tid p = tid" and c: "c \<in> ep_registered p"
  shows "\<exists>p'. Channel_Close tid c p = Inr p' \<and> (ep_wf p' \<and> ep_tid p' = tid) \<and>
    ep_registered p' = ep_registered p - {c} \<and> ep_addable p' = ep_addable p"
proof -
  obtain ch where ch: "ep_heap p c = Some ch" "0 \<le> ch_fd ch" "ep_channels p (ch_fd ch) = Some c"
    "ep_interest p (ch_fd ch) = Some (scast (ch_events ch), c)"
    using ep_registeredE [OF wf c] .
  let ?p = "p\<lparr>ep_interest := (ep_interest p)(ch_fd ch := None), ep_channels := (ep_channels p)(ch_fd ch := None),
      ep_heap := (ep_heap p)(c \<mapsto> ch\<lparr>ch_fd := - 1\<rparr>)\<rparr>"
  have run: "Channel_Close tid c p = Inr ?p"
    using ch tid by (simp add: Channel_Close_def EpollPoller_RemoveChannel_def)
  have reg: "ep_registered ?p = ep_registered p - {c}"
  proof -
    have uniq: "ep_channels p fd = Some c \<longleftrightarrow> fd = ch_fd ch" for fd
      using ch(3) ep_channels_unique [OF wf ch(3), of fd] by auto
    show ?thesis unfolding ep_registered_def ran_def by (auto simp: uniq) (metis option.inject uniq)
  qed
  have "ep_reg ?p"
    unfolding ep_reg_def
  proof (intro allI impI)
    fix fd d
    assume "ep_channels ?p fd = Some d"
    then have fd: "fd \<noteq> ch_fd ch" "ep_channels p fd = Some d" by (auto split: if_splits)
    then have "d \<noteq> c" using ep_channels_unique [OF wf ch(3), of fd] by auto
    moreover have "0 \<le> fd \<and> (\<exists>dh. ep_heap p d = Some dh \<and> ch_fd dh = fd \<and> ep_interest p fd = Some (scast (ch_events dh), d))"
      using wf fd(2) by (simp add: ep_wf_def ep_reg_def)
    ultimately show "0 \<le> fd \<and> (\<exists>ch. ep_heap ?p d = Some ch \<and> ch_fd ch = fd \<and>
        ep_interest ?p fd = Some (scast (ch_events ch), d))"
      using fd(1) by simp
  qed
  moreover have "ep_fds ?p" using wf by (auto simp: ep_wf_def ep_fds_def)
  ultimately have "ep_wf ?p" using wf by (simp add: ep_wf_def)
  moreover have "ep_addable ?p = ep_addable p"
    using reg c ch(1) by (auto simp: ep_addable_def)
  ultimately show ?thesis using run reg tid by auto
qed

interpretation ep: poller_interface "\<lambda>p. ep_wf p \<and> ep_tid p = tid" ep_registered ep_addable
    "EpollPoller_AddChannel tid" "EpollPoller_UpdateChannel tid" "Channel_Close tid" for tid
proof unfold_locales
  fix p c
  assume inv: "ep_wf p \<and> ep_tid p = tid"
  show "c \<in> ep_addable p \<Longrightarrow> \<exists>p'. EpollPoller_AddChannel tid c p = Inr p' \<and> (ep_wf p' \<and> ep_tid p' = tid) \<and>
      ep_registered p' = insert c (ep_registered p) \<and> ep_addable p' = ep_addable p - {c}"
    using inv EpollPoller_AddChannel_ok by blast
  show "c \<in> ep_registered p \<Longrightarrow> \<exists>p'. EpollPoller_UpdateChannel tid c p = Inr p' \<and> (ep_wf p' \<and> ep_tid p' = tid) \<and>
      ep_registered p' = ep_registered p \<and> ep_addable p' = ep_addable p"
    using inv EpollPoller_UpdateChannel_ok by blast
  show "c \<in> ep_registered p \<Longrightarrow> \<exists>p'. Channel_Close tid c p = Inr p' \<and> (ep_wf p' \<and> ep_tid p' = tid) \<and>
      ep_registered p' = ep_registered p - {c} \<and> ep_addable p' = ep_addable p"
    using inv Channel_Close_ok by blast
qed

section \<open>Reachable epoll pollers\<close>

text \<open>The mask switches keep the descriptor.\<close>

definition mask_switches :: "(channel \<Rightarrow> channel) list" where
  "mask_switches = [enable_read, enable_write, disable_read, disable_write]"

lemma mask_switch_fd: "f \<in> set mask_switches \<Longrightarrow> ch_fd (f ch) = ch_fd ch"
  by (auto simp: mask_switches_def enable_read_def enable_write_def disable_read_def disable_write_def)

lemma ep_fds_frame:
  assumes "ep_fds p" and "ep_heap p c = Some ch" and "ch_fd ch' = ch_fd ch" and "ep_heap p' = (ep_heap p)(c \<mapsto> ch')"
  shows "ep_fds p'"
  unfolding ep_fds_def
proof (intro allI impI)
  fix d e dh eh
  assume a: "ep_heap p' d = Some dh \<and> ep_heap p' e = Some eh \<and> ch_fd dh = ch_fd eh \<and> 0 \<le> ch_fd dh"
  have "\<exists>xh. ep_heap p x = Some xh \<and> ch_fd xh = ch_fd yh" if "ep_heap p' x = Some yh" for x yh
    using that assms(2-4) by (cases "x = c") auto
  then obtain dh' eh' where "ep_heap p d = Some dh'" "ch_fd dh' = ch_fd dh" "ep_heap p e = Some eh'" "ch_fd eh' = ch_fd eh"
    using a by meson
  then show "d = e" using assms(1) a unfolding ep_fds_def by metis
qed

lemma Channel_switch_ok:
  assumes wf: "ep_wf p" and tid: "ep_tid p = tid" and ch: "ep_heap p c = Some ch" and f: "ch_fd (f ch) = ch_fd ch"
  shows "\<exists>p'. Channel_switch f tid c p = Inr p' \<and> ep_wf p' \<and> ep_tid p' = tid \<and>
    ep_heap p' = (ep_heap p)(c \<mapsto> f ch) \<and> ep_registered p' = ep_registered p"
proof -
  let ?q = "p\<lparr>ep_heap := (ep_heap p)(c \<mapsto> f ch)\<rparr>"
  let ?i = "snd (epoll_ctl EPOLL_CTL_MOD (ch_fd ch) (scast (ch_events (f ch)), c) (ep_interest p))"
  let ?p = "?q\<lparr>ep_interest := ?i\<rparr>"
  have run: "Channel_switch f tid c p = Inr ?p"
    using ch tid f by (simp add: Channel_switch_def EpollPoller_UpdateChannel_def EpollPoller_Update_def)
  have dom: "dom ?i = dom (ep_interest p)" by (auto simp: epoll_ctl_def)
  have fds: "ep_fds ?p" using wf ch f by (intro ep_fds_frame [of p c ch "f ch" ?p]) (simp_all add: ep_wf_def)
  have reg: "ep_reg ?p"
    unfolding ep_reg_def
  proof (intro allI impI)
    fix fd d
    assume d: "ep_channels ?p fd = Some d"
    then obtain dh where dh: "0 \<le> fd" "ep_heap p d = Some dh" "ch_fd dh = fd" "ep_interest p fd = Some (scast (ch_events dh), d)"
      using wf by (fastforce simp: ep_wf_def ep_reg_def)
    show "0 \<le> fd \<and> (\<exists>ch. ep_heap ?p d = Some ch \<and> ch_fd ch = fd \<and> ep_interest ?p fd = Some (scast (ch_events ch), d))"
    proof (cases "d = c")
      case True
      then show ?thesis using dh ch f by (auto simp: epoll_ctl_def)
    next
      case False
      then have "ch_fd ch \<noteq> fd" using wf dh ch unfolding ep_wf_def ep_fds_def by metis
      then show ?thesis using dh False by (simp add: epoll_ctl_def)
    qed
  qed
  have "ep_wf ?p" using wf fds reg dom by (simp add: ep_wf_def)
  then show ?thesis using run tid by (simp add: ep_registered_def)
qed

lemma Channel_delete_ok:
  assumes wf: "ep_wf p" and tid: "ep_tid p = tid" and d: "Channel_delete tid c p = Inr p'"
  shows "ep_wf p' \<and> ep_tid p' = tid \<and> ep_heap p' c = None"
proof -
  obtain ch where ch: "ep_heap p c = Some ch"
    using d by (auto simp: Channel_delete_def channel_at_def split: option.splits)
  have drop: "ep_wf (q\<lparr>ep_heap := (ep_heap q)(c := None)\<rparr>)" if "ep_wf q" "c \<notin> ep_registered q" for q
    using that by (fastforce simp: ep_wf_def ep_fds_def ep_reg_def ep_registered_def ran_def)
  obtain q where q: "(if ch_fd ch \<noteq> - 1 then Channel_Close tid c p else Inr p) = Inr q" and
    p': "p' = q\<lparr>ep_heap := (ep_heap q)(c := None)\<rparr>"
    using d ch by (auto simp: Channel_delete_def rbind_Inr_iff)
  have "ep_wf q \<and> ep_tid q = tid \<and> c \<notin> ep_registered q"
  proof (cases "c \<in> ep_registered p")
    case True
    then have "ch_fd ch \<noteq> - 1" using ep_registeredE [OF wf True] ch by force
    then show ?thesis using Channel_Close_ok [OF wf tid True] q by auto
  next
    case False
    have "q = p"
    proof (cases "0 \<le> ch_fd ch")
      case True
      then have "Channel_Close tid c p = Inl AssertFailed"
        using ch tid ep_unregistered_fd [OF wf ch False True]
        by (simp add: Channel_Close_def EpollPoller_RemoveChannel_def)
      then show ?thesis using q True by (simp split: if_splits)
    next
      case neg: False
      then show ?thesis using q ch by (simp add: Channel_Close_def split: if_splits)
    qed
    then show ?thesis using wf tid False by simp
  qed
  then show ?thesis using p' drop by simp
qed

text \<open>
  The kernel reports only descriptors of the interest list, each at most once, and at most as many as
  the event vector holds.
\<close>

definition reported :: "epoll_poller \<Rightarrow> (32 word \<times> cptr) list \<Rightarrow> bool" where
  "reported p evs \<longleftrightarrow> length evs \<le> ep_size p \<and> distinct (map snd evs) \<and> snd ` set evs \<subseteq> snd ` ran (ep_interest p)"

lemma interest_registered:
  assumes wf: "ep_wf p" and x: "x \<in> ran (ep_interest p)"
  shows "snd x \<in> ep_registered p"
proof -
  obtain fd where fd: "ep_interest p fd = Some x" using x by (auto simp: ran_def)
  then have "fd \<in> dom (ep_channels p)" using wf by (auto simp: ep_wf_def)
  then obtain c where c: "ep_channels p fd = Some c" by auto
  then have "snd x = c" using wf fd by (fastforce simp: ep_wf_def ep_reg_def)
  then show ?thesis using c by (auto simp: ep_registered_def ran_def)
qed

text \<open>
  What the two pollers do with the events of a poll, on any list of received masks and channels: the
  channels in the order of the list, and the heap with the received events set.
\<close>

fun fill_active :: "(16 word \<times> cptr) list \<Rightarrow> cheap \<Rightarrow> (cptr list \<times> cheap) res" where
  "fill_active [] h = Inr ([], h)"
| "fill_active ((r, c) # evs) h =
     rbind (channel_at h c) (\<lambda>ch.
     rbind (fill_active evs (h(c \<mapsto> SetREvents r ch))) (\<lambda>(cs, h').
     Inr (c # cs, h')))"

definition set_received :: "(16 word \<times> cptr) list \<Rightarrow> cheap \<Rightarrow> cheap" where
  "set_received evs h c = (case map_of (map prod.swap evs) c of None \<Rightarrow> h c | Some r \<Rightarrow> map_option (SetREvents r) (h c))"

lemma map_of_swap_notin: "c \<notin> snd ` set evs \<Longrightarrow> map_of (map prod.swap evs) c = None"
  by (force simp: map_of_eq_None_iff)

lemma map_of_swap_in: "distinct (map snd evs) \<Longrightarrow> (r, c) \<in> set evs \<Longrightarrow> map_of (map prod.swap evs) c = Some r"
  by (intro map_of_is_SomeI) (auto simp: comp_def)

lemma set_received_Nil [simp]: "set_received [] h = h"
  by (simp add: set_received_def fun_eq_iff)

lemma set_received_frame: "c \<notin> snd ` set evs \<Longrightarrow> set_received evs h c = h c"
  by (simp add: set_received_def map_of_swap_notin)

lemma set_received_at:
  "distinct (map snd evs) \<Longrightarrow> (r, c) \<in> set evs \<Longrightarrow> set_received evs h c = map_option (SetREvents r) (h c)"
  by (simp add: set_received_def map_of_swap_in)

lemma set_received_dom [simp]: "dom (set_received evs h) = dom h"
  by (auto simp: set_received_def split: option.splits)

lemma set_received_order:
  assumes "set evs = set evs'" and "distinct (map snd evs)" and "distinct (map snd evs')"
  shows "set_received evs h = set_received evs' h"
proof
  fix c
  show "set_received evs h c = set_received evs' h c"
  proof (cases "c \<in> snd ` set evs")
    case True
    then obtain r where "(r, c) \<in> set evs" by auto
    then show ?thesis using assms by (simp add: set_received_at)
  next
    case False
    then show ?thesis using assms(1) by (simp add: set_received_frame)
  qed
qed

lemma fill_active_ok:
  assumes "snd ` set evs \<subseteq> dom h" and "distinct (map snd evs)"
  shows "fill_active evs h = Inr (map snd evs, set_received evs h)"
  using assms
proof (induction evs arbitrary: h)
  case Nil
  then show ?case by (simp add: set_received_def)
next
  case (Cons x evs)
  obtain r c where x: "x = (r, c)" by (cases x)
  obtain ch where ch: "h c = Some ch" using Cons.prems(1) x by auto
  have "fill_active evs (h(c \<mapsto> SetREvents r ch)) = Inr (map snd evs, set_received evs (h(c \<mapsto> SetREvents r ch)))"
    using Cons.prems by (intro Cons.IH) auto
  moreover have "map_of (map prod.swap evs) c = None" using Cons.prems(2) x by (intro map_of_swap_notin) simp
  then have "set_received evs (h(c \<mapsto> SetREvents r ch)) = set_received (x # evs) h"
    using x ch by (intro ext) (auto simp: set_received_def split: option.splits)
  ultimately show ?case using x ch by simp
qed

text \<open>The epoll poller narrows the masks the kernel reports; the poll poller stops after the announced number of entries.\<close>

lemma EpollPoller_Fill_eq: "EpollPoller_FillActiveChannels evs h = fill_active (map (map_prod ucast (\<lambda>c. c)) evs) h"
proof (induction evs arbitrary: h)
  case (Cons x evs)
  then show ?case by (cases x) (simp add: fun_upd_def)
qed simp

definition entry_events :: "(int \<rightharpoonup> cptr option) \<Rightarrow> pollfd list \<Rightarrow> (16 word \<times> cptr) list" where
  "entry_events chans pfds =
     map (\<lambda>pfd. (pfd_revents pfd, the (the (chans (pfd_fd pfd))))) (filter (\<lambda>pfd. sint (pfd_revents pfd) > 0) pfds)"

lemma PollPoller_Fill_eq:
  assumes "\<forall>pfd \<in> set pfds. \<exists>c. chans (pfd_fd pfd) = Some (Some c)"
  shows "PollPoller_FillActiveChannels pfds (int (length (entry_events chans pfds))) chans h = fill_active (entry_events chans pfds) h"
  using assms
proof (induction pfds arbitrary: h)
  case (Cons pfd pfds)
  obtain c where c: "chans (pfd_fd pfd) = Some (Some c)" using Cons.prems by auto
  show ?case
  proof (cases "sint (pfd_revents pfd) > 0")
    case True
    then have "entry_events chans (pfd # pfds) = (pfd_revents pfd, c) # entry_events chans pfds" using c by (simp add: entry_events_def)
    then show ?thesis using True c Cons by (simp add: rbind_def split: sum.splits)
  next
    case False
    then have "entry_events chans (pfd # pfds) = entry_events chans pfds" by (simp add: entry_events_def)
    then show ?thesis using False Cons by (auto simp: entry_events_def)
  qed
qed (simp add: entry_events_def)

lemma ep_wf_revents:
  assumes wf: "ep_wf p" and dom: "dom h' = dom (ep_heap p)" and size: "0 < n"
    and same: "\<And>c ch'. h' c = Some ch' \<Longrightarrow> \<exists>ch. ep_heap p c = Some ch \<and> ch_fd ch' = ch_fd ch \<and> ch_events ch' = ch_events ch"
  shows "ep_wf (p\<lparr>ep_heap := h', ep_size := n\<rparr>)"
proof -
  have "ep_fds (p\<lparr>ep_heap := h', ep_size := n\<rparr>)"
    unfolding ep_fds_def
  proof (intro allI impI)
    fix c d ch dh
    assume "ep_heap (p\<lparr>ep_heap := h', ep_size := n\<rparr>) c = Some ch \<and> ep_heap (p\<lparr>ep_heap := h', ep_size := n\<rparr>) d = Some dh \<and>
        ch_fd ch = ch_fd dh \<and> 0 \<le> ch_fd ch"
    then show "c = d" using wf same [of c ch] same [of d dh] unfolding ep_wf_def ep_fds_def by auto
  qed
  moreover have "ep_reg (p\<lparr>ep_heap := h', ep_size := n\<rparr>)"
    unfolding ep_reg_def
  proof (intro allI impI)
    fix fd c
    assume "ep_channels (p\<lparr>ep_heap := h', ep_size := n\<rparr>) fd = Some c"
    then obtain ch where ch: "0 \<le> fd" "ep_heap p c = Some ch" "ch_fd ch = fd" "ep_interest p fd = Some (scast (ch_events ch), c)"
      using wf by (fastforce simp: ep_wf_def ep_reg_def)
    then obtain ch' where "h' c = Some ch'" using dom by (metis domD domI)
    then show "0 \<le> fd \<and> (\<exists>ch. ep_heap (p\<lparr>ep_heap := h', ep_size := n\<rparr>) c = Some ch \<and> ch_fd ch = fd \<and>
        ep_interest (p\<lparr>ep_heap := h', ep_size := n\<rparr>) fd = Some (scast (ch_events ch), c))"
      using ch same [of c ch'] by auto
  qed
  ultimately show ?thesis using wf size by (simp add: ep_wf_def)
qed

lemma ep_wf_received: "ep_wf p \<Longrightarrow> 0 < n \<Longrightarrow> ep_wf (p\<lparr>ep_heap := set_received evs (ep_heap p), ep_size := n\<rparr>)"
  by (intro ep_wf_revents) (auto simp: set_received_def SetREvents_def split: option.splits)

lemma registered_live: "ep_wf p \<Longrightarrow> ep_registered p \<subseteq> dom (ep_heap p)"
  by (blast elim: ep_registeredE)

lemma EpollPoller_Poll_eq:
  assumes wf: "ep_wf p" and r: "reported p evs"
  shows "EpollPoller_Poll (Some evs) p = Inr (map snd evs, p\<lparr>ep_heap := set_received (map (map_prod ucast (\<lambda>c. c)) evs) (ep_heap p),
    ep_size := (if length evs = ep_size p then ep_size p * 2 else ep_size p)\<rparr>)"
proof (cases "evs = []")
  case True
  then show ?thesis using wf by (simp add: EpollPoller_Poll_def ep_wf_def)
next
  case False
  let ?evs = "map (map_prod ucast (\<lambda>c. c)) evs :: (16 word \<times> cptr) list"
  have "snd ` set evs \<subseteq> dom (ep_heap p)"
    using r interest_registered [OF wf] registered_live [OF wf] by (force simp: reported_def)
  then have "fill_active ?evs (ep_heap p) = Inr (map snd ?evs, set_received ?evs (ep_heap p))"
    using r by (intro fill_active_ok) (force simp: reported_def comp_def)+
  then show ?thesis using False r by (simp add: EpollPoller_Poll_def EpollPoller_Fill_eq reported_def comp_def)
qed

lemma EpollPoller_Poll_ok:
  assumes wf: "ep_wf p" and r: "reported p evs"
  shows "\<exists>p'. EpollPoller_Poll (Some evs) p = Inr (map snd evs, p') \<and> ep_wf p' \<and> ep_tid p' = ep_tid p \<and>
    ep_registered p' = ep_registered p \<and> set (map snd evs) \<subseteq> ep_registered p \<and>
    (\<forall>(ev, c) \<in> set evs. \<exists>ch. ep_heap p c = Some ch \<and> ep_heap p' c = Some (SetREvents (ucast ev) ch)) \<and>
    (\<forall>c. c \<notin> snd ` set evs \<longrightarrow> ep_heap p' c = ep_heap p c) \<and> length evs < ep_size p'"
proof -
  let ?evs = "map (map_prod ucast (\<lambda>c. c)) evs :: (16 word \<times> cptr) list"
  let ?n = "if length evs = ep_size p then ep_size p * 2 else ep_size p"
  let ?p = "p\<lparr>ep_heap := set_received ?evs (ep_heap p), ep_size := ?n\<rparr>"
  have sub: "set (map snd evs) \<subseteq> ep_registered p"
    using r interest_registered [OF wf] by (auto simp: reported_def)
  have n: "0 < ?n" "length evs < ?n" using r wf by (auto simp: reported_def ep_wf_def)
  have "\<exists>ch. ep_heap p c = Some ch \<and> ep_heap ?p c = Some (SetREvents (ucast ev) ch)" if "(ev, c) \<in> set evs" for ev c
  proof -
    have "c \<in> dom (ep_heap p)" using that sub registered_live [OF wf] by force
    moreover have "set_received ?evs (ep_heap p) c = map_option (SetREvents (ucast ev)) (ep_heap p c)"
      using r that by (intro set_received_at) (force simp: reported_def comp_def)+
    ultimately show ?thesis by auto
  qed
  moreover have "ep_heap ?p c = ep_heap p c" if "c \<notin> snd ` set evs" for c
    using that by (force intro!: set_received_frame)
  ultimately show ?thesis
    using EpollPoller_Poll_eq [OF wf r] ep_wf_received [OF wf n(1), of ?evs] sub n(2) by (auto simp: ep_registered_def)
qed

inductive ep_reach :: "int \<Rightarrow> epoll_poller \<Rightarrow> bool" for tid where
  start: "ep_reach tid (EpollPoller_new tid Map.empty)"
| create: "ep_reach tid p \<Longrightarrow> ep_heap p c = None \<Longrightarrow> 0 \<le> fd \<Longrightarrow>
    \<forall>d dh. ep_heap p d = Some dh \<longrightarrow> ch_fd dh \<noteq> fd \<Longrightarrow>
    ep_reach tid (p\<lparr>ep_heap := (ep_heap p)(c \<mapsto> Channel_new fd ev ids)\<rparr>)"
| callback: "ep_reach tid p \<Longrightarrow> ep_heap p c = Some ch \<Longrightarrow>
    ep_reach tid (p\<lparr>ep_heap := (ep_heap p)(c \<mapsto> Channel_SetCallback k ch)\<rparr>)"
| add: "ep_reach tid p \<Longrightarrow> c \<in> ep_addable p \<Longrightarrow> EpollPoller_AddChannel tid c p = Inr p' \<Longrightarrow> ep_reach tid p'"
| switch: "ep_reach tid p \<Longrightarrow> f \<in> set mask_switches \<Longrightarrow> Channel_switch f tid c p = Inr p' \<Longrightarrow> ep_reach tid p'"
| close: "ep_reach tid p \<Longrightarrow> c \<in> ep_registered p \<Longrightarrow> Channel_Close tid c p = Inr p' \<Longrightarrow> ep_reach tid p'"
| delete: "ep_reach tid p \<Longrightarrow> Channel_delete tid c p = Inr p' \<Longrightarrow> ep_reach tid p'"
| poll: "ep_reach tid p \<Longrightarrow> reported p evs \<Longrightarrow> EpollPoller_Poll (Some evs) p = Inr (cs, p') \<Longrightarrow> ep_reach tid p'"

lemma ep_reach_wf: "ep_reach tid p \<Longrightarrow> ep_wf p \<and> ep_tid p = tid"
proof (induction rule: ep_reach.induct)
  case start
  then show ?case by (simp add: EpollPoller_new_def ep_wf_def ep_fds_def ep_reg_def kInitEventListSize_def)
next
  case (create p c fd ev ids)
  let ?p = "p\<lparr>ep_heap := (ep_heap p)(c \<mapsto> Channel_new fd ev ids)\<rparr>"
  have "ep_fds ?p" using create by (fastforce simp: ep_wf_def ep_fds_def Channel_new_def)
  moreover have "ep_reg ?p" using create by (fastforce simp: ep_wf_def ep_reg_def)
  ultimately show ?case using create by (simp add: ep_wf_def)
next
  case (callback p c ch k)
  let ?h = "(ep_heap p)(c \<mapsto> Channel_SetCallback k ch)"
  have "ep_wf (p\<lparr>ep_heap := ?h, ep_size := ep_size p\<rparr>)"
    using callback by (intro ep_wf_revents) (auto simp: ep_wf_def Channel_SetCallback_def split: if_splits)
  then show ?case using callback by simp
next
  case (add p c p')
  then show ?case using EpollPoller_AddChannel_ok [of p tid c] by auto
next
  case (switch p f c p')
  then obtain ch where "ep_heap p c = Some ch"
    by (auto simp: Channel_switch_def channel_at_def split: option.splits)
  then show ?case using Channel_switch_ok [of p tid c ch f] switch mask_switch_fd by auto
next
  case (close p c p')
  then show ?case using Channel_Close_ok [of p tid c] by auto
next
  case (delete p c p')
  then show ?case using Channel_delete_ok by blast
next
  case (poll p evs cs p')
  then show ?case using EpollPoller_Poll_ok [of p evs] by auto
qed

section \<open>A poll of the poll poller\<close>

text \<open>The received masks of a poll, with the channels of their entries.\<close>

definition poll_events :: "poll_poller \<Rightarrow> 16 word list \<Rightarrow> (16 word \<times> cptr) list" where
  "poll_events p revents =
     map (\<lambda>(pfd, r). (r, the (the (pp_channels p (pfd_fd pfd))))) (filter (\<lambda>(pfd, r). sint r > 0) (zip (pp_pollfds p) revents))"

lemma poll_events_at:
  assumes "length revents = length (pp_pollfds p)" and "i < length revents" and "sint (revents ! i) > 0"
  shows "(revents ! i, the (the (pp_channels p (pfd_fd (pp_pollfds p ! i))))) \<in> set (poll_events p revents)"
  using assms by (force simp: poll_events_def set_zip)

lemma pp_channels_inj:
  assumes "pp_wf p"
  shows "inj_on (\<lambda>pfd. the (the (pp_channels p (pfd_fd pfd)))) (set (pp_pollfds p))"
proof (rule inj_onI)
  fix x y
  assume x: "x \<in> set (pp_pollfds p)" and y: "y \<in> set (pp_pollfds p)"
    and eq: "the (the (pp_channels p (pfd_fd x))) = the (the (pp_channels p (pfd_fd y)))"
  have "pfd_fd x = pfd_fd y" using pp_wf_entries [OF assms x] pp_wf_entries [OF assms y] eq by auto
  then show "x = y" using assms x y by (auto simp: pp_wf_def distinct_map dest: inj_onD)
qed

lemma poll_events_distinct:
  assumes "pp_wf p"
  shows "distinct (map snd (poll_events p revents))"
proof -
  let ?xs = "map fst (filter (\<lambda>(pfd, r). sint r > 0) (zip (pp_pollfds p) revents))"
  have "map snd (poll_events p revents) = map (\<lambda>pfd. the (the (pp_channels p (pfd_fd pfd)))) ?xs"
    by (simp add: poll_events_def split_def)
  moreover have "distinct ?xs"
    using assms by (intro distinct_map_filter) (simp add: map_fst_zip_take pp_wf_def distinct_map)
  moreover have "set ?xs \<subseteq> set (pp_pollfds p)" by (auto dest: set_zip_leftD)
  then have "inj_on (\<lambda>pfd. the (the (pp_channels p (pfd_fd pfd)))) (set ?xs)"
    using pp_channels_inj [OF assms] inj_on_subset by blast
  ultimately show ?thesis using distinct_map by metis
qed

lemma length_filter_snd:
  "length xs = length ys \<Longrightarrow> length (filter (\<lambda>(x, y). P y) (zip xs ys)) = length (filter P ys)"
  by (induction xs ys rule: list_induct2) auto

lemma PollPoller_Poll_eq:
  assumes wf: "pp_wf p" and len: "length revents = length (pp_pollfds p)"
    and n: "numEvents = int (length (filter (\<lambda>r. sint r > 0) revents))"
  shows "PollPoller_Poll numEvents revents p = Inr (map snd (poll_events p revents),
    p\<lparr>pp_pollfds := map2 (\<lambda>pfd r. pfd\<lparr>pfd_revents := r\<rparr>) (pp_pollfds p) revents,
      pp_heap := set_received (poll_events p revents) (pp_heap p)\<rparr>)"
proof -
  let ?pfds = "map2 (\<lambda>pfd r. pfd\<lparr>pfd_revents := r\<rparr>) (pp_pollfds p) revents"
  let ?evs = "poll_events p revents"
  have evs: "entry_events (pp_channels p) ?pfds = ?evs"
    by (simp add: entry_events_def poll_events_def filter_map o_def split_def)
  have count: "numEvents = int (length ?evs)"
    using n length_filter_snd [of "pp_pollfds p" revents] len by (simp add: poll_events_def)
  have known: "\<forall>pfd \<in> set ?pfds. \<exists>c. pp_channels p (pfd_fd pfd) = Some (Some c)"
    using pp_wf_entries [OF wf] by (fastforce dest: set_zip_leftD)
  have "snd ` set ?evs \<subseteq> dom (pp_heap p)"
    using pp_wf_entries [OF wf] by (fastforce simp: poll_events_def dest: set_zip_leftD)
  then have "fill_active ?evs (pp_heap p) = Inr (map snd ?evs, set_received ?evs (pp_heap p))"
    using poll_events_distinct [OF wf] by (rule fill_active_ok)
  then show ?thesis
    using PollPoller_Fill_eq [OF known, of "pp_heap p"] evs count
    by (auto simp: PollPoller_Poll_def Let_def set_received_def)
qed

section \<open>Properties\<close>

text \<open>An epoll poller with one registered channel, at address 1 for descriptor 5.\<close>

definition one_channel :: epoll_poller where
  "one_channel =
     (EpollPoller_new 9 Map.empty)\<lparr>ep_heap := [1 \<mapsto> Channel_new 5 kReadEvent 0], ep_channels := [5 \<mapsto> 1],
       ep_interest := [5 \<mapsto> (scast kReadEvent, 1)]\<rparr>"

lemma one_channel_reach: "ep_reach 9 one_channel"
proof -
  let ?p = "(EpollPoller_new 9 Map.empty)\<lparr>ep_heap := (ep_heap (EpollPoller_new 9 Map.empty))(1 \<mapsto> Channel_new 5 kReadEvent 0)\<rparr>"
  have "ep_reach 9 ?p"
    by (rule ep_reach.create [OF ep_reach.start]) (simp_all add: EpollPoller_new_def)
  then show ?thesis
  proof (rule ep_reach.add)
    show "1 \<in> ep_addable ?p" by (simp add: ep_addable_def ep_registered_def EpollPoller_new_def Channel_new_def)
    show "EpollPoller_AddChannel 9 1 ?p = Inr one_channel"
      by (simp add: EpollPoller_AddChannel_def EpollPoller_Update_def epoll_ctl_def EpollPoller_new_def Channel_new_def
          one_channel_def)
  qed
qed

text \<open>
  Whatever channels were created, registered, switched, closed and deleted before: a poll that reports
  descriptors of the interest list hands the loop exactly the channels registered for them, in the order
  reported, all of them alive and registered, each with the reported events set; no other channel is
  touched, and the event vector is left larger than the number of events reported.
\<close>

theorem EpollPoller_Poll_live:
  assumes "ep_reach tid p" and "reported p evs"
  shows "\<exists>p'. EpollPoller_Poll (Some evs) p = Inr (map snd evs, p') \<and>
    set (map snd evs) \<subseteq> ep_registered p' \<and>
    (\<forall>(ev, c) \<in> set evs. \<exists>ch. ep_heap p c = Some ch \<and> ep_heap p' c = Some (SetREvents (ucast ev) ch)) \<and>
    (\<forall>c. c \<notin> snd ` set evs \<longrightarrow> ep_heap p' c = ep_heap p c) \<and> length evs < ep_size p'"
  using EpollPoller_Poll_ok [of p evs] ep_reach_wf [OF assms(1)] assms(2) by auto

theorem EpollPoller_Poll_live_witness:
  "\<exists>p' ch. EpollPoller_Poll (Some [(1, 1)]) one_channel = Inr ([1], p') \<and> ep_heap p' 1 = Some ch \<and> ch_revents ch = POLLIN"
proof -
  have "reported one_channel [(1, 1)]"
    by (auto simp: reported_def one_channel_def EpollPoller_new_def kInitEventListSize_def ran_def)
  from EpollPoller_Poll_live [OF one_channel_reach this] show ?thesis
    by (auto simp: SetREvents_def one_channel_def)
qed

definition ep_exec :: "int \<Rightarrow> pl_op \<Rightarrow> epoll_poller \<Rightarrow> epoll_poller res" where
  "ep_exec tid x =
     (case x of PAdd c \<Rightarrow> EpollPoller_AddChannel tid c
      | PUpdate c \<Rightarrow> EpollPoller_UpdateChannel tid c
      | PClose c \<Rightarrow> Channel_Close tid c)"

lemma ep_exec_eq: "ep_exec tid = ep.exec tid"
  by (rule ext) (simp add: ep_exec_def ep.exec_def)

text \<open>
  C8. The epoll poller implements the specification of a poller as a set of registered channels: every
  sequence of additions, updates and closings that is legal there runs without an error, and ends with
  the registered and the addable channels that the specification says.
\<close>

theorem EpollPoller_refines:
  assumes "ep_reach tid p" and "pl_specs xs (ep_registered p, ep_addable p) = Some a"
  shows "\<exists>p'. rfold (ep_exec tid) xs p = Inr p' \<and> ep_wf p' \<and> (ep_registered p', ep_addable p') = a"
  using ep.run_ok [of p tid xs a] ep_reach_wf [OF assms(1)] assms(2) unfolding ep_exec_eq by blast

theorem EpollPoller_refines_witness:
  "\<exists>p'. rfold (ep_exec 9) [PUpdate 1, PClose 1] one_channel = Inr p' \<and> ep_registered p' = {}"
proof -
  have "ep_registered one_channel = {1}" by (simp add: one_channel_def ep_registered_def)
  then show ?thesis
    using EpollPoller_refines [OF one_channel_reach, of "[PUpdate 1, PClose 1]"] by auto
qed

text \<open>
  A poll of the poll poller reports the channels of the entries with received events, in the order of
  the entries, and sets their events; it never meets an entry without a channel.
\<close>

theorem PollPoller_Poll_result:
  assumes "pp_wf p" and "length revents = length (pp_pollfds p)"
    and "numEvents = int (length (filter (\<lambda>r. sint r > 0) revents))"
  shows "\<exists>p'. PollPoller_Poll numEvents revents p = Inr
      (map (\<lambda>(pfd, r). the (the (pp_channels p (pfd_fd pfd)))) (filter (\<lambda>(pfd, r). sint r > 0) (zip (pp_pollfds p) revents)), p') \<and>
    (\<forall>i < length revents. sint (revents ! i) > 0 \<longrightarrow>
      (\<exists>c ch. pp_channels p (pfd_fd (pp_pollfds p ! i)) = Some (Some c) \<and> pp_heap p c = Some ch \<and>
        pp_heap p' c = Some (SetREvents (revents ! i) ch)))"
proof -
  let ?evs = "poll_events p revents"
  have "\<exists>c ch. pp_channels p (pfd_fd (pp_pollfds p ! i)) = Some (Some c) \<and> pp_heap p c = Some ch \<and>
      set_received ?evs (pp_heap p) c = Some (SetREvents (revents ! i) ch)" if i: "i < length revents" "sint (revents ! i) > 0" for i
  proof -
    obtain c ch where c: "pp_channels p (pfd_fd (pp_pollfds p ! i)) = Some (Some c)" "pp_heap p c = Some ch"
      using pp_wf_entries [OF assms(1), of "pp_pollfds p ! i"] i assms(2) by auto
    have "(revents ! i, c) \<in> set ?evs" using poll_events_at [OF assms(2) i] c(1) by simp
    then show ?thesis using c set_received_at [OF poll_events_distinct [OF assms(1)]] by auto
  qed
  then show ?thesis using PollPoller_Poll_eq [OF assms] by (auto simp: poll_events_def comp_def split_def)
qed

text \<open>A poll poller with channels 1 and 2 for the descriptors 5 and 6.\<close>

definition two_channels :: poll_poller where
  "two_channels =
     \<lparr>pp_heap = [1 \<mapsto> (Channel_new 5 kReadEvent 0)\<lparr>ch_index := Some 0\<rparr>, 2 \<mapsto> (Channel_new 6 kReadEvent 1)\<lparr>ch_index := Some 1\<rparr>],
      pp_channels = [5 \<mapsto> Some 1, 6 \<mapsto> Some 2],
      pp_pollfds = [\<lparr>pfd_fd = 5, pfd_events = kReadEvent, pfd_revents = 0\<rparr>, \<lparr>pfd_fd = 6, pfd_events = kReadEvent, pfd_revents = 0\<rparr>],
      pp_tid = 9\<rparr>"

lemma two_channels_wf: "pp_wf two_channels"
  by (auto simp: two_channels_def pp_wf_def Channel_new_def less_Suc_eq numeral_2_eq_2)

theorem PollPoller_Poll_result_witness:
  "\<exists>p'. PollPoller_Poll 1 [0, POLLIN] two_channels = Inr ([2], p')"
  using PollPoller_Poll_result [OF two_channels_wf, of "[0, POLLIN]" 1] by (auto simp: two_channels_def)

text \<open>
  Removing a channel that is not the last entry of the poll poller moves the last entry into its place
  but leaves the moved channel's index as it was: the next update of that channel writes outside the
  vector. Removing the last entry leaves the channel in the map, so it still counts as registered.
\<close>

theorem PollPoller_RemoveChannel_result:
  assumes wf: "pp_wf p" and tid: "tid = pp_tid p" and c: "pp_heap p c = Some ch" "pp_channels p (ch_fd ch) = Some (Some c)"
  shows "\<exists>p'. PollPoller_RemoveChannel tid c p = Inr p' \<and> length (pp_pollfds p') = length (pp_pollfds p) - 1 \<and>
    (if ch_index ch = Some (length (pp_pollfds p) - 1)
     then PollPoller_HasChannel tid c p' = Inr True
     else PollPoller_HasChannel tid c p' = Inr False \<and>
       (\<exists>c2. pp_channels p (pfd_fd (last (pp_pollfds p))) = Some (Some c2) \<and>
         PollPoller_UpdateChannel tid c2 p' = Inl OutOfBounds))"
proof -
  let ?pfds = "pp_pollfds p"
  let ?n = "length ?pfds"
  obtain i where i: "i < ?n" "pfd_fd (?pfds ! i) = ch_fd ch" "ch_index ch = Some i"
    using pp_wf_entry [OF wf c(2)] c(1) by (metis option.inject)
  show ?thesis
  proof (cases "i + 1 = ?n")
    case True
    then have "PollPoller_RemoveChannel tid c p = Inr (p\<lparr>pp_pollfds := butlast ?pfds\<rparr>)"
      using tid c i by (simp add: PollPoller_RemoveChannel_def Let_def)
    moreover have "i = ?n - 1" using True by simp
    ultimately show ?thesis using tid c i(3) by (simp add: PollPoller_HasChannel_def)
  next
    case False
    then have n: "i < ?n - 1" "1 < ?n" "?pfds \<noteq> []" using i(1) by auto
    define sw where "sw = ?pfds[i := last ?pfds, ?n - Suc 0 := ?pfds ! i]"
    have sw: "length sw = ?n" "last sw = ?pfds ! i" using n by (auto simp: sw_def last_list_update)
    let ?p = "p\<lparr>pp_pollfds := butlast sw, pp_heap := (pp_heap p)(c \<mapsto> ch\<lparr>ch_index := Some i\<rparr>),
        pp_channels := (pp_channels p)(ch_fd ch := None)\<rparr>"
    have run: "PollPoller_RemoveChannel tid c p = Inr ?p"
      using tid c i False n sw by (simp add: PollPoller_RemoveChannel_def Let_def sw_def [symmetric])
    obtain c2 ch2 where c2: "pp_channels p (pfd_fd (?pfds ! (?n - 1))) = Some (Some c2)" "pp_heap p c2 = Some ch2"
      "ch_fd ch2 = pfd_fd (?pfds ! (?n - 1))" "ch_index ch2 = Some (?n - 1)"
      using wf n unfolding pp_wf_def by (metis diff_less length_greater_0_conv zero_less_one)
    have "c2 \<noteq> c" using c2(2,4) c(1) i(3) n(1) by auto
    moreover have "ch_fd ch2 \<noteq> ch_fd ch"
      using c2(1,3) c(2) \<open>c2 \<noteq> c\<close> by auto
    ultimately have "PollPoller_UpdateChannel tid c2 ?p = Inl OutOfBounds"
      using tid c2 sw by (simp add: PollPoller_UpdateChannel_def)
    moreover have "PollPoller_HasChannel tid c ?p = Inr False"
      using tid by (simp add: PollPoller_HasChannel_def)
    ultimately show ?thesis
      using run sw n(1,3) i(3) c2(1) by (auto simp: last_conv_nth)
  qed
qed

theorem PollPoller_RemoveChannel_result_witness:
  "\<exists>p'. PollPoller_RemoveChannel 9 1 two_channels = Inr p' \<and> PollPoller_UpdateChannel 9 2 p' = Inl OutOfBounds"
  using PollPoller_RemoveChannel_result [OF two_channels_wf, of 9 1 "(Channel_new 5 kReadEvent 0)\<lparr>ch_index := Some 0\<rparr>"]
  by (auto simp: two_channels_def Channel_new_def)

end
