(* ===== verification/EventLoop.thy ===== *)
theory EventLoop
  imports Poller
begin

text \<open>
  The event loop (\<^verbatim>\<open>net/eventloop.h\<close>, \<^verbatim>\<open>net/eventloop.cc\<close>) and the threads that hand it work.

  A functor is what the program passes to the loop; what matters of it here is a label and the calls it
  makes on the loop when it runs. The loop thread is a deterministic machine, one call of \<open>loop_step\<close> per
  atomic action of \<^verbatim>\<open>EventLoop::Loop\<close>, \<^verbatim>\<open>DoPendingFunctors\<close>, \<^verbatim>\<open>QueueInLoop\<close> and \<^verbatim>\<open>Quit\<close>;
  other threads interleave with it at every point. A thread that is not the loop thread pushes a functor
  under the mutex and writes to the event descriptor afterwards, in a step of its own.

  Two lists record the history: every functor queued and every pending functor run.
\<close>

section \<open>State\<close>

datatype func = Fn nat "call list"
  and call = CQueue func | CRun func | CQuit

text \<open>An active channel is the wake-up channel or another channel whose callback makes some calls.\<close>

datatype activity = ReadWakeup | Callback "call list"

text \<open>Where the loop thread is in \<^verbatim>\<open>Loop\<close>.\<close>

datatype loop_pc =
    AtTest
  | InPoll
  | Handling "activity list"
  | BeforeSwap
  | Running
  | Returned

record eloop =
  el_pending :: "func list"
  el_doing :: bool
  el_quit :: bool
  el_wake :: nat
  el_pc :: loop_pc
  el_funcs :: "func list"
  el_body :: "call list"
  el_kick :: bool
  el_others :: nat
  el_queued :: "func list"
  el_done :: "func list"

definition EventLoop_new :: eloop where
  "EventLoop_new =
     \<lparr>el_pending = [], el_doing = False, el_quit = False, el_wake = 0, el_pc = AtTest, el_funcs = [], el_body = [],
      el_kick = False, el_others = 0, el_queued = [], el_done = []\<rparr>"

section \<open>Operations\<close>

text \<open>
  The event descriptor holds a counter of at most \<open>2^64 - 2\<close>. A write adds 1 to it and fails when it is
  full, which is only logged; a read takes all of it.
\<close>

definition eventfd_max :: nat where
  "eventfd_max = 2 ^ 64 - 2"

definition EventLoop_WakeUp :: "eloop \<Rightarrow> eloop" where
  "EventLoop_WakeUp s = (if el_wake s < eventfd_max then s\<lparr>el_wake := el_wake s + 1\<rparr> else s)"

definition EventLoop_HandleRead :: "eloop \<Rightarrow> eloop" where
  "EventLoop_HandleRead s = s\<lparr>el_wake := 0\<rparr>"

text \<open>The critical section of \<^verbatim>\<open>QueueInLoop\<close>, and the test for the wake-up after it.\<close>

definition QueueInLoop_push :: "func \<Rightarrow> eloop \<Rightarrow> eloop" where
  "QueueInLoop_push f s = s\<lparr>el_pending := el_pending s @ [f], el_queued := el_queued s @ [f]\<rparr>"

definition QueueInLoop_wakes :: "bool \<Rightarrow> eloop \<Rightarrow> bool" where
  "QueueInLoop_wakes in_loop s \<longleftrightarrow> \<not> in_loop \<or> el_doing s"

definition EventLoop_Quit :: "eloop \<Rightarrow> eloop res" where
  "EventLoop_Quit s = rbind (cxx_assert (\<not> el_quit s)) (\<lambda>_. Inr (s\<lparr>el_quit := True\<rparr>))"

text \<open>The critical section of \<^verbatim>\<open>DoPendingFunctors\<close>.\<close>

definition DoPendingFunctors_swap :: "eloop \<Rightarrow> eloop" where
  "DoPendingFunctors_swap s = s\<lparr>el_funcs := el_pending s, el_pending := [], el_doing := True, el_pc := Running\<rparr>"

text \<open>A call that a callback or functor makes on the loop, in the loop thread.\<close>

fun loop_call :: "call \<Rightarrow> eloop \<Rightarrow> eloop res" where
  "loop_call (CQueue f) s = Inr ((QueueInLoop_push f s)\<lparr>el_kick := QueueInLoop_wakes True s\<rparr>)"
| "loop_call (CRun (Fn l cs)) s = Inr (s\<lparr>el_body := cs @ el_body s\<rparr>)"
| "loop_call CQuit s = EventLoop_Quit s"

definition loop_step :: "activity list \<Rightarrow> eloop \<Rightarrow> eloop res" where
  "loop_step acts s =
     (if el_kick s then Inr (EventLoop_WakeUp (s\<lparr>el_kick := False\<rparr>))
      else case el_body s of
        c # cs \<Rightarrow> loop_call c (s\<lparr>el_body := cs\<rparr>)
      | [] \<Rightarrow>
          (case el_pc s of
             AtTest \<Rightarrow> Inr (s\<lparr>el_pc := (if el_quit s then Returned else InPoll)\<rparr>)
           | InPoll \<Rightarrow> Inr (s\<lparr>el_pc := Handling acts\<rparr>)
           | Handling [] \<Rightarrow> Inr (s\<lparr>el_pc := BeforeSwap\<rparr>)
           | Handling (ReadWakeup # as) \<Rightarrow> Inr ((EventLoop_HandleRead s)\<lparr>el_pc := Handling as\<rparr>)
           | Handling (Callback cs # as) \<Rightarrow> Inr (s\<lparr>el_body := cs, el_pc := Handling as\<rparr>)
           | BeforeSwap \<Rightarrow> Inr (DoPendingFunctors_swap s)
           | Running \<Rightarrow>
               (case el_funcs s of
                  [] \<Rightarrow> Inr (s\<lparr>el_doing := False, el_pc := AtTest\<rparr>)
                | Fn l cs # fs \<Rightarrow> Inr (s\<lparr>el_funcs := fs, el_body := cs, el_done := el_done s @ [Fn l cs]\<rparr>))
           | Returned \<Rightarrow> Inr s))"

text \<open>
  The interleaving. A poll may report any channels, the wake-up channel only when its descriptor is
  readable. Another thread's \<^verbatim>\<open>RunInLoop\<close> or \<^verbatim>\<open>QueueInLoop\<close> is a push and later a wake-up, its \<^verbatim>\<open>Quit\<close> sets
  the flag and later wakes the loop.
\<close>

inductive el_step :: "eloop \<Rightarrow> eloop \<Rightarrow> bool" where
  loop: "loop_step acts s = Inr s' \<Longrightarrow> (ReadWakeup \<in> set acts \<longrightarrow> 0 < el_wake s) \<Longrightarrow> el_step s s'"
| other_queue: "QueueInLoop_wakes False s \<Longrightarrow> el_step s ((QueueInLoop_push f s)\<lparr>el_others := el_others s + 1\<rparr>)"
| other_wake: "el_others s = Suc n \<Longrightarrow> el_step s ((EventLoop_WakeUp s)\<lparr>el_others := n\<rparr>)"
| other_quit: "EventLoop_Quit s = Inr s' \<Longrightarrow> el_step s (s'\<lparr>el_others := el_others s + 1\<rparr>)"

inductive_cases el_stepE: "el_step s s'"

inductive el_reach :: "eloop \<Rightarrow> bool" where
  start: "el_reach EventLoop_new"
| step: "el_reach s \<Longrightarrow> el_step s s' \<Longrightarrow> el_reach s'"

section \<open>Invariant\<close>

definition signalled :: "eloop \<Rightarrow> bool" where
  "signalled s \<longleftrightarrow> 0 < el_wake s \<or> 0 < el_others s"

text \<open>
  Functors leave the queue in the order they came; outside the handling of events, a functor that waits
  in the queue has a signal that will end the next poll; a quit request ends it too.
\<close>

fun calm :: "loop_pc \<Rightarrow> bool" where
  "calm AtTest = True"
| "calm InPoll = True"
| "calm _ = False"

definition el_inv :: "eloop \<Rightarrow> bool" where
  "el_inv s \<longleftrightarrow>
     el_queued s = el_done s @ el_funcs s @ el_pending s \<and>
     (el_doing s \<longleftrightarrow> el_pc s = Running) \<and>
     (el_pc s \<noteq> Running \<longrightarrow> el_funcs s = [] \<and> \<not> el_kick s) \<and>
     (calm (el_pc s) \<or> el_pc s = BeforeSwap \<or> el_pc s = Returned \<longrightarrow> el_body s = []) \<and>
     (calm (el_pc s) \<and> el_pending s \<noteq> [] \<longrightarrow> signalled s) \<and>
     (el_pc s = Running \<and> el_pending s \<noteq> [] \<longrightarrow> signalled s \<or> el_kick s) \<and>
     (el_pc s = InPoll \<and> el_quit s \<longrightarrow> signalled s)"

lemma WakeUp_fields [simp]:
  "el_pending (EventLoop_WakeUp s) = el_pending s" "el_doing (EventLoop_WakeUp s) = el_doing s"
  "el_quit (EventLoop_WakeUp s) = el_quit s" "el_pc (EventLoop_WakeUp s) = el_pc s"
  "el_funcs (EventLoop_WakeUp s) = el_funcs s" "el_body (EventLoop_WakeUp s) = el_body s"
  "el_kick (EventLoop_WakeUp s) = el_kick s" "el_others (EventLoop_WakeUp s) = el_others s"
  "el_queued (EventLoop_WakeUp s) = el_queued s" "el_done (EventLoop_WakeUp s) = el_done s"
  by (simp_all add: EventLoop_WakeUp_def)

lemma WakeUp_signals [simp]: "0 < el_wake (EventLoop_WakeUp s)"
  by (simp add: EventLoop_WakeUp_def eventfd_max_def)

lemma loop_step_inv:
  assumes "el_inv s" and "loop_step acts s = Inr s'"
  shows "el_inv s'"
proof (cases "el_kick s")
  case True
  then have "s' = EventLoop_WakeUp (s\<lparr>el_kick := False\<rparr>)" using assms(2) by (simp add: loop_step_def)
  then show ?thesis using assms(1) True by (auto simp: el_inv_def signalled_def)
next
  case nk: False
  show ?thesis
  proof (cases "el_body s")
    case (Cons c cs)
    then have lc: "loop_call c (s\<lparr>el_body := cs\<rparr>) = Inr s'" using assms(2) nk by (simp add: loop_step_def)
    have pc: "el_pc s = Running \<or> (\<exists>as. el_pc s = Handling as)"
      using assms(1) Cons by (cases "el_pc s") (auto simp: el_inv_def)
    show ?thesis
    proof (cases c)
      case (CQueue f)
      then have s': "s' = s\<lparr>el_body := cs, el_pending := el_pending s @ [f], el_queued := el_queued s @ [f], el_kick := el_doing s\<rparr>"
        using lc by (simp add: QueueInLoop_push_def QueueInLoop_wakes_def)
      show ?thesis unfolding s' using assms(1) pc nk by (elim disjE exE) (simp_all add: el_inv_def)
    next
      case (CRun f)
      then obtain ds where s': "s' = s\<lparr>el_body := ds\<rparr>" using lc by (cases f) auto
      show ?thesis unfolding s' using assms(1) pc nk by (elim disjE exE) (simp_all add: el_inv_def signalled_def)
    next
      case CQuit
      then have s': "s' = s\<lparr>el_body := cs, el_quit := True\<rparr>"
        using lc by (auto simp: EventLoop_Quit_def rbind_Inr_iff)
      show ?thesis unfolding s' using assms(1) pc nk by (elim disjE exE) (simp_all add: el_inv_def signalled_def)
    qed
  next
    case Nil
    then show ?thesis
      using assms nk
      by (auto simp: loop_step_def el_inv_def signalled_def EventLoop_HandleRead_def DoPendingFunctors_swap_def
          split: loop_pc.splits list.splits activity.splits func.splits if_splits)
  qed
qed

lemma el_step_inv:
  assumes "el_step s s'" and "el_inv s"
  shows "el_inv s'"
  using assms(1)
proof (cases rule: el_step.cases)
  case (loop acts)
  then show ?thesis using loop_step_inv [OF assms(2)] by blast
next
  case (other_queue f)
  show ?thesis unfolding other_queue(1) using assms(2) by (simp add: el_inv_def QueueInLoop_push_def signalled_def)
next
  case (other_wake n)
  show ?thesis unfolding other_wake(1) using assms(2) by (simp add: el_inv_def signalled_def)
next
  case (other_quit s1)
  then have s': "s' = s\<lparr>el_quit := True, el_others := el_others s + 1\<rparr>"
    by (auto simp: EventLoop_Quit_def rbind_Inr_iff)
  show ?thesis unfolding s' using assms(2) by (simp add: el_inv_def signalled_def)
qed

lemma el_reach_inv: "el_reach s \<Longrightarrow> el_inv s"
proof (induction rule: el_reach.induct)
  case start
  then show ?case by (simp add: el_inv_def EventLoop_new_def)
next
  case (step s s')
  then show ?case using el_step_inv by blast
qed

section \<open>A round of pending functors ends\<close>

fun loop_iter :: "nat \<Rightarrow> eloop \<Rightarrow> eloop res" where
  "loop_iter 0 s = Inr s"
| "loop_iter (Suc n) s = rbind (loop_step [] s) (loop_iter n)"

lemma loop_iter_add: "loop_iter (m + n) s = rbind (loop_iter m s) (loop_iter n)"
proof (induction m arbitrary: s)
  case (Suc m)
  then show ?case by (cases "loop_step [] s") simp_all
qed simp

text \<open>The calls still to be made get fewer with every step, nested functors included.\<close>

definition body_size :: "eloop \<Rightarrow> nat" where
  "body_size s = 2 * size_list size (el_body s) + (if el_kick s then 1 else 0)"

lemma body_step:
  assumes "el_kick s \<or> el_body s \<noteq> []"
  shows "loop_step [] s = Inl AssertFailed \<or>
    (\<exists>s'. loop_step [] s = Inr s' \<and> body_size s' < body_size s \<and> el_pc s' = el_pc s \<and> el_funcs s' = el_funcs s \<and>
      el_done s' = el_done s)"
proof (cases "el_kick s")
  case True
  then show ?thesis by (auto simp: loop_step_def body_size_def)
next
  case False
  then obtain c cs where body: "el_body s = c # cs" using assms by (cases "el_body s") auto
  show ?thesis
  proof (cases c)
    case (CQueue f)
    then show ?thesis using False body by (auto simp: loop_step_def body_size_def QueueInLoop_push_def)
  next
    case (CRun f)
    then show ?thesis using False body by (cases f) (auto simp: loop_step_def body_size_def size_list_append)
  next
    case CQuit
    then show ?thesis
      using False body by (cases "el_quit s") (auto simp: loop_step_def body_size_def EventLoop_Quit_def)
  qed
qed

lemma body_ends:
  "\<exists>n. loop_iter n s = Inl AssertFailed \<or>
    (\<exists>s'. loop_iter n s = Inr s' \<and> \<not> el_kick s' \<and> el_body s' = [] \<and> el_pc s' = el_pc s \<and> el_funcs s' = el_funcs s \<and>
      el_done s' = el_done s)"
proof (induction "body_size s" arbitrary: s rule: less_induct)
  case less
  show ?case
  proof (cases "el_kick s \<or> el_body s \<noteq> []")
    case False
    then show ?thesis by (intro exI [of _ 0]) simp
  next
    case True
    from body_step [OF True] show ?thesis
    proof
      assume "loop_step [] s = Inl AssertFailed"
      then show ?thesis by (intro exI [of _ 1]) simp
    next
      assume "\<exists>s'. loop_step [] s = Inr s' \<and> body_size s' < body_size s \<and> el_pc s' = el_pc s \<and> el_funcs s' = el_funcs s \<and>
        el_done s' = el_done s"
      then obtain s1 where s1: "loop_step [] s = Inr s1" "body_size s1 < body_size s" "el_pc s1 = el_pc s"
        "el_funcs s1 = el_funcs s" "el_done s1 = el_done s" by blast
      obtain n where "loop_iter n s1 = Inl AssertFailed \<or>
          (\<exists>s'. loop_iter n s1 = Inr s' \<and> \<not> el_kick s' \<and> el_body s' = [] \<and> el_pc s' = el_pc s1 \<and>
            el_funcs s' = el_funcs s1 \<and> el_done s' = el_done s1)"
        using less [OF s1(2)] by blast
      then show ?thesis using s1 by (intro exI [of _ "Suc n"]) auto
    qed
  qed
qed

lemma running_ends:
  assumes "el_pc s = Running" and "\<not> el_kick s" and "el_body s = []"
  shows "\<exists>n. loop_iter n s = Inl AssertFailed \<or>
    (\<exists>s'. loop_iter n s = Inr s' \<and> el_pc s' = AtTest \<and> \<not> el_doing s' \<and> el_done s' = el_done s @ el_funcs s)"
  using assms
proof (induction "el_funcs s" arbitrary: s)
  case Nil
  then show ?case by (intro exI [of _ 1]) (simp add: loop_step_def)
next
  case (Cons f fs)
  obtain l cs where f: "f = Fn l cs" by (cases f)
  define s1 where "s1 = s\<lparr>el_funcs := fs, el_body := cs, el_done := el_done s @ [f]\<rparr>"
  have s1: "loop_iter 1 s = Inr s1"
    using Cons.prems Cons.hyps(2) [symmetric] f by (simp add: loop_step_def s1_def)
  obtain n where n: "loop_iter n s1 = Inl AssertFailed \<or>
      (\<exists>s'. loop_iter n s1 = Inr s' \<and> \<not> el_kick s' \<and> el_body s' = [] \<and> el_pc s' = el_pc s1 \<and>
        el_funcs s' = el_funcs s1 \<and> el_done s' = el_done s1)"
    using body_ends by blast
  show ?case
  proof (cases "loop_iter n s1 = Inl AssertFailed")
    case True
    then show ?thesis using loop_iter_add [of 1 n s] s1 by (intro exI [of _ "1 + n"]) simp
  next
    case False
    then obtain s2 where s2: "loop_iter n s1 = Inr s2" "\<not> el_kick s2" "el_body s2 = []" "el_pc s2 = el_pc s1"
      "el_funcs s2 = el_funcs s1" "el_done s2 = el_done s1" using n by blast
    obtain m where m: "loop_iter m s2 = Inl AssertFailed \<or>
        (\<exists>s'. loop_iter m s2 = Inr s' \<and> el_pc s' = AtTest \<and> \<not> el_doing s' \<and> el_done s' = el_done s2 @ el_funcs s2)"
      using Cons.hyps(1) [of s2] s2 Cons.prems(1) by (auto simp: s1_def)
    have "loop_iter (1 + (n + m)) s = loop_iter m s2"
      using loop_iter_add [of 1 "n + m" s] loop_iter_add [of n m s1] s1 s2(1) by simp
    then show ?thesis using m s2(5,6) Cons.hyps(2) [symmetric] f
      by (intro exI [of _ "1 + (n + m)"]) (auto simp: s1_def)
  qed
qed

section \<open>Properties\<close>

text \<open>
  C2. In every interleaving of the loop thread with other threads, functors run in the order in which they
  were queued and each one once: what was ever queued is what has run, followed by what the current
  round still has to run, followed by what waits.
\<close>

theorem EventLoop_functors_fifo:
  assumes "el_reach s"
  shows "el_queued s = el_done s @ el_funcs s @ el_pending s"
  using el_reach_inv [OF assms] by (simp add: el_inv_def)

text \<open>An interleaving in which a thread queues a functor while the loop polls, and the loop runs it.\<close>

definition polling_with_work :: eloop where
  "polling_with_work =
     EventLoop_new\<lparr>el_pc := InPoll, el_pending := [Fn 1 []], el_queued := [Fn 1 []], el_others := 1\<rparr>"

lemma polling_with_work_reach: "el_reach polling_with_work"
proof -
  have "el_step EventLoop_new (EventLoop_new\<lparr>el_pc := InPoll\<rparr>)"
    by (rule el_step.loop [of "[]"]) (simp_all add: loop_step_def EventLoop_new_def)
  then have "el_reach (EventLoop_new\<lparr>el_pc := InPoll\<rparr>)" using el_reach.start el_reach.step by blast
  moreover have "el_step (EventLoop_new\<lparr>el_pc := InPoll\<rparr>) polling_with_work"
    using el_step.other_queue [of "EventLoop_new\<lparr>el_pc := InPoll\<rparr>" "Fn 1 []"]
    by (simp add: QueueInLoop_push_def QueueInLoop_wakes_def EventLoop_new_def polling_with_work_def)
  ultimately show ?thesis using el_reach.step by blast
qed

theorem EventLoop_functors_fifo_witness:
  "el_queued polling_with_work = [] @ [] @ [Fn 1 []]"
  using EventLoop_functors_fifo [OF polling_with_work_reach] by (simp add: polling_with_work_def EventLoop_new_def)

text \<open>
  C1. No wake-up is lost: whenever the loop thread is in the poll with work in the queue or a request to
  quit, its event descriptor is readable or some thread is still about to write to it, so the poll does
  not have to wait for its timeout.
\<close>

theorem EventLoop_no_lost_wakeup:
  assumes "el_reach s" and "el_pc s = InPoll" and "el_pending s \<noteq> [] \<or> el_quit s"
  shows "0 < el_wake s \<or> 0 < el_others s"
  using el_reach_inv [OF assms(1)] assms(2,3) by (auto simp: el_inv_def signalled_def)

theorem EventLoop_no_lost_wakeup_witness:
  "0 < el_wake polling_with_work \<or> 0 < el_others polling_with_work"
  using EventLoop_no_lost_wakeup [OF polling_with_work_reach] by (simp add: polling_with_work_def)

text \<open>
  C25. A round of \<^verbatim>\<open>DoPendingFunctors\<close> ends: after finitely many steps of the loop thread every functor that
  was pending has run, in order, and the loop is back at its test; functors that they queue wait for the
  next round. The only other way it can end is the assertion that rejects a second request to quit.
\<close>

theorem DoPendingFunctors_round_ends:
  assumes "el_pc s = BeforeSwap" and "\<not> el_kick s" and "el_body s = []"
  shows "\<exists>n. loop_iter n s = Inl AssertFailed \<or>
    (\<exists>s'. loop_iter n s = Inr s' \<and> el_pc s' = AtTest \<and> \<not> el_doing s' \<and> el_done s' = el_done s @ el_pending s)"
proof -
  let ?s1 = "DoPendingFunctors_swap s"
  have s1: "loop_iter 1 s = Inr ?s1" using assms by (simp add: loop_step_def)
  obtain n where "loop_iter n ?s1 = Inl AssertFailed \<or>
      (\<exists>s'. loop_iter n ?s1 = Inr s' \<and> el_pc s' = AtTest \<and> \<not> el_doing s' \<and> el_done s' = el_done ?s1 @ el_funcs ?s1)"
    using running_ends [of ?s1] assms by (auto simp: DoPendingFunctors_swap_def)
  then show ?thesis
    using loop_iter_add [of 1 n s] s1 by (intro exI [of _ "1 + n"]) (auto simp: DoPendingFunctors_swap_def)
qed

theorem DoPendingFunctors_round_ends_witness:
  "\<exists>n. loop_iter n (polling_with_work\<lparr>el_pc := BeforeSwap\<rparr>) = Inl AssertFailed \<or>
    (\<exists>s'. loop_iter n (polling_with_work\<lparr>el_pc := BeforeSwap\<rparr>) = Inr s' \<and> el_done s' = [Fn 1 []])"
  using DoPendingFunctors_round_ends [of "polling_with_work\<lparr>el_pc := BeforeSwap\<rparr>"]
  by (auto simp: polling_with_work_def EventLoop_new_def)

end
