(* ===== verification/Loop.thy ===== *)
theory Loop
  imports Poller TimerQueue
begin

text \<open>
  What an event loop owns (\<^verbatim>\<open>net/eventloop.cc\<close>, \<^verbatim>\<open>net/timerqueue.cc\<close>): its poller, its timer queue with the
  channel of the timer descriptor, and the channel of its wake-up descriptor. Construction, destruction, and the calls
  that pass through the loop to the poller and to the timer queue. The caller is the thread \<open>tid\<close>; descriptors, addresses of
  new objects and readings of the clock are arguments.
\<close>

section \<open>State\<close>

record loop =
  lo_tid :: int
  lo_poller :: epoll_poller
  lo_timers :: "callback tqueue"
  lo_timerfd :: int
  lo_timer_channel :: cptr
  lo_wakeupfd :: int
  lo_wake_channel :: cptr

section \<open>Construction and destruction\<close>

text \<open>A channel without events is added to the poller and then switched to reading.\<close>

definition open_channel :: "int \<Rightarrow> int \<Rightarrow> cptr \<Rightarrow> int \<Rightarrow> epoll_poller \<Rightarrow> epoll_poller res" where
  "open_channel tid fd c ids p =
     (let ch = Channel_SetCallback ReadCallback (Channel_new fd 0 ids) in
      rbind (EpollPoller_AddChannel tid c (p\<lparr>ep_heap := (ep_heap p)(c \<mapsto> ch)\<rparr>)) (Channel_EnableRead tid c))"

definition TimerQueue_construct :: "int \<Rightarrow> int \<Rightarrow> cptr \<Rightarrow> int \<Rightarrow> epoll_poller \<Rightarrow> (callback tqueue \<times> epoll_poller) res" where
  "TimerQueue_construct tid timerfd c ids p =
     rbind (open_channel tid timerfd c ids p) (\<lambda>p. Inr (TimerQueue_new tid, p))"

definition EventLoop_construct :: "int \<Rightarrow> int \<Rightarrow> int \<Rightarrow> cptr \<Rightarrow> cptr \<Rightarrow> int \<Rightarrow> loop res" where
  "EventLoop_construct tid timerfd eventfd ct cw ids =
     rbind (TimerQueue_construct tid timerfd ct ids (EpollPoller_new tid Map.empty)) (\<lambda>(q, p).
     rbind (open_channel tid eventfd cw (ids + 1) p) (\<lambda>p.
     Inr \<lparr>lo_tid = tid, lo_poller = p, lo_timers = q, lo_timerfd = timerfd, lo_timer_channel = ct,
          lo_wakeupfd = eventfd, lo_wake_channel = cw\<rparr>))"

text \<open>Closing a descriptor takes it off the interest list of the kernel.\<close>

definition close_fd :: "int \<Rightarrow> epoll_poller \<Rightarrow> epoll_poller" where
  "close_fd fd p = p\<lparr>ep_interest := (ep_interest p)(fd := None)\<rparr>"

text \<open>
  The destructor of the timer queue closes the descriptor, deletes the queued timers and destroys the
  channel, which closes the descriptor again and unregisters itself.
\<close>

definition TimerQueue_destruct :: "int \<Rightarrow> loop \<Rightarrow> loop res" where
  "TimerQueue_destruct tid l =
     (let q = lo_timers l;
          q = q\<lparr>tq_heap := fold (\<lambda>(e, t) h. h(t := None)) (tq_timers q) (tq_heap q)\<rparr> in
      rbind (Channel_delete tid (lo_timer_channel l) (close_fd (lo_timerfd l) (lo_poller l))) (\<lambda>p.
      Inr (l\<lparr>lo_timers := q, lo_poller := p\<rparr>)))"

section \<open>Channels\<close>

definition EventLoop_UpdateChannel :: "int \<Rightarrow> cptr \<Rightarrow> loop \<Rightarrow> loop res" where
  "EventLoop_UpdateChannel tid c l =
     rbind (cxx_assert (tid = lo_tid l)) (\<lambda>_.
     rbind (EpollPoller_UpdateChannel tid c (lo_poller l)) (\<lambda>p. Inr (l\<lparr>lo_poller := p\<rparr>)))"

definition EventLoop_RemoveChannel :: "int \<Rightarrow> cptr \<Rightarrow> loop \<Rightarrow> loop res" where
  "EventLoop_RemoveChannel tid c l =
     rbind (cxx_assert (tid = lo_tid l)) (\<lambda>_.
     rbind (EpollPoller_RemoveChannel tid c (lo_poller l)) (\<lambda>p. Inr (l\<lparr>lo_poller := p\<rparr>)))"

definition EventLoop_AddChannel :: "int \<Rightarrow> cptr \<Rightarrow> loop \<Rightarrow> loop res" where
  "EventLoop_AddChannel tid c l =
     rbind (cxx_assert (tid = lo_tid l)) (\<lambda>_.
     rbind (EpollPoller_AddChannel tid c (lo_poller l)) (\<lambda>p. Inr (l\<lparr>lo_poller := p\<rparr>)))"

definition EventLoop_HasChannel :: "int \<Rightarrow> cptr \<Rightarrow> loop \<Rightarrow> bool res" where
  "EventLoop_HasChannel tid c l = EpollPoller_HasChannel tid c (lo_poller l)"

text \<open>
  The body of the destructor, then the members in reverse order of their declaration: the wake-up channel,
  the timer queue; the poller goes last and does nothing more to the channels.
\<close>

definition EventLoop_destruct :: "int \<Rightarrow> loop \<Rightarrow> loop res" where
  "EventLoop_destruct tid l =
     rbind (EventLoop_RemoveChannel tid (lo_wake_channel l) l) (\<lambda>l.
     rbind (Channel_delete tid (lo_wake_channel l) (close_fd (lo_wakeupfd l) (lo_poller l))) (\<lambda>p.
     TimerQueue_destruct tid (l\<lparr>lo_poller := p\<rparr>)))"

section \<open>Timers\<close>

text \<open>
  The timer calls from the loop thread. \<open>now\<close> is the clock when the call is made, \<open>clock\<close> when the descriptor is set,
  \<open>p\<close> the address of the new timer.
\<close>

definition EventLoop_RunAt :: "int \<Rightarrow> timestamp \<Rightarrow> addr \<Rightarrow> timestamp \<Rightarrow> 'cb \<Rightarrow> 'cb tqueue \<Rightarrow> ((addr option \<times> int) \<times> 'cb tqueue) res" where
  "EventLoop_RunAt tid clock p time cb q = AddTimer tid clock p cb time 0 q"

definition EventLoop_RunAfter :: "(rat \<Rightarrow> rat) \<Rightarrow> int \<Rightarrow> timestamp \<Rightarrow> timestamp \<Rightarrow> addr \<Rightarrow> rat \<Rightarrow> 'cb \<Rightarrow> 'cb tqueue
    \<Rightarrow> ((addr option \<times> int) \<times> 'cb tqueue) res" where
  "EventLoop_RunAfter rnd tid now clock p delay cb q = EventLoop_RunAt tid clock p (AddTime rnd now delay) cb q"

definition EventLoop_RunEvery :: "(rat \<Rightarrow> rat) \<Rightarrow> int \<Rightarrow> timestamp \<Rightarrow> timestamp \<Rightarrow> addr \<Rightarrow> rat \<Rightarrow> rat \<Rightarrow> 'cb \<Rightarrow> 'cb tqueue
    \<Rightarrow> ((addr option \<times> int) \<times> 'cb tqueue) res" where
  "EventLoop_RunEvery rnd tid now clock p delay interval cb q = AddTimer tid clock p cb (AddTime rnd now delay) interval q"

definition EventLoop_Cancel :: "int \<Rightarrow> addr option \<times> int \<Rightarrow> 'cb tqueue \<Rightarrow> 'cb tqueue res" where
  "EventLoop_Cancel tid timerid q = CancelTimerIdInLoop tid timerid q"

section \<open>Lemmas\<close>

lemma ep_wf_alloc:
  assumes "ep_wf p" and "ep_heap p c = None" and "\<forall>d dh. ep_heap p d = Some dh \<longrightarrow> ch_fd dh \<noteq> ch_fd ch"
  shows "ep_wf (p\<lparr>ep_heap := (ep_heap p)(c \<mapsto> ch)\<rparr>)"
proof -
  let ?p = "p\<lparr>ep_heap := (ep_heap p)(c \<mapsto> ch)\<rparr>"
  have "ep_fds ?p" using assms by (fastforce simp: ep_wf_def ep_fds_def)
  moreover have "ep_reg ?p" using assms by (fastforce simp: ep_wf_def ep_reg_def)
  ultimately show ?thesis using assms(1) by (simp add: ep_wf_def)
qed

lemma AddChannel_heap: "EpollPoller_AddChannel tid c p = Inr p' \<Longrightarrow> ep_heap p' = ep_heap p"
  by (auto simp: EpollPoller_AddChannel_def EpollPoller_Update_def rbind_Inr_iff)

lemma unallocated_unregistered: "ep_wf p \<Longrightarrow> ep_heap p c = None \<Longrightarrow> c \<notin> ep_registered p"
  by (fastforce elim: ep_registeredE)

lemma open_channel_ok:
  assumes wf: "ep_wf p" and tid: "ep_tid p = tid" and c: "ep_heap p c = None" and fd: "0 \<le> fd"
    and free: "\<forall>d dh. ep_heap p d = Some dh \<longrightarrow> ch_fd dh \<noteq> fd"
  shows "\<exists>p'. open_channel tid fd c ids p = Inr p' \<and> ep_wf p' \<and> ep_tid p' = tid \<and>
    ep_registered p' = insert c (ep_registered p) \<and>
    ep_heap p' = (ep_heap p)(c \<mapsto> enable_read (Channel_SetCallback ReadCallback (Channel_new fd 0 ids)))"
proof -
  let ?ch = "Channel_SetCallback ReadCallback (Channel_new fd 0 ids)"
  let ?p = "p\<lparr>ep_heap := (ep_heap p)(c \<mapsto> ?ch)\<rparr>"
  have chfd: "ch_fd ?ch = fd" by (simp add: Channel_SetCallback_def Channel_new_def)
  have wf1: "ep_wf ?p" using ep_wf_alloc [OF wf c, of ?ch] free chfd by simp
  have "c \<in> ep_addable ?p"
    using unallocated_unregistered [OF wf c] chfd fd by (simp add: ep_addable_def ep_registered_def)
  then obtain p1 where p1: "EpollPoller_AddChannel tid c ?p = Inr p1" "ep_wf p1" "ep_tid p1 = tid"
    "ep_registered p1 = insert c (ep_registered ?p)"
    using EpollPoller_AddChannel_ok [OF wf1, of tid c] tid by auto
  have h1: "ep_heap p1 = ep_heap ?p" using AddChannel_heap [OF p1(1)] .
  obtain p2 where "Channel_switch enable_read tid c p1 = Inr p2" "ep_wf p2" "ep_tid p2 = tid"
    "ep_heap p2 = (ep_heap p1)(c \<mapsto> enable_read ?ch)" "ep_registered p2 = ep_registered p1"
    using Channel_switch_ok [OF p1(2,3), of c ?ch enable_read] h1 by (auto simp: enable_read_def)
  then show ?thesis
    using p1 h1 by (simp add: open_channel_def Channel_EnableRead_def ep_registered_def)
qed

lemma EventLoop_construct_ok:
  assumes "0 \<le> timerfd" and "0 \<le> eventfd" and "timerfd \<noteq> eventfd" and "ct \<noteq> cw"
  shows "\<exists>l. EventLoop_construct tid timerfd eventfd ct cw ids = Inr l \<and> lo_tid l = tid \<and> lo_wake_channel l = cw \<and>
    ep_wf (lo_poller l) \<and> ep_tid (lo_poller l) = tid \<and> ep_registered (lo_poller l) = {ct, cw} \<and>
    lo_timers l = TimerQueue_new tid \<and>
    ep_heap (lo_poller l) = [ct \<mapsto> enable_read (Channel_SetCallback ReadCallback (Channel_new timerfd 0 ids)),
      cw \<mapsto> enable_read (Channel_SetCallback ReadCallback (Channel_new eventfd 0 (ids + 1)))]"
proof -
  let ?p0 = "EpollPoller_new tid Map.empty"
  have "ep_wf ?p0" "ep_tid ?p0 = tid" "ep_heap ?p0 = Map.empty" "ep_registered ?p0 = {}"
    using ep_reach_wf [OF ep_reach.start] by (simp_all add: EpollPoller_new_def ep_registered_def)
  then obtain p1 where p1: "open_channel tid timerfd ct ids ?p0 = Inr p1" "ep_wf p1" "ep_tid p1 = tid" "ep_registered p1 = {ct}"
    "ep_heap p1 = [ct \<mapsto> enable_read (Channel_SetCallback ReadCallback (Channel_new timerfd 0 ids))]"
    using open_channel_ok [of ?p0 tid ct timerfd ids] assms(1) by auto
  have "\<forall>d dh. ep_heap p1 d = Some dh \<longrightarrow> ch_fd dh \<noteq> eventfd"
    using p1(5) assms(3) by (auto simp: enable_read_def Channel_SetCallback_def Channel_new_def split: if_splits)
  moreover have "ep_heap p1 cw = None" using p1(5) assms(4) by simp
  ultimately obtain p2 where p2: "open_channel tid eventfd cw (ids + 1) p1 = Inr p2" "ep_wf p2" "ep_tid p2 = tid"
    "ep_registered p2 = {cw, ct}"
    "ep_heap p2 = (ep_heap p1)(cw \<mapsto> enable_read (Channel_SetCallback ReadCallback (Channel_new eventfd 0 (ids + 1))))"
    using open_channel_ok [OF p1(2,3) _ assms(2), of cw "ids + 1"] p1(4) by auto
  then show ?thesis using p1 by (auto simp: EventLoop_construct_def TimerQueue_construct_def)
qed

lemma RunAfter_ok:
  assumes "tq_reach rnd tid q" and "\<forall>x. 0 \<le> x \<longrightarrow> 0 \<le> rnd x" and "tq_heap q p = None" and "p \<noteq> uintptr_max"
  shows "\<exists>q'. EventLoop_RunAfter rnd tid now clock p delay cb q = Inr ((Some p, tq_created q), q') \<and> tq_reach rnd tid q' \<and>
    tq_heap q' p = Some (Timer_new cb (AddTime rnd now delay) 0 (tq_created q)) \<and>
    set (tq_timers q') = insert (AddTime rnd now delay, p) (set (tq_timers q))"
proof -
  have ok: "tq_wf q" "armed_ok q" "intervals_ok q" "tid = tq_tid q" using tq_reach_ok [OF assms(1,2)] by simp_all
  let ?e = "AddTime rnd now delay"
  obtain q' where q': "AddTimer tid clock p cb ?e 0 q = Inr ((Some p, tq_created q), q')"
    "tq_heap q' = (tq_heap q)(p \<mapsto> Timer_new cb ?e 0 (tq_created q))" "set (tq_timers q') = insert (?e, p) (set (tq_timers q))"
    using AddTimer_ok [OF ok(1-3) assms(3,4) ok(4), of clock cb ?e 0] by blast
  moreover have "tq_reach rnd tid q'"
    using tq_reach.call [OF assms(1), of clock "AddT p cb ?e 0" q'] q'(1) assms(3,4) by (simp add: run_action_def)
  ultimately show ?thesis by (auto simp: EventLoop_RunAfter_def EventLoop_RunAt_def)
qed

lemma destruct_fails:
  assumes "lo_tid l = tid" and "ep_wf (lo_poller l)" and "ep_tid (lo_poller l) = tid"
    and "lo_wake_channel l \<in> ep_registered (lo_poller l)"
  shows "EventLoop_destruct tid l = Inl AssertFailed"
proof -
  obtain ch where ch: "ep_heap (lo_poller l) (lo_wake_channel l) = Some ch" "0 \<le> ch_fd ch"
    "ep_channels (lo_poller l) (ch_fd ch) = Some (lo_wake_channel l)"
    using ep_registeredE [OF assms(2,4)] .
  then show ?thesis
    using assms(1,3)
    by (simp add: EventLoop_destruct_def EventLoop_RemoveChannel_def EpollPoller_RemoveChannel_def Channel_delete_def
        Channel_Close_def close_fd_def)
qed

section \<open>Properties\<close>

text \<open>
  A new loop is ready to run: the timer descriptor and the wake-up descriptor are the registered channels, both
  listed in the kernel for reading and with a read callback, and no timer is queued.
\<close>

theorem EventLoop_construct_ready:
  assumes "0 \<le> timerfd" and "0 \<le> eventfd" and "timerfd \<noteq> eventfd" and "ct \<noteq> cw"
  shows "\<exists>l. EventLoop_construct tid timerfd eventfd ct cw ids = Inr l \<and> ep_wf (lo_poller l) \<and>
    ep_registered (lo_poller l) = {ct, cw} \<and> lo_timers l = TimerQueue_new tid \<and>
    (\<forall>(c, fd) \<in> {(ct, timerfd), (cw, eventfd)}.
       \<exists>ch. ep_heap (lo_poller l) c = Some ch \<and> ch_fd ch = fd \<and> IsReading ch \<and> ReadCallback \<in> ch_callbacks ch \<and>
          ep_interest (lo_poller l) fd = Some (scast (ch_events ch), c))"
proof -
  obtain l where l: "EventLoop_construct tid timerfd eventfd ct cw ids = Inr l" "ep_wf (lo_poller l)"
    "ep_registered (lo_poller l) = {ct, cw}" "lo_timers l = TimerQueue_new tid"
    "ep_heap (lo_poller l) = [ct \<mapsto> enable_read (Channel_SetCallback ReadCallback (Channel_new timerfd 0 ids)),
      cw \<mapsto> enable_read (Channel_SetCallback ReadCallback (Channel_new eventfd 0 (ids + 1)))]"
    using EventLoop_construct_ok [OF assms] by blast
  have "\<exists>ch. ep_heap (lo_poller l) c = Some ch \<and> ch_fd ch = fd \<and> IsReading ch \<and> ReadCallback \<in> ch_callbacks ch \<and>
      ep_interest (lo_poller l) fd = Some (scast (ch_events ch), c)"
    if "(c, fd) \<in> {(ct, timerfd), (cw, eventfd)}" for c fd
  proof -
    have "c \<in> ep_registered (lo_poller l)" using that l(3) by auto
    then obtain ch where ch: "ep_heap (lo_poller l) c = Some ch" "ep_interest (lo_poller l) (ch_fd ch) = Some (scast (ch_events ch), c)"
      using ep_registeredE [OF l(2)] by metis
    moreover have "ch_fd ch = fd" "IsReading ch" "ReadCallback \<in> ch_callbacks ch"
      using that ch(1) l(5) assms(4)
      by (auto simp: enable_read_def Channel_SetCallback_def Channel_new_def IsReading_def has_event_def kReadEvent_def split: if_splits)
    ultimately show ?thesis by blast
  qed
  then show ?thesis using l(1-4) by blast
qed

text \<open>A loop of thread 9 with the descriptors 3 and 4.\<close>

theorem EventLoop_construct_ready_witness:
  "\<exists>l. EventLoop_construct 9 3 4 1 2 0 = Inr l \<and> ep_registered (lo_poller l) = {1, 2}"
  using EventLoop_construct_ready [of 3 4 1 2 9 0] by auto

text \<open>
  A loop cannot be destroyed: the destructor first unregisters the wake-up channel, and the channel's own
  destructor then unregisters it again, which fails the poller's assertion.
\<close>

theorem EventLoop_destruct_asserts:
  assumes "lo_tid l = tid" and "ep_wf (lo_poller l)" and "ep_tid (lo_poller l) = tid"
    and "lo_wake_channel l \<in> ep_registered (lo_poller l)"
  shows "EventLoop_destruct tid l = Inl AssertFailed"
  using assms by (rule destruct_fails)

theorem EventLoop_destruct_asserts_witness:
  "\<exists>l. EventLoop_construct 9 3 4 1 2 0 = Inr l \<and> EventLoop_destruct 9 l = Inl AssertFailed"
proof -
  obtain l where "EventLoop_construct 9 3 4 1 2 0 = Inr l" "lo_tid l = 9" "lo_wake_channel l = 2" "ep_wf (lo_poller l)"
    "ep_tid (lo_poller l) = 9" "ep_registered (lo_poller l) = {1, 2}"
    using EventLoop_construct_ok [of 3 4 1 2 9 0] by auto
  then show ?thesis using EventLoop_destruct_asserts [of l 9] by simp
qed



end
