(* ===== verification/Threads.thy ===== *)
theory Threads
  imports JNet_Prelude
begin

text \<open>
  Threads around the loops: the count-down latch (\<^verbatim>\<open>net/countdownlatch.h\<close>), the thread that runs an
  event loop (\<^verbatim>\<open>net/eventloop_thread.cc\<close>), the pool of such threads (\<^verbatim>\<open>net/eventloop_pool.cc\<close>) and the
  thread pool for tasks (\<^verbatim>\<open>net/threadpool.h\<close>). Critical sections are atomic steps; a thread that waits on a
  condition variable is blocked until it is notified, and then tests its condition again.
\<close>

section \<open>The count-down latch\<close>

record latch =
  lt_count :: int
  lt_blocked :: nat

definition CountDownLatch_new :: "int \<Rightarrow> latch" where
  "CountDownLatch_new n = \<lparr>lt_count = n, lt_blocked = 0\<rparr>"

text \<open>\<^verbatim>\<open>Count\<close> returns the latch and how many blocked threads it has notified.\<close>

definition CountDownLatch_Count :: "latch \<Rightarrow> nat \<times> latch" where
  "CountDownLatch_Count l =
     (let l1 = l\<lparr>lt_count := lt_count l - 1\<rparr> in
      if lt_count l1 \<le> 0 then (lt_blocked l1, l1\<lparr>lt_blocked := 0\<rparr>) else (0, l1))"

text \<open>One test of the loop of \<^verbatim>\<open>Wait\<close>: the thread passes or blocks.\<close>

definition CountDownLatch_Wait :: "latch \<Rightarrow> bool \<times> latch" where
  "CountDownLatch_Wait l = (if lt_count l > 0 then (False, l\<lparr>lt_blocked := lt_blocked l + 1\<rparr>) else (True, l))"

definition latch_ok :: "latch \<Rightarrow> bool" where
  "latch_ok l \<longleftrightarrow> (0 < lt_blocked l \<longrightarrow> 0 < lt_count l)"

lemma latch_ok_ops:
  "latch_ok (CountDownLatch_new n)"
  "latch_ok l \<Longrightarrow> latch_ok (snd (CountDownLatch_Count l))"
  "latch_ok l \<Longrightarrow> latch_ok (snd (CountDownLatch_Wait l))"
  by (auto simp: latch_ok_def CountDownLatch_new_def CountDownLatch_Count_def CountDownLatch_Wait_def Let_def)

section \<open>The thread of an event loop\<close>

datatype starter_pc = SIdle | SWaiting | SBlocked | SStarted | SAsserted

datatype runner_pc = RNone | RCreated | RPublished | RLooping | RReturned

record elthread =
  et_started :: bool
  et_loop :: bool
  et_latch :: latch
  et_starter :: starter_pc
  et_runner :: runner_pc
  et_quit :: bool

definition EventLoopThread_new :: elthread where
  "EventLoopThread_new =
     \<lparr>et_started = False, et_loop = False, et_latch = CountDownLatch_new 1, et_starter = SIdle, et_runner = RNone, et_quit = False\<rparr>"

text \<open>\<open>et_loop\<close> tells whether the pointer to the loop is set.\<close>

definition StartLoop_spawn :: "elthread \<Rightarrow> elthread res" where
  "StartLoop_spawn s =
     rbind (cxx_assert (\<not> et_started s)) (\<lambda>_.
     rbind (cxx_assert (\<not> et_loop s)) (\<lambda>_.
     Inr (s\<lparr>et_started := True, et_runner := RCreated, et_starter := SWaiting\<rparr>)))"

definition StartLoop_wait :: "elthread \<Rightarrow> elthread" where
  "StartLoop_wait s =
     (case CountDownLatch_Wait (et_latch s) of
        (pass, l) \<Rightarrow>
          s\<lparr>et_latch := l, et_starter := (if pass then (if et_loop s then SStarted else SAsserted) else SBlocked)\<rparr>)"

definition RunInThread_count :: "elthread \<Rightarrow> elthread" where
  "RunInThread_count s =
     (case CountDownLatch_Count (et_latch s) of
        (n, l) \<Rightarrow>
          s\<lparr>et_latch := l, et_runner := RLooping,
            et_starter := (if 0 < n \<and> et_starter s = SBlocked then SWaiting else et_starter s)\<rparr>)"

text \<open>
  The runner creates the loop, publishes its address, counts the latch down and loops; the loop returns
  only after someone who got its address told it to quit.
\<close>

inductive et_step :: "elthread \<Rightarrow> elthread \<Rightarrow> bool" where
  spawn: "et_starter s = SIdle \<Longrightarrow> StartLoop_spawn s = Inr s' \<Longrightarrow> et_step s s'"
| wait: "et_starter s = SWaiting \<Longrightarrow> et_step s (StartLoop_wait s)"
| publish: "et_runner s = RCreated \<Longrightarrow> et_step s (s\<lparr>et_loop := True, et_runner := RPublished\<rparr>)"
| count: "et_runner s = RPublished \<Longrightarrow> et_step s (RunInThread_count s)"
| quit: "et_starter s = SStarted \<Longrightarrow> et_loop s \<Longrightarrow> et_step s (s\<lparr>et_quit := True\<rparr>)"
| return: "et_runner s = RLooping \<Longrightarrow> et_quit s \<Longrightarrow> et_step s (s\<lparr>et_loop := False, et_runner := RReturned\<rparr>)"

inductive et_reach :: "elthread \<Rightarrow> bool" where
  start: "et_reach EventLoopThread_new"
| step: "et_reach s \<Longrightarrow> et_step s s' \<Longrightarrow> et_reach s'"

definition et_inv :: "elthread \<Rightarrow> bool" where
  "et_inv s \<longleftrightarrow>
     et_starter s \<noteq> SAsserted \<and>
     (et_started s \<longleftrightarrow> et_starter s \<noteq> SIdle) \<and>
     (et_starter s = SIdle \<longleftrightarrow> et_runner s = RNone) \<and>
     (et_runner s \<in> {RNone, RCreated} \<longrightarrow> \<not> et_loop s) \<and>
     (et_runner s \<in> {RPublished, RLooping} \<longrightarrow> et_loop s) \<and>
     lt_count (et_latch s) = (if et_runner s \<in> {RLooping, RReturned} then 0 else 1) \<and>
     lt_blocked (et_latch s) = (if et_starter s = SBlocked then 1 else 0) \<and>
     (et_starter s = SBlocked \<longrightarrow> lt_count (et_latch s) = 1) \<and>
     (et_quit s \<longrightarrow> et_starter s = SStarted) \<and>
     (et_runner s = RReturned \<longrightarrow> et_quit s)"

lemma et_step_inv: "et_step s s' \<Longrightarrow> et_inv s \<Longrightarrow> et_inv s'"
proof (induction rule: et_step.induct)
  case (spawn s s')
  then show ?case by (auto simp: et_inv_def StartLoop_spawn_def rbind_Inr_iff)
next
  case (wait s)
  then show ?case
    by (cases "et_runner s") (auto simp: et_inv_def StartLoop_wait_def CountDownLatch_Wait_def)
next
  case (publish s)
  then show ?case by (auto simp: et_inv_def)
next
  case (count s)
  then show ?case
    by (cases "et_starter s") (auto simp: et_inv_def RunInThread_count_def CountDownLatch_Count_def Let_def)
next
  case (quit s)
  then show ?case by (auto simp: et_inv_def)
next
  case (return s)
  then show ?case by (auto simp: et_inv_def)
qed

lemma et_reach_inv: "et_reach s \<Longrightarrow> et_inv s"
proof (induction rule: et_reach.induct)
  case start
  then show ?case by (simp add: et_inv_def EventLoopThread_new_def CountDownLatch_new_def)
next
  case (step s s')
  then show ?case using et_step_inv by blast
qed

section \<open>The pool of event loops\<close>

record 'l elpool =
  lp_base :: 'l
  lp_numThreads :: int
  lp_started :: bool
  lp_next :: nat
  lp_loops :: "'l list"

definition EventLoopPool_new :: "'l \<Rightarrow> 'l elpool" where
  "EventLoopPool_new base = \<lparr>lp_base = base, lp_numThreads = 0, lp_started = False, lp_next = 0, lp_loops = []\<rparr>"

definition EventLoopPool_SetThreadNum :: "int \<Rightarrow> 'l elpool \<Rightarrow> 'l elpool" where
  "EventLoopPool_SetThreadNum n p = p\<lparr>lp_numThreads := n\<rparr>"

text \<open>\<open>StartLoop i\<close> is the loop that the i-th thread has started; \<open>inLoop\<close> tells whether the caller is the base loop's thread.\<close>

definition EventLoopPool_Start :: "(nat \<Rightarrow> 'l) \<Rightarrow> bool \<Rightarrow> 'l elpool \<Rightarrow> 'l elpool res" where
  "EventLoopPool_Start StartLoop inLoop p =
     rbind (cxx_assert (\<not> lp_started p)) (\<lambda>_.
     rbind (cxx_assert inLoop) (\<lambda>_.
     Inr (p\<lparr>lp_started := True, lp_loops := lp_loops p @ map StartLoop [0 ..< nat (lp_numThreads p)]\<rparr>)))"

definition EventLoopPool_GetNextLoop :: "bool \<Rightarrow> 'l elpool \<Rightarrow> ('l \<times> 'l elpool) res" where
  "EventLoopPool_GetNextLoop inLoop p =
     rbind (cxx_assert inLoop) (\<lambda>_.
     rbind (cxx_assert (lp_started p)) (\<lambda>_.
     if lp_loops p \<noteq> [] then
       if lp_next p < length (lp_loops p)
       then let next1 = lp_next p + 1 in
            Inr (lp_loops p ! lp_next p, p\<lparr>lp_next := (if next1 \<ge> length (lp_loops p) then 0 else next1)\<rparr>)
       else Inl OutOfBounds
     else Inr (lp_base p, p)))"

definition EventLoopPool_GetAllLoops :: "bool \<Rightarrow> 'l elpool \<Rightarrow> 'l list res" where
  "EventLoopPool_GetAllLoops inLoop p =
     rbind (cxx_assert inLoop) (\<lambda>_.
     rbind (cxx_assert (lp_started p)) (\<lambda>_.
     Inr (if lp_loops p = [] then [lp_base p] else lp_loops p)))"

fun next_loops :: "nat \<Rightarrow> 'l elpool \<Rightarrow> 'l list res" where
  "next_loops 0 p = Inr []"
| "next_loops (Suc k) p =
     rbind (EventLoopPool_GetNextLoop True p) (\<lambda>(l, p'). rbind (next_loops k p') (\<lambda>ls. Inr (l # ls)))"

lemma next_loops_round_robin:
  assumes "lp_started p" and "lp_loops p = ls" and "ls \<noteq> []" and "lp_next p < length ls"
  shows "next_loops k p = Inr (map (\<lambda>i. ls ! ((lp_next p + i) mod length ls)) [0 ..< k])"
  using assms
proof (induction k arbitrary: p)
  case (Suc k)
  let ?n = "length ls"
  let ?next = "if lp_next p + 1 \<ge> ?n then 0 else lp_next p + 1"
  have nxt: "?next = (lp_next p + 1) mod ?n" "?next < ?n" using Suc.prems by (auto simp: mod_if)
  have "next_loops k (p\<lparr>lp_next := ?next\<rparr>) = Inr (map (\<lambda>i. ls ! ((?next + i) mod ?n)) [0 ..< k])"
    using Suc.IH [of "p\<lparr>lp_next := ?next\<rparr>"] Suc.prems nxt(2) by simp
  moreover have "(?next + i) mod ?n = (lp_next p + Suc i) mod ?n" for i
    unfolding nxt(1) using mod_add_left_eq [of "lp_next p + 1" ?n i] by (simp only: add_Suc_right add_Suc Suc_eq_plus1 [symmetric])
  moreover have "[0 ..< Suc k] = 0 # map Suc [0 ..< k]" by (simp add: map_Suc_upt upt_conv_Cons)
  ultimately show ?case
    using Suc.prems by (cases "?n \<le> Suc (lp_next p)") (simp_all add: EventLoopPool_GetNextLoop_def Let_def o_def)
qed simp

section \<open>The thread pool\<close>

text \<open>
  Tasks are numbers. A worker tests the queue under the lock, blocks, runs a task or has returned. A caller
  of \<^verbatim>\<open>AddTask\<close> that finds the queue full waits on the same condition variable: \<open>tp_waiting\<close> holds the tasks of
  blocked callers, \<open>tp_woken\<close> those of callers that were notified and test again. Two histories record the
  tasks submitted and the tasks taken.
\<close>

datatype worker_pc = WTest | WBlocked | WRun nat | WExited

record tpool =
  tp_tasks :: "nat list"
  tp_stop :: bool
  tp_workers :: "worker_pc list"
  tp_max :: nat
  tp_waiting :: "nat list"
  tp_woken :: "nat list"
  tp_submitted :: "nat list"
  tp_taken :: "nat list"

definition ThreadPool_new :: "nat \<Rightarrow> nat \<Rightarrow> tpool" where
  "ThreadPool_new threads maxq =
     \<lparr>tp_tasks = [], tp_stop = False, tp_workers = replicate threads WTest, tp_max = maxq, tp_waiting = [], tp_woken = [],
      tp_submitted = [], tp_taken = []\<rparr>"

text \<open>The critical section of a worker, from the predicate of \<^verbatim>\<open>wait\<close> to the end of the block.\<close>

definition worker_test :: "nat \<Rightarrow> tpool \<Rightarrow> tpool" where
  "worker_test i s =
     (case tp_tasks s of
        [] \<Rightarrow> s\<lparr>tp_workers := (tp_workers s)[i := (if tp_stop s then WExited else WBlocked)]\<rparr>
      | t # ts \<Rightarrow> s\<lparr>tp_tasks := ts, tp_workers := (tp_workers s)[i := WRun t], tp_taken := tp_taken s @ [t]\<rparr>)"

definition worker_done :: "nat \<Rightarrow> tpool \<Rightarrow> tpool" where
  "worker_done i s = s\<lparr>tp_workers := (tp_workers s)[i := WTest]\<rparr>"

text \<open>\<^verbatim>\<open>notify_one\<close> wakes one waiting thread, if there is one, and does not say which.\<close>

inductive notify_one :: "tpool \<Rightarrow> tpool \<Rightarrow> bool" where
  nobody: "WBlocked \<notin> set (tp_workers s) \<Longrightarrow> tp_waiting s = [] \<Longrightarrow> notify_one s s"
| worker: "i < length (tp_workers s) \<Longrightarrow> tp_workers s ! i = WBlocked \<Longrightarrow>
    notify_one s (s\<lparr>tp_workers := (tp_workers s)[i := WTest]\<rparr>)"
| caller: "i < length (tp_waiting s) \<Longrightarrow>
    notify_one s (s\<lparr>tp_waiting := take i (tp_waiting s) @ drop (Suc i) (tp_waiting s), tp_woken := tp_woken s @ [tp_waiting s ! i]\<rparr>)"

definition AddTask_push :: "nat \<Rightarrow> tpool \<Rightarrow> tpool" where
  "AddTask_push t s = s\<lparr>tp_tasks := tp_tasks s @ [t], tp_submitted := tp_submitted s @ [t]\<rparr>"

definition AddTask_may_push :: "tpool \<Rightarrow> bool" where
  "AddTask_may_push s \<longleftrightarrow> length (tp_tasks s) < tp_max s \<or> tp_stop s"

definition ThreadPool_stop :: "tpool \<Rightarrow> tpool" where
  "ThreadPool_stop s = s\<lparr>tp_stop := True\<rparr>"

text \<open>The steps that the threads of the pool and the callers inside \<^verbatim>\<open>AddTask\<close> can take by themselves.\<close>

inductive tp_internal :: "tpool \<Rightarrow> tpool \<Rightarrow> bool" where
  test: "i < length (tp_workers s) \<Longrightarrow> tp_workers s ! i = WTest \<Longrightarrow> tp_internal s (worker_test i s)"
| finish: "i < length (tp_workers s) \<Longrightarrow> tp_workers s ! i = WRun t \<Longrightarrow> tp_internal s (worker_done i s)"
| retry_push: "i < length (tp_woken s) \<Longrightarrow> AddTask_may_push s \<Longrightarrow>
    notify_one (AddTask_push (tp_woken s ! i) (s\<lparr>tp_woken := take i (tp_woken s) @ drop (Suc i) (tp_woken s)\<rparr>)) s' \<Longrightarrow> tp_internal s s'"
| retry_block: "i < length (tp_woken s) \<Longrightarrow> \<not> AddTask_may_push s \<Longrightarrow>
    tp_internal s (s\<lparr>tp_woken := take i (tp_woken s) @ drop (Suc i) (tp_woken s), tp_waiting := tp_waiting s @ [tp_woken s ! i]\<rparr>)"

inductive tp_step :: "tpool \<Rightarrow> tpool \<Rightarrow> bool" where
  internal: "tp_internal s s' \<Longrightarrow> tp_step s s'"
| add: "AddTask_may_push s \<Longrightarrow> notify_one (AddTask_push t s) s' \<Longrightarrow> tp_step s s'"
| add_block: "\<not> AddTask_may_push s \<Longrightarrow> tp_step s (s\<lparr>tp_waiting := tp_waiting s @ [t]\<rparr>)"
| stop: "tp_step s (ThreadPool_stop s)"

inductive tp_reach :: "nat \<Rightarrow> nat \<Rightarrow> tpool \<Rightarrow> bool" for threads maxq where
  start: "tp_reach threads maxq (ThreadPool_new threads maxq)"
| step: "tp_reach threads maxq s \<Longrightarrow> tp_step s s' \<Longrightarrow> tp_reach threads maxq s'"

lemma notify_one_fields:
  "notify_one s s' \<Longrightarrow> tp_tasks s' = tp_tasks s \<and> tp_stop s' = tp_stop s \<and> tp_max s' = tp_max s \<and>
    tp_submitted s' = tp_submitted s \<and> tp_taken s' = tp_taken s \<and> length (tp_workers s') = length (tp_workers s)"
  by (induction rule: notify_one.induct) simp_all

text \<open>Tasks are taken in the order submitted.\<close>

definition tp_fifo :: "tpool \<Rightarrow> bool" where
  "tp_fifo s \<longleftrightarrow> tp_submitted s = tp_taken s @ tp_tasks s"

lemma tp_fifo_push: "tp_fifo s \<Longrightarrow> notify_one (AddTask_push t s) s' \<Longrightarrow> tp_fifo s'"
  using notify_one_fields [of "AddTask_push t s" s'] by (simp add: tp_fifo_def AddTask_push_def)

lemma tp_fifo_internal:
  assumes "tp_internal s s'" and "tp_fifo s"
  shows "tp_fifo s'"
  using assms(1)
proof (cases rule: tp_internal.cases)
  case (retry_push i)
  have "tp_fifo (s\<lparr>tp_woken := take i (tp_woken s) @ drop (Suc i) (tp_woken s)\<rparr>)" using assms(2) by (simp add: tp_fifo_def)
  then show ?thesis using retry_push tp_fifo_push by blast
qed (use assms(2) in \<open>auto simp: tp_fifo_def worker_test_def worker_done_def split: list.splits\<close>)

lemma tp_reach_fifo: "tp_reach threads maxq s \<Longrightarrow> tp_fifo s"
proof (induction rule: tp_reach.induct)
  case start
  then show ?case by (simp add: tp_fifo_def ThreadPool_new_def)
next
  case (step s s')
  from step(2,3) show ?case
  proof (induction rule: tp_step.induct)
    case (internal s s')
    then show ?case using tp_fifo_internal by blast
  next
    case (add s t s')
    then show ?case using tp_fifo_push by blast
  qed (simp_all add: tp_fifo_def ThreadPool_stop_def)
qed

text \<open>
  Callers that wait for room share the condition variable with the workers and can take a notification in place of a worker. As long
  as there are fewer of them than the queue has room, such a caller finds room, pushes its task and passes the notification on.
\<close>

inductive tp_few :: "nat \<Rightarrow> nat \<Rightarrow> tpool \<Rightarrow> bool" for threads maxq where
  start: "tp_few threads maxq (ThreadPool_new threads maxq)"
| step: "tp_few threads maxq s \<Longrightarrow> tp_step s s' \<Longrightarrow> \<not> tp_stop s' \<Longrightarrow> length (tp_waiting s') < maxq \<Longrightarrow> tp_few threads maxq s'"

definition asleep :: "tpool \<Rightarrow> bool" where
  "asleep s \<longleftrightarrow> set (tp_workers s) \<subseteq> {WBlocked}"

definition tp_awake :: "tpool \<Rightarrow> bool" where
  "tp_awake s \<longleftrightarrow> tp_workers s \<noteq> [] \<and> WExited \<notin> set (tp_workers s) \<and>
     (asleep s \<longrightarrow> length (tp_tasks s) + length (tp_waiting s) < tp_max s \<and> (tp_tasks s \<noteq> [] \<longrightarrow> tp_woken s \<noteq> []))"

lemma asleep_update: "i < length ws \<Longrightarrow> w \<noteq> WBlocked \<Longrightarrow> \<not> set (ws[i := w]) \<subseteq> {WBlocked}"
  using set_update_memI [of i ws w] by auto

lemma notify_asleep:
  assumes "notify_one s s'" and "tp_workers s \<noteq> []" and "asleep s'"
  shows "asleep s \<and> tp_workers s' = tp_workers s \<and> length (tp_waiting s) = Suc (length (tp_waiting s')) \<and> tp_woken s' \<noteq> []"
  using assms
proof (induction rule: notify_one.induct)
  case (nobody s)
  then show ?case by (cases "tp_workers s") (auto simp: asleep_def)
next
  case (worker i s)
  then show ?case using asleep_update [of i "tp_workers s" WTest] by (simp add: asleep_def)
qed (auto simp: asleep_def)

text \<open>Pushing a task and notifying.\<close>

lemma push_awake:
  assumes "notify_one (AddTask_push t s) s'" and "tp_workers s \<noteq> []" "WExited \<notin> set (tp_workers s)"
    and "asleep s \<longrightarrow> length (tp_tasks s) + length (tp_waiting s) < tp_max s"
  shows "tp_awake s' \<and> (asleep s' \<longrightarrow> length (tp_waiting s') < length (tp_waiting s))"
proof -
  let ?s = "AddTask_push t s"
  have f: "tp_workers ?s = tp_workers s" "tp_waiting ?s = tp_waiting s" "tp_tasks ?s = tp_tasks s @ [t]" "asleep ?s = asleep s" "tp_max ?s = tp_max s"
    by (simp_all add: AddTask_push_def asleep_def)
  note n = notify_one_fields [OF assms(1)]
  have "WExited \<notin> set (tp_workers s')"
    using assms(1,3) f(1) set_update_subset_insert by (induction rule: notify_one.induct) fastforce+
  moreover have "tp_workers s' \<noteq> []" using n assms(2) f(1) by auto
  moreover note notify_asleep [OF assms(1)]
  ultimately show ?thesis using n f assms(2,4) by (auto simp: tp_awake_def)
qed

lemma internal_awake:
  assumes "tp_internal s s'" and a: "tp_awake s" and stop: "\<not> tp_stop s" and few: "length (tp_waiting s) < tp_max s"
  shows "tp_awake s' \<and> (asleep s \<and> asleep s' \<longrightarrow> length (tp_waiting s') < length (tp_waiting s))"
  using assms(1)
proof (cases rule: tp_internal.cases)
  case (test i)
  have ne: "tp_workers s' \<noteq> []" using tp_internal.test [OF test(2,3)] a test by (auto simp: tp_awake_def worker_test_def split: list.splits)
  have ex: "WExited \<notin> set (tp_workers s')"
    using a stop test set_update_subset_insert [of "tp_workers s" i] by (fastforce simp: tp_awake_def worker_test_def split: list.splits)
  have "\<not> asleep s" using test nth_mem [of i "tp_workers s"] by (auto simp: asleep_def)
  moreover have "tp_tasks s = []" "tp_waiting s' = tp_waiting s" "tp_tasks s' = []" "tp_max s' = tp_max s" if "asleep s'"
    using that test asleep_update [of i "tp_workers s"] by (auto simp: asleep_def worker_test_def split: list.splits)
  ultimately show ?thesis using ne ex few by (auto simp: tp_awake_def)
next
  case (finish i t)
  then have "\<not> asleep s'" using asleep_update [of i "tp_workers s" WTest] by (simp add: asleep_def worker_done_def)
  moreover have "WExited \<notin> set (tp_workers s')" "tp_workers s' \<noteq> []"
    using a finish set_update_subset_insert [of "tp_workers s" i WTest] by (auto simp: tp_awake_def worker_done_def)
  ultimately show ?thesis by (simp add: tp_awake_def)
next
  case (retry_push i)
  let ?s = "s\<lparr>tp_woken := take i (tp_woken s) @ drop (Suc i) (tp_woken s)\<rparr>"
  have "asleep ?s = asleep s" by (simp add: asleep_def)
  then show ?thesis using push_awake [OF retry_push(3)] a by (simp add: tp_awake_def)
next
  case (retry_block i)
  then have "\<not> asleep s" using a by (auto simp: tp_awake_def AddTask_may_push_def)
  then show ?thesis using a retry_block by (simp add: tp_awake_def asleep_def)
qed

lemma asleep_wakes:
  assumes "tp_internal s s'" and "asleep s" and "\<not> asleep s'"
  shows "WTest \<in> set (tp_workers s')"
  using assms(1)
proof (cases rule: tp_internal.cases)
  case (retry_push i)
  have notify: "WTest \<in> set (tp_workers v)" if "notify_one u v" "asleep u" "\<not> asleep v" for u v
    using that by (induction rule: notify_one.induct) (auto simp: asleep_def set_update_memI)
  show ?thesis using notify [OF retry_push(3) _ assms(3)] assms(2) by (simp add: asleep_def AddTask_push_def)
qed (use assms(2,3) nth_mem in \<open>fastforce simp: asleep_def\<close>)+

lemma tp_few_awake:
  assumes "0 < threads" and "tp_few threads maxq s" and "0 < maxq"
  shows "tp_awake s \<and> \<not> tp_stop s \<and> tp_max s = maxq \<and> length (tp_waiting s) < maxq"
  using assms(2)
proof (induction rule: tp_few.induct)
  case start
  then show ?case using assms(1,3) by (simp add: tp_awake_def asleep_def ThreadPool_new_def)
next
  case (step s s')
  then have s: "tp_awake s" "\<not> tp_stop s" "tp_max s = maxq" "length (tp_waiting s) < maxq" by simp_all
  from step(2) show ?case
  proof (cases rule: tp_step.cases)
    case internal
    have "tp_max s' = tp_max s"
      using internal
      by (induction rule: tp_internal.induct) (auto simp: worker_test_def worker_done_def AddTask_push_def dest!: notify_one_fields split: list.splits)
    then show ?thesis using internal_awake [OF internal] s step(3,4) by simp
  next
    case (add t)
    have "tp_awake s'" using push_awake [OF add(2)] s(1) by (auto simp: tp_awake_def)
    then show ?thesis using notify_one_fields [OF add(2)] s step(3,4) by (simp add: AddTask_push_def)
  next
    case (add_block t)
    then have "\<not> asleep s" using s(1) by (auto simp: tp_awake_def AddTask_may_push_def)
    then show ?thesis using s step(3,4) add_block by (simp add: tp_awake_def asleep_def)
  qed (use step in \<open>auto simp: ThreadPool_stop_def\<close>)
qed

lemma notify_exists: "\<exists>s'. notify_one s s'"
proof (cases "WBlocked \<in> set (tp_workers s)")
  case True
  then show ?thesis using notify_one.worker [of _ s] by (metis in_set_conv_nth)
next
  case False
  show ?thesis
  proof (cases "tp_waiting s")
    case Nil
    then show ?thesis using notify_one.nobody [OF False] by blast
  next
    case (Cons t ts)
    then have "0 < length (tp_waiting s)" by simp
    then show ?thesis using notify_one.caller [of 0 s] by blast
  qed
qed

lemma awake_moves:
  assumes "tp_awake s" and "tp_tasks s \<noteq> []" and "\<not> tp_stop s"
  shows "\<exists>s'. tp_internal s s'"
proof (cases "asleep s")
  case True
  then have w: "0 < length (tp_woken s)" "AddTask_may_push s" using assms by (simp_all add: tp_awake_def AddTask_may_push_def)
  then show ?thesis using notify_exists tp_internal.retry_push [OF w] by blast
next
  case False
  then obtain i where i: "i < length (tp_workers s)" "tp_workers s ! i \<noteq> WBlocked" by (auto simp: asleep_def subset_eq in_set_conv_nth)
  have "tp_workers s ! i \<noteq> WExited" using assms(1) nth_mem [OF i(1)] by (auto simp: tp_awake_def)
  then show ?thesis using i tp_internal.test [OF i(1)] tp_internal.finish [OF i(1)] by (cases "tp_workers s ! i") blast+
qed

section \<open>Properties\<close>

text \<open>
  C26. Starting a loop thread is safe in every interleaving: the caller of \<^verbatim>\<open>StartLoop\<close> never finds the loop's
  address missing after the latch let it pass, and it is never left blocked once the latch is open.
\<close>

theorem EventLoopThread_start_safe:
  assumes "et_reach s"
  shows "et_starter s \<noteq> SAsserted \<and> (et_starter s = SBlocked \<longrightarrow> 0 < lt_count (et_latch s) \<and> et_runner s \<in> {RCreated, RPublished})"
  using et_reach_inv [OF assms] by (cases "et_runner s") (auto simp: et_inv_def)

definition blocked_starter :: elthread where
  "blocked_starter =
     StartLoop_wait (EventLoopThread_new\<lparr>et_started := True, et_runner := RCreated, et_starter := SWaiting\<rparr>)"

lemma blocked_starter_reach: "et_reach blocked_starter"
proof -
  let ?s = "EventLoopThread_new\<lparr>et_started := True, et_runner := RCreated, et_starter := SWaiting\<rparr>"
  have "et_step EventLoopThread_new ?s"
    by (rule et_step.spawn) (simp_all add: EventLoopThread_new_def StartLoop_spawn_def)
  then have "et_reach ?s" using et_reach.start et_reach.step by blast
  moreover have "et_step ?s blocked_starter" unfolding blocked_starter_def by (rule et_step.wait) simp
  ultimately show ?thesis using et_reach.step by blast
qed

theorem EventLoopThread_start_safe_witness:
  "et_starter blocked_starter = SBlocked \<and> 0 < lt_count (et_latch blocked_starter)"
proof -
  have "et_starter blocked_starter = SBlocked"
    by (simp add: blocked_starter_def StartLoop_wait_def EventLoopThread_new_def CountDownLatch_new_def CountDownLatch_Wait_def)
  then show ?thesis using EventLoopThread_start_safe [OF blocked_starter_reach] by simp
qed

text \<open>
  The pool hands out its loops in turn: after \<^verbatim>\<open>Start\<close> with n threads the i-th call of \<^verbatim>\<open>GetNextLoop\<close> returns
  the loop of thread i modulo n, and the index never leaves the vector.
\<close>

theorem EventLoopPool_round_robin:
  assumes "0 < n" and "EventLoopPool_Start StartLoop True (EventLoopPool_SetThreadNum (int n) (EventLoopPool_new base)) = Inr p"
  shows "next_loops k p = Inr (map (\<lambda>i. StartLoop (i mod n)) [0 ..< k])"
proof -
  have p: "lp_started p" "lp_loops p = map StartLoop [0 ..< n]" "lp_next p = 0"
    using assms by (auto simp: EventLoopPool_Start_def EventLoopPool_SetThreadNum_def EventLoopPool_new_def)
  have "next_loops k p = Inr (map (\<lambda>i. map StartLoop [0 ..< n] ! ((lp_next p + i) mod n)) [0 ..< k])"
    using next_loops_round_robin [OF p(1,2)] assms(1) p(3) by simp
  then show ?thesis using assms(1) p(3) by simp
qed

theorem EventLoopPool_round_robin_witness:
  "next_loops 5 (EventLoopPool_SetThreadNum 2 (EventLoopPool_new (99 :: nat))\<lparr>lp_started := True, lp_loops := [10, 11]\<rparr>) =
    Inr [10, 11, 10, 11, 10]"
proof -
  have start: "EventLoopPool_Start (\<lambda>i. 10 + i) True (EventLoopPool_SetThreadNum (int 2) (EventLoopPool_new (99 :: nat))) =
      Inr (EventLoopPool_SetThreadNum 2 (EventLoopPool_new (99 :: nat))\<lparr>lp_started := True, lp_loops := [10, 11]\<rparr>)"
    by (simp add: EventLoopPool_Start_def EventLoopPool_SetThreadNum_def EventLoopPool_new_def upt_rec)
  show ?thesis using EventLoopPool_round_robin [OF _ start, of 5] by (simp add: upt_rec)
qed

text \<open>
  The thread pool takes tasks in the order in which they were submitted, each once, in every
  interleaving of workers and callers.
\<close>

theorem ThreadPool_tasks_fifo:
  assumes "tp_reach threads maxq s"
  shows "tp_submitted s = tp_taken s @ tp_tasks s"
  using tp_reach_fifo [OF assms] by (simp add: tp_fifo_def)

theorem ThreadPool_tasks_fifo_witness: "tp_submitted (ThreadPool_new 4 100000) = []"
  using ThreadPool_tasks_fifo [OF tp_reach.start] by (simp add: ThreadPool_new_def)

text \<open>
  C27. As long as fewer callers wait for room than the queue has room for (100000 in the code) and the pool is not being destroyed, no task is
  stranded. When a task is queued, the threads of the pool and the callers inside \<^verbatim>\<open>AddTask\<close> can make a step by themselves. If every worker is
  asleep, each step they can make wakes a worker or leaves fewer callers waiting, so that a worker is awake after finitely many of them.
  Otherwise a worker is testing the queue or running a task.
\<close>

theorem ThreadPool_no_stranded_task:
  assumes "0 < threads" and "0 < maxq" and "tp_few threads maxq s" and "tp_tasks s \<noteq> []"
  shows "(\<exists>s'. tp_internal s s') \<and>
    (if set (tp_workers s) \<subseteq> {WBlocked}
     then \<forall>s'. tp_internal s s' \<longrightarrow> WTest \<in> set (tp_workers s') \<or> length (tp_waiting s') < length (tp_waiting s)
     else \<exists>w \<in> set (tp_workers s). w = WTest \<or> (\<exists>t. w = WRun t))"
proof -
  have a: "tp_awake s" "\<not> tp_stop s" "length (tp_waiting s) < tp_max s" using tp_few_awake [OF assms(1,3,2)] by simp_all
  have "WTest \<in> set (tp_workers s') \<or> length (tp_waiting s') < length (tp_waiting s)"
    if z: "set (tp_workers s) \<subseteq> {WBlocked}" and st: "tp_internal s s'" for s'
    using internal_awake [OF st a] asleep_wakes [OF st] z by (auto simp: asleep_def)
  moreover have "\<exists>w \<in> set (tp_workers s). w = WTest \<or> (\<exists>t. w = WRun t)" if n: "\<not> set (tp_workers s) \<subseteq> {WBlocked}"
  proof -
    obtain w where w: "w \<in> set (tp_workers s)" "w \<noteq> WBlocked" "w \<noteq> WExited" using n a(1) unfolding tp_awake_def by blast
    have "w = WTest \<or> (\<exists>t. w = WRun t)" using w(2,3) by (cases w rule: worker_pc.exhaust) simp_all
    then show ?thesis using w(1) by blast
  qed
  ultimately show ?thesis using awake_moves [OF a(1) assms(4) a(2)] by simp
qed

text \<open>A pool with one idle worker to which a task is added.\<close>

definition idle_pool :: tpool where
  "idle_pool = worker_test 0 (ThreadPool_new 1 100000)"

text \<open>Runs of a pool with one worker, for the examples: what the worker and the callers do one after another.\<close>

datatype tp_move = VTest | VDone | VAdd nat | VAddCaller nat | VBlock nat | VRetryBlock

fun tp_do :: "tp_move \<Rightarrow> tpool \<Rightarrow> tpool option" where
  "tp_do VTest s = (if tp_workers s = [WTest] then Some (worker_test 0 s) else None)"
| "tp_do VDone s = (case tp_workers s of [WRun t] \<Rightarrow> Some (worker_done 0 s) | _ \<Rightarrow> None)"
| "tp_do (VAdd t) s =
     (if AddTask_may_push s \<and> WBlocked \<notin> set (tp_workers s) \<and> tp_waiting s = [] then Some (AddTask_push t s) else None)"
| "tp_do (VAddCaller t) s =
     (if AddTask_may_push s \<and> tp_waiting s \<noteq> []
      then Some ((AddTask_push t s)\<lparr>tp_waiting := tl (tp_waiting s), tp_woken := tp_woken s @ [hd (tp_waiting s)]\<rparr>) else None)"
| "tp_do (VBlock t) s = (if AddTask_may_push s then None else Some (s\<lparr>tp_waiting := tp_waiting s @ [t]\<rparr>))"
| "tp_do VRetryBlock s =
     (if tp_woken s \<noteq> [] \<and> \<not> AddTask_may_push s
      then Some (s\<lparr>tp_woken := tl (tp_woken s), tp_waiting := tp_waiting s @ [hd (tp_woken s)]\<rparr>) else None)"

lemma tp_do_step:
  assumes "tp_do m s = Some s'"
  shows "tp_step s s'"
proof (cases m)
  case VTest
  then show ?thesis using assms tp_internal.test [of 0 s] by (auto intro: tp_step.internal split: if_splits)
next
  case VDone
  then show ?thesis using assms tp_internal.finish [of 0 s] by (auto intro: tp_step.internal split: list.splits worker_pc.splits)
next
  case (VAdd t)
  then show ?thesis using assms notify_one.nobody [of "AddTask_push t s"] by (auto intro: tp_step.add simp: AddTask_push_def split: if_splits)
next
  case (VAddCaller t)
  then have "tp_waiting s \<noteq> []" using assms by (auto split: if_splits)
  then show ?thesis
    using VAddCaller assms notify_one.caller [of 0 "AddTask_push t s"]
    by (cases "tp_waiting s") (auto intro: tp_step.add simp: AddTask_push_def split: if_splits)
next
  case (VBlock t)
  then show ?thesis using assms by (auto intro: tp_step.add_block split: if_splits)
next
  case VRetryBlock
  then have "tp_woken s \<noteq> []" using assms by (auto split: if_splits)
  then show ?thesis
    using VRetryBlock assms tp_internal.retry_block [of 0 s]
    by (cases "tp_woken s") (auto intro: tp_step.internal split: if_splits)
qed

fun tp_moves :: "(tpool \<Rightarrow> bool) \<Rightarrow> tp_move list \<Rightarrow> tpool \<Rightarrow> tpool option" where
  "tp_moves P [] s = Some s"
| "tp_moves P (m # ms) s = (case tp_do m s of None \<Rightarrow> None | Some s' \<Rightarrow> if P s' then tp_moves P ms s' else None)"

lemma moves_few:
  "tp_few threads maxq s \<Longrightarrow> tp_moves (\<lambda>s. \<not> tp_stop s \<and> length (tp_waiting s) < maxq) ms s = Some s' \<Longrightarrow> tp_few threads maxq s'"
  by (induction ms arbitrary: s) (auto split: option.splits if_splits dest: tp_do_step intro: tp_few.step)

lemma moves_reach: "tp_reach threads maxq s \<Longrightarrow> tp_moves (\<lambda>_. True) ms s = Some s' \<Longrightarrow> tp_reach threads maxq s'"
  by (induction ms arbitrary: s) (auto split: option.splits if_splits dest: tp_do_step intro: tp_reach.step)

text \<open>A pool with room for two tasks whose worker sleeps although a task is queued: the notification went to a caller.\<close>

definition passed_over :: tpool where
  "passed_over = \<lparr>tp_tasks = [4], tp_stop = False, tp_workers = [WBlocked], tp_max = 2, tp_waiting = [], tp_woken = [3],
     tp_submitted = [0, 1, 2, 4], tp_taken = [0, 1, 2]\<rparr>"

lemma passed_over_few: "tp_few 1 2 passed_over"
proof (rule moves_few [OF tp_few.start])
  show "tp_moves (\<lambda>s. \<not> tp_stop s \<and> length (tp_waiting s) < 2)
      [VAdd 0, VTest, VAdd 1, VAdd 2, VBlock 3, VDone, VTest, VDone, VTest, VDone, VTest, VAddCaller 4] (ThreadPool_new 1 2) = Some passed_over"
    by (simp add: ThreadPool_new_def AddTask_may_push_def AddTask_push_def worker_test_def worker_done_def passed_over_def)
qed

theorem ThreadPool_no_stranded_task_witness: "\<exists>s'. tp_internal passed_over s'"
  using ThreadPool_no_stranded_task [OF _ _ passed_over_few] by (simp add: passed_over_def)

text \<open>
  The condition is needed. With room for one task and one caller waiting, the caller takes the notification of another one, finds the queue
  full again and goes back to sleep: the task stays with the worker asleep, and nothing moves any more.
\<close>

theorem ThreadPool_stranded:
  "\<exists>s. tp_reach 1 1 s \<and> \<not> tp_stop s \<and> tp_tasks s = [3] \<and> tp_workers s = [WBlocked] \<and> (\<forall>s'. \<not> tp_internal s s')"
proof -
  let ?s = "\<lparr>tp_tasks = [3], tp_stop = False, tp_workers = [WBlocked], tp_max = 1, tp_waiting = [2], tp_woken = [],
      tp_submitted = [0, 1, 3], tp_taken = [0, 1]\<rparr>"
  have "tp_reach 1 1 ?s"
  proof (rule moves_reach [OF tp_reach.start])
    show "tp_moves (\<lambda>_. True) [VAdd 0, VTest, VAdd 1, VBlock 2, VDone, VTest, VDone, VTest, VAddCaller 3, VRetryBlock] (ThreadPool_new 1 1) = Some ?s"
      by (simp add: ThreadPool_new_def AddTask_may_push_def AddTask_push_def worker_test_def worker_done_def)
  qed
  moreover have "\<not> tp_internal ?s s'" for s' by (auto elim!: tp_internal.cases)
  ultimately show ?thesis by (intro exI [of _ ?s]) simp
qed

text \<open>
  The destructor does not notify: when all workers are blocked, setting the flag enables no step of the
  pool, so the workers never return and the join waits for ever.
\<close>

theorem ThreadPool_destructor_hangs:
  assumes "set (tp_workers s) = {WBlocked}" and "tp_woken s = []"
  shows "\<not> tp_internal (ThreadPool_stop s) s' \<and> WExited \<notin> set (tp_workers (ThreadPool_stop s))"
proof -
  have "tp_workers s ! i = WBlocked" if "i < length (tp_workers s)" for i
    using assms(1) nth_mem [OF that] by simp
  then have "\<not> tp_internal (ThreadPool_stop s) s'"
    using assms(2) by (auto simp: ThreadPool_stop_def elim!: tp_internal.cases)
  then show ?thesis using assms(1) by (simp add: ThreadPool_stop_def)
qed

theorem ThreadPool_destructor_hangs_witness: "\<forall>s'. \<not> tp_internal (ThreadPool_stop idle_pool) s'"
  using ThreadPool_destructor_hangs [of idle_pool] by (simp add: idle_pool_def worker_test_def ThreadPool_new_def)

end
