(* ===== verification/TcpConn.thy ===== *)
theory TcpConn
  imports Buffer Poller TimerQueue
begin

text \<open>
  A TCP connection (\<^verbatim>\<open>net/tcpconn.h\<close>, \<^verbatim>\<open>net/tcpconn.cc\<close>): the connection's own fields, its channel in the
  poller of its loop, and the loop's timer queue. The answers of the kernel to \<^verbatim>\<open>read\<close>, \<^verbatim>\<open>write\<close> and \<^verbatim>\<open>poll\<close> are
  arguments: lists of answers, after which every further call finds the socket not ready. Every run in
  which a loop of the code ends uses finitely many answers, so nothing is lost by that.

  The user's callbacks are parameters that may change the connection in any way. The bytes that the kernel
  has accepted from the connection are recorded in order.
\<close>

section \<open>State\<close>

datatype conn_state = KInvalid | KHandShakeing | KConnected | KClosed | KFailed

record conn =
  tc_tid :: int
  tc_state :: conn_state
  tc_input :: buffer
  tc_output :: buffer
  tc_readcb :: bool
  tc_statecb :: bool
  tc_channel :: "cptr option"
  tc_timer :: "addr option \<times> int"
  tc_poller :: epoll_poller
  tc_timers :: "callback tqueue"
  tc_wire :: "byte list"

text \<open>Dereferencing the connection's channel.\<close>

definition conn_channel :: "conn \<Rightarrow> (cptr \<times> channel) res" where
  "conn_channel s =
     (case tc_channel s of
        None \<Rightarrow> Inl NullPointer
      | Some c \<Rightarrow> rbind (channel_at (ep_heap (tc_poller s)) c) (\<lambda>ch. Inr (c, ch)))"

definition conn_switch :: "(int \<Rightarrow> cptr \<Rightarrow> epoll_poller \<Rightarrow> epoll_poller res) \<Rightarrow> conn \<Rightarrow> conn res" where
  "conn_switch f s =
     rbind (conn_channel s) (\<lambda>(c, ch).
     rbind (f (tc_tid s) c (tc_poller s)) (\<lambda>p. Inr (s\<lparr>tc_poller := p\<rparr>)))"

section \<open>Sending\<close>

text \<open>An answer to \<^verbatim>\<open>write\<close>: a number of bytes accepted, an interruption, not ready, or another error.\<close>

datatype wres = Wrote nat | WIntr | WAgain | WErr

text \<open>The loop of \<^verbatim>\<open>ISend\<close>: the bytes accepted, whether it stopped because the socket was not ready, and the answers left.\<close>

fun write_loop :: "wres list \<Rightarrow> byte list \<Rightarrow> byte list \<times> bool \<times> wres list" where
  "write_loop ws [] = ([], False, ws)"
| "write_loop [] (b # bs) = ([], True, [])"
| "write_loop (WIntr # ws) (b # bs) = write_loop ws (b # bs)"
| "write_loop (WAgain # ws) (b # bs) = ([], True, ws)"
| "write_loop (WErr # ws) (b # bs) = ([], False, ws)"
| "write_loop (Wrote n # ws) (b # bs) =
     (if n = 0 then ([], False, ws)
      else case write_loop ws (drop n (b # bs)) of (acc, again, ws') \<Rightarrow> (take n (b # bs) @ acc, again, ws'))"

definition TcpConn_ISend :: "wres list \<Rightarrow> byte list \<Rightarrow> conn \<Rightarrow> (nat \<times> conn \<times> wres list) res" where
  "TcpConn_ISend ws buf s =
     (if buf = [] then Inr (0, s, ws)
      else rbind (conn_channel s) (\<lambda>(c, ch).
           case write_loop ws buf of (acc, again, ws') \<Rightarrow>
             let s1 = s\<lparr>tc_wire := tc_wire s @ acc\<rparr> in
             if again \<and> \<not> IsWriting ch
             then rbind (conn_switch Channel_EnableWrite s1) (\<lambda>s2. Inr (length acc, s2, ws'))
             else Inr (length acc, s1, ws')))"

text \<open>The unread bytes of a buffer, as \<^verbatim>\<open>write\<close> reads them.\<close>

definition buffer_bytes :: "buffer \<Rightarrow> byte list res" where
  "buffer_bytes b = rbind (mem_read (buf_mem b) (Buffer_Begin b) (Buffer_GetSize b)) cells_bytes"

definition TcpConn_SendInLoop :: "int \<Rightarrow> wres list \<Rightarrow> byte list \<Rightarrow> conn \<Rightarrow> (conn \<times> wres list) res" where
  "TcpConn_SendInLoop tid ws message s =
     rbind (cxx_assert (tid = tc_tid s)) (\<lambda>_.
     if tc_channel s \<noteq> None then
       rbind (if Buffer_IsEmpty (tc_output s) then TcpConn_ISend ws message s else Inr (0, s, ws)) (\<lambda>(sended, s, ws).
       let rest = drop sended message in
       if rest \<noteq> [] then rbind (Buffer_Append (tc_output s) rest) (\<lambda>b. Inr (s\<lparr>tc_output := b\<rparr>, ws))
       else Inr (s, ws))
     else Inr (s, ws))"

text \<open>\<^verbatim>\<open>Send\<close> of bytes from the loop thread; a message for a connection that is not connected is dropped.\<close>

definition TcpConn_Send :: "int \<Rightarrow> wres list \<Rightarrow> byte list \<Rightarrow> conn \<Rightarrow> (conn \<times> wres list) res" where
  "TcpConn_Send tid ws message s =
     (if tc_state s \<noteq> KConnected then Inr (s, ws) else TcpConn_SendInLoop tid ws message s)"

text \<open>\<^verbatim>\<open>Send\<close> of a string goes through its C string.\<close>

definition TcpConn_Send_string :: "int \<Rightarrow> wres list \<Rightarrow> byte list \<Rightarrow> conn \<Rightarrow> (conn \<times> wres list) res" where
  "TcpConn_Send_string tid ws message s = TcpConn_Send tid ws (cstr message) s"

definition TcpConn_Send_buffer :: "wres list \<Rightarrow> buffer \<Rightarrow> conn \<Rightarrow> (buffer \<times> conn \<times> wres list) res" where
  "TcpConn_Send_buffer ws message s =
     (if tc_channel s \<noteq> None then
        rbind (conn_channel s) (\<lambda>(c, ch).
        if IsWriting ch then
          rbind (Buffer_Absorb (tc_output s) message) (\<lambda>(out, message). Inr (message, s\<lparr>tc_output := out\<rparr>, ws))
        else if Buffer_GetSize message \<noteq> 0 then
          rbind (buffer_bytes message) (\<lambda>bs.
          rbind (TcpConn_ISend ws bs s) (\<lambda>(sended, s, ws).
          let message = Buffer_Consume message (of_nat sended) in
          if Buffer_GetSize message \<noteq> 0 then
            rbind (Buffer_Absorb (tc_output s) message) (\<lambda>(out, message).
            let s = s\<lparr>tc_output := out\<rparr> in
            rbind (conn_channel s) (\<lambda>(c, ch).
            rbind (if IsWriting ch then Inr s else conn_switch Channel_EnableWrite s) (\<lambda>s. Inr (message, s, ws))))
          else Inr (message, s, ws)))
        else Inr (message, s, ws))
      else Inr (message, s, ws))"

text \<open>\<^verbatim>\<open>SendOutput\<close>: the message is the output buffer itself, and absorbing itself does nothing.\<close>

definition TcpConn_SendOutput :: "wres list \<Rightarrow> conn \<Rightarrow> (conn \<times> wres list) res" where
  "TcpConn_SendOutput ws s =
     (if tc_channel s \<noteq> None then
        rbind (conn_channel s) (\<lambda>(c, ch).
        if IsWriting ch then Inr (s\<lparr>tc_output := Buffer_Absorb_self (tc_output s)\<rparr>, ws)
        else if Buffer_GetSize (tc_output s) \<noteq> 0 then
          rbind (buffer_bytes (tc_output s)) (\<lambda>bs.
          rbind (TcpConn_ISend ws bs s) (\<lambda>(sended, s, ws).
          let s = s\<lparr>tc_output := Buffer_Consume (tc_output s) (of_nat sended)\<rparr> in
          if Buffer_GetSize (tc_output s) \<noteq> 0 then
            let s = s\<lparr>tc_output := Buffer_Absorb_self (tc_output s)\<rparr> in
            rbind (conn_channel s) (\<lambda>(c, ch).
            rbind (if IsWriting ch then Inr s else conn_switch Channel_EnableWrite s) (\<lambda>s. Inr (s, ws)))
          else Inr (s, ws)))
        else Inr (s, ws))
      else Inr (s, ws))"

text \<open>\<^verbatim>\<open>SendMsg\<close> only flushes the output buffer.\<close>

definition TcpConn_SendMsg :: "wres list \<Rightarrow> byte list \<Rightarrow> conn \<Rightarrow> (conn \<times> wres list) res" where
  "TcpConn_SendMsg ws msg s = TcpConn_SendOutput ws s"

section \<open>Closing\<close>

definition TcpConn_CleanUp :: "(conn \<Rightarrow> conn res) \<Rightarrow> (conn \<Rightarrow> conn res) \<Rightarrow> conn \<Rightarrow> conn res" where
  "TcpConn_CleanUp readcb statecb s =
     rbind (if tc_readcb s \<and> Buffer_GetSize (tc_input s) \<noteq> 0 then readcb s else Inr s) (\<lambda>s.
     let s = s\<lparr>tc_state := (if tc_state s = KHandShakeing then KFailed else KClosed)\<rparr> in
     rbind (CancelTimerIdInLoop (tc_tid s) (tc_timer s) (tc_timers s)) (\<lambda>q.
     let s = s\<lparr>tc_timers := q\<rparr> in
     rbind (if tc_statecb s then statecb s else Inr s) (\<lambda>s.
     let ch = tc_channel s; s = s\<lparr>tc_readcb := False, tc_statecb := False, tc_channel := None\<rparr> in
     case ch of
       None \<Rightarrow> Inr s
     | Some c \<Rightarrow> rbind (Channel_delete (tc_tid s) c (tc_poller s)) (\<lambda>p. Inr (s\<lparr>tc_poller := p\<rparr>)))))"

text \<open>
  \<open>writable\<close> is whether \<^verbatim>\<open>poll\<close> reported exactly that the socket is writable. The state callback is named
  but not called when the handshake succeeds. The result is the returned error code.
\<close>

definition TcpConn_HandleHandShake :: "(conn \<Rightarrow> conn res) \<Rightarrow> (conn \<Rightarrow> conn res) \<Rightarrow> bool \<Rightarrow> conn \<Rightarrow> (int \<times> conn) res" where
  "TcpConn_HandleHandShake readcb statecb writable s =
     rbind (conn_channel s) (\<lambda>_.
     if writable then
       rbind (conn_switch Channel_EnableRead s) (\<lambda>s. Inr (0, s\<lparr>tc_state := KConnected\<rparr>))
     else rbind (TcpConn_CleanUp readcb statecb (s\<lparr>tc_state := KFailed\<rparr>)) (\<lambda>s. Inr (- 1, s)))"

definition TcpConn_HandleWrite :: "(conn \<Rightarrow> conn res) \<Rightarrow> (conn \<Rightarrow> conn res) \<Rightarrow> bool \<Rightarrow> wres list \<Rightarrow> conn \<Rightarrow> (conn \<times> wres list) res" where
  "TcpConn_HandleWrite readcb statecb writable ws s =
     (if tc_state s = KHandShakeing then
        rbind (TcpConn_HandleHandShake readcb statecb writable s) (\<lambda>(r, s). Inr (s, ws))
      else if tc_state s = KConnected then
        rbind (buffer_bytes (tc_output s)) (\<lambda>bs.
        rbind (TcpConn_ISend ws bs s) (\<lambda>(sended, s, ws).
        let s = s\<lparr>tc_output := Buffer_Consume (tc_output s) (of_nat sended)\<rparr> in
        if Buffer_IsEmpty (tc_output s) then
          rbind (conn_channel s) (\<lambda>(c, ch).
          if IsWriting ch then rbind (conn_switch Channel_DisableWrite s) (\<lambda>s. Inr (s, ws)) else Inr (s, ws))
        else Inr (s, ws)))
      else Inr (s, ws))"

section \<open>Receiving\<close>

text \<open>
  An answer to \<^verbatim>\<open>read\<close>: bytes that are there to be read, an interruption, not ready, the end of the stream or
  an error. A read takes as many of the bytes as fit into the buffer's space.
\<close>

datatype rres = Got "byte list" | RIntr | RAgain | REof | RErr

datatype read_end = EndAgain | EndClose

fun rres_weight :: "rres \<Rightarrow> nat" where
  "rres_weight (Got bs) = Suc (length bs)"
| "rres_weight _ = 1"

function read_loop :: "rres list \<Rightarrow> buffer \<Rightarrow> (buffer \<times> read_end \<times> rres list) res" where
  "read_loop rs b =
     (case Buffer_MakeRoom0 b of
        Inl e \<Rightarrow> Inl e
      | Inr b1 \<Rightarrow>
          (case rs of
             [] \<Rightarrow> Inr (b1, EndAgain, [])
           | RIntr # rs' \<Rightarrow> read_loop rs' b1
           | RAgain # rs' \<Rightarrow> Inr (b1, EndAgain, rs')
           | REof # rs' \<Rightarrow> Inr (b1, EndClose, rs')
           | RErr # rs' \<Rightarrow> Inr (b1, EndClose, rs')
           | Got bs # rs' \<Rightarrow>
               (let n = unat (Buffer_GetSpace b1); now = take n bs in
                if now = [] then Inr (b1, EndClose, rs')
                else case mem_write (buf_mem b1) (Buffer_End b1) (map Some now) of
                       Inl e \<Rightarrow> Inl e
                     | Inr m \<Rightarrow>
                         read_loop (if length bs \<le> n then rs' else Got (drop n bs) # rs')
                           (Buffer_AddSize (b1\<lparr>buf_mem := m\<rparr>) (of_nat (length now))))))"
  by pat_completeness auto
termination
  by (relation "measure (\<lambda>(rs, b). sum_list (map rres_weight rs))") auto

declare read_loop.simps [simp del]

definition TcpConn_HandleRead :: "(conn \<Rightarrow> conn res) \<Rightarrow> (conn \<Rightarrow> conn res) \<Rightarrow> bool \<Rightarrow> rres list \<Rightarrow> conn \<Rightarrow> (conn \<times> rres list) res" where
  "TcpConn_HandleRead readcb statecb writable rs s =
     rbind (if tc_state s = KHandShakeing then TcpConn_HandleHandShake readcb statecb writable s else Inr (0, s)) (\<lambda>(r, s).
     if r \<noteq> 0 then Inr (s, rs)
     else if tc_state s = KConnected then
       rbind (conn_channel s) (\<lambda>(c, ch).
       rbind (if 0 \<le> ch_fd ch then read_loop rs (tc_input s)
              else rbind (Buffer_MakeRoom0 (tc_input s)) (\<lambda>b. Inr (b, EndClose, rs))) (\<lambda>(b, e, rs).
       let s = s\<lparr>tc_input := b\<rparr> in
       case e of
         EndAgain \<Rightarrow>
           rbind (if tc_readcb s \<and> Buffer_GetSize (tc_input s) \<noteq> 0 then readcb s else Inr s) (\<lambda>s. Inr (s, rs))
       | EndClose \<Rightarrow> rbind (TcpConn_CleanUp readcb statecb s) (\<lambda>s. Inr (s, rs))))
     else Inr (s, rs))"

section \<open>Attaching, closing and shutting down\<close>

text \<open>\<open>c\<close> is the address of the new channel and \<open>ids\<close> the counter of channel numbers.\<close>

definition TcpConn_Attach :: "cptr \<Rightarrow> int \<Rightarrow> int \<Rightarrow> conn \<Rightarrow> conn res" where
  "TcpConn_Attach c fd ids s =
     (if ep_heap (tc_poller s) c \<noteq> None then Inl BadAlloc
      else
        let ch = Channel_SetCallback WriteCallback (Channel_SetCallback ReadCallback
                   (Channel_new fd (kWriteEvent OR kReadEvent) ids));
            p = (tc_poller s)\<lparr>ep_heap := (ep_heap (tc_poller s))(c \<mapsto> ch)\<rparr>
        in rbind (EpollPoller_AddChannel (tc_tid s) c p) (\<lambda>p.
           Inr (s\<lparr>tc_state := KHandShakeing, tc_channel := Some c, tc_poller := p\<rparr>)))"

text \<open>\<^verbatim>\<open>Close\<close> in the loop thread closes the channel and keeps it.\<close>

definition TcpConn_Close :: "conn \<Rightarrow> conn res" where
  "TcpConn_Close s =
     (case tc_channel s of
        None \<Rightarrow> Inr s
      | Some c \<Rightarrow> rbind (Channel_Close (tc_tid s) c (tc_poller s)) (\<lambda>p. Inr (s\<lparr>tc_poller := p\<rparr>)))"

definition TcpConn_Shutdown :: "conn \<Rightarrow> conn" where
  "TcpConn_Shutdown s = (if tc_state s = KConnected then s\<lparr>tc_state := KClosed\<rparr> else s)"

section \<open>Invariant\<close>

text \<open>
  The poller is well formed, the channel is alive as long as the connection has one, and the output buffer
  holds bytes that were written to it.
\<close>

definition conn_ok :: "conn \<Rightarrow> bool" where
  "conn_ok s \<longleftrightarrow> ep_wf (tc_poller s) \<and> ep_tid (tc_poller s) = tc_tid s \<and>
     (\<forall>c. tc_channel s = Some c \<longrightarrow> ep_heap (tc_poller s) c \<noteq> None) \<and>
     buffer_wf (tc_output s) \<and> None \<notin> set (content (tc_output s))"

definition out :: "conn \<Rightarrow> byte list" where
  "out s = map the (content (tc_output s))"

definition writing :: "conn \<Rightarrow> bool" where
  "writing s \<longleftrightarrow> (case conn_channel s of Inl _ \<Rightarrow> False | Inr (c, ch) \<Rightarrow> IsWriting ch)"

lemma conn_channelE:
  assumes "conn_ok s" and "tc_channel s \<noteq> None"
  obtains c ch where "tc_channel s = Some c" "ep_heap (tc_poller s) c = Some ch" "conn_channel s = Inr (c, ch)"
    "writing s \<longleftrightarrow> IsWriting ch"
  using assms that by (fastforce simp: conn_ok_def conn_channel_def writing_def)

lemma map_Some_the: "None \<notin> set cs \<Longrightarrow> map Some (map the cs) = cs"
  by (induction cs) auto

lemma conn_ok_content: "conn_ok s \<Longrightarrow> content (tc_output s) = map Some (out s)"
  by (simp add: conn_ok_def out_def map_Some_the del: map_map)

lemma buffer_bytes_ok: "buffer_wf b \<Longrightarrow> content b = map Some bs \<Longrightarrow> buffer_bytes b = Inr bs"
  by (simp add: buffer_bytes_def mem_read_content)

lemma content_length_less: "buffer_wf b \<Longrightarrow> length (content b) < 2 ^ 64"
  using length_content [of b] unsigned_less [of "Buffer_GetSize b", where 'a = nat] by simp

text \<open>Answers without a write error.\<close>

definition no_error :: "wres list \<Rightarrow> bool" where
  "no_error ws \<longleftrightarrow> WErr \<notin> set ws \<and> Wrote 0 \<notin> set ws"

lemma write_loop_split:
  assumes "write_loop ws buf = (acc, again, ws')"
  shows "\<exists>rest. buf = acc @ rest \<and> (no_error ws \<and> rest \<noteq> [] \<longrightarrow> again) \<and> set ws' \<subseteq> set ws"
  using assms
proof (induction ws buf arbitrary: acc again ws' rule: write_loop.induct)
  case (6 n ws b bs)
  show ?case
  proof (cases "n = 0")
    case True
    then show ?thesis using 6 by (auto simp: no_error_def)
  next
    case False
    obtain acc1 again1 ws1 where w: "write_loop ws (drop n (b # bs)) = (acc1, again1, ws1)"
      by (cases "write_loop ws (drop n (b # bs))")
    then have eq: "acc = take n (b # bs) @ acc1" "again = again1" "ws' = ws1" using 6(2) False by auto
    obtain rest where "drop n (b # bs) = acc1 @ rest" "no_error ws \<and> rest \<noteq> [] \<longrightarrow> again1" "set ws1 \<subseteq> set ws"
      using 6(1) [OF False w] by blast
    then show ?thesis
      using eq append_take_drop_id [of n "b # bs"] by (intro exI [of _ rest]) (auto simp: no_error_def)
  qed
qed (auto simp: no_error_def)

lemma no_error_subset: "no_error ws \<Longrightarrow> set ws' \<subseteq> set ws \<Longrightarrow> no_error ws'"
  by (auto simp: no_error_def)

lemma conn_ok_poller:
  assumes "conn_ok s" and "ep_wf p" and "ep_tid p = tc_tid s"
    and "\<forall>c. tc_channel s = Some c \<longrightarrow> ep_heap p c \<noteq> None"
  shows "conn_ok (s\<lparr>tc_poller := p\<rparr>)"
  using assms by (simp add: conn_ok_def)

lemma conn_switch_ok:
  assumes ok: "conn_ok s" and ch: "tc_channel s \<noteq> None" and f: "f \<in> set mask_switches"
  shows "\<exists>p c ch. conn_switch (Channel_switch f) s = Inr (s\<lparr>tc_poller := p\<rparr>) \<and> conn_ok (s\<lparr>tc_poller := p\<rparr>) \<and>
    tc_channel s = Some c \<and> ep_heap (tc_poller s) c = Some ch \<and> ep_heap p = (ep_heap (tc_poller s))(c \<mapsto> f ch)"
proof -
  obtain c ch where c: "tc_channel s = Some c" "ep_heap (tc_poller s) c = Some ch" "conn_channel s = Inr (c, ch)"
    using conn_channelE [OF ok ch] by metis
  obtain p where p: "Channel_switch f (tc_tid s) c (tc_poller s) = Inr p" "ep_wf p" "ep_tid p = tc_tid s"
    "ep_heap p = (ep_heap (tc_poller s))(c \<mapsto> f ch)"
    using Channel_switch_ok [of "tc_poller s" "tc_tid s" c ch f] ok c mask_switch_fd [OF f] by (auto simp: conn_ok_def)
  have "conn_switch (Channel_switch f) s = Inr (s\<lparr>tc_poller := p\<rparr>)"
    using c p by (simp add: conn_switch_def)
  then show ?thesis using conn_ok_poller [OF ok p(2,3)] p(4) c by auto
qed

lemma writing_after:
  "tc_channel s = Some c \<Longrightarrow> ep_heap (tc_poller s) c = Some ch \<Longrightarrow> writing s = IsWriting ch"
  by (simp add: writing_def conn_channel_def)

lemma writing_cong:
  "tc_channel s = tc_channel s' \<Longrightarrow> tc_poller s = tc_poller s' \<Longrightarrow> writing s = writing s'"
  by (cases "tc_channel s'") (simp_all add: writing_def conn_channel_def)

text \<open>
  What a call of \<open>ISend\<close> does: a prefix goes to the wire; unless a write fails, a rest means that the
  channel now waits for output.
\<close>

definition sent :: "conn \<Rightarrow> conn \<Rightarrow> byte list \<Rightarrow> bool" where
  "sent s s' acc \<longleftrightarrow> conn_ok s' \<and> tc_wire s' = tc_wire s @ acc \<and> tc_output s' = tc_output s \<and>
     tc_channel s' = tc_channel s \<and> tc_state s' = tc_state s \<and> tc_tid s' = tc_tid s \<and> (writing s \<longrightarrow> writing s')"

lemma ISend_ok:
  assumes ok: "conn_ok s" and ch: "tc_channel s \<noteq> None"
  shows "\<exists>acc rest s' ws'. TcpConn_ISend ws buf s = Inr (length acc, s', ws') \<and> buf = acc @ rest \<and> sent s s' acc \<and>
    (no_error ws \<longrightarrow> no_error ws' \<and> (rest \<noteq> [] \<longrightarrow> writing s'))"
proof (cases "buf = []")
  case True
  then show ?thesis using ok by (auto simp: TcpConn_ISend_def sent_def)
next
  case False
  obtain acc again ws' where w: "write_loop ws buf = (acc, again, ws')" by (cases "write_loop ws buf")
  obtain rest where rest: "buf = acc @ rest" "no_error ws \<and> rest \<noteq> [] \<longrightarrow> again" "set ws' \<subseteq> set ws"
    using write_loop_split [OF w] by blast
  obtain c chn where c: "tc_channel s = Some c" "ep_heap (tc_poller s) c = Some chn" "conn_channel s = Inr (c, chn)"
    "writing s \<longleftrightarrow> IsWriting chn"
    using conn_channelE [OF ok ch] by metis
  let ?s1 = "s\<lparr>tc_wire := tc_wire s @ acc\<rparr>"
  have ok1: "conn_ok ?s1" using ok by (simp add: conn_ok_def)
  show ?thesis
  proof (cases "again \<and> \<not> IsWriting chn")
    case True
    obtain p d dh where p: "conn_switch (Channel_switch enable_write) ?s1 = Inr (?s1\<lparr>tc_poller := p\<rparr>)"
      "conn_ok (?s1\<lparr>tc_poller := p\<rparr>)" "tc_channel ?s1 = Some d" "ep_heap (tc_poller ?s1) d = Some dh"
      "ep_heap p = (ep_heap (tc_poller ?s1))(d \<mapsto> enable_write dh)"
      using conn_switch_ok [OF ok1, of enable_write] ch by (auto simp: mask_switches_def)
    have "writing (?s1\<lparr>tc_poller := p\<rparr>)"
      using writing_after [of "?s1\<lparr>tc_poller := p\<rparr>" d "enable_write dh"] p(3,5) by simp
    moreover have "TcpConn_ISend ws buf s = Inr (length acc, ?s1\<lparr>tc_poller := p\<rparr>, ws')"
      using False c(3) w True p(1) by (simp add: TcpConn_ISend_def Channel_EnableWrite_def Let_def)
    ultimately show ?thesis
      using rest p(2) no_error_subset by (auto simp: sent_def)
  next
    case no: False
    have "writing ?s1 = writing s" by (rule writing_cong) simp_all
    moreover have "TcpConn_ISend ws buf s = Inr (length acc, ?s1, ws')"
      using False c(3) w no by (auto simp: TcpConn_ISend_def Let_def)
    ultimately show ?thesis
      using rest ok1 no c(4) no_error_subset by (fastforce simp: sent_def)
  qed
qed

lemma sent_out: "sent s s' acc \<Longrightarrow> out s' = out s"
  by (simp add: sent_def out_def)

text \<open>The effect of one send on the stream, when it returns.\<close>

definition streams :: "conn \<Rightarrow> conn \<Rightarrow> byte list \<Rightarrow> bool" where
  "streams s s' message \<longleftrightarrow> conn_ok s' \<and> tc_wire s' @ out s' = tc_wire s @ out s @ message \<and>
     tc_channel s' = tc_channel s \<and> tc_state s' = tc_state s \<and> tc_tid s' = tc_tid s"

text \<open>While the connection works, bytes wait in the output buffer only if the channel waits for output.\<close>

definition flowing :: "conn \<Rightarrow> bool" where
  "flowing s \<longleftrightarrow> (out s \<noteq> [] \<longrightarrow> writing s)"

lemma conn_ok_output:
  assumes "conn_ok s" and "buffer_wf b" and "content b = map Some bs"
  shows "conn_ok (s\<lparr>tc_output := b\<rparr>) \<and> out (s\<lparr>tc_output := b\<rparr>) = bs"
proof -
  have "None \<notin> set (map Some bs)" by auto
  then show ?thesis using assms by (simp add: conn_ok_def out_def comp_def)
qed

lemma writing_output [simp]: "writing (s\<lparr>tc_output := b\<rparr>) = writing s"
  by (rule writing_cong) simp_all

lemma IsEmpty_out: "conn_ok s \<Longrightarrow> Buffer_IsEmpty (tc_output s) \<longleftrightarrow> out s = []"
  by (simp add: conn_ok_def IsEmpty_iff out_def)

text \<open>A send hands a prefix to the kernel and appends the rest to the output buffer.\<close>

lemma SendInLoop_split:
  assumes ok: "conn_ok s" and ch: "tc_channel s \<noteq> None" and tid: "tid = tc_tid s"
  shows "\<exists>acc rest s1 ws'. message = acc @ rest \<and> sent s s1 acc \<and> (acc = [] \<or> out s = []) \<and>
    (no_error ws \<longrightarrow> no_error ws' \<and> (out s = [] \<and> rest \<noteq> [] \<longrightarrow> writing s1)) \<and>
    TcpConn_SendInLoop tid ws message s =
      (if rest = [] then Inr (s1, ws') else rbind (Buffer_Append (tc_output s) rest) (\<lambda>b. Inr (s1\<lparr>tc_output := b\<rparr>, ws')))"
proof -
  obtain acc rest s1 ws' where first: "(if Buffer_IsEmpty (tc_output s) then TcpConn_ISend ws message s else Inr (0, s, ws)) =
      Inr (length acc, s1, ws')" and split: "message = acc @ rest" and s1: "sent s s1 acc"
    and e: "out s = [] \<or> acc = []"
    and w: "no_error ws \<longrightarrow> no_error ws' \<and> (out s = [] \<and> rest \<noteq> [] \<longrightarrow> writing s1)"
  proof (cases "Buffer_IsEmpty (tc_output s)")
    case True
    then show ?thesis using ISend_ok [OF ok ch, of ws message] that IsEmpty_out [OF ok] by fastforce
  next
    case False
    then show ?thesis using that [of "[]" s ws message] ok IsEmpty_out [OF ok] by (simp add: sent_def)
  qed
  have "TcpConn_SendInLoop tid ws message s =
      (if rest = [] then Inr (s1, ws') else rbind (Buffer_Append (tc_output s) rest) (\<lambda>b. Inr (s1\<lparr>tc_output := b\<rparr>, ws')))"
    unfolding TcpConn_SendInLoop_def first using tid ch split s1 by (simp add: Let_def sent_def)
  then show ?thesis using split s1 e w by blast
qed

text \<open>Appending the rest continues the stream.\<close>

lemma append_streams:
  assumes ok: "conn_ok s" and s1: "sent s s1 acc" and e: "acc = [] \<or> out s = []" and len: "length rest < 2 ^ 64"
    and b: "Buffer_Append (tc_output s) rest = Inr b"
  shows "streams s (s1\<lparr>tc_output := b\<rparr>) (acc @ rest) \<and> out (s1\<lparr>tc_output := b\<rparr>) = out s @ rest"
proof -
  have wfo: "buffer_wf (tc_output s)" using ok by (simp add: conn_ok_def)
  have "buffer_wf b" "content b = map Some (out s @ rest)"
    using Append_Inr [OF wfo len b] conn_ok_content [OF ok] by simp_all
  from conn_ok_output [OF _ this, of s1]
  have "conn_ok (s1\<lparr>tc_output := b\<rparr>)" "out (s1\<lparr>tc_output := b\<rparr>) = out s @ rest"
    using s1 by (simp_all add: sent_def)
  then show ?thesis using s1 e by (auto simp: streams_def sent_def)
qed

lemma sent_streams: "sent s s1 acc \<Longrightarrow> acc = [] \<or> out s = [] \<Longrightarrow> streams s s1 acc"
  using sent_out [of s s1 acc] by (auto simp: streams_def sent_def)

lemma SendInLoop_Inr:
  assumes ok: "conn_ok s" and ch: "tc_channel s \<noteq> None" and tid: "tid = tc_tid s" and len: "length message < 2 ^ 64"
    and r: "TcpConn_SendInLoop tid ws message s = Inr (s', ws')"
  shows "streams s s' message \<and> (no_error ws \<and> flowing s \<longrightarrow> no_error ws' \<and> flowing s')"
proof -
  obtain acc rest s1 ws1 where a: "message = acc @ rest" "sent s s1 acc" "acc = [] \<or> out s = []"
    "no_error ws \<longrightarrow> no_error ws1 \<and> (out s = [] \<and> rest \<noteq> [] \<longrightarrow> writing s1)"
    "TcpConn_SendInLoop tid ws message s =
      (if rest = [] then Inr (s1, ws1) else rbind (Buffer_Append (tc_output s) rest) (\<lambda>b. Inr (s1\<lparr>tc_output := b\<rparr>, ws1)))"
    using SendInLoop_split [OF ok ch tid, of message ws] by blast
  have w: "writing s \<Longrightarrow> writing s1" using a(2) by (simp add: sent_def)
  show ?thesis
  proof (cases "rest = []")
    case True
    then have eq: "s' = s1" "ws' = ws1" using r a(5) by simp_all
    have "streams s s1 message" using sent_streams [OF a(2,3)] True a(1) by simp
    moreover have "flowing s \<Longrightarrow> flowing s1" using w sent_out [OF a(2)] by (simp add: flowing_def)
    ultimately show ?thesis using eq a(4) by blast
  next
    case False
    then have "rbind (Buffer_Append (tc_output s) rest) (\<lambda>b. Inr (s1\<lparr>tc_output := b\<rparr>, ws1)) = Inr (s', ws')"
      using r a(5) by (simp only: if_False)
    then obtain b where b: "Buffer_Append (tc_output s) rest = Inr b" and eq: "s' = s1\<lparr>tc_output := b\<rparr>" "ws' = ws1"
      by (auto simp: rbind_Inr_iff)
    have "length rest < 2 ^ 64" using len a(1) by simp
    note st = append_streams [OF ok a(2,3) this b]
    have "no_error ws \<Longrightarrow> flowing s \<Longrightarrow> writing s1" using a(4) w False by (cases "out s = []") (auto simp: flowing_def)
    then show ?thesis using st a(1,4) eq by (auto simp: flowing_def)
  qed
qed

text \<open>The only way a send fails is the buffer's missing move.\<close>

lemma SendInLoop_total:
  assumes ok: "conn_ok s" and ch: "tc_channel s \<noteq> None" and tid: "tid = tc_tid s"
    and small: "buffer_small (tc_output s) (length message)"
  shows "(\<exists>s' ws'. TcpConn_SendInLoop tid ws message s = Inr (s', ws')) \<or>
    (TcpConn_SendInLoop tid ws message s = Inl OutOfBounds \<and> (\<exists>n \<le> length message. needs_move (tc_output s) n))"
proof -
  obtain acc rest s1 ws1 where a: "message = acc @ rest" "TcpConn_SendInLoop tid ws message s =
      (if rest = [] then Inr (s1, ws1) else rbind (Buffer_Append (tc_output s) rest) (\<lambda>b. Inr (s1\<lparr>tc_output := b\<rparr>, ws1)))"
    using SendInLoop_split [OF ok ch tid, of message ws] by blast
  have wfo: "buffer_wf (tc_output s)" using ok by (simp add: conn_ok_def)
  have sm: "buffer_small (tc_output s) (length rest)" using small a(1) by (simp add: buffer_small_def)
  show ?thesis
    using a Append_room [OF wfo sm] Append_move [OF wfo sm]
    by (cases "needs_move (tc_output s) (length rest)") (auto intro!: exI [of _ "length rest"])
qed

lemma HandleWrite_ok:
  assumes ok: "conn_ok s" and ch: "tc_channel s \<noteq> None" and st: "tc_state s = KConnected"
  shows "\<exists>s' ws'. TcpConn_HandleWrite rcb scb writable ws s = Inr (s', ws') \<and> streams s s' [] \<and>
    (no_error ws \<and> flowing s \<longrightarrow> no_error ws' \<and> flowing s')"
proof -
  have wfo: "buffer_wf (tc_output s)" using ok by (simp add: conn_ok_def)
  note co = conn_ok_content [OF ok]
  have bytes: "buffer_bytes (tc_output s) = Inr (out s)" using buffer_bytes_ok [OF wfo co] .
  obtain acc rest s1 ws' where send: "TcpConn_ISend ws (out s) s = Inr (length acc, s1, ws')" "out s = acc @ rest" "sent s s1 acc"
    "no_error ws \<longrightarrow> no_error ws' \<and> (rest \<noteq> [] \<longrightarrow> writing s1)"
    using ISend_ok [OF ok ch, of ws "out s"] by blast
  have ok1: "conn_ok s1" and frame: "tc_output s1 = tc_output s" "tc_channel s1 = tc_channel s" "tc_state s1 = tc_state s"
    "tc_tid s1 = tc_tid s" "tc_wire s1 = tc_wire s @ acc"
    using send(3) by (simp_all add: sent_def)
  have len: "length (out s) < 2 ^ 64" using content_length_less [OF wfo] co by simp
  have n: "unat (of_nat (length acc) :: size_t) = length acc"
    using len send(2) by (intro unat_of_nat_nowrap) simp
  define b where "b = Buffer_Consume (tc_output s) (of_nat (length acc))"
  have cb: "buffer_wf b" "content b = map Some rest"
    using Consume_ok [OF wfo, of "of_nat (length acc)"] n co send(2) by (simp_all add: b_def)
  let ?s2 = "s1\<lparr>tc_output := b\<rparr>"
  have o2: "conn_ok ?s2" "out ?s2 = rest" using conn_ok_output [OF ok1 cb] by simp_all
  have str: "streams s ?s2 []" using o2 frame send(2) by (simp add: streams_def)
  have ch2: "tc_channel ?s2 \<noteq> None" using ch frame by simp
  obtain c chn where c: "conn_channel ?s2 = Inr (c, chn)" "writing ?s2 \<longleftrightarrow> IsWriting chn"
    using conn_channelE [OF o2(1) ch2] by metis
  have run: "TcpConn_HandleWrite rcb scb writable ws s =
      (if rest = [] \<and> IsWriting chn then rbind (conn_switch Channel_DisableWrite ?s2) (\<lambda>s. Inr (s, ws')) else Inr (?s2, ws'))"
    using st bytes send(1) c(1) IsEmpty_out [OF o2(1)] o2(2) frame(1)
    by (simp add: TcpConn_HandleWrite_def Let_def b_def [symmetric])
  show ?thesis
  proof (cases "rest = [] \<and> IsWriting chn")
    case True
    obtain p where p: "conn_switch (Channel_switch disable_write) ?s2 = Inr (?s2\<lparr>tc_poller := p\<rparr>)" "conn_ok (?s2\<lparr>tc_poller := p\<rparr>)"
      using conn_switch_ok [OF o2(1) ch2, of disable_write] by (auto simp: mask_switches_def)
    have "streams s (?s2\<lparr>tc_poller := p\<rparr>) []" "flowing (?s2\<lparr>tc_poller := p\<rparr>)"
      using str p(2) True o2(2) by (simp_all add: streams_def out_def flowing_def)
    then show ?thesis using run True p(1) send(4) by (auto simp: Channel_DisableWrite_def)
  next
    case False
    then have "TcpConn_HandleWrite rcb scb writable ws s = Inr (?s2, ws')" unfolding run by (rule if_not_P)
    then show ?thesis using str send(4) o2(2) by (auto simp: flowing_def)
  qed
qed

lemma streams_flowing:
  assumes "streams s s1 m1" and "streams s1 s2 m2"
  shows "streams s s2 (m1 @ m2)"
proof -
  have "tc_wire s2 @ out s2 = (tc_wire s1 @ out s1) @ m2" using assms(2) by (simp add: streams_def)
  then have "tc_wire s2 @ out s2 = tc_wire s @ out s @ m1 @ m2" using assms(1) by (simp add: streams_def)
  then show ?thesis using assms by (simp add: streams_def)
qed

lemma GetSize_message: "buffer_wf b \<Longrightarrow> content b = map Some bs \<Longrightarrow> Buffer_GetSize b = 0 \<longleftrightarrow> bs = []"
  by (simp add: GetSize_eq_0_iff)

text \<open>Absorbing a message into the output buffer continues the stream.\<close>

lemma absorb_streams:
  assumes ok: "conn_ok s" and m: "buffer_wf m" "content m = map Some bs" and a: "Buffer_Absorb (tc_output s) m = Inr (b, m')"
  shows "streams s (s\<lparr>tc_output := b\<rparr>) bs \<and> content m' = []"
proof -
  have wfo: "buffer_wf (tc_output s)" using ok by (simp add: conn_ok_def)
  have b: "buffer_wf b" "content b = map Some (out s @ bs)" and "content m' = []"
    using Absorb_Inr [OF wfo m a] conn_ok_content [OF ok] by simp_all
  then show ?thesis using conn_ok_output [OF ok b] by (simp add: streams_def)
qed

text \<open>A buffer is sent at once while the channel does not wait for output; what the socket did not take becomes the output.\<close>

lemma absorb_idle:
  assumes "conn_ok s" and "out s = []"
  shows "\<exists>b m'. Buffer_Absorb (tc_output s) m = Inr (b, m')"
  using assms by (auto simp: Buffer_Absorb_def conn_ok_def GetSize_eq_0_iff out_def)

lemma Send_buffer_rest:
  assumes ok: "conn_ok s" and out0: "out s = []" and m: "buffer_wf m" "content m = map Some rest" and w: "rest \<noteq> [] \<longrightarrow> writing s"
  shows "\<exists>m' s'. (if Buffer_GetSize m \<noteq> 0 then
      rbind (Buffer_Absorb (tc_output s) m) (\<lambda>(out, message).
      let s = s\<lparr>tc_output := out\<rparr> in
      rbind (conn_channel s) (\<lambda>(c, ch).
      rbind (if IsWriting ch then Inr s else conn_switch Channel_EnableWrite s) (\<lambda>s. Inr (message, s, ws))))
    else Inr (m, s, ws)) = Inr (m', s', ws) \<and> streams s s' rest \<and> flowing s' \<and> content m' = []"
proof (cases "rest = []")
  case True
  then show ?thesis using m out0 ok GetSize_message [OF m] by (auto simp: streams_def flowing_def)
next
  case False
  obtain b m' where b: "Buffer_Absorb (tc_output s) m = Inr (b, m')" using absorb_idle [OF ok out0] by blast
  have "writing (s\<lparr>tc_output := b\<rparr>)" using False w by simp
  moreover then obtain c ch where "conn_channel (s\<lparr>tc_output := b\<rparr>) = Inr (c, ch)" "IsWriting ch"
    by (auto simp: writing_def split: sum.splits)
  ultimately show ?thesis
    using False GetSize_message [OF m] b absorb_streams [OF ok m b]
    by (intro exI [of _ m'] exI [of _ "s\<lparr>tc_output := b\<rparr>"]) (simp add: flowing_def Let_def)
qed

lemma Send_buffer_idle:
  assumes ok: "conn_ok s" and ch: "tc_channel s \<noteq> None" and fl: "flowing s" and ne: "no_error ws"
    and m: "buffer_wf m" "content m = map Some bs" and nw: "\<not> writing s"
  shows "\<exists>m' s' ws'. TcpConn_Send_buffer ws m s = Inr (m', s', ws') \<and> streams s s' bs \<and> flowing s' \<and> no_error ws' \<and> content m' = []"
proof -
  obtain c chn where c: "conn_channel s = Inr (c, chn)" "\<not> IsWriting chn" using conn_channelE [OF ok ch] nw by metis
  have out0: "out s = []" using fl nw by (simp add: flowing_def)
  obtain acc rest s1 ws1 where send: "TcpConn_ISend ws bs s = Inr (length acc, s1, ws1)" "bs = acc @ rest" "sent s s1 acc"
    "no_error ws1" "rest \<noteq> [] \<longrightarrow> writing s1"
    using ISend_ok [OF ok ch, of ws bs] ne by blast
  let ?m = "Buffer_Consume m (of_nat (length acc))"
  have n: "unat (of_nat (length acc) :: size_t) = length acc"
    using content_length_less [OF m(1)] m(2) send(2) by (intro unat_of_nat_nowrap) simp
  have m1: "buffer_wf ?m" "content ?m = map Some rest"
    using Consume_ok [OF m(1), of "of_nat (length acc)"] n m(2) send(2) by simp_all
  have s1: "conn_ok s1" "out s1 = []" "streams s s1 acc"
    using send(3) out0 sent_out [OF send(3)] sent_streams [OF send(3)] by (auto simp: sent_def)
  show ?thesis
  proof (cases "bs = []")
    case True
    then show ?thesis using ch c GetSize_message [OF m] m ok fl ne by (simp add: TcpConn_Send_buffer_def streams_def)
  next
    case False
    obtain m' s' where r: "TcpConn_Send_buffer ws m s = Inr (m', s', ws1)" "streams s1 s' rest" "flowing s'" "content m' = []"
      using Send_buffer_rest [OF s1(1,2) m1 send(5), of ws1] ch c False GetSize_message [OF m] buffer_bytes_ok [OF m] send(1)
      by (auto simp: TcpConn_Send_buffer_def)
    then show ?thesis using streams_flowing [OF s1(3) r(2)] send(2,4) by simp
  qed
qed

lemma Send_buffer_waiting:
  assumes "conn_ok s" and "tc_channel s \<noteq> None" and "writing s"
  shows "TcpConn_Send_buffer ws m s =
    rbind (Buffer_Absorb (tc_output s) m) (\<lambda>(b, m'). Inr (m', s\<lparr>tc_output := b\<rparr>, ws))"
proof -
  obtain c ch where "conn_channel s = Inr (c, ch)" "IsWriting ch" using conn_channelE [OF assms(1,2)] assms(3) by metis
  then show ?thesis using assms(2) by (simp add: TcpConn_Send_buffer_def)
qed

lemma Send_buffer_Inr:
  assumes ok: "conn_ok s" and ch: "tc_channel s \<noteq> None" and fl: "flowing s" and ne: "no_error ws"
    and m: "buffer_wf m" "content m = map Some bs"
    and r: "TcpConn_Send_buffer ws m s = Inr (m', s', ws')"
  shows "streams s s' bs \<and> flowing s' \<and> no_error ws' \<and> content m' = []"
proof (cases "writing s")
  case True
  then obtain b where b: "Buffer_Absorb (tc_output s) m = Inr (b, m')" "s' = s\<lparr>tc_output := b\<rparr>" "ws' = ws"
    using r Send_buffer_waiting [OF ok ch True] by (auto simp: rbind_Inr_iff)
  then show ?thesis using True absorb_streams [OF ok m b(1)] ne by (simp add: flowing_def)
next
  case False
  then show ?thesis using Send_buffer_idle [OF ok ch fl ne m False] r by auto
qed

section \<open>Receiving\<close>

text \<open>The bytes that are there to be read.\<close>

fun avail :: "rres list \<Rightarrow> byte list" where
  "avail [] = []"
| "avail (Got bs # rs) = bs @ avail rs"
| "avail (_ # rs) = avail rs"

lemma MakeRoom0_total:
  assumes "buffer_wf b"
  shows "\<exists>b'. Buffer_MakeRoom0 b = Inr b' \<and> buffer_wf b' \<and> content b' = content b"
proof -
  have "unat (Buffer_GetSize b) + unat (0 :: size_t) < 2 ^ 64"
    using unsigned_less [of "Buffer_GetSize b", where 'a = nat] by simp
  then obtain b1 where "Buffer_Expand b 0 = Inr b1" using Expand_ok [OF assms] by blast
  then have "\<exists>b'. Buffer_MakeRoom0 b = Inr b'" by (simp add: Buffer_MakeRoom0_def)
  then show ?thesis using MakeRoom0_Inr [OF assms] by blast
qed

text \<open>Storing bytes behind the content, within the free space.\<close>

lemma store_ok:
  assumes wf: "buffer_wf b" and n: "length bs \<le> unat (Buffer_GetSpace b)" and ne: "bs \<noteq> []"
  shows "\<exists>m. mem_write (buf_mem b) (Buffer_End b) (map Some bs) = Inr m \<and>
    buffer_wf (Buffer_AddSize (b\<lparr>buf_mem := m\<rparr>) (of_nat (length bs))) \<and>
    content (Buffer_AddSize (b\<lparr>buf_mem := m\<rparr>) (of_nat (length bs))) = content b @ map Some bs"
proof -
  have le: "unat (buf_b b) \<le> unat (buf_e b)" "unat (buf_e b) \<le> unat (buf_cap b)"
    "length (mem_cells (buf_mem b)) = unat (buf_cap b)"
    using wf by (auto simp: buffer_wf_def)
  have fit: "unat (buf_e b) + length bs \<le> unat (buf_cap b)"
    using n le unat_GetSpace [OF wf] by linarith
  have "0 < length bs" using ne by simp
  then have "mem_cells (buf_mem b) \<noteq> []" using fit le(3) by auto
  then obtain cs where cs: "buf_mem b = Some cs" by (cases "buf_mem b") auto
  have len: "length cs = unat (buf_cap b)" using le(3) cs by simp
  let ?m = "Some (list_splice cs (unat (buf_e b)) (map Some bs))"
  let ?b = "Buffer_AddSize (b\<lparr>buf_mem := ?m\<rparr>) (of_nat (length bs))"
  have "length bs < 2 ^ 64" using fit unsigned_less [of "buf_cap b", where 'a = nat] by simp
  then have "buffer_wf ?b \<and> content ?b = content b @ map Some bs"
    using content_append_at_end [OF wf cs, of "map Some bs" ?b] fit len by (simp add: Buffer_AddSize_def)
  moreover have "mem_write (buf_mem b) (Buffer_End b) (map Some bs) = Inr ?m"
    using ne cs fit len by (simp add: mem_write_def Buffer_End_def)
  ultimately show ?thesis by blast
qed

text \<open>What the read loop makes of the answers: it keeps the buffer well formed and appends a prefix of the bytes to it.\<close>

definition reads :: "rres list \<Rightarrow> buffer \<Rightarrow> (buffer \<times> read_end \<times> rres list) res \<Rightarrow> bool" where
  "reads rs b r \<longleftrightarrow> (\<exists>b' e rs' bytes lost. r = Inr (b', e, rs') \<and> buffer_wf b' \<and> content b' = content b @ map Some bytes \<and>
     avail rs = bytes @ lost \<and> (e = EndAgain \<longrightarrow> lost = avail rs'))"

lemma reads_close: "buffer_wf b' \<Longrightarrow> content b' = content b \<Longrightarrow> reads rs b (Inr (b', EndClose, rs'))"
  by (simp add: reads_def)

lemma reads_again: "buffer_wf b' \<Longrightarrow> content b' = content b \<Longrightarrow> avail rs = avail rs' \<Longrightarrow> reads rs b (Inr (b', EndAgain, rs'))"
  by (simp add: reads_def)

lemma reads_more:
  assumes "reads rs' b' r" and "content b' = content b @ map Some bs" and "avail rs = bs @ avail rs'"
  shows "reads rs b r"
proof -
  obtain b1 e rs1 bytes lost where "r = Inr (b1, e, rs1)" "buffer_wf b1" "content b1 = content b' @ map Some bytes"
    "avail rs' = bytes @ lost" "e = EndAgain \<longrightarrow> lost = avail rs1"
    using assms(1) unfolding reads_def by blast
  then have "r = Inr (b1, e, rs1) \<and> buffer_wf b1 \<and> content b1 = content b @ map Some (bs @ bytes) \<and>
      avail rs = (bs @ bytes) @ lost \<and> (e = EndAgain \<longrightarrow> lost = avail rs1)"
    using assms(2,3) by simp
  then show ?thesis unfolding reads_def by blast
qed

lemma read_loop_reads:
  assumes "buffer_wf b"
  shows "reads rs b (read_loop rs b)"
  using assms
proof (induction rs b rule: read_loop.induct)
  case (1 rs b)
  obtain b1 where b1: "Buffer_MakeRoom0 b = Inr b1" "buffer_wf b1" "content b1 = content b"
    using MakeRoom0_total [OF 1(3)] by blast
  show ?case
  proof (cases rs)
    case Nil
    then show ?thesis using b1 by (simp add: read_loop.simps reads_again)
  next
    case (Cons r rs')
    show ?thesis
    proof (cases r)
      case (Got bs)
      let ?n = "unat (Buffer_GetSpace b1)"
      show ?thesis
      proof (cases "take ?n bs = []")
        case True
        then have "read_loop rs b = Inr (b1, EndClose, rs')" using b1 Cons Got by (simp add: read_loop.simps Let_def)
        then show ?thesis using b1 reads_close by simp
      next
        case False
        have "length (take ?n bs) \<le> ?n" by simp
        from store_ok [OF b1(2) this False] obtain m where
          m: "mem_write (buf_mem b1) (Buffer_End b1) (map Some (take ?n bs)) = Inr m"
            "buffer_wf (Buffer_AddSize (b1\<lparr>buf_mem := m\<rparr>) (of_nat (length (take ?n bs))))"
            "content (Buffer_AddSize (b1\<lparr>buf_mem := m\<rparr>) (of_nat (length (take ?n bs)))) = content b1 @ map Some (take ?n bs)"
          by blast
        let ?rs2 = "if length bs \<le> ?n then rs' else Got (drop ?n bs) # rs'"
        have run: "read_loop rs b = read_loop ?rs2 (Buffer_AddSize (b1\<lparr>buf_mem := m\<rparr>) (of_nat (length (take ?n bs))))"
          using b1 Cons Got False m(1) by (subst read_loop.simps) (simp add: Let_def)
        show ?thesis
          unfolding run by (rule reads_more [OF 1(1) [OF b1(1) Cons Got refl refl False m(1) m(2)]]) (use b1(3) m(3) Cons Got in \<open>auto simp del: take_append\<close>)
      qed
    next
      case RIntr
      then have "read_loop rs b = read_loop rs' b1" using b1(1) Cons by (subst read_loop.simps) simp
      then show ?thesis using reads_more [OF 1(2) [OF b1(1) Cons RIntr b1(2)], of b "[]" rs] b1(3) Cons RIntr by simp
    qed (use b1 Cons in \<open>simp_all add: read_loop.simps reads_close reads_again\<close>)
  qed
qed

lemmas read_loop_ok = read_loop_reads [unfolded reads_def]

section \<open>Sequences of sends\<close>

datatype conn_op =
    SendBytes "byte list" "wres list"
  | SendBuffer "byte list" "wres list"
  | Writable "wres list"

fun op_bytes :: "conn_op \<Rightarrow> byte list" where
  "op_bytes (SendBytes m ws) = m"
| "op_bytes (SendBuffer m ws) = m"
| "op_bytes (Writable ws) = []"

fun op_answers :: "conn_op \<Rightarrow> wres list" where
  "op_answers (SendBytes m ws) = ws"
| "op_answers (SendBuffer m ws) = ws"
| "op_answers (Writable ws) = ws"

text \<open>The callbacks are not called while the connection is connected and writing.\<close>

fun conn_exec :: "conn_op \<Rightarrow> conn \<Rightarrow> conn res" where
  "conn_exec (SendBytes m ws) s = rbind (TcpConn_Send (tc_tid s) ws m s) (\<lambda>(s, _). Inr s)"
| "conn_exec (SendBuffer m ws) s =
     rbind (Buffer_Append Buffer_new m) (\<lambda>b. rbind (TcpConn_Send_buffer ws b s) (\<lambda>(_, s, _). Inr s))"
| "conn_exec (Writable ws) s = rbind (TcpConn_HandleWrite Inr Inr True ws s) (\<lambda>(s, _). Inr s)"

definition conn_live :: "conn \<Rightarrow> bool" where
  "conn_live s \<longleftrightarrow> conn_ok s \<and> tc_channel s \<noteq> None \<and> tc_state s = KConnected \<and> flowing s"

lemma conn_exec_streams:
  assumes live: "conn_live s" and ne: "no_error (op_answers x)" and len: "length (op_bytes x) < 2 ^ 64"
    and r: "conn_exec x s = Inr s'"
  shows "streams s s' (op_bytes x) \<and> conn_live s'"
proof -
  have l: "conn_ok s" "tc_channel s \<noteq> None" "tc_state s = KConnected" "flowing s" using live by (simp_all add: conn_live_def)
  have "streams s s' (op_bytes x) \<and> flowing s'"
  proof (cases x)
    case (SendBytes m ws)
    then obtain ws' where "TcpConn_SendInLoop (tc_tid s) ws m s = Inr (s', ws')"
      using r l(3) by (auto simp: TcpConn_Send_def rbind_Inr_iff)
    then show ?thesis using SendInLoop_Inr [OF l(1,2) refl] SendBytes ne len l(4) by fastforce
  next
    case (SendBuffer m ws)
    then obtain b m' ws' where b: "Buffer_Append Buffer_new m = Inr b" "TcpConn_Send_buffer ws b s = Inr (m', s', ws')"
      using r by (auto simp: rbind_Inr_iff)
    have "buffer_wf b" "content b = map Some m"
      using Append_Inr [OF buffer_wf_new _ b(1)] len SendBuffer by simp_all
    then show ?thesis using Send_buffer_Inr [OF l(1,2,4) _ _ _ b(2)] ne SendBuffer by auto
  next
    case (Writable ws)
    obtain s1 ws' where "TcpConn_HandleWrite Inr Inr True ws s = Inr (s1, ws')" "streams s s1 []"
      "no_error ws \<and> flowing s \<longrightarrow> no_error ws' \<and> flowing s1"
      using HandleWrite_ok [OF l(1-3)] by blast
    then show ?thesis using r Writable ne l(4) by simp
  qed
  then show ?thesis using l by (auto simp: conn_live_def streams_def)
qed

text \<open>The only failure is the one of appending to the output buffer.\<close>

lemma conn_exec_total:
  assumes live: "conn_live s" and ne: "no_error (op_answers x)" and len: "length (op_bytes x) < 2 ^ 64"
  shows "(\<exists>s'. conn_exec x s = Inr s') \<or> conn_exec x s = Inl OutOfBounds"
proof -
  have l: "conn_ok s" "tc_channel s \<noteq> None" "tc_state s = KConnected" "flowing s" using live by (simp_all add: conn_live_def)
  have wfo: "buffer_wf (tc_output s)" using l(1) by (simp add: conn_ok_def)
  show ?thesis
  proof (cases x)
    case (SendBytes m ws)
    obtain acc rest s1 ws1 where a: "m = acc @ rest" "TcpConn_SendInLoop (tc_tid s) ws m s =
        (if rest = [] then Inr (s1, ws1) else rbind (Buffer_Append (tc_output s) rest) (\<lambda>b. Inr (s1\<lparr>tc_output := b\<rparr>, ws1)))"
      using SendInLoop_split [OF l(1,2) refl, of m ws] by blast
    have "length rest < 2 ^ 64" using len SendBytes a(1) by simp
    then show ?thesis using Append_result [OF wfo, of rest] SendBytes a(2) l(3) by (auto simp: TcpConn_Send_def)
  next
    case (SendBuffer m ws)
    show ?thesis
    proof (cases "\<exists>b. Buffer_Append Buffer_new m = Inr b")
      case True
      then obtain b where b: "Buffer_Append Buffer_new m = Inr b" by blast
      have m: "buffer_wf b" "content b = map Some m" using Append_Inr [OF buffer_wf_new _ b] len SendBuffer by simp_all
      show ?thesis
        using Send_buffer_waiting [OF l(1,2), of ws b] Send_buffer_idle [OF l(1,2,4) _ m, of ws] Absorb_result [OF wfo m] SendBuffer b ne
        by (cases "writing s") auto
    next
      case False
      then show ?thesis using Append_result [OF buffer_wf_new, of m] SendBuffer len by auto
    qed
  next
    case (Writable ws)
    then show ?thesis using HandleWrite_ok [OF l(1-3), of Inr Inr True ws] by auto
  qed
qed

lemma conn_execs_total:
  assumes "conn_live s" and "\<forall>x \<in> set xs. no_error (op_answers x) \<and> length (op_bytes x) < 2 ^ 64"
  shows "(\<exists>s'. rfold conn_exec xs s = Inr s') \<or> rfold conn_exec xs s = Inl OutOfBounds"
  using assms
proof (induction xs arbitrary: s)
  case (Cons x xs)
  have x: "no_error (op_answers x)" "length (op_bytes x) < 2 ^ 64" using Cons.prems(2) by simp_all
  then show ?case
    using conn_exec_total [OF Cons.prems(1) x] conn_exec_streams [OF Cons.prems(1) x] Cons.IH Cons.prems(2) by fastforce
qed simp

lemma conn_execs_streams:
  assumes "conn_live s" and "\<forall>x \<in> set xs. no_error (op_answers x) \<and> length (op_bytes x) < 2 ^ 64"
    and "rfold conn_exec xs s = Inr s'"
  shows "streams s s' (concat (map op_bytes xs)) \<and> conn_live s'"
  using assms
proof (induction xs arbitrary: s)
  case Nil
  then show ?case by (simp add: streams_def conn_live_def)
next
  case (Cons x xs)
  then obtain s1 where s1: "conn_exec x s = Inr s1" "rfold conn_exec xs s1 = Inr s'" by (auto elim: rbind_InrE)
  have a: "streams s s1 (op_bytes x)" "conn_live s1" using conn_exec_streams [OF Cons.prems(1) _ _ s1(1)] Cons.prems(2) by simp_all
  then have "streams s1 s' (concat (map op_bytes xs)) \<and> conn_live s'" using Cons.IH [OF _ _ s1(2)] Cons.prems(2) by simp
  then show ?case using streams_flowing [OF a(1)] by simp
qed

section \<open>Properties\<close>

text \<open>A connection that is connected, with its channel at address 1, no callbacks and no timer.\<close>

definition example_poller :: epoll_poller where
  "example_poller =
     (EpollPoller_new 9 Map.empty)\<lparr>ep_heap := [1 \<mapsto> (Channel_new 5 kReadEvent 0)\<lparr>ch_revents := POLLIN,
         ch_callbacks := {ReadCallback, WriteCallback}\<rparr>],
       ep_channels := [5 \<mapsto> 1], ep_interest := [5 \<mapsto> (scast kReadEvent, 1)]\<rparr>"

definition example_conn :: conn where
  "example_conn =
     \<lparr>tc_tid = 9, tc_state = KConnected, tc_input = Buffer_new, tc_output = Buffer_SetSuggestSize Buffer_new 8, tc_readcb = False, tc_statecb = False,
      tc_channel = Some 1, tc_timer = (None, 0), tc_poller = example_poller, tc_timers = TimerQueue_new 9, tc_wire = []\<rparr>"

lemma suggested_buffer [simp]:
  "buffer_wf (Buffer_SetSuggestSize Buffer_new n)" "content (Buffer_SetSuggestSize Buffer_new n) = []"
  by (simp_all add: Buffer_SetSuggestSize_def Buffer_new_def buffer_wf_def content_def)

lemma example_poller_wf: "ep_wf example_poller" "ep_registered example_poller = {1}"
  by (auto simp: example_poller_def EpollPoller_new_def ep_wf_def ep_fds_def ep_reg_def ep_registered_def Channel_new_def
      kInitEventListSize_def split: if_splits)

lemma example_conn_live: "conn_live example_conn"
  using example_poller_wf(1)
  by (simp add: conn_live_def conn_ok_def example_conn_def flowing_def out_def buffer_wf_new)
    (simp add: example_poller_def EpollPoller_new_def)

text \<open>
  C4. On a connected connection whose writes do not fail, any mixture of sends of byte arrays, sends of
  buffers and writable events leaves the stream intact: what the kernel has accepted, followed by what
  waits in the output buffer, is what was there before followed by everything sent, in order. Bytes only
  wait while the channel waits for output. Nothing else can happen but the overrun of \<^verbatim>\<open>Buffer::Append\<close>, whose
  condition is \<open>Buffer_Append_result\<close>.
\<close>

theorem TcpConn_stream_order:
  assumes "conn_live s" and "\<forall>x \<in> set xs. no_error (op_answers x) \<and> length (op_bytes x) < 2 ^ 64"
  shows "rfold conn_exec xs s = Inl OutOfBounds \<or>
    (\<exists>s'. rfold conn_exec xs s = Inr s' \<and> tc_wire s' @ out s' = tc_wire s @ out s @ concat (map op_bytes xs) \<and>
      (out s' \<noteq> [] \<longrightarrow> writing s'))"
  using conn_execs_total [OF assms] conn_execs_streams [OF assms] by (auto simp: streams_def conn_live_def flowing_def)

definition example_ops :: "conn_op list" where
  "example_ops = [SendBytes ''hello'' [Wrote 2, WAgain], SendBytes ''xy'' [], Writable [WIntr, Wrote 4]]"

lemma example_ops_run: "\<not> isl (rfold conn_exec example_ops example_conn)"
  by code_simp

theorem TcpConn_stream_order_witness:
  "\<exists>s'. rfold conn_exec example_ops example_conn = Inr s' \<and> tc_wire s' @ out s' = ''helloxy''"
proof -
  have ops: "\<forall>x \<in> set example_ops. no_error (op_answers x) \<and> length (op_bytes x) < 2 ^ 64"
    by (simp add: example_ops_def no_error_def)
  have "tc_wire example_conn @ out example_conn @ concat (map op_bytes example_ops) = ''helloxy''"
    by (simp add: example_conn_def out_def example_ops_def)
  then show ?thesis using TcpConn_stream_order [OF example_conn_live ops] example_ops_run by auto
qed

text \<open>
  A send in the loop thread returns, unless the output buffer would have to move its content to the
  front to take the rest of the message; then, and only then, it writes outside the buffer.
\<close>

theorem TcpConn_SendInLoop_total:
  assumes "conn_ok s" and "tc_channel s \<noteq> None" and "tid = tc_tid s" and "buffer_small (tc_output s) (length message)"
  shows "(\<exists>s' ws'. TcpConn_SendInLoop tid ws message s = Inr (s', ws')) \<or>
    (TcpConn_SendInLoop tid ws message s = Inl OutOfBounds \<and> (\<exists>n \<le> length message. needs_move (tc_output s) n))"
  using SendInLoop_total [OF assms] .

theorem TcpConn_SendInLoop_total_witness:
  "\<exists>s' ws'. TcpConn_SendInLoop 9 [Wrote 2] ''hello'' example_conn = Inr (s', ws')"
proof -
  have "conn_ok example_conn" "tc_channel example_conn \<noteq> None" using example_conn_live by (simp_all add: conn_live_def)
  moreover have "buffer_small (tc_output example_conn) (length ''hello'')" "\<not> needs_move (tc_output example_conn) n" for n
    by (simp_all add: example_conn_def Buffer_SetSuggestSize_def Buffer_new_def buffer_small_def needs_move_def)
  moreover have "9 = tc_tid example_conn" by (simp add: example_conn_def)
  ultimately show ?thesis
    using TcpConn_SendInLoop_total [of example_conn 9 "''hello''" "[Wrote 2]"] by blast
qed

text \<open>
  \<^verbatim>\<open>SendMsg\<close> on a connected connection sends nothing and changes nothing, whatever the message: there is no
  state of a working connection in which flushing the output buffer has anything to do.
\<close>

theorem TcpConn_SendMsg_drops:
  assumes "conn_live s"
  shows "TcpConn_SendMsg ws msg s = Inr (s, ws)"
proof -
  have ok: "conn_ok s" and ch: "tc_channel s \<noteq> None" and flow: "out s \<noteq> [] \<longrightarrow> writing s"
    using assms by (auto simp: conn_live_def flowing_def)
  obtain c ch' where c: "conn_channel s = Inr (c, ch')" "writing s \<longleftrightarrow> IsWriting ch'" using conn_channelE [OF ok ch] by metis
  have "buffer_wf (tc_output s)" using ok by (simp add: conn_ok_def)
  then have "Buffer_GetSize (tc_output s) = 0 \<longleftrightarrow> out s = []" using GetSize_message conn_ok_content [OF ok] by blast
  then show ?thesis
    using c ch flow by (auto simp: TcpConn_SendMsg_def TcpConn_SendOutput_def Buffer_Absorb_self_def)
qed

theorem TcpConn_SendMsg_drops_witness:
  "TcpConn_SendMsg [Wrote 5] ''hello'' example_conn = Inr (example_conn, [Wrote 5])"
  using TcpConn_SendMsg_drops [OF example_conn_live] .



text \<open>
  What a channel callback of the connection does; the state of the program is the connection.
\<close>

definition conn_event :: "(conn \<Rightarrow> conn res) \<Rightarrow> (conn \<Rightarrow> conn res) \<Rightarrow> bool \<Rightarrow> rres list \<Rightarrow> wres list \<Rightarrow> cb_kind \<Rightarrow> conn \<Rightarrow> conn res" where
  "conn_event rcb scb writable rs ws k s =
     (case k of
        ReadCallback \<Rightarrow> rbind (TcpConn_HandleRead rcb scb writable rs s) (\<lambda>(s, _). Inr s)
      | WriteCallback \<Rightarrow> rbind (TcpConn_HandleWrite rcb scb writable ws s) (\<lambda>(s, _). Inr s)
      | _ \<Rightarrow> Inr s)"

lemma CleanUp_plain:
  assumes ok: "conn_ok s" and c: "tc_channel s = Some c" "c \<in> ep_registered (tc_poller s)"
    and plain: "\<not> tc_readcb s" "\<not> tc_statecb s" "fst (tc_timer s) = None" "tq_tid (tc_timers s) = tc_tid s"
  shows "\<exists>p. TcpConn_CleanUp rcb scb s = Inr (s\<lparr>tc_state := (if tc_state s = KHandShakeing then KFailed else KClosed),
      tc_channel := None, tc_poller := p\<rparr>) \<and> ep_heap p c = None"
proof -
  have wf: "ep_wf (tc_poller s)" "ep_tid (tc_poller s) = tc_tid s" using ok by (simp_all add: conn_ok_def)
  obtain p1 where p1: "Channel_Close (tc_tid s) c (tc_poller s) = Inr p1" using Channel_Close_ok [OF wf c(2)] by blast
  obtain ch where ch: "ep_heap (tc_poller s) c = Some ch" "0 \<le> ch_fd ch" using ep_registeredE [OF wf(1) c(2)] by metis
  let ?p = "p1\<lparr>ep_heap := (ep_heap p1)(c := None)\<rparr>"
  have "Channel_delete (tc_tid s) c (tc_poller s) = Inr ?p" using p1 ch by (simp add: Channel_delete_def)
  then show ?thesis
    using c(1) plain by (intro exI [of _ ?p]) (simp add: TcpConn_CleanUp_def CancelTimerIdInLoop_def AssertInLoopThread_def Let_def)
qed

text \<open>
  C33. When the peer closes the connection, or reading fails, the read callback deletes the channel whose event
  is being handled, and the dispatch then reads the deleted channel: handling the event of a connection
  without user callbacks ends in a use after free.
\<close>

theorem TcpConn_close_use_after_free:
  assumes ok: "conn_ok s" and st: "tc_state s = KConnected" and c: "tc_channel s = Some c" "c \<in> ep_registered (tc_poller s)"
    and ch: "ep_heap (tc_poller s) c = Some ch" "ch_callbacks ch = {ReadCallback, WriteCallback}" "bit (ch_revents ch) 0"
    and plain: "\<not> tc_readcb s" "\<not> tc_statecb s" "fst (tc_timer s) = None" "tq_tid (tc_timers s) = tc_tid s"
    and inp: "read_loop rs (tc_input s) = Inr (b, EndClose, rs')"
  shows "Channel_HandleEvent (\<lambda>s. ep_heap (tc_poller s) c) (conn_event rcb scb writable rs ws) s = Inl UseAfterFree"
proof -
  let ?s1 = "s\<lparr>tc_input := b\<rparr>"
  have fd: "0 \<le> ch_fd ch" using ep_registeredE [of "tc_poller s" c] ok c(2) ch(1) by (metis conn_ok_def option.inject)
  have ok1: "conn_ok ?s1" using ok by (simp add: conn_ok_def)
  obtain p where p: "TcpConn_CleanUp rcb scb ?s1 = Inr (?s1\<lparr>tc_state := KClosed, tc_channel := None, tc_poller := p\<rparr>)"
    "ep_heap p c = None"
    using CleanUp_plain [OF ok1, of c rcb scb] c plain st by auto
  let ?s2 = "?s1\<lparr>tc_state := KClosed, tc_channel := None, tc_poller := p\<rparr>"
  have "conn_channel s = Inr (c, ch)" using c ch by (simp add: conn_channel_def)
  then have "TcpConn_HandleRead rcb scb writable rs s = Inr (?s2, rs')"
    using st fd inp p(1) by (simp add: TcpConn_HandleRead_def Let_def)
  then have run: "conn_event rcb scb writable rs ws ReadCallback s = Inr ?s2" by (simp add: conn_event_def)
  show ?thesis
  proof (rule Channel_HandleEvent_deleted_lemma [where c = ch and s' = ?s2])
    show "set (due (ch_revents ch)) \<inter> {CloseCallback, ErrorCallback} \<inter> ch_callbacks ch = {}" using ch(2) by auto
    show "conn_event rcb scb writable rs ws ReadCallback s = Inr ?s2" by (rule run)
  qed (use ch p in \<open>simp_all add: due_def\<close>)
qed

lemma example_eof: "\<exists>b. read_loop [REof] (tc_input example_conn) = Inr (b, EndClose, [])"
  using MakeRoom0_total [OF buffer_wf_new] by (subst read_loop.simps) (auto simp: example_conn_def)

theorem TcpConn_close_use_after_free_witness:
  "Channel_HandleEvent (\<lambda>s. ep_heap (tc_poller s) 1) (conn_event Inr Inr True [REof] []) example_conn = Inl UseAfterFree"
proof -
  obtain b where b: "read_loop [REof] (tc_input example_conn) = Inr (b, EndClose, [])" using example_eof by blast
  show ?thesis
  proof (rule TcpConn_close_use_after_free [OF _ _ _ _ _ _ _ _ _ _ _ b])
    show "conn_ok example_conn" using example_conn_live by (simp add: conn_live_def)
    show "1 \<in> ep_registered (tc_poller example_conn)" using example_poller_wf(2) by (simp add: example_conn_def)
    show "ep_heap (tc_poller example_conn) 1 =
        Some ((Channel_new 5 kReadEvent 0)\<lparr>ch_revents := POLLIN, ch_callbacks := {ReadCallback, WriteCallback}\<rparr>)"
      by (simp add: example_conn_def example_poller_def)
  qed (simp_all add: example_conn_def TimerQueue_new_def)
qed

text \<open>
  A handshake that fails leaves the connection in the state for closed connections, not for failed ones:
  the state is set to failed before the clean-up, which takes every state but the handshake for closed.
\<close>

theorem TcpConn_failed_handshake_closed:
  assumes "conn_ok s" and "tc_state s = KHandShakeing" and "tc_channel s = Some c" and "c \<in> ep_registered (tc_poller s)"
    and "\<not> tc_readcb s" and "\<not> tc_statecb s" and "fst (tc_timer s) = None" and "tq_tid (tc_timers s) = tc_tid s"
  shows "\<exists>s'. TcpConn_HandleRead rcb scb False rs s = Inr (s', rs) \<and> tc_state s' = KClosed \<and> tc_channel s' = None"
proof -
  let ?s1 = "s\<lparr>tc_state := KFailed\<rparr>"
  have ok1: "conn_ok ?s1" using assms(1) by (simp add: conn_ok_def)
  obtain p where "TcpConn_CleanUp rcb scb ?s1 = Inr (?s1\<lparr>tc_state := KClosed, tc_channel := None, tc_poller := p\<rparr>)"
    using CleanUp_plain [OF ok1, of c rcb scb] assms by auto
  moreover obtain d dh where "conn_channel s = Inr (d, dh)" using conn_channelE [OF assms(1)] assms(3) by blast
  ultimately show ?thesis using assms(2) by (simp add: TcpConn_HandleRead_def TcpConn_HandleHandShake_def)
qed

theorem TcpConn_failed_handshake_closed_witness:
  "\<exists>s'. TcpConn_HandleRead Inr Inr False [] (example_conn\<lparr>tc_state := KHandShakeing\<rparr>) = Inr (s', []) \<and> tc_state s' = KClosed"
proof -
  have "conn_ok (example_conn\<lparr>tc_state := KHandShakeing\<rparr>)" using example_conn_live by (simp add: conn_live_def conn_ok_def)
  moreover have "1 \<in> ep_registered (tc_poller (example_conn\<lparr>tc_state := KHandShakeing\<rparr>))"
    using example_poller_wf(2) by (simp add: example_conn_def)
  ultimately show ?thesis
    using TcpConn_failed_handshake_closed [of "example_conn\<lparr>tc_state := KHandShakeing\<rparr>" 1 Inr Inr "[]"]
    by (auto simp: example_conn_def TimerQueue_new_def)
qed

text \<open>
  After \<^verbatim>\<open>Shutdown\<close> the connection ignores its events: neither callback reads, writes or cleans up, whatever
  the kernel has for it, so bytes still in the output buffer are not sent and the end of the peer's stream
  is not noticed.
\<close>

theorem TcpConn_Shutdown_ignores_events:
  assumes "tc_state s = KConnected"
  shows "TcpConn_HandleRead rcb scb writable rs (TcpConn_Shutdown s) = Inr (TcpConn_Shutdown s, rs) \<and>
    TcpConn_HandleWrite rcb scb writable ws (TcpConn_Shutdown s) = Inr (TcpConn_Shutdown s, ws)"
  using assms by (simp add: TcpConn_Shutdown_def TcpConn_HandleRead_def TcpConn_HandleWrite_def)

theorem TcpConn_Shutdown_ignores_events_witness:
  "TcpConn_HandleRead Inr Inr True [REof] (TcpConn_Shutdown example_conn) = Inr (TcpConn_Shutdown example_conn, [REof])"
  using TcpConn_Shutdown_ignores_events [of example_conn Inr Inr True "[REof]" "[]"] by (simp add: example_conn_def)

text \<open>
  A connection made with a connect timeout keeps the timer's identifier after the timer has fired; the
  clean-up then cancels the deleted timer.
\<close>

theorem TcpConn_CleanUp_dangling_timer:
  assumes "tq_wf q" and "intervals_ok q" and "tid = tq_tid q" and "TimeStamp 0 < now"
    and "\<forall>x. 0 \<le> x \<longrightarrow> 0 \<le> rnd x"
    and "TimerQueue_HandleRead (run_actions tid clock) rnd tid clock' now q = Inr q'"
    and "(e, p) \<in> set (expired_at now q)" and "tq_heap q p = Some t" and "\<not> tm_repeat t"
    and "tc_tid s = tid" and "tc_timers s = q'" and "tc_timer s = (Some p, tm_sequence t)" and "\<not> tc_readcb s"
  shows "TcpConn_CleanUp rcb scb s = Inl UseAfterFree"
  using Cancel_after_fire_lemma [OF assms(1-9)] assms(10-13) by (simp add: TcpConn_CleanUp_def Let_def)

theorem TcpConn_CleanUp_dangling_timer_witness:
  "\<exists>q'. TimerQueue_HandleRead (run_actions 7 (TimeStamp 30001)) (\<lambda>x. x) 7 (TimeStamp 30002) (TimeStamp 30000) example_tq = Inr q' \<and>
    TcpConn_CleanUp Inr Inr (example_conn\<lparr>tc_tid := 7, tc_timers := q', tc_timer := (Some 128, 1)\<rparr>) = Inl UseAfterFree"
proof -
  obtain q' where q': "TimerQueue_HandleRead (run_actions 7 (TimeStamp 30001)) (\<lambda>x. x) 7 (TimeStamp 30002) (TimeStamp 30000) example_tq = Inr q'"
    using example_tq_fires by blast
  then show ?thesis
    using TcpConn_CleanUp_dangling_timer [OF example_tq_ok(1,2) example_tq_ok(3) [symmetric], of "TimeStamp 30000" "\<lambda>x. x"
        "TimeStamp 30001" "TimeStamp 30002" q' "TimeStamp 20000" 128 _ "example_conn\<lparr>tc_tid := 7, tc_timers := q', tc_timer := (Some 128, 1)\<rparr>"]
    by (simp add: expired_at_def example_tq_timers example_tq_heap Timer_new_def example_conn_def)
qed

end
