(* ===== verification/Remote.thy ===== *)
theory Remote
  imports EventLoop TcpConn
begin

text \<open>
  Sending on a connection from any thread (\<^verbatim>\<open>TcpConn::Send\<close> of \<^verbatim>\<open>net/tcpconn.cc\<close>). In another thread than the loop's,
  \<^verbatim>\<open>Send\<close> queues a functor that keeps the caller's pointer, not the bytes; they are read when the functor runs.
  The caller's character arrays are therefore part of the state, and the connection is composed with the
  event loop that runs the functors.
\<close>

section \<open>Operations\<close>

text \<open>The character arrays of the callers; a freed one is \<open>None\<close>.\<close>

type_synonym chars = "nat \<Rightarrow> byte list option"

text \<open>\<^verbatim>\<open>std::string(message)\<close>: the bytes before the first NUL.\<close>

definition c_string :: "chars \<Rightarrow> nat \<Rightarrow> byte list res" where
  "c_string cs p =
     (case cs p of
        None \<Rightarrow> Inl UseAfterFree
      | Some bs \<Rightarrow> if CHR 0x00 \<in> set bs then Inr (cstr bs) else Inl OutOfBounds)"

definition char_array :: "chars \<Rightarrow> nat \<Rightarrow> nat \<Rightarrow> byte list res" where
  "char_array cs p n =
     (case cs p of
        None \<Rightarrow> Inl UseAfterFree
      | Some bs \<Rightarrow> if n \<le> length bs then Inr (take n bs) else Inl OutOfBounds)"

text \<open>
  The queued functor, run in the loop thread: it copies the C string and sends \<open>n\<close> bytes of the copy, which
  has one byte more than the string, its NUL. Nothing of it is read when the channel is gone.
\<close>

definition TcpConn_Send_later :: "chars \<Rightarrow> nat \<Rightarrow> nat \<Rightarrow> wres list \<Rightarrow> conn \<Rightarrow> (conn \<times> wres list) res" where
  "TcpConn_Send_later cs p n ws s =
     rbind (c_string cs p) (\<lambda>str.
     if tc_channel s \<noteq> None \<and> Suc (length str) < n then Inl OutOfBounds
     else TcpConn_SendInLoop (tc_tid s) ws (take n (str @ [CHR 0x00])) s)"

text \<open>\<open>tid\<close> is the calling thread. The second result is what a functor queued by the call keeps.\<close>

definition TcpConn_Send_from :: "int \<Rightarrow> chars \<Rightarrow> nat \<Rightarrow> nat \<Rightarrow> wres list \<Rightarrow> conn \<Rightarrow> (conn \<times> (nat \<times> nat) option) res" where
  "TcpConn_Send_from tid cs p n ws s =
     (if tc_state s \<noteq> KConnected then Inr (s, None)
      else if tid = tc_tid s then
        rbind (char_array cs p n) (\<lambda>message.
        rbind (TcpConn_SendInLoop tid ws message s) (\<lambda>(s, _). Inr (s, None)))
      else Inr (s, Some (p, n)))"

section \<open>The connection, its loop and its callers\<close>

text \<open>
  A functor is a send when the table has an entry for its label: the pointer and length it keeps, and the bytes
  that the caller meant. The log lists the messages handed to the connection, with the label for those
  that came through the queue.
\<close>

record sending =
  sd_loop :: eloop
  sd_conn :: conn
  sd_chars :: chars
  sd_table :: "nat \<Rightarrow> (nat \<times> nat \<times> byte list) option"
  sd_log :: "(nat option \<times> byte list) list"

fun func_label :: "func \<Rightarrow> nat" where
  "func_label (Fn l cs) = l"

text \<open>The caller's array holds the message, and a NUL behind it only.\<close>

definition holds :: "chars \<Rightarrow> nat \<Rightarrow> nat \<Rightarrow> byte list \<Rightarrow> bool" where
  "holds cs p n m \<longleftrightarrow> (\<exists>rest. cs p = Some (m @ CHR 0x00 # rest)) \<and> CHR 0x00 \<notin> set m \<and> n = length m \<and> n < 2 ^ 64"

definition messages :: "(nat \<Rightarrow> (nat \<times> nat \<times> byte list) option) \<Rightarrow> func list \<Rightarrow> byte list list" where
  "messages tab fs = concat (map (\<lambda>f. case tab (func_label f) of None \<Rightarrow> [] | Some (p, n, m) \<Rightarrow> [m]) fs)"

fun remote :: "(nat option \<times> byte list) list \<Rightarrow> byte list list" where
  "remote [] = []"
| "remote ((None, m) # xs) = remote xs"
| "remote ((Some l, m) # xs) = m # remote xs"

text \<open>What running the functor with label \<open>l\<close> does to the connection.\<close>

definition run_send :: "nat \<Rightarrow> wres list \<Rightarrow> sending \<Rightarrow> (conn \<times> (nat option \<times> byte list) list) res" where
  "run_send l ws s =
     (case sd_table s l of
        None \<Rightarrow> Inr (sd_conn s, sd_log s)
      | Some (p, n, m) \<Rightarrow>
          rbind (TcpConn_Send_later (sd_chars s) p n ws (sd_conn s)) (\<lambda>(c, _). Inr (c, sd_log s @ [(Some l, m)])))"

definition waiting :: "sending \<Rightarrow> nat set" where
  "waiting s = func_label ` set (el_funcs (sd_loop s) @ el_pending (sd_loop s))"

text \<open>
  Callers pass arrays that hold their message and keep them until the functor has run (\<open>memory\<close>); between
  these points they may free, reuse and overwrite any array. Functors that other code queues are not sends.
\<close>

inductive sd_step :: "sending \<Rightarrow> sending \<Rightarrow> bool" where
  call_other:
    "tid \<noteq> tc_tid (sd_conn s) \<Longrightarrow> holds (sd_chars s) p n m \<Longrightarrow>
     TcpConn_Send_from tid (sd_chars s) p n ws (sd_conn s) = Inr (c, Some (p', n')) \<Longrightarrow>
     sd_table s l = None \<Longrightarrow> l \<notin> func_label ` set (el_queued (sd_loop s)) \<Longrightarrow>
     sd_step s (s\<lparr>sd_conn := c, sd_loop := (QueueInLoop_push (Fn l []) (sd_loop s))\<lparr>el_others := el_others (sd_loop s) + 1\<rparr>,
       sd_table := (sd_table s)(l \<mapsto> (p', n', m))\<rparr>)"
| call_loop:
    "holds (sd_chars s) p n m \<Longrightarrow> no_error ws \<Longrightarrow>
     TcpConn_Send_from (tc_tid (sd_conn s)) (sd_chars s) p n ws (sd_conn s) = Inr (c, None) \<Longrightarrow>
     sd_step s (s\<lparr>sd_conn := c, sd_log := sd_log s @ [(None, m)]\<rparr>)"
| writable:
    "no_error ws \<Longrightarrow> TcpConn_HandleWrite Inr Inr True ws (sd_conn s) = Inr (c, ws') \<Longrightarrow> sd_step s (s\<lparr>sd_conn := c\<rparr>)"
| run:
    "loop_step acts (sd_loop s) = Inr e \<Longrightarrow> el_done e = el_done (sd_loop s) @ [Fn l cs] \<Longrightarrow> no_error ws \<Longrightarrow>
     run_send l ws s = Inr (c, lg) \<Longrightarrow> sd_step s (s\<lparr>sd_loop := e, sd_conn := c, sd_log := lg\<rparr>)"
| other:
    "el_step (sd_loop s) e \<Longrightarrow> el_done e = el_done (sd_loop s) \<Longrightarrow> el_queued e = el_queued (sd_loop s) @ fs \<Longrightarrow>
     \<forall>f \<in> set fs. sd_table s (func_label f) = None \<Longrightarrow> sd_step s (s\<lparr>sd_loop := e\<rparr>)"
| memory:
    "\<forall>l p n m. l \<in> waiting s \<and> sd_table s l = Some (p, n, m) \<longrightarrow> cs p = sd_chars s p \<Longrightarrow> sd_step s (s\<lparr>sd_chars := cs\<rparr>)"

inductive_cases sd_stepE: "sd_step s s'"

definition sd_start :: "conn \<Rightarrow> chars \<Rightarrow> sending" where
  "sd_start c cs = \<lparr>sd_loop = EventLoop_new, sd_conn = c, sd_chars = cs, sd_table = Map.empty, sd_log = []\<rparr>"

inductive sd_reach :: "conn \<Rightarrow> sending \<Rightarrow> bool" for c where
  start: "sd_reach c (sd_start c cs)"
| step: "sd_reach c s \<Longrightarrow> sd_step s s' \<Longrightarrow> sd_reach c s'"

section \<open>Invariant\<close>

definition sd_inv :: "conn \<Rightarrow> sending \<Rightarrow> bool" where
  "sd_inv c s \<longleftrightarrow>
     el_inv (sd_loop s) \<and> conn_live (sd_conn s) \<and>
     tc_wire (sd_conn s) @ out (sd_conn s) = tc_wire c @ out c @ concat (map snd (sd_log s)) \<and>
     remote (sd_log s) = messages (sd_table s) (el_done (sd_loop s)) \<and>
     (\<forall>l p n m. l \<in> waiting s \<and> sd_table s l = Some (p, n, m) \<longrightarrow> holds (sd_chars s) p n m)"

lemma remote_append [simp]: "remote (xs @ ys) = remote xs @ remote ys"
  by (induction xs rule: remote.induct) simp_all

lemma messages_append [simp]: "messages tab (xs @ ys) = messages tab xs @ messages tab ys"
  by (simp add: messages_def)

lemma messages_fresh [simp]: "l \<notin> func_label ` set fs \<Longrightarrow> messages (tab(l \<mapsto> x)) fs = messages tab fs"
  unfolding messages_def by (rule arg_cong [of _ _ concat], rule map_cong) auto

lemma el_inv_queued: "el_inv s \<Longrightarrow> el_queued s = el_done s @ el_funcs s @ el_pending s"
  by (simp add: el_inv_def)

text \<open>A functor that runs is the front of the current round; nothing else moves in that step.\<close>

lemma loop_step_pops:
  assumes "loop_step acts s = Inr s'" and "el_done s' = el_done s @ [f]"
  shows "el_funcs s = f # el_funcs s' \<and> el_pending s' = el_pending s"
proof -
  have "\<not> el_kick s" using assms by (auto simp: loop_step_def)
  moreover have "el_body s = []"
  proof (cases "el_body s")
    case (Cons c cs)
    then have "loop_call c (s\<lparr>el_body := cs\<rparr>) = Inr s'" using assms(1) \<open>\<not> el_kick s\<close> by (simp add: loop_step_def)
    then have "el_done s' = el_done s"
      by (cases "(c, s\<lparr>el_body := cs\<rparr>)" rule: loop_call.cases) (auto simp: QueueInLoop_push_def EventLoop_Quit_def rbind_Inr_iff)
    then show ?thesis using assms(2) by simp
  qed
  ultimately show ?thesis
    using assms by (auto simp: loop_step_def EventLoop_HandleRead_def DoPendingFunctors_swap_def
        split: loop_pc.splits list.splits activity.splits func.splits if_splits)
qed

text \<open>The functor of a send whose array is as the caller left it sends the message.\<close>

lemma Send_later_holds:
  assumes "holds cs p n m"
  shows "TcpConn_Send_later cs p n ws s = TcpConn_SendInLoop (tc_tid s) ws m s"
proof -
  obtain rest where r: "cs p = Some (m @ CHR 0x00 # rest)" "CHR 0x00 \<notin> set m" "n = length m"
    using assms by (auto simp: holds_def)
  then have "c_string cs p = Inr m" by (simp add: c_string_def cstr_terminated)
  then show ?thesis using r(3) by (simp add: TcpConn_Send_later_def)
qed

lemma SendInLoop_live:
  assumes "conn_live s" and "length m < 2 ^ 64" and "no_error ws" and "TcpConn_SendInLoop (tc_tid s) ws m s = Inr (s', ws')"
  shows "conn_live s' \<and> tc_wire s' @ out s' = tc_wire s @ out s @ m"
  using SendInLoop_Inr [OF _ _ refl assms(2,4)] assms(1,3) by (auto simp: conn_live_def streams_def)

lemma holds_cong: "cs p = cs' p \<Longrightarrow> holds cs p n m = holds cs' p n m"
  by (simp add: holds_def)

lemma sd_inv_holds:
  "sd_inv c s \<Longrightarrow> l \<in> waiting s \<Longrightarrow> sd_table s l = Some (p, n, m) \<Longrightarrow> holds (sd_chars s) p n m"
  by (simp add: sd_inv_def)

lemma char_array_holds: "holds cs p n m \<Longrightarrow> char_array cs p n = Inr m"
  by (auto simp: holds_def char_array_def)

lemma waiting_queued: "el_inv (sd_loop s) \<Longrightarrow> waiting s \<subseteq> func_label ` set (el_queued (sd_loop s))"
  by (auto simp: waiting_def dest: el_inv_queued)

lemma sd_inv_call_other:
  assumes inv: "sd_inv c s" and h: "holds (sd_chars s) p n m"
    and tid: "tid \<noteq> tc_tid (sd_conn s)" and r: "TcpConn_Send_from tid (sd_chars s) p n ws (sd_conn s) = Inr (c', Some (p', n'))"
    and l: "l \<notin> func_label ` set (el_queued (sd_loop s))"
  shows "sd_inv c (s\<lparr>sd_conn := c', sd_loop := (QueueInLoop_push (Fn l []) (sd_loop s))\<lparr>el_others := el_others (sd_loop s) + 1\<rparr>,
    sd_table := (sd_table s)(l \<mapsto> (p', n', m))\<rparr>)" (is "sd_inv c ?s")
proof -
  have el: "el_inv (sd_loop s)" using inv by (simp add: sd_inv_def)
  have eq: "c' = sd_conn s" "p' = p" "n' = n"
    using r tid by (auto simp: TcpConn_Send_from_def split: if_splits)
  have "el_step (sd_loop s) (sd_loop ?s)" using el_step.other_queue by (simp add: QueueInLoop_wakes_def)
  then have 1: "el_inv (sd_loop ?s)" using el_step_inv el by blast
  have fresh: "l \<notin> func_label ` set (el_done (sd_loop s))" "l \<notin> waiting s"
    using l el_inv_queued [OF el] waiting_queued [OF el] by auto
  have 2: "\<forall>k p n m. k \<in> waiting ?s \<and> sd_table ?s k = Some (p, n, m) \<longrightarrow> holds (sd_chars ?s) p n m"
    using inv h eq by (auto simp: sd_inv_def waiting_def QueueInLoop_push_def)
  show ?thesis unfolding sd_inv_def using 1 2 inv fresh(1) eq by (simp add: sd_inv_def QueueInLoop_push_def)
qed

lemma sd_inv_call_loop:
  assumes inv: "sd_inv c s" and h: "holds (sd_chars s) p n m" and ws: "no_error ws"
    and r: "TcpConn_Send_from (tc_tid (sd_conn s)) (sd_chars s) p n ws (sd_conn s) = Inr (c', None)"
  shows "sd_inv c (s\<lparr>sd_conn := c', sd_log := sd_log s @ [(None, m)]\<rparr>)"
proof -
  have live: "conn_live (sd_conn s)" using inv by (simp add: sd_inv_def)
  obtain ws' where "TcpConn_SendInLoop (tc_tid (sd_conn s)) ws m (sd_conn s) = Inr (c', ws')"
    using r live char_array_holds [OF h] by (auto simp: TcpConn_Send_from_def conn_live_def rbind_Inr_iff)
  then have "conn_live c' \<and> tc_wire c' @ out c' = tc_wire (sd_conn s) @ out (sd_conn s) @ m"
    using SendInLoop_live [OF live _ ws] h by (auto simp: holds_def)
  then show ?thesis using inv by (simp add: sd_inv_def waiting_def)
qed

lemma sd_inv_writable:
  assumes inv: "sd_inv c s" and ws: "no_error ws" and r: "TcpConn_HandleWrite Inr Inr True ws (sd_conn s) = Inr (c', ws')"
  shows "sd_inv c (s\<lparr>sd_conn := c'\<rparr>)"
proof -
  have "conn_exec (Writable ws) (sd_conn s) = Inr c'" using r by simp
  then have "streams (sd_conn s) c' [] \<and> conn_live c'"
    using conn_exec_streams [of "sd_conn s" "Writable ws" c'] inv ws by (simp add: sd_inv_def)
  then show ?thesis using inv by (simp add: sd_inv_def waiting_def streams_def)
qed

lemma sd_inv_run:
  assumes inv: "sd_inv c s" and e: "loop_step acts (sd_loop s) = Inr e" "el_done e = el_done (sd_loop s) @ [Fn l cs]"
    and ws: "no_error ws" and r: "run_send l ws s = Inr (c', lg)"
  shows "sd_inv c (s\<lparr>sd_loop := e, sd_conn := c', sd_log := lg\<rparr>)"
proof -
  note pop = loop_step_pops [OF e]
  have el: "el_inv e" using loop_step_inv [OF _ e(1)] inv by (simp add: sd_inv_def)
  have w: "waiting (s\<lparr>sd_loop := e, sd_conn := c', sd_log := lg\<rparr>) \<subseteq> waiting s" "l \<in> waiting s"
    using pop by (auto simp: waiting_def)
  show ?thesis
  proof (cases "sd_table s l")
    case None
    then show ?thesis using r inv el w(1) e(2) by (auto simp: sd_inv_def run_send_def messages_def)
  next
    case (Some x)
    obtain p n m where x: "sd_table s l = Some (p, n, m)" using Some by (cases x) auto
    then have h: "holds (sd_chars s) p n m" using inv w(2) by (auto simp: sd_inv_def)
    obtain ws' where send: "TcpConn_SendInLoop (tc_tid (sd_conn s)) ws m (sd_conn s) = Inr (c', ws')" "lg = sd_log s @ [(Some l, m)]"
      using r x Send_later_holds [OF h] by (auto simp: run_send_def rbind_Inr_iff)
    then have "conn_live c' \<and> tc_wire c' @ out c' = tc_wire (sd_conn s) @ out (sd_conn s) @ m"
      using SendInLoop_live [OF _ _ ws send(1)] inv h by (auto simp: sd_inv_def holds_def)
    then show ?thesis using inv el w(1) e(2) x send(2) by (auto simp: sd_inv_def messages_def)
  qed
qed

lemma sd_inv_other:
  assumes inv: "sd_inv c s" and e: "el_step (sd_loop s) e" "el_done e = el_done (sd_loop s)"
    and q: "el_queued e = el_queued (sd_loop s) @ fs" "\<forall>f \<in> set fs. sd_table s (func_label f) = None"
  shows "sd_inv c (s\<lparr>sd_loop := e\<rparr>)"
proof -
  have el: "el_inv (sd_loop s)" "el_inv e" using inv el_step_inv [OF e(1)] by (auto simp: sd_inv_def)
  have "el_funcs e @ el_pending e = (el_funcs (sd_loop s) @ el_pending (sd_loop s)) @ fs"
    using el_inv_queued [OF el(1)] el_inv_queued [OF el(2)] e(2) q(1) by simp
  then have "set (el_funcs e @ el_pending e) = set (el_funcs (sd_loop s) @ el_pending (sd_loop s)) \<union> set fs"
    by (simp only: set_append)
  then have "waiting (s\<lparr>sd_loop := e\<rparr>) = waiting s \<union> func_label ` set fs"
    by (simp add: waiting_def image_Un [symmetric])
  then show ?thesis using inv el(2) e(2) q(2) by (auto simp: sd_inv_def)
qed

lemma sd_reach_inv:
  assumes "conn_live c" and "sd_reach c s"
  shows "sd_inv c s"
  using assms(2)
proof (induction rule: sd_reach.induct)
  case (start cs)
  then show ?case
    using assms(1) el_reach_inv [OF el_reach.start]
    by (simp add: sd_inv_def sd_start_def messages_def waiting_def EventLoop_new_def)
next
  case (step s s')
  from step.hyps(2) show ?case
  proof (cases rule: sd_step.cases)
    case (memory cs)
    then have "\<forall>l p n m. l \<in> waiting s \<and> sd_table s l = Some (p, n, m) \<longrightarrow> holds cs p n m"
      using sd_inv_holds [OF step.IH] holds_cong [of cs _ "sd_chars s"] by blast
    then show ?thesis using step.IH memory(1) by (auto simp: sd_inv_def waiting_def)
  qed (use step.IH sd_inv_call_other sd_inv_call_loop sd_inv_writable sd_inv_run sd_inv_other in metis)+
qed

section \<open>Properties\<close>

text \<open>
  C6. What callers have to keep to for \<^verbatim>\<open>Send\<close> to be usable from other threads, and what it gives them then. Every caller passes an
  array that holds its message and a NUL behind it, with no NUL in the message, and keeps that array unchanged until the functor has
  run; no write to the socket fails. Then, with the threads, the loop and writable events interleaved in any way: what the kernel has
  accepted, followed by the output buffer, is exactly the messages handed over so far; the messages of other threads are handed over in
  the order in which they were queued, each once, and those still in the queue are the rest; and the functor that runs next does what
  \<^verbatim>\<open>SendInLoop\<close> does with the bytes its caller meant, the overrun of the output buffer included. A caller that does not keep its array
  gets other bytes or a read of freed memory, as the last property below shows: in this sense the function is not thread safe, as its
  declaration notes.
\<close>

theorem TcpConn_Send_threads:
  assumes "conn_live c" and "sd_reach c s"
  shows "tc_wire (sd_conn s) @ out (sd_conn s) = tc_wire c @ out c @ concat (map snd (sd_log s)) \<and>
    messages (sd_table s) (el_queued (sd_loop s)) =
      remote (sd_log s) @ messages (sd_table s) (el_funcs (sd_loop s) @ el_pending (sd_loop s)) \<and>
    (\<forall>l cs fs p n m ws. el_funcs (sd_loop s) = Fn l cs # fs \<and> sd_table s l = Some (p, n, m) \<longrightarrow>
      TcpConn_Send_later (sd_chars s) p n ws (sd_conn s) = TcpConn_SendInLoop (tc_tid (sd_conn s)) ws m (sd_conn s))"
proof -
  have inv: "sd_inv c s" using sd_reach_inv [OF assms] .
  have "l \<in> waiting s" if "el_funcs (sd_loop s) = Fn l cs # fs" for l cs fs using that by (simp add: waiting_def)
  then have "\<forall>l cs fs p n m ws. el_funcs (sd_loop s) = Fn l cs # fs \<and> sd_table s l = Some (p, n, m) \<longrightarrow>
      TcpConn_Send_later (sd_chars s) p n ws (sd_conn s) = TcpConn_SendInLoop (tc_tid (sd_conn s)) ws m (sd_conn s)"
    using sd_inv_holds [OF inv] Send_later_holds by blast
  then show ?thesis using inv el_inv_queued [of "sd_loop s"] by (simp add: sd_inv_def)
qed

text \<open>Thread 3 sends \<open>hi\<close> on the example connection, whose loop is thread 9; the loop then runs the functor.\<close>

definition example_chars :: chars where
  "example_chars p = (if p = 5 then Some (''hi'' @ [CHR 0x00]) else None)"

definition example_queued :: sending where
  "example_queued = (sd_start example_conn example_chars)
     \<lparr>sd_loop := EventLoop_new\<lparr>el_pending := [Fn 0 []], el_queued := [Fn 0 []], el_others := 1\<rparr>,
      sd_table := [0 \<mapsto> (5, 2, ''hi'')]\<rparr>"

lemma example_queued_reach: "sd_reach example_conn example_queued"
proof -
  let ?s = "sd_start example_conn example_chars"
  have h: "holds (sd_chars ?s) 5 2 ''hi''" by (simp add: holds_def sd_start_def example_chars_def)
  have "TcpConn_Send_from 3 (sd_chars ?s) 5 2 [] (sd_conn ?s) = Inr (example_conn, Some (5, 2))"
    by (simp add: TcpConn_Send_from_def sd_start_def example_conn_def)
  moreover have "3 \<noteq> tc_tid (sd_conn ?s)" "sd_table ?s 0 = None" "0 \<notin> func_label ` set (el_queued (sd_loop ?s))"
    by (simp_all add: sd_start_def example_conn_def EventLoop_new_def)
  ultimately have "sd_step ?s example_queued"
    using sd_step.call_other [OF _ h, of 3 "[]" example_conn 5 2 0]
    by (simp add: example_queued_def sd_start_def QueueInLoop_push_def EventLoop_new_def)
  then show ?thesis using sd_reach.start sd_reach.step by blast
qed

lemma sd_reach_loop:
  assumes "sd_reach c s" and "loop_step [] (sd_loop s) = Inr e" and "el_done e = el_done (sd_loop s)"
    and "el_queued e = el_queued (sd_loop s)"
  shows "sd_reach c (s\<lparr>sd_loop := e\<rparr>)"
proof -
  have "el_step (sd_loop s) e" using el_step.loop [OF assms(2)] by simp
  then have "sd_step s (s\<lparr>sd_loop := e\<rparr>)" using sd_step.other [of s e "[]"] assms(3,4) by simp
  then show ?thesis using assms(1) sd_reach.step by blast
qed

definition example_running :: sending where
  "example_running = example_queued\<lparr>sd_loop := (sd_loop example_queued)\<lparr>el_pc := Running, el_funcs := [Fn 0 []], el_pending := [], el_doing := True\<rparr>\<rparr>"

lemma example_running_reach: "sd_reach example_conn example_running"
proof -
  let ?l = "\<lambda>pc. (sd_loop example_queued)\<lparr>el_pc := pc\<rparr>"
  note defs = example_queued_def sd_start_def EventLoop_new_def loop_step_def DoPendingFunctors_swap_def example_running_def
  have "sd_reach example_conn (example_queued\<lparr>sd_loop := ?l InPoll\<rparr>)"
    by (rule sd_reach_loop [OF example_queued_reach]) (simp_all add: defs)
  from sd_reach_loop [OF this, of "?l (Handling [])"] have "sd_reach example_conn (example_queued\<lparr>sd_loop := ?l (Handling [])\<rparr>)"
    by (simp add: defs)
  from sd_reach_loop [OF this, of "?l BeforeSwap"] have "sd_reach example_conn (example_queued\<lparr>sd_loop := ?l BeforeSwap\<rparr>)"
    by (simp add: defs)
  from sd_reach_loop [OF this, of "sd_loop example_running"] show ?thesis by (simp add: defs)
qed

theorem TcpConn_Send_threads_witness:
  "[''hi''] = remote (sd_log example_running) @ messages (sd_table example_running) [Fn 0 []] \<and>
   TcpConn_Send_later example_chars 5 2 [Wrote 2] example_conn = TcpConn_SendInLoop 9 [Wrote 2] ''hi'' example_conn"
  using TcpConn_Send_threads [OF example_conn_live example_running_reach]
  by (simp add: example_running_def example_queued_def sd_start_def EventLoop_new_def messages_def example_conn_def)

text \<open>
  C32. Nothing in the code makes a caller keep its string. A send from another thread returns at once; if the
  string is gone when the functor runs, as with a temporary, the functor reads freed memory, and if it has
  been overwritten in the meantime, the new bytes are sent in place of the message.
\<close>

theorem TcpConn_Send_late_read:
  assumes "conn_live s" and "tid \<noteq> tc_tid s" and "holds cs p n m"
  shows "TcpConn_Send_from tid cs p n ws s = Inr (s, Some (p, n)) \<and>
    (\<forall>cs' ws'. cs' p = None \<longrightarrow> TcpConn_Send_later cs' p n ws' s = Inl UseAfterFree) \<and>
    (\<forall>cs' m' ws' s' ws''. holds cs' p n m' \<and> no_error ws' \<and> TcpConn_Send_later cs' p n ws' s = Inr (s', ws'') \<longrightarrow>
      tc_wire s' @ out s' = tc_wire s @ out s @ m')"
proof (intro conjI allI impI)
  show "TcpConn_Send_from tid cs p n ws s = Inr (s, Some (p, n))"
    using assms(1,2) by (simp add: TcpConn_Send_from_def conn_live_def)
  show "TcpConn_Send_later cs' p n ws' s = Inl UseAfterFree" if "cs' p = None" for cs' ws'
    using that by (simp add: TcpConn_Send_later_def c_string_def)
  fix cs' m' ws' s' ws''
  assume a: "holds cs' p n m' \<and> no_error ws' \<and> TcpConn_Send_later cs' p n ws' s = Inr (s', ws'')"
  then show "tc_wire s' @ out s' = tc_wire s @ out s @ m'"
    using SendInLoop_live [OF assms(1), of m' ws' s' ws''] Send_later_holds [of cs' p n m'] by (auto simp: holds_def)
qed

theorem TcpConn_Send_late_read_witness:
  "TcpConn_Send_from 3 example_chars 5 2 [] example_conn = Inr (example_conn, Some (5, 2)) \<and>
   TcpConn_Send_later (example_chars(5 := None)) 5 2 [] example_conn = Inl UseAfterFree"
proof -
  have "holds example_chars 5 2 ''hi''" "3 \<noteq> tc_tid example_conn"
    by (simp_all add: holds_def example_chars_def example_conn_def)
  then show ?thesis using TcpConn_Send_late_read [OF example_conn_live, of 3 example_chars 5 2 "''hi''" "[]"] by simp
qed

end
