(* ===== verification/Lines.thy ===== *)
theory Lines
  imports TcpConn Codec
begin

text \<open>
  Lines over connections: the line codec, the buffer it writes to, the connection that sends the buffer and the
  connection that receives the bytes, composed.
\<close>

section \<open>Lines over connections\<close>

lemma LineCode_Encode_Inr:
  assumes "buffer_wf b" and "Suc (length m) < 2 ^ 64" and "LineCode_Encode m b = Inr b'"
  shows "buffer_wf b' \<and> content b' = content b @ map Some (line_enc m)"
  using Append_Inr [OF assms(1), of "line_enc m" b'] assms(2,3) by (simp add: LineCode_Encode_def line_enc_def)

lemma LineCode_Encodes_Inr:
  assumes "buffer_wf b" and "\<forall>m \<in> set ms. Suc (length m) < 2 ^ 64" and "rfold LineCode_Encode ms b = Inr b'"
  shows "buffer_wf b' \<and> content b' = content b @ map Some (frame_all line_enc ms)"
  using assms
proof (induction ms arbitrary: b)
  case (Cons m ms)
  then obtain b1 where b1: "LineCode_Encode m b = Inr b1" "rfold LineCode_Encode ms b1 = Inr b'" by (auto elim: rbind_InrE)
  have "buffer_wf b1 \<and> content b1 = content b @ map Some (line_enc m)"
    using LineCode_Encode_Inr [OF Cons.prems(1) _ b1(1)] Cons.prems(2) by simp
  then show ?case using Cons.IH [OF _ _ b1(2)] Cons.prems(2) by simp
qed simp

text \<open>What a sender does: encode every line into one buffer, send it, and answer writable events.\<close>

definition send_lines :: "byte list list \<Rightarrow> wres list \<Rightarrow> wres list list \<Rightarrow> conn \<Rightarrow> conn res" where
  "send_lines ms ws events s =
     rbind (rfold LineCode_Encode ms Buffer_new) (\<lambda>b.
     rbind (TcpConn_Send_buffer ws b s) (\<lambda>(_, s, _).
     rfold conn_exec (map Writable events) s))"

lemma send_lines_wire:
  assumes live: "conn_live s" and fresh: "tc_wire s = []" "out s = []"
    and len: "\<forall>m \<in> set ms. Suc (length m) < 2 ^ 64" and ne: "\<forall>ws \<in> set (ws # events). no_error ws"
    and run: "send_lines ms ws events s = Inr s'"
  shows "tc_wire s' @ out s' = frame_all line_enc ms"
proof -
  obtain b m s1 ws1 where b: "rfold LineCode_Encode ms Buffer_new = Inr b"
    and s1: "TcpConn_Send_buffer ws b s = Inr (m, s1, ws1)" and s': "rfold conn_exec (map Writable events) s1 = Inr s'"
    using run by (auto simp: send_lines_def elim!: rbind_InrE)
  have l: "conn_ok s" "tc_channel s \<noteq> None" "tc_state s = KConnected" "flowing s" using live by (simp_all add: conn_live_def)
  have "buffer_wf b" "content b = map Some (frame_all line_enc ms)"
    using LineCode_Encodes_Inr [OF buffer_wf_new len b] by simp_all
  then have 1: "streams s s1 (frame_all line_enc ms)" "flowing s1"
    using Send_buffer_Inr [OF l(1,2,4) _ _ _ s1] ne by auto
  then have "conn_live s1" using l by (auto simp: conn_live_def streams_def)
  then have "streams s1 s' (concat (map op_bytes (map Writable events)))"
    using conn_execs_streams [OF _ _ s'] ne by auto
  moreover have "concat (map op_bytes (map Writable events)) = []" by (induction events) simp_all
  ultimately have "streams s1 s' []" by (simp only:)
  then show ?thesis using 1 fresh by (simp add: streams_def)
qed

text \<open>What the receiver's connection hands to its read callback.\<close>

lemma HandleRead_delivers:
  assumes st: "tc_state r = KConnected" "tc_readcb r" and ch: "conn_channel r = Inr (c, ch)" "0 \<le> ch_fd ch"
    and wf: "buffer_wf (tc_input r)" "content (tc_input r) = []" and rs: "read_loop rs (tc_input r) = Inr (b, EndAgain, [])"
    and some: "avail rs \<noteq> []"
  shows "TcpConn_HandleRead rcb scb writable rs r = rbind (rcb (r\<lparr>tc_input := b\<rparr>)) (\<lambda>r. Inr (r, [])) \<and>
    buffer_bytes b = Inr (avail rs)"
proof -
  have b: "buffer_wf b" "content b = map Some (avail rs)" using read_loop_ok [OF wf(1), of rs] wf(2) rs by auto
  then have "Buffer_GetSize b \<noteq> 0" using some GetSize_message by blast
  then show ?thesis using st ch rs buffer_bytes_ok [OF b] by (simp add: TcpConn_HandleRead_def Let_def)
qed

text \<open>
  C11. Lines that are encoded into a buffer and sent on a connection arrive: once the sender's output buffer is
  empty, and the receiver has read what the kernel accepted, in whatever pieces it comes, the receiver's
  read callback runs on an input buffer that decodes to the lines, unchanged and in order.
\<close>

theorem lines_over_connections:
  assumes "conn_live s" and "tc_wire s = []" "out s = []"
    and "ms \<noteq> []" and "\<forall>m \<in> set ms. line_valid m \<and> Suc (length m) < 2 ^ 64" and "\<forall>ws \<in> set (ws # events). no_error ws"
    and "send_lines ms ws events s = Inr s'" and "out s' = []"
    and "tc_state r = KConnected" "tc_readcb r" and "conn_channel r = Inr (c, ch)" "0 \<le> ch_fd ch"
    and "buffer_wf (tc_input r)" "content (tc_input r) = []"
    and "avail rs = tc_wire s'" and "read_loop rs (tc_input r) = Inr (b, EndAgain, [])"
  shows "\<exists>bytes. TcpConn_HandleRead rcb scb writable rs r = rbind (rcb (r\<lparr>tc_input := b\<rparr>)) (\<lambda>r. Inr (r, [])) \<and>
    buffer_bytes b = Inr bytes \<and> unframe line_dec (length ms) bytes = ms"
proof -
  have wire: "tc_wire s' = frame_all line_enc ms" using send_lines_wire [OF assms(1-3) _ assms(6,7)] assms(5,8) by simp
  then have "avail rs \<noteq> []" using assms(4,15) by (cases ms) (simp_all add: line_enc_def)
  moreover have "unframe line_dec (length ms) (tc_wire s') = ms"
    using line.unframe_frame_all [of ms "[]"] assms(5) wire by simp
  ultimately show ?thesis using HandleRead_delivers [OF assms(9-14,16)] assms(15) by simp
qed

lemma example_lines_run:
  "(case send_lines [''ab'', ''c''] [Wrote 2, WAgain] [[WIntr, Wrote 3]] example_conn of
      Inl e \<Rightarrow> False | Inr s \<Rightarrow> out s = [] \<and> tc_wire s = ''ab'' @ [CHR 0x0A] @ ''c'' @ [CHR 0x0A])"
  by code_simp

lemma example_lines_read:
  "(case read_loop [Got ''a'', RIntr, Got (CHR ''b'' # CHR 0x0A # ''c'' @ [CHR 0x0A])] Buffer_new of
      Inl e \<Rightarrow> False | Inr (b, e, rs) \<Rightarrow> e = EndAgain \<and> rs = [])"
  by code_simp

definition example_receiver :: conn where
  "example_receiver = example_conn\<lparr>tc_input := Buffer_new, tc_readcb := True\<rparr>"

lemma example_receiver_channel:
  "case conn_channel example_receiver of Inl e \<Rightarrow> False | Inr (c, ch) \<Rightarrow> 0 \<le> ch_fd ch"
  by code_simp

theorem lines_over_connections_witness:
  "\<exists>b bytes. TcpConn_HandleRead Inr Inr True [Got ''a'', RIntr, Got (CHR ''b'' # CHR 0x0A # ''c'' @ [CHR 0x0A])] example_receiver =
      Inr (example_receiver\<lparr>tc_input := b\<rparr>, []) \<and>
    buffer_bytes b = Inr bytes \<and> unframe line_dec 2 bytes = [''ab'', ''c'']"
proof -
  let ?rs = "[Got ''a'', RIntr, Got (CHR ''b'' # CHR 0x0A # ''c'' @ [CHR 0x0A])]"
  let ?ms = "[''ab'', ''c'']"
  obtain s' where s': "send_lines ?ms [Wrote 2, WAgain] [[WIntr, Wrote 3]] example_conn = Inr s'" "out s' = []"
    "tc_wire s' = ''ab'' @ [CHR 0x0A] @ ''c'' @ [CHR 0x0A]"
    using example_lines_run by (auto split: sum.splits)
  obtain b where b: "read_loop ?rs Buffer_new = Inr (b, EndAgain, [])"
    using example_lines_read by (auto split: sum.splits prod.splits)
  obtain c ch where c: "conn_channel example_receiver = Inr (c, ch)" "0 \<le> ch_fd ch"
    using example_receiver_channel by (auto split: sum.splits prod.splits)
  have fresh: "tc_wire example_conn = []" "out example_conn = []" by (simp_all add: example_conn_def out_def)
  have valid: "?ms \<noteq> []" "\<forall>m \<in> set ?ms. line_valid m \<and> Suc (length m) < 2 ^ 64"
    "\<forall>ws \<in> set ([Wrote 2, WAgain] # [[WIntr, Wrote 3]]). no_error ws"
    by (simp_all add: line_valid_def no_error_def)
  have r: "tc_state example_receiver = KConnected" "tc_readcb example_receiver"
    "buffer_wf (tc_input example_receiver)" "content (tc_input example_receiver) = []"
    by (simp_all add: example_receiver_def example_conn_def buffer_wf_new)
  have "avail ?rs = tc_wire s'" "read_loop ?rs (tc_input example_receiver) = Inr (b, EndAgain, [])"
    using s'(3) b by (simp_all add: example_receiver_def)
  from lines_over_connections [OF example_conn_live fresh valid s'(1,2) r(1,2) c r(3,4) this, where rcb = Inr and scb = Inr and writable = True]
  show ?thesis by (auto simp: numeral_2_eq_2)
qed

end
