(* ===== verification/Connect.thy ===== *)
theory Connect
  imports TcpConn Loop
begin

text \<open>
  Opening connections from the client side: \<^verbatim>\<open>TcpConn::Connect\<close> with its timeout (\<^verbatim>\<open>net/tcpconn.cc\<close>) and the connector
  (\<^verbatim>\<open>net/connector.h\<close>, \<^verbatim>\<open>net/connector.cc\<close>). The answers of \<^verbatim>\<open>bind\<close>, \<^verbatim>\<open>connect\<close> and \<^verbatim>\<open>getsockname\<close> are only logged; what
  counts is the descriptor that \<^verbatim>\<open>socket\<close> returned.
\<close>

section \<open>Connecting a connection\<close>

text \<open>
  The timer of a connection has the length \<^verbatim>\<open>timeout\<close> in seconds. Its callback closes the channel of a connection whose
  handshake has not ended; it makes no calls on the timer queue.
\<close>

definition TcpConn_Connect :: "(rat \<Rightarrow> rat) \<Rightarrow> timestamp \<Rightarrow> timestamp \<Rightarrow> cptr \<Rightarrow> addr \<Rightarrow> int \<Rightarrow> int \<Rightarrow> int \<Rightarrow> conn \<Rightarrow> conn res" where
  "TcpConn_Connect rnd now clock c p fd ids timeout s =
     rbind (TcpConn_Attach c fd ids (s\<lparr>tc_state := KHandShakeing\<rparr>)) (\<lambda>s.
     if timeout \<noteq> 0
     then rbind (EventLoop_RunAfter rnd (tc_tid s) now clock p (of_int timeout) [] (tc_timers s)) (\<lambda>(timerid, q).
          Inr (s\<lparr>tc_timer := timerid, tc_timers := q\<rparr>))
     else Inr s)"

definition TcpConn_connect_timeout :: "conn \<Rightarrow> conn res" where
  "TcpConn_connect_timeout s =
     (if tc_state s = KHandShakeing
      then rbind (conn_channel s) (\<lambda>(c, ch).
           rbind (Channel_Close (tc_tid s) c (tc_poller s)) (\<lambda>p. Inr (s\<lparr>tc_poller := p\<rparr>)))
      else Inr s)"

text \<open>
  The two factories: a new object, whose state has the value of the memory, then \<^verbatim>\<open>Connect\<close> or \<^verbatim>\<open>Attach\<close>.
\<close>

definition TcpConn_blank :: "conn_state \<Rightarrow> int \<Rightarrow> epoll_poller \<Rightarrow> callback tqueue \<Rightarrow> conn" where
  "TcpConn_blank garbage tid p q =
     \<lparr>tc_tid = tid, tc_state = garbage, tc_input = Buffer_new, tc_output = Buffer_new, tc_readcb = False, tc_statecb = False,
      tc_channel = None, tc_timer = (None, 0), tc_poller = p, tc_timers = q, tc_wire = []\<rparr>"

definition TcpConn_CreateConnection :: "(rat \<Rightarrow> rat) \<Rightarrow> timestamp \<Rightarrow> timestamp \<Rightarrow> cptr \<Rightarrow> addr \<Rightarrow> int \<Rightarrow> int \<Rightarrow> int
    \<Rightarrow> conn_state \<Rightarrow> int \<Rightarrow> epoll_poller \<Rightarrow> callback tqueue \<Rightarrow> conn res" where
  "TcpConn_CreateConnection rnd now clock c a fd ids timeout garbage tid p q =
     TcpConn_Connect rnd now clock c a fd ids timeout (TcpConn_blank garbage tid p q)"

definition TcpConn_CreateConnection_fd :: "cptr \<Rightarrow> int \<Rightarrow> int \<Rightarrow> conn_state \<Rightarrow> int \<Rightarrow> epoll_poller \<Rightarrow> callback tqueue \<Rightarrow> conn res" where
  "TcpConn_CreateConnection_fd c fd ids garbage tid p q = TcpConn_Attach c fd ids (TcpConn_blank garbage tid p q)"

lemma Attach_garbage: "TcpConn_Attach c fd ids (s\<lparr>tc_state := g\<rparr>) = TcpConn_Attach c fd ids s"
  by (simp add: TcpConn_Attach_def Let_def)

text \<open>A new connection does not depend on the value that its state had.\<close>

lemma CreateConnection_garbage:
  "TcpConn_CreateConnection rnd now clock c a fd ids timeout g tid p q = TcpConn_CreateConnection rnd now clock c a fd ids timeout g' tid p q"
  "TcpConn_CreateConnection_fd c fd ids g tid p q = TcpConn_CreateConnection_fd c fd ids g' tid p q"
  using Attach_garbage [where s = "TcpConn_blank g tid p q" and g = g']
  by (simp_all add: TcpConn_CreateConnection_def TcpConn_CreateConnection_fd_def TcpConn_Connect_def TcpConn_blank_def)

section \<open>The connector\<close>

datatype connector_state = KDisconnected | KConnecting | KConected

definition kMaxRetryDelayMs :: int where
  "kMaxRetryDelayMs = 30 * 1000"

definition kInitRetryDelayMs :: int where
  "kInitRetryDelayMs = 500"

text \<open>The descriptors that \<^verbatim>\<open>Connect\<close> has opened are recorded; nothing in the class keeps them.\<close>

record connector =
  cn_tid :: int
  cn_connected :: bool
  cn_state :: connector_state
  cn_delay :: int
  cn_opened :: "int list"

definition Connector_new :: "int \<Rightarrow> connector" where
  "Connector_new tid =
     \<lparr>cn_tid = tid, cn_connected = False, cn_state = KDisconnected, cn_delay = kInitRetryDelayMs, cn_opened = []\<rparr>"

definition Connector_SetState :: "connector_state \<Rightarrow> connector \<Rightarrow> connector" where
  "Connector_SetState st k = k\<lparr>cn_state := st\<rparr>"

definition Connector_Connect :: "int \<Rightarrow> connector \<Rightarrow> connector" where
  "Connector_Connect sockfd k = k\<lparr>cn_opened := cn_opened k @ [sockfd]\<rparr>"

definition Connector_StartInLoop :: "int \<Rightarrow> int \<Rightarrow> connector \<Rightarrow> connector res" where
  "Connector_StartInLoop tid sockfd k =
     rbind (cxx_assert (tid = cn_tid k)) (\<lambda>_.
     rbind (cxx_assert (cn_state k = KDisconnected)) (\<lambda>_.
     Inr (if cn_connected k then Connector_Connect sockfd k else k)))"

text \<open>\<^verbatim>\<open>Start\<close> and \<^verbatim>\<open>Stop\<close> set the flag at once and hand the rest to the loop.\<close>

definition Connector_Start :: "connector \<Rightarrow> connector" where
  "Connector_Start k = k\<lparr>cn_connected := True\<rparr>"

definition Connector_Stop :: "connector \<Rightarrow> connector" where
  "Connector_Stop k = k\<lparr>cn_connected := False\<rparr>"

definition Connector_StopInLoop :: "int \<Rightarrow> connector \<Rightarrow> connector res" where
  "Connector_StopInLoop tid k = rbind (cxx_assert (tid = cn_tid k)) (\<lambda>_. Inr k)"

text \<open>
  The calls of any thread and the functors they queue, with the number of functors of each kind that the loop has yet to
  run.
\<close>

datatype connector_step = CStart | CStop | CStartRuns int | CStopRuns

fun connector_run :: "connector_step \<Rightarrow> nat \<times> nat \<times> connector \<Rightarrow> (nat \<times> nat \<times> connector) res" where
  "connector_run CStart (a, b, k) = Inr (Suc a, b, Connector_Start k)"
| "connector_run CStop (a, b, k) = Inr (a, Suc b, Connector_Stop k)"
| "connector_run (CStartRuns fd) (a, b, k) =
     (if a = 0 then Inr (a, b, k) else rbind (Connector_StartInLoop (cn_tid k) fd k) (\<lambda>k. Inr (a - 1, b, k)))"
| "connector_run CStopRuns (a, b, k) =
     (if b = 0 then Inr (a, b, k) else rbind (Connector_StopInLoop (cn_tid k) k) (\<lambda>k. Inr (a, b - 1, k)))"

section \<open>Lemmas\<close>

lemma Attach_ok:
  assumes wf: "ep_wf (tc_poller s)" "ep_tid (tc_poller s) = tc_tid s" and c: "ep_heap (tc_poller s) c = None"
    and fd: "0 \<le> fd" "\<forall>d dh. ep_heap (tc_poller s) d = Some dh \<longrightarrow> ch_fd dh \<noteq> fd"
  shows "\<exists>p ch. TcpConn_Attach c fd ids s = Inr (s\<lparr>tc_state := KHandShakeing, tc_channel := Some c, tc_poller := p\<rparr>) \<and>
    ep_wf p \<and> ep_tid p = tc_tid s \<and> ep_registered p = insert c (ep_registered (tc_poller s)) \<and>
    ep_heap p = (ep_heap (tc_poller s))(c \<mapsto> ch) \<and> ch_fd ch = fd \<and> ch_callbacks ch = {ReadCallback, WriteCallback} \<and>
    IsWriting ch \<and> IsReading ch"
proof -
  let ?ch = "Channel_SetCallback WriteCallback (Channel_SetCallback ReadCallback (Channel_new fd (kWriteEvent OR kReadEvent) ids))"
  let ?p = "(tc_poller s)\<lparr>ep_heap := (ep_heap (tc_poller s))(c \<mapsto> ?ch)\<rparr>"
  have ch: "ch_fd ?ch = fd" "ch_callbacks ?ch = {ReadCallback, WriteCallback}" "IsWriting ?ch" "IsReading ?ch"
    by (auto simp: Channel_SetCallback_def Channel_new_def IsWriting_def IsReading_def has_event_def kWriteEvent_def kReadEvent_def)
  have wf1: "ep_wf ?p" using ep_wf_alloc [OF wf(1) c, of ?ch] fd(2) ch(1) by simp
  have "c \<in> ep_addable ?p"
    using unallocated_unregistered [OF wf(1) c] ch(1) fd(1) by (simp add: ep_addable_def ep_registered_def)
  then obtain p' where p': "EpollPoller_AddChannel (tc_tid s) c ?p = Inr p'" "ep_wf p'" "ep_tid p' = tc_tid s"
    "ep_registered p' = insert c (ep_registered ?p)"
    using EpollPoller_AddChannel_ok [OF wf1, of "tc_tid s" c] wf(2) by auto
  have "ep_heap p' = ep_heap ?p" using AddChannel_heap [OF p'(1)] .
  then show ?thesis
    using p' ch c
    by (intro exI [of _ p'] exI [of _ ?ch]) (simp add: TcpConn_Attach_def Let_def ep_registered_def)
qed

text \<open>What a program needs to open a connection: fresh addresses, a fresh descriptor, and a loop in order.\<close>

definition may_connect :: "(rat \<Rightarrow> rat) \<Rightarrow> cptr \<Rightarrow> addr \<Rightarrow> int \<Rightarrow> conn \<Rightarrow> bool" where
  "may_connect rnd c p fd s \<longleftrightarrow> ep_wf (tc_poller s) \<and> ep_tid (tc_poller s) = tc_tid s \<and> ep_heap (tc_poller s) c = None \<and>
     0 \<le> fd \<and> (\<forall>d dh. ep_heap (tc_poller s) d = Some dh \<longrightarrow> ch_fd dh \<noteq> fd) \<and>
     tq_reach rnd (tc_tid s) (tc_timers s) \<and> tq_heap (tc_timers s) p = None \<and> p \<noteq> uintptr_max \<and> (\<forall>x. 0 \<le> x \<longrightarrow> 0 \<le> rnd x)"

lemma Connect_ok:
  assumes "may_connect rnd c p fd s" and "timeout \<noteq> 0"
  shows "\<exists>s'. TcpConn_Connect rnd now clock c p fd ids timeout s = Inr s' \<and> tc_state s' = KHandShakeing \<and> tc_channel s' = Some c \<and>
    tc_tid s' = tc_tid s \<and> tc_readcb s' = tc_readcb s \<and> tc_statecb s' = tc_statecb s \<and>
    ep_wf (tc_poller s') \<and> ep_tid (tc_poller s') = tc_tid s \<and> c \<in> ep_registered (tc_poller s') \<and>
    tq_reach rnd (tc_tid s) (tc_timers s') \<and> tc_timer s' = (Some p, tq_created (tc_timers s)) \<and>
    tq_heap (tc_timers s') p = Some (Timer_new [] (AddTime rnd now (of_int timeout)) 0 (tq_created (tc_timers s))) \<and>
    (AddTime rnd now (of_int timeout), p) \<in> set (tq_timers (tc_timers s'))"
proof -
  let ?s = "s\<lparr>tc_state := KHandShakeing\<rparr>"
  have m: "ep_wf (tc_poller s)" "ep_tid (tc_poller s) = tc_tid s" "ep_heap (tc_poller s) c = None" "0 \<le> fd"
    "\<forall>d dh. ep_heap (tc_poller s) d = Some dh \<longrightarrow> ch_fd dh \<noteq> fd" "tq_reach rnd (tc_tid s) (tc_timers s)"
    "tq_heap (tc_timers s) p = None" "p \<noteq> uintptr_max" "\<forall>x. 0 \<le> x \<longrightarrow> 0 \<le> rnd x"
    using assms(1) by (simp_all add: may_connect_def)
  obtain pl where pl: "TcpConn_Attach c fd ids ?s = Inr (?s\<lparr>tc_channel := Some c, tc_poller := pl\<rparr>)"
    "ep_wf pl" "ep_tid pl = tc_tid s" "c \<in> ep_registered pl"
    using Attach_ok [of ?s c fd ids] m(1-5) by auto
  obtain q' where "EventLoop_RunAfter rnd (tc_tid s) now clock p (of_int timeout) [] (tc_timers s) =
      Inr ((Some p, tq_created (tc_timers s)), q')" "tq_reach rnd (tc_tid s) q'"
    "tq_heap q' p = Some (Timer_new [] (AddTime rnd now (of_int timeout)) 0 (tq_created (tc_timers s)))"
    "(AddTime rnd now (of_int timeout), p) \<in> set (tq_timers q')"
    using RunAfter_ok [OF m(6,9,7,8), of now clock "of_int timeout" "[]"] by blast
  then show ?thesis using pl assms(2) by (simp add: TcpConn_Connect_def)
qed

section \<open>Properties\<close>

text \<open>
  A connect timeout that runs out during the handshake closes the descriptor and unregisters the channel, and does nothing
  else: the connection stays in its handshake with its callbacks uncalled, and no event will reach it any more.
\<close>

theorem TcpConn_connect_timeout_result:
  assumes "may_connect rnd c p fd s" and "timeout \<noteq> 0" and "TcpConn_Connect rnd now clock c p fd ids timeout s = Inr s'"
  shows "\<exists>pl ch. TcpConn_connect_timeout s' = Inr (s'\<lparr>tc_poller := pl\<rparr>) \<and> tc_state s' = KHandShakeing \<and>
    c \<notin> ep_registered pl \<and> c \<notin> snd ` ran (ep_interest pl) \<and> ep_heap pl c = Some ch \<and> ch_fd ch = - 1"
proof -
  have s': "tc_state s' = KHandShakeing" "tc_channel s' = Some c" "tc_tid s' = tc_tid s"
    "ep_wf (tc_poller s')" "ep_tid (tc_poller s') = tc_tid s" "c \<in> ep_registered (tc_poller s')"
    using Connect_ok [OF assms(1,2), of now clock ids] assms(3) by auto
  obtain ch where ch: "ep_heap (tc_poller s') c = Some ch" "0 \<le> ch_fd ch" using ep_registeredE [OF s'(4,6)] by metis
  obtain pl where pl: "Channel_Close (tc_tid s') c (tc_poller s') = Inr pl" "ep_wf pl"
    "ep_registered pl = ep_registered (tc_poller s') - {c}"
    using Channel_Close_ok [OF s'(4,5,6)] s'(3) by auto
  have "ep_heap pl c = Some (ch\<lparr>ch_fd := - 1\<rparr>)"
    using pl(1) ch by (auto simp: Channel_Close_def EpollPoller_RemoveChannel_def rbind_Inr_iff)
  moreover have "c \<notin> snd ` ran (ep_interest pl)"
    using interest_registered [OF pl(2)] pl(3) by auto
  moreover have "TcpConn_connect_timeout s' = Inr (s'\<lparr>tc_poller := pl\<rparr>)"
    using s' ch pl(1) by (simp add: TcpConn_connect_timeout_def conn_channel_def)
  ultimately show ?thesis using s'(1) pl(3) by auto
qed

text \<open>
  The identifier of the connect timer outlives the timer: once the timer has fired, a connection that was established in time
  cannot be cleaned up any more, because the clean-up cancels the timer through its deleted object.
\<close>

theorem TcpConn_Connect_timer_dangles:
  assumes "may_connect rnd c p fd s" and "timeout \<noteq> 0" and "TcpConn_Connect rnd now clock c p fd ids timeout s = Inr s'"
    and "AddTime rnd now (of_int timeout) \<le> t" and "TimeStamp 0 < t"
    and "TimerQueue_HandleRead (run_actions (tc_tid s) clock1) rnd (tc_tid s) clock2 t (tc_timers s') = Inr q"
    and "\<not> tc_readcb s"
  shows "TcpConn_CleanUp rcb scb (s'\<lparr>tc_state := KConnected, tc_timers := q\<rparr>) = Inl UseAfterFree"
proof -
  have s': "tc_tid s' = tc_tid s" "tc_readcb s' = tc_readcb s" "tq_reach rnd (tc_tid s) (tc_timers s')"
    "tc_timer s' = (Some p, tq_created (tc_timers s))"
    "tq_heap (tc_timers s') p = Some (Timer_new [] (AddTime rnd now (of_int timeout)) 0 (tq_created (tc_timers s)))"
    "(AddTime rnd now (of_int timeout), p) \<in> set (tq_timers (tc_timers s'))"
    using Connect_ok [OF assms(1,2), of now clock ids] assms(3) by auto
  have rnd: "\<forall>x. 0 \<le> x \<longrightarrow> 0 \<le> rnd x" using assms(1) by (simp add: may_connect_def)
  have ok: "tq_wf (tc_timers s')" "intervals_ok (tc_timers s')" "tc_tid s = tq_tid (tc_timers s')"
    using tq_reach_ok [OF s'(3) rnd] by simp_all
  have "(AddTime rnd now (of_int timeout), p) \<in> set (expired_at t (tc_timers s'))"
    using s'(6) assms(4) by (simp add: expired_at_def)
  from Cancel_after_fire_lemma [OF ok assms(5) rnd assms(6) this s'(5)]
  have "CancelTimerIdInLoop (tc_tid s) (tc_timer s') q = Inl UseAfterFree"
    using s'(4) by (simp add: Timer_new_def)
  then show ?thesis using s'(1,2) assms(7) by (simp add: TcpConn_CleanUp_def Let_def)
qed

definition example_client :: conn where
  "example_client = example_conn\<lparr>tc_state := KInvalid, tc_channel := None, tc_poller := EpollPoller_new 9 Map.empty\<rparr>"

lemma example_client_may: "may_connect (\<lambda>x. x) 1 64 5 example_client"
  using ep_reach_wf [OF ep_reach.start, of 9] tq_reach.start [of "\<lambda>x. x" 9]
  by (simp add: may_connect_def example_client_def example_conn_def EpollPoller_new_def TimerQueue_new_def uintptr_max_def)

theorem TcpConn_connect_timeout_result_witness:
  "\<exists>s' pl. TcpConn_Connect (\<lambda>x. x) (TimeStamp 1) (TimeStamp 2) 1 64 5 0 3 example_client = Inr s' \<and>
    TcpConn_connect_timeout s' = Inr (s'\<lparr>tc_poller := pl\<rparr>) \<and> 1 \<notin> ep_registered pl \<and> tc_state s' = KHandShakeing"
proof -
  obtain s' where s': "TcpConn_Connect (\<lambda>x. x) (TimeStamp 1) (TimeStamp 2) 1 64 5 0 3 example_client = Inr s'"
    using Connect_ok [OF example_client_may, of 3 "TimeStamp 1" "TimeStamp 2" 0] by auto
  then show ?thesis using TcpConn_connect_timeout_result [OF example_client_may _ s'] by auto
qed

lemma example_connect_fires:
  "\<not> isl (rbind (TcpConn_Connect (\<lambda>x. x) (TimeStamp 1) (TimeStamp 2) 1 64 5 0 3 example_client) (\<lambda>s'.
     TimerQueue_HandleRead (run_actions 9 (TimeStamp 3000002)) (\<lambda>x. x) 9 (TimeStamp 3000003) (TimeStamp 3000001) (tc_timers s')))"
  by code_simp

theorem TcpConn_Connect_timer_dangles_witness:
  "\<exists>s' q. TcpConn_Connect (\<lambda>x. x) (TimeStamp 1) (TimeStamp 2) 1 64 5 0 3 example_client = Inr s' \<and>
    TcpConn_CleanUp Inr Inr (s'\<lparr>tc_state := KConnected, tc_timers := q\<rparr>) = Inl UseAfterFree"
proof -
  obtain s' where s': "TcpConn_Connect (\<lambda>x. x) (TimeStamp 1) (TimeStamp 2) 1 64 5 0 3 example_client = Inr s'"
    "tc_tid s' = 9" "tq_reach (\<lambda>x. x) 9 (tc_timers s')"
    using Connect_ok [OF example_client_may, of 3 "TimeStamp 1" "TimeStamp 2" 0] by (auto simp: example_client_def example_conn_def)
  obtain q where "TimerQueue_HandleRead (run_actions 9 (TimeStamp 3000002)) (\<lambda>x. x) 9 (TimeStamp 3000003) (TimeStamp 3000001) (tc_timers s') = Inr q"
    using example_connect_fires s'(1) by (cases "TimerQueue_HandleRead (run_actions 9 (TimeStamp 3000002)) (\<lambda>x. x) 9 (TimeStamp 3000003) (TimeStamp 3000001) (tc_timers s')") auto
  then have "TcpConn_CleanUp Inr Inr (s'\<lparr>tc_state := KConnected, tc_timers := q\<rparr>) = Inl UseAfterFree"
    using TcpConn_Connect_timer_dangles [OF example_client_may _ s'(1), of "TimeStamp 3000001"]
    by (simp add: example_client_def example_conn_def AddTime_def double_to_int_def kMicroSecondsPerSecond_def)
  then show ?thesis using s'(1) by blast
qed

text \<open>
  The connector never fails and never gets anywhere: whatever the order of \<^verbatim>\<open>Start\<close> and \<^verbatim>\<open>Stop\<close> and of the functors they
  queue, no assertion fails, the state stays disconnected and the retry delay stays what it was, and at most one descriptor is
  opened per \<^verbatim>\<open>Start\<close>.
\<close>

definition connector_inv :: "int \<Rightarrow> nat \<Rightarrow> nat \<times> nat \<times> connector \<Rightarrow> bool" where
  "connector_inv tid n x \<longleftrightarrow> (case x of (a, b, k) \<Rightarrow> cn_tid k = tid \<and> cn_state k = KDisconnected \<and> cn_delay k = kInitRetryDelayMs \<and>
     a + length (cn_opened k) \<le> n)"

lemma connector_run_inv:
  assumes "connector_inv tid n x"
  shows "\<exists>x'. connector_run st x = Inr x' \<and> connector_inv tid (n + count_list [st] CStart) x'"
  using assms
  by (cases st; cases x) (auto simp: connector_inv_def Connector_Start_def Connector_Stop_def Connector_StartInLoop_def
      Connector_StopInLoop_def Connector_Connect_def)

lemma connector_runs_inv:
  assumes "connector_inv tid n x"
  shows "\<exists>x'. rfold connector_run xs x = Inr x' \<and> connector_inv tid (n + count_list xs CStart) x'"
  using assms
proof (induction xs arbitrary: n x)
  case (Cons st xs)
  obtain x1 where x1: "connector_run st x = Inr x1" "connector_inv tid (n + count_list [st] CStart) x1"
    using connector_run_inv [OF Cons.prems] by blast
  then show ?case using Cons.IH [OF x1(2)] by (auto split: if_splits)
qed simp

theorem Connector_never_connects:
  "\<exists>a b k. rfold connector_run xs (0, 0, Connector_new tid) = Inr (a, b, k) \<and> cn_state k = KDisconnected \<and>
     cn_delay k = kInitRetryDelayMs \<and> length (cn_opened k) \<le> count_list xs CStart"
proof -
  have "connector_inv tid 0 (0, 0, Connector_new tid)" by (simp add: connector_inv_def Connector_new_def)
  from connector_runs_inv [OF this, of xs] show ?thesis by (fastforce simp: connector_inv_def)
qed

end
