(* ===== verification/Util.thy ===== *)
theory Util
  imports JNet_Prelude
begin

text \<open>
  What the code uses of C strings and \<^verbatim>\<open>std::string\<close>, and the helpers of \<^verbatim>\<open>net/util.h\<close> and \<^verbatim>\<open>net/util.cc\<close> built on
  it. Positions are integers because the code stores the result of \<^verbatim>\<open>find\<close> in an \<^verbatim>\<open>int\<close>, where a failed
  search is -1; a negative count converts to a number larger than every string. The text that a \<^verbatim>\<open>printf\<close> format
  gives is written out where it is used.
\<close>

section \<open>Strings\<close>

fun prefix_at :: "byte list \<Rightarrow> byte list \<Rightarrow> bool" where
  "prefix_at [] buf = True"
| "prefix_at (p # ps) [] = False"
| "prefix_at (p # ps) (b # bs) = (p = b \<and> prefix_at ps bs)"

text \<open>The first position of a pattern, counted from \<open>n\<close>; -1 when there is none.\<close>

fun find_pat :: "byte list \<Rightarrow> nat \<Rightarrow> byte list \<Rightarrow> int" where
  "find_pat pat n [] = (if pat = [] then int n else - 1)"
| "find_pat pat n (b # bs) = (if prefix_at pat (b # bs) then int n else find_pat pat (Suc n) bs)"

definition string_find :: "byte list \<Rightarrow> byte list \<Rightarrow> int \<Rightarrow> int" where
  "string_find buf pat pos =
     (if pos < 0 \<or> int (length buf) < pos then - 1 else find_pat pat (nat pos) (drop (nat pos) buf))"

definition substr :: "byte list \<Rightarrow> int \<Rightarrow> int \<Rightarrow> byte list res" where
  "substr buf pos n =
     (if pos < 0 \<or> int (length buf) < pos then Inl OutOfRange
      else Inr (let r = drop (nat pos) buf in if n < 0 then r else take (nat n) r))"

text \<open>Indexing a string; the position behind the last character holds a NUL.\<close>

definition string_at :: "byte list \<Rightarrow> int \<Rightarrow> byte res" where
  "string_at buf i =
     (if i < 0 \<or> int (length buf) < i then Inl OutOfBounds
      else if i = int (length buf) then Inr (CHR 0x00) else Inr (buf ! nat i))"

definition isspace :: "byte \<Rightarrow> bool" where
  "isspace c \<longleftrightarrow> c \<in> {CHR '' '', CHR 0x09, CHR 0x0A, CHR 0x0B, CHR 0x0C, CHR 0x0D}"

definition isdigit :: "byte \<Rightarrow> bool" where
  "isdigit c \<longleftrightarrow> 48 \<le> (of_char c :: nat) \<and> (of_char c :: nat) \<le> 57"

fun digits_value :: "nat \<Rightarrow> byte list \<Rightarrow> nat" where
  "digits_value n [] = n"
| "digits_value n (c # cs) = (if isdigit c then digits_value (10 * n + (of_char c - 48)) cs else n)"

text \<open>\<^verbatim>\<open>atoi\<close>: leading white space, an optional sign, digits up to the first other character.\<close>

definition atoi :: "byte list \<Rightarrow> int" where
  "atoi s =
     (case dropWhile isspace s of
        [] \<Rightarrow> 0
      | c # cs \<Rightarrow>
          if c = CHR ''-'' then - int (digits_value 0 cs)
          else if c = CHR ''+'' then int (digits_value 0 cs)
          else int (digits_value 0 (c # cs)))"

fun decimal :: "nat \<Rightarrow> byte list" where
  "decimal n = (if n < 10 then [char_of (48 + n)] else decimal (n div 10) @ [char_of (48 + n mod 10)])"

declare decimal.simps [simp del]

text \<open>\<^verbatim>\<open>snprintf\<close> into an array of size n keeps n - 1 characters; the C strings end at their first NUL.\<close>

definition snprintf :: "nat \<Rightarrow> byte list \<Rightarrow> byte list" where
  "snprintf n s = take (n - 1) s"

definition signed_decimal :: "int \<Rightarrow> byte list" where
  "signed_decimal i = (if i < 0 then CHR ''-'' # decimal (nat (- i)) else decimal (nat i))"

section \<open>Helpers\<close>

text \<open>
  \<^verbatim>\<open>Format\<close> prints into 200 bytes. A longer text is printed again with the argument list that the first
  call has used up, which is undefined.
\<close>

definition Util_Format :: "byte list \<Rightarrow> byte list res" where
  "Util_Format text = (if length text < 200 then Inr text else Inl Indeterminate)"

text \<open>\<^verbatim>\<open>strtol\<close> stops at the limits of its result.\<close>

definition Util_Atoi :: "byte list \<Rightarrow> int" where
  "Util_Atoi s = max (- (2 ^ 63)) (min (2 ^ 63 - 1) (atoi s))"

text \<open>A number narrowed to an \<^verbatim>\<open>int\<close>.\<close>

definition to_int32 :: "int \<Rightarrow> int" where
  "to_int32 i = sint (word_of_int i :: int32)"

definition TimeMilli :: "int \<Rightarrow> int" where
  "TimeMilli micro = micro div 1000"

text \<open>\<^verbatim>\<open>SteadyMilli\<close> calls itself: a call never returns.\<close>

partial_function (option) SteadyMilli :: "unit \<Rightarrow> int option" where
  "SteadyMilli u = Option.bind (SteadyMilli u) (\<lambda>t. Some (t div 1000))"

section \<open>Lemmas\<close>

lemma prefix_at_append [simp]: "prefix_at pat (pat @ rest)"
  by (induction pat) auto

lemma find_pat_first:
  assumes "pat = p # ps" and "p \<notin> set xs"
  shows "find_pat pat n (xs @ pat @ rest) = int (n + length xs)"
  using assms(2)
proof (induction xs arbitrary: n)
  case Nil
  then show ?case using prefix_at_append [of pat rest] assms(1) by simp
next
  case (Cons x xs)
  then have "\<not> prefix_at pat (x # xs @ pat @ rest)" using assms(1) by auto
  then show ?case using Cons by simp
qed

lemma find_pat_none: "p \<notin> set xs \<Longrightarrow> find_pat (p # ps) n xs = - 1"
  by (induction xs arbitrary: n) auto

lemma string_find_first:
  assumes "p \<notin> set xs"
  shows "string_find (ys @ xs @ (p # ps) @ rest) (p # ps) (int (length ys)) = int (length ys + length xs)"
  using find_pat_first [OF refl assms, of ps "length ys" rest] by (simp add: string_find_def)

lemma substr_mid: "pos = int (length xs) \<Longrightarrow> n = int (length ys) \<Longrightarrow> substr (xs @ ys @ zs) pos n = Inr ys"
  by (simp add: substr_def)

text \<open>Decimal numbers: printed digits are read back.\<close>

lemma isdigit_char [simp]: "d < 10 \<Longrightarrow> isdigit (char_of (48 + d :: nat))"
  by (simp add: isdigit_def)

lemma digit_value [simp]: "d < 10 \<Longrightarrow> of_char (char_of (48 + d :: nat)) - (48 :: nat) = d"
  by simp

lemma decimal_digits: "c \<in> set (decimal n) \<Longrightarrow> isdigit c"
proof (induction n rule: less_induct)
  case (less n)
  show ?case
  proof (cases "n < 10")
    case True
    then show ?thesis using less.prems by (subst (asm) decimal.simps) simp
  next
    case False
    then have "c \<in> set (decimal (n div 10)) \<or> c = char_of (48 + n mod 10)" using less.prems by (subst (asm) decimal.simps) auto
    then show ?thesis using less.IH [of "n div 10"] False by auto
  qed
qed

lemma digits_value_append:
  "\<forall>c \<in> set xs. isdigit c \<Longrightarrow> digits_value n (xs @ ys) = digits_value (digits_value n xs) ys"
  by (induction xs arbitrary: n) auto

lemma digits_value_decimal: "digits_value 0 (decimal n) = n"
proof (induction n rule: less_induct)
  case (less n)
  show ?case
  proof (cases "n < 10")
    case True
    then show ?thesis by (subst decimal.simps) simp
  next
    case False
    have "digits_value 0 (decimal n) = digits_value (digits_value 0 (decimal (n div 10))) [char_of (48 + n mod 10)]"
      using False decimal_digits by (subst decimal.simps) (simp add: digits_value_append)
    also have "\<dots> = 10 * (n div 10) + n mod 10" using less.IH [of "n div 10"] False by simp
    finally show ?thesis by simp
  qed
qed

lemma decimal_not_Nil [simp]: "decimal n \<noteq> []"
  by (subst decimal.simps) simp

lemma decimal_inj [simp]: "decimal m = decimal n \<longleftrightarrow> m = n"
  using digits_value_decimal by metis

lemma isdigit_plain: "isdigit c \<Longrightarrow> \<not> isspace c \<and> c \<noteq> CHR ''-'' \<and> c \<noteq> CHR ''+'' \<and> c \<noteq> CHR ''.'' \<and> c \<noteq> CHR '':'' \<and> c \<noteq> CHR 0x0A \<and> c \<noteq> CHR 0x00"
  by (auto simp: isdigit_def isspace_def)

lemma decimal_no_newline: "CHR 0x0A \<notin> set (decimal n)" "CHR 0x00 \<notin> set (decimal n)"
  using decimal_digits isdigit_plain by blast+

lemma atoi_decimal:
  assumes "rest = [] \<or> \<not> isdigit (hd rest)"
  shows "atoi (decimal n @ rest) = int n"
proof -
  obtain c cs where c: "decimal n = c # cs" by (cases "decimal n") auto
  then have "isdigit c" using decimal_digits [of c n] by simp
  then have p: "\<not> isspace c" "c \<noteq> CHR ''-''" "c \<noteq> CHR ''+''" using isdigit_plain by auto
  have "digits_value 0 (decimal n @ rest) = n"
    using assms decimal_digits digits_value_append [of "decimal n" 0 rest] digits_value_decimal [of n] by (cases rest) auto
  then show ?thesis using c p by (simp add: atoi_def)
qed

lemma decimal_length: "n < 10 ^ Suc k \<Longrightarrow> length (decimal n) \<le> Suc k"
proof (induction k arbitrary: n)
  case 0
  then show ?case by (subst decimal.simps) simp
next
  case (Suc k)
  have "n div 10 < 10 ^ Suc k" using Suc.prems by (simp add: less_mult_imp_div_less mult.commute)
  then show ?case using Suc.IH [of "n div 10"] by (subst decimal.simps) simp
qed

lemma not_isdigit_dot [simp]: "\<not> isdigit (CHR ''.'')" "\<not> isdigit (CHR '':'')"
  by (auto simp: isdigit_def)

lemma takeWhile_decimal: "\<not> isdigit c \<Longrightarrow> takeWhile isdigit (decimal n @ c # r) = decimal n"
  using decimal_digits by (simp add: takeWhile_append2)

lemma decimal_field_inj:
  assumes "\<not> isdigit c"
  shows "decimal m @ c # r = decimal n @ c # s \<longleftrightarrow> m = n \<and> r = s"
  using takeWhile_decimal [OF assms, of m r] takeWhile_decimal [OF assms, of n s] by (metis append_same_eq decimal_inj same_append_eq list.inject)

lemma signed_decimal_length: "\<bar>i\<bar> < 10 ^ Suc k \<Longrightarrow> length (signed_decimal i) \<le> Suc (Suc k)"
  using decimal_length [of "nat \<bar>i\<bar>" k] by (auto simp: signed_decimal_def nat_less_iff abs_if)

lemma not_isdigit_slash [simp]: "\<not> isdigit (CHR ''/'')"
  by (simp add: isdigit_def)

lemma decimal_not_minus: "decimal n @ r \<noteq> CHR ''-'' # s"
proof
  assume eq: "decimal n @ r = CHR ''-'' # s"
  then have "CHR ''-'' \<in> set (decimal n)" by (cases "decimal n") auto
  then show False using decimal_digits isdigit_plain by blast
qed

lemma signed_decimal_field_inj:
  assumes "\<not> isdigit c"
  shows "signed_decimal i @ c # r = signed_decimal j @ c # s \<longleftrightarrow> i = j \<and> r = s"
  using decimal_field_inj [OF assms] decimal_not_minus not_sym [OF decimal_not_minus] by (auto simp: signed_decimal_def)

text \<open>A number followed by something that does not start with a digit.\<close>

lemma decimal_tail_inj:
  assumes "r = [] \<or> \<not> isdigit (hd r)" and "s = [] \<or> \<not> isdigit (hd s)"
  shows "decimal m @ r = decimal n @ s \<longleftrightarrow> m = n \<and> r = s"
proof -
  have "takeWhile isdigit (decimal k @ x) = decimal k" if "x = [] \<or> \<not> isdigit (hd x)" for k x
    using that decimal_digits takeWhile_decimal by (cases x) (auto simp: takeWhile_eq_all_conv)
  from this [OF assms(1), of m] this [OF assms(2), of n] show ?thesis by (metis append_same_eq decimal_inj same_append_eq)
qed

lemma signed_decimal_tail_inj:
  assumes "r = [] \<or> \<not> isdigit (hd r)" and "s = [] \<or> \<not> isdigit (hd s)"
  shows "signed_decimal i @ r = signed_decimal j @ s \<longleftrightarrow> i = j \<and> r = s"
  using decimal_tail_inj [OF assms] decimal_not_minus not_sym [OF decimal_not_minus] by (auto simp: signed_decimal_def)

lemma to_int32_id: "- (2 ^ 31) \<le> i \<Longrightarrow> i < 2 ^ 31 \<Longrightarrow> to_int32 i = i"
  using sint_sbintrunc' [of i, where 'a = 32] signed_take_bit_int_eq_self [of 31 i] by (simp add: to_int32_def)

text \<open>The first match of a pattern.\<close>

lemma find_pat_least:
  assumes "\<forall>j < k. \<not> prefix_at pat (drop j buf)" and "prefix_at pat (drop k buf)" and "k \<le> length buf" and "pat \<noteq> []"
  shows "find_pat pat n buf = int (n + k)"
  using assms
proof (induction k arbitrary: n buf)
  case 0
  then show ?case by (cases buf; cases pat) auto
next
  case (Suc k)
  then obtain b bs where buf: "buf = b # bs" by (cases buf) auto
  have "\<not> prefix_at pat buf" using Suc.prems(1) by (metis drop0 zero_less_Suc)
  moreover have "find_pat pat (Suc n) bs = int (Suc n + k)"
  proof (rule Suc.IH)
    show "\<forall>j < k. \<not> prefix_at pat (drop j bs)" using Suc.prems(1) buf by (metis drop_Suc_Cons Suc_less_eq)
  qed (use Suc.prems buf in simp_all)
  ultimately show ?case using buf by simp
qed

end
