(* ===== verification/Net.thy ===== *)
theory Net
  imports Util
begin

text \<open>
  Socket addresses (\<^verbatim>\<open>net/net.h\<close>, \<^verbatim>\<open>net/net.cc\<close>). An address is what \<^verbatim>\<open>sockaddr_in\<close> holds: port and IP number in
  network order, so on this host with their bytes swapped. Resolving a host name is the system's: it is
  an argument that may give an IPv4 number in network order.
\<close>

record ip4addr =
  sin_port :: "16 word"
  sin_addr :: "32 word"

definition bswap16 :: "16 word \<Rightarrow> 16 word" where
  "bswap16 w = push_bit 8 w OR drop_bit 8 w"

definition INADDR_ANY :: "32 word" where
  "INADDR_ANY = 0"

definition INADDR_NONE :: "32 word" where
  "INADDR_NONE = - 1"

definition GetHostByName :: "(byte list \<Rightarrow> 32 word option) \<Rightarrow> byte list \<Rightarrow> 32 word" where
  "GetHostByName resolve host = (case resolve host of Some addr \<Rightarrow> addr | None \<Rightarrow> INADDR_NONE)"

text \<open>A host that cannot be resolved is only logged.\<close>

definition Ip4Addr_new :: "(byte list \<Rightarrow> 32 word option) \<Rightarrow> byte list \<Rightarrow> 16 word \<Rightarrow> ip4addr" where
  "Ip4Addr_new resolve host port =
     \<lparr>sin_port = bswap16 port, sin_addr = (if host \<noteq> [] then GetHostByName resolve host else INADDR_ANY)\<rparr>"

text \<open>The port is returned as a \<^verbatim>\<open>short\<close>, a signed number of 16 bits.\<close>

definition GetPort :: "ip4addr \<Rightarrow> 16 word" where
  "GetPort a = bswap16 (sin_port a)"

definition GetIpInt :: "ip4addr \<Rightarrow> 32 word" where
  "GetIpInt a = ntohl (sin_addr a)"

definition IsIpValid :: "ip4addr \<Rightarrow> bool" where
  "IsIpValid a \<longleftrightarrow> sin_addr a \<noteq> INADDR_NONE"

definition ip_byte :: "nat \<Rightarrow> 32 word \<Rightarrow> nat" where
  "ip_byte k uip = unat (drop_bit k uip AND 0xff)"

definition ip_text :: "32 word \<Rightarrow> byte list" where
  "ip_text uip = decimal (ip_byte 0 uip) @ ''.'' @ decimal (ip_byte 8 uip) @ ''.'' @ decimal (ip_byte 16 uip) @ ''.'' @ decimal (ip_byte 24 uip)"

definition Ip4Addr_GetIp :: "ip4addr \<Rightarrow> byte list res" where
  "Ip4Addr_GetIp a = Util_Format (ip_text (sin_addr a))"

definition Ip4Addr_ToString :: "ip4addr \<Rightarrow> byte list res" where
  "Ip4Addr_ToString a = Util_Format (ip_text (sin_addr a) @ '':'' @ decimal (unat (bswap16 (sin_port a))))"

text \<open>
  Switching a descriptor between blocking and non-blocking reads its flags and sets them changed in one bit; the two
  system calls are arguments. A failure to read them returns the error number, a failure to set them -1.
\<close>

definition O_NONBLOCK :: "32 word" where
  "O_NONBLOCK = 0x800"

definition SetNonBlock :: "(unit \<Rightarrow> int + 32 word) \<Rightarrow> (32 word \<Rightarrow> int) \<Rightarrow> bool \<Rightarrow> int" where
  "SetNonBlock getfl setfl val =
     (case getfl () of
        Inl err \<Rightarrow> err
      | Inr flags \<Rightarrow> if val then setfl (flags OR O_NONBLOCK) else setfl (flags AND NOT O_NONBLOCK))"

section \<open>Lemmas\<close>

lemma bswap16_bswap16 [simp]: "bswap16 (bswap16 w) = w"
  by (rule bit_word_eqI) (auto simp: bswap16_def bit_simps)

lemma bswap16_inj [simp]: "bswap16 v = bswap16 w \<longleftrightarrow> v = w"
  by (metis bswap16_bswap16)

lemma ip_byte_take_bit: "ip_byte k w = take_bit 8 (unat (drop_bit k w))"
proof -
  have "drop_bit k w AND 0xff = take_bit 8 (drop_bit k w)" by (simp add: take_bit_eq_mask mask_eq_exp_minus_1)
  then show ?thesis by (simp add: ip_byte_def unsigned_take_bit_eq)
qed

lemma bit_ip_byte: "bit (ip_byte k w) n \<longleftrightarrow> n < 8 \<and> bit w (k + n)"
  by (auto simp: ip_byte_take_bit bit_take_bit_iff bit_unsigned_iff bit_drop_bit_eq)

lemma ip_byte_less: "ip_byte k w < 256"
  using take_bit_nat_less_exp [of 8 "unat (drop_bit k w)"] by (simp add: ip_byte_take_bit)

lemma ip_byte_eqD: "ip_byte k v = ip_byte k w \<Longrightarrow> k \<le> n \<Longrightarrow> n < k + 8 \<Longrightarrow> bit v n = bit w n"
  using bit_ip_byte [of k v "n - k"] bit_ip_byte [of k w "n - k"] by auto

lemma ip_bytes_inj:
  assumes "ip_byte 0 v = ip_byte 0 w" "ip_byte 8 v = ip_byte 8 w" "ip_byte 16 v = ip_byte 16 w" "ip_byte 24 v = ip_byte 24 w"
  shows "v = w"
proof (rule bit_word_eqI)
  fix n assume "n < LENGTH(32)"
  then consider "n < 8" | "8 \<le> n \<and> n < 16" | "16 \<le> n \<and> n < 24" | "24 \<le> n \<and> n < 32" by fastforce
  then show "bit v n = bit w n"
    using ip_byte_eqD [OF assms(1), of n] ip_byte_eqD [OF assms(2), of n] ip_byte_eqD [OF assms(3), of n]
      ip_byte_eqD [OF assms(4), of n] by cases auto
qed

lemma ip_text_inj: "ip_text v @ CHR '':'' # r = ip_text w @ CHR '':'' # s \<longleftrightarrow> v = w \<and> r = s"
  using ip_bytes_inj [of v w] by (auto simp: ip_text_def decimal_field_inj)

lemma decimal_ip_byte: "length (decimal (ip_byte k w)) \<le> 3"
  using decimal_length [of "ip_byte k w" 2] ip_byte_less [of k w] by simp

lemma ip_text_length: "length (ip_text w) \<le> 15"
  using decimal_ip_byte [of 0 w] decimal_ip_byte [of 8 w] decimal_ip_byte [of 16 w] decimal_ip_byte [of 24 w]
  by (simp add: ip_text_def)

lemma decimal_port: "length (decimal (unat (p :: 16 word))) \<le> 5"
  using decimal_length [of "unat p" 4] unsigned_less [of p, where ?'a = nat] by simp

lemma ToString_text:
  "Ip4Addr_ToString a = Inr (ip_text (sin_addr a) @ CHR '':'' # decimal (unat (GetPort a)))"
  using ip_text_length [of "sin_addr a"] decimal_port [of "GetPort a"]
  by (simp add: Ip4Addr_ToString_def Util_Format_def GetPort_def)

section \<open>Properties\<close>

text \<open>
  The text of an address determines it: it always fits the 200 bytes of \<^verbatim>\<open>Format\<close>, and two addresses are
  printed alike only when port and IP number agree.
\<close>

theorem Ip4Addr_ToString_inj:
  "(\<exists>text. Ip4Addr_ToString a = Inr text \<and> length text \<le> 21) \<and> (Ip4Addr_ToString a = Ip4Addr_ToString b \<longleftrightarrow> a = b)"
proof
  show "\<exists>text. Ip4Addr_ToString a = Inr text \<and> length text \<le> 21"
    using ip_text_length [of "sin_addr a"] decimal_port [of "GetPort a"] by (simp add: ToString_text)
  show "Ip4Addr_ToString a = Ip4Addr_ToString b \<longleftrightarrow> a = b"
    by (cases a; cases b) (auto simp: ToString_text ip_text_inj GetPort_def simp flip: word_unat_eq_iff)
qed

text \<open>
  The port read from an address is the one it was made with, as a signed number: a port of 32768 or more
  is read back negative.
\<close>

theorem Ip4Addr_GetPort_signed:
  "GetPort (Ip4Addr_new resolve host port) = port \<and>
   sint (GetPort (Ip4Addr_new resolve host port)) = (if uint port < 32768 then uint port else uint port - 65536)"
proof -
  have "sint port = (if uint port < 32768 then uint port else uint port - 65536)" using sint_cases [of port] by simp
  then show ?thesis by (simp add: GetPort_def Ip4Addr_new_def)
qed

end
