(* ===== verification/TcpServer.thy ===== *)
theory TcpServer
  imports Threads Connect Net
begin

text \<open>
  The TCP server (\<^verbatim>\<open>net/tcpserver.h\<close>, \<^verbatim>\<open>net/tcpserver.cc\<close>). Loops are numbers; connections are numbered in the order of
  their creation, and that number stands for the address of the object. What the server hands to other objects is recorded in
  order: the calls of its creation callback, the attachments and closings it gives to loops, and the callbacks it installs.
  The answers of the socket calls are arguments; when the answers to \<^verbatim>\<open>accept\<close> are used up, the descriptor, which its channel
  has made non-blocking, is not ready.
\<close>

section \<open>State\<close>

datatype server_event =
    Created nat
  | AttachIn nat nat int ip4addr ip4addr
  | SetOnState nat
  | SetOnRead nat
  | CloseIn nat nat
  | QueueClose nat nat

record server =
  sv_tid :: int
  sv_addr :: ip4addr
  sv_listen :: "cptr option"
  sv_statecb :: bool
  sv_readcb :: bool
  sv_createcb :: bool
  sv_pool :: "nat elpool"
  sv_conns :: "nat set"
  sv_fresh :: nat
  sv_poller :: epoll_poller
  sv_log :: "server_event list"

text \<open>\<open>loop\<close> is the base loop, whose poller the listening channel uses. Without an address the one that \<^verbatim>\<open>Ip4Addr()\<close> makes is used.\<close>

definition TcpServer_new :: "int \<Rightarrow> nat \<Rightarrow> epoll_poller \<Rightarrow> ip4addr option \<Rightarrow> server" where
  "TcpServer_new tid loop p addr =
     \<lparr>sv_tid = tid, sv_addr = (case addr of Some a \<Rightarrow> a | None \<Rightarrow> Ip4Addr_new (\<lambda>_. None) [] 0), sv_listen = None,
      sv_statecb = False, sv_readcb = False, sv_createcb = False, sv_pool = EventLoopPool_new loop, sv_conns = {}, sv_fresh = 0,
      sv_poller = p, sv_log = []\<rparr>"

definition TcpServer_OnConnCreate :: "server \<Rightarrow> server" where
  "TcpServer_OnConnCreate s = s\<lparr>sv_createcb := True\<rparr>"

definition TcpServer_OnConnState :: "server \<Rightarrow> server" where
  "TcpServer_OnConnState s = s\<lparr>sv_statecb := True\<rparr>"

definition TcpServer_OnConnRead :: "server \<Rightarrow> server" where
  "TcpServer_OnConnRead s = s\<lparr>sv_readcb := True\<rparr>"

lemmas server_callbacks [simp] = TcpServer_OnConnCreate_def TcpServer_OnConnState_def TcpServer_OnConnRead_def

definition emit :: "server_event \<Rightarrow> server \<Rightarrow> server" where
  "emit e s = s\<lparr>sv_log := sv_log s @ [e]\<rparr>"

section \<open>Listening\<close>

text \<open>
  \<open>fd\<close> is the descriptor that \<^verbatim>\<open>socket\<close> returned, \<open>bound\<close> whether \<^verbatim>\<open>bind\<close> succeeded and \<open>err\<close> the error number if it did not;
  failures of the socket options and of \<^verbatim>\<open>listen\<close> are only logged. The result is the returned code.
\<close>

definition TcpServer_Bind :: "int \<Rightarrow> cptr \<Rightarrow> int \<Rightarrow> int \<Rightarrow> bool \<Rightarrow> int \<Rightarrow> server \<Rightarrow> (int \<times> server) res" where
  "TcpServer_Bind tid c fd ids bound err s =
     (if \<not> bound then Inr (err, s)
      else
        let ch = Channel_SetCallback ReadCallback (Channel_new fd kReadEvent ids);
            p = (sv_poller s)\<lparr>ep_heap := (ep_heap (sv_poller s))(c \<mapsto> ch)\<rparr>
        in rbind (EpollPoller_AddChannel tid c p) (\<lambda>p. Inr (0, s\<lparr>sv_listen := Some c, sv_poller := p\<rparr>)))"

text \<open>The variant with a host flows off its end without returning the code.\<close>

definition TcpServer_Bind_host :: "(byte list \<Rightarrow> 32 word option) \<Rightarrow> byte list \<Rightarrow> 16 word \<Rightarrow> int \<Rightarrow> cptr \<Rightarrow> int \<Rightarrow> int \<Rightarrow> bool \<Rightarrow> int
    \<Rightarrow> server \<Rightarrow> (int \<times> server) res" where
  "TcpServer_Bind_host resolve host port tid c fd ids bound err s =
     rbind (TcpServer_Bind tid c fd ids bound err (s\<lparr>sv_addr := Ip4Addr_new resolve host port\<rparr>)) (\<lambda>_. Inl Indeterminate)"

definition TcpServer_SetThreadNum :: "int \<Rightarrow> server \<Rightarrow> server" where
  "TcpServer_SetThreadNum num s = s\<lparr>sv_pool := EventLoopPool_SetThreadNum num (sv_pool s)\<rparr>"

definition start_pool :: "(nat \<Rightarrow> nat) \<Rightarrow> int \<Rightarrow> server \<Rightarrow> server res" where
  "start_pool StartLoop tid s =
     rbind (EventLoopPool_Start StartLoop (tid = sv_tid s) (sv_pool s)) (\<lambda>pool. Inr (s\<lparr>sv_pool := pool\<rparr>))"

definition TcpServer_Start :: "(nat \<Rightarrow> nat) \<Rightarrow> int \<Rightarrow> cptr \<Rightarrow> int \<Rightarrow> int \<Rightarrow> bool \<Rightarrow> int \<Rightarrow> server \<Rightarrow> server res" where
  "TcpServer_Start StartLoop tid c fd ids bound err s =
     rbind (TcpServer_Bind tid c fd ids bound err s) (\<lambda>(r, s). start_pool StartLoop tid s)"

definition TcpServer_StartThread :: "(nat \<Rightarrow> nat) \<Rightarrow> int \<Rightarrow> int \<Rightarrow> server \<Rightarrow> server res" where
  "TcpServer_StartThread StartLoop tid threads s = start_pool StartLoop tid (TcpServer_SetThreadNum threads s)"

definition TcpServer_StartServer :: "(nat \<Rightarrow> nat) \<Rightarrow> (byte list \<Rightarrow> 32 word option) \<Rightarrow> int \<Rightarrow> nat \<Rightarrow> epoll_poller \<Rightarrow> byte list \<Rightarrow> 16 word
    \<Rightarrow> int \<Rightarrow> cptr \<Rightarrow> int \<Rightarrow> int \<Rightarrow> bool \<Rightarrow> int \<Rightarrow> server option res" where
  "TcpServer_StartServer StartLoop resolve tid loop p host port threads c fd ids bound err =
     rbind (TcpServer_Bind_host resolve host port tid c fd ids bound err (TcpServer_new tid loop p None)) (\<lambda>(r, s).
     rbind (TcpServer_StartThread StartLoop tid threads s) (\<lambda>s.
     Inr (if r = 0 then Some s else None)))"

section \<open>Accepting\<close>

text \<open>
  An answer to \<^verbatim>\<open>accept\<close>: a descriptor with the answers of \<^verbatim>\<open>getpeername\<close> and \<^verbatim>\<open>getsockname\<close> on it, or a failure, which
  ends the loop whatever its error number.
\<close>

datatype accepted = Accepted int "ip4addr option" "ip4addr option" | AcceptFails

definition accept_one :: "int \<Rightarrow> int \<Rightarrow> ip4addr \<Rightarrow> ip4addr \<Rightarrow> server \<Rightarrow> server res" where
  "accept_one tid cfd local peer s =
     rbind (EventLoopPool_GetNextLoop (tid = sv_tid s) (sv_pool s)) (\<lambda>(ioLoop, pool).
     let con = sv_fresh s;
         s = s\<lparr>sv_pool := pool, sv_fresh := Suc con\<rparr>;
         s = (if sv_createcb s then emit (Created con) s else s);
         s = s\<lparr>sv_conns := insert con (sv_conns s)\<rparr>;
         s = emit (AttachIn ioLoop con cfd local peer) s;
         s = (if sv_statecb s then emit (SetOnState con) s else s)
     in Inr (if sv_readcb s then emit (SetOnRead con) s else s))"

fun accept_loop :: "int \<Rightarrow> accepted list \<Rightarrow> server \<Rightarrow> server res" where
  "accept_loop tid [] s = Inr s"
| "accept_loop tid (AcceptFails # as) s = Inr s"
| "accept_loop tid (Accepted cfd (Some peer) (Some local) # as) s = rbind (accept_one tid cfd local peer s) (accept_loop tid as)"
| "accept_loop tid (Accepted cfd _ _ # as) s = accept_loop tid as s"

definition TcpServer_HandleAccept :: "int \<Rightarrow> accepted list \<Rightarrow> server \<Rightarrow> server res" where
  "TcpServer_HandleAccept tid as s =
     (case sv_listen s of
        None \<Rightarrow> Inl NullPointer
      | Some c \<Rightarrow>
          rbind (channel_at (ep_heap (sv_poller s)) c) (\<lambda>ch.
          if 0 \<le> ch_fd ch then accept_loop tid as s else Inr s))"

section \<open>Removing connections\<close>

text \<open>\<open>loop_of\<close> is the loop that a connection's field holds, which is not set before its attachment has run.\<close>

definition conn_loop :: "(nat \<rightharpoonup> nat) \<Rightarrow> nat \<Rightarrow> nat res" where
  "conn_loop loop_of con = (case loop_of con of None \<Rightarrow> Inl Indeterminate | Some l \<Rightarrow> Inr l)"

definition TcpServer_RemoveConnInLoop :: "int \<Rightarrow> (nat \<rightharpoonup> nat) \<Rightarrow> nat \<Rightarrow> server \<Rightarrow> server res" where
  "TcpServer_RemoveConnInLoop tid loop_of con s =
     rbind (cxx_assert (tid = sv_tid s)) (\<lambda>_.
     rbind (conn_loop loop_of con) (\<lambda>l.
     Inr (emit (QueueClose l con) (s\<lparr>sv_conns := sv_conns s - {con}\<rparr>))))"

text \<open>\<^verbatim>\<open>RemoveConn\<close> runs at once in the loop's thread; another thread queues it for the loop, which is the second result.\<close>

definition TcpServer_RemoveConn :: "int \<Rightarrow> (nat \<rightharpoonup> nat) \<Rightarrow> nat \<Rightarrow> server \<Rightarrow> (server \<times> nat option) res" where
  "TcpServer_RemoveConn tid loop_of con s =
     (if tid = sv_tid s then rbind (TcpServer_RemoveConnInLoop tid loop_of con s) (\<lambda>s. Inr (s, None))
      else Inr (s, Some con))"

text \<open>The set of connections is ordered by address.\<close>

definition TcpServer_delete :: "int \<Rightarrow> (nat \<rightharpoonup> nat) \<Rightarrow> server \<Rightarrow> server res" where
  "TcpServer_delete tid loop_of s =
     rbind (cxx_assert (tid = sv_tid s)) (\<lambda>_.
     rbind (rfold (\<lambda>con s. rbind (conn_loop loop_of con) (\<lambda>l. Inr (emit (CloseIn l con) s))) (sorted_list_of_set (sv_conns s)) s) (\<lambda>s.
     case sv_listen s of
       None \<Rightarrow> Inr s
     | Some c \<Rightarrow> rbind (Channel_delete tid c (sv_poller s)) (\<lambda>p. Inr (s\<lparr>sv_poller := p\<rparr>))))"

section \<open>Lemmas\<close>

text \<open>The connections that a run of answers gives: those before the first failure whose names could be read.\<close>

fun good :: "accepted list \<Rightarrow> (int \<times> ip4addr \<times> ip4addr) list" where
  "good [] = []"
| "good (AcceptFails # as) = []"
| "good (Accepted cfd (Some peer) (Some local) # as) = (cfd, local, peer) # good as"
| "good (Accepted cfd _ _ # as) = good as"

fun attached :: "server_event list \<Rightarrow> (nat \<times> nat \<times> int \<times> ip4addr \<times> ip4addr) list" where
  "attached [] = []"
| "attached (AttachIn l con cfd local peer # es) = (l, con, cfd, local, peer) # attached es"
| "attached (_ # es) = attached es"

lemma attached_append [simp]: "attached (xs @ ys) = attached xs @ attached ys"
  by (induction xs rule: attached.induct) simp_all

lemma emit_fields [simp]:
  "sv_pool (emit e s) = sv_pool s" "sv_conns (emit e s) = sv_conns s" "sv_fresh (emit e s) = sv_fresh s" "sv_tid (emit e s) = sv_tid s"
  "sv_log (emit e s) = sv_log s @ [e]" "sv_readcb (emit e s) = sv_readcb s" "sv_statecb (emit e s) = sv_statecb s"
  "sv_listen (emit e s) = sv_listen s" "sv_poller (emit e s) = sv_poller s"
  by (simp_all add: emit_def)

lemma accept_one_ok:
  assumes "EventLoopPool_GetNextLoop (tid = sv_tid s) (sv_pool s) = Inr (l, pool)"
  shows "\<exists>s'. accept_one tid cfd local peer s = Inr s' \<and> sv_pool s' = pool \<and> sv_conns s' = insert (sv_fresh s) (sv_conns s) \<and>
    sv_fresh s' = Suc (sv_fresh s) \<and> sv_tid s' = sv_tid s \<and>
    attached (sv_log s') = attached (sv_log s) @ [(l, sv_fresh s, cfd, local, peer)]"
  using assms by (simp add: accept_one_def Let_def emit_def)

lemma accept_loop_ok:
  assumes "tid = sv_tid s" and "next_loops (length (good as)) (sv_pool s) = Inr ls"
  shows "\<exists>s'. accept_loop tid as s = Inr s' \<and> sv_conns s' = sv_conns s \<union> {sv_fresh s ..< sv_fresh s + length (good as)} \<and>
    sv_fresh s' = sv_fresh s + length (good as) \<and>
    attached (sv_log s') = attached (sv_log s) @ zip ls (zip [sv_fresh s ..< sv_fresh s + length (good as)] (good as))"
  using assms
proof (induction tid as s arbitrary: ls rule: accept_loop.induct)
  case (3 tid cfd peer local as s)
  then obtain l pool ls1 where l: "EventLoopPool_GetNextLoop True (sv_pool s) = Inr (l, pool)"
      "next_loops (length (good as)) pool = Inr ls1" "ls = l # ls1"
    by (auto simp: rbind_Inr_iff)
  obtain s1 where s1: "accept_one tid cfd local peer s = Inr s1" "sv_pool s1 = pool" "sv_conns s1 = insert (sv_fresh s) (sv_conns s)"
    "sv_fresh s1 = Suc (sv_fresh s)" "sv_tid s1 = sv_tid s"
    "attached (sv_log s1) = attached (sv_log s) @ [(l, sv_fresh s, cfd, local, peer)]"
    using accept_one_ok [of tid s l pool cfd local peer] l(1) "3.prems"(1) by auto
  let ?n = "length (good as)"
  obtain s' where s': "accept_loop tid as s1 = Inr s'" "sv_conns s' = sv_conns s1 \<union> {sv_fresh s1 ..< sv_fresh s1 + ?n}"
    "sv_fresh s' = sv_fresh s1 + ?n"
    "attached (sv_log s') = attached (sv_log s1) @ zip ls1 (zip [sv_fresh s1 ..< sv_fresh s1 + ?n] (good as))"
    using "3.IH" [of s1 ls1] s1 l(2) "3.prems"(1) by auto
  have upt: "[sv_fresh s ..< Suc (sv_fresh s + ?n)] = sv_fresh s # [Suc (sv_fresh s) ..< Suc (sv_fresh s + ?n)]"
    by (simp add: upt_conv_Cons del: upt_Suc)
  have set: "{sv_fresh s ..< Suc (sv_fresh s + ?n)} = insert (sv_fresh s) {Suc (sv_fresh s) ..< Suc (sv_fresh s + ?n)}" by auto
  show ?case
    using s' s1 l(3) by (simp add: upt set del: upt_Suc)
qed auto

text \<open>A pool that has been started with threads.\<close>

definition pool_running :: "nat list \<Rightarrow> nat elpool \<Rightarrow> bool" where
  "pool_running ls p \<longleftrightarrow> lp_started p \<and> lp_loops p = ls \<and> ls \<noteq> [] \<and> lp_next p < length ls"

lemma start_pool_running:
  assumes "start_pool StartLoop tid s = Inr s'" and "lp_loops (sv_pool s) = []" and "lp_next (sv_pool s) = 0"
    and "0 < lp_numThreads (sv_pool s)"
  shows "pool_running (map StartLoop [0 ..< nat (lp_numThreads (sv_pool s))]) (sv_pool s')"
  using assms by (auto simp: start_pool_def EventLoopPool_Start_def pool_running_def rbind_Inr_iff)

definition listening :: "server \<Rightarrow> bool" where
  "listening s \<longleftrightarrow> (\<exists>c ch. sv_listen s = Some c \<and> ep_heap (sv_poller s) c = Some ch \<and> 0 \<le> ch_fd ch)"

lemma HandleAccept_listening: "listening s \<Longrightarrow> TcpServer_HandleAccept tid as s = accept_loop tid as s"
  by (auto simp: listening_def TcpServer_HandleAccept_def)

lemma zip_map_upt: "zip (map f [0 ..< length xs]) (zip [m ..< m + length xs] xs) = map (\<lambda>k. (f k, m + k, xs ! k)) [0 ..< length xs]"
  by (rule nth_equalityI) simp_all

section \<open>Properties\<close>

text \<open>
  C14. Every connection that the server accepts becomes exactly one object, kept in its set, and is attached to exactly one loop:
  in the order of acceptance the loops of the pool take turns, starting with the one whose turn it was. Each attachment gets
  the descriptor and the two addresses of its own connection.
\<close>

theorem TcpServer_HandleAccept_round_robin:
  assumes "listening s" and "tid = sv_tid s" and "pool_running ls (sv_pool s)"
  shows "\<exists>s'. TcpServer_HandleAccept tid as s = Inr s' \<and>
    sv_conns s' = sv_conns s \<union> {sv_fresh s ..< sv_fresh s + length (good as)} \<and>
    attached (sv_log s') = attached (sv_log s) @
      map (\<lambda>k. (ls ! ((lp_next (sv_pool s) + k) mod length ls), sv_fresh s + k, good as ! k)) [0 ..< length (good as)]"
proof -
  have "next_loops (length (good as)) (sv_pool s) =
      Inr (map (\<lambda>k. ls ! ((lp_next (sv_pool s) + k) mod length ls)) [0 ..< length (good as)])"
    using next_loops_round_robin [of "sv_pool s" ls] assms(3) by (simp add: pool_running_def)
  from accept_loop_ok [OF assms(2) this] show ?thesis
    using HandleAccept_listening [OF assms(1)] by (auto simp: zip_map_upt)
qed

text \<open>A server with two threads that listens on descriptor 3.\<close>

definition example_server :: "server res" where
  "example_server = TcpServer_Start (\<lambda>i. i + 1) 9 1 3 0 True 0 (TcpServer_SetThreadNum 2 (TcpServer_new 9 0 (EpollPoller_new 9 Map.empty) None))"

lemma example_server_ok:
  obtains s where "example_server = Inr s" "listening s" "sv_tid s = 9" "pool_running [1, 2] (sv_pool s)" "lp_next (sv_pool s) = 0"
    "sv_fresh s = 0" "sv_log s = []" "sv_conns s = {}"
proof -
  have "\<exists>s. example_server = Inr s \<and> listening s \<and> sv_tid s = 9 \<and> pool_running [1, 2] (sv_pool s) \<and> lp_next (sv_pool s) = 0 \<and>
      sv_fresh s = 0 \<and> sv_log s = [] \<and> sv_conns s = {}"
    by (simp add: example_server_def TcpServer_Start_def TcpServer_Bind_def start_pool_def EventLoopPool_Start_def
        TcpServer_SetThreadNum_def EventLoopPool_SetThreadNum_def TcpServer_new_def EventLoopPool_new_def EpollPoller_AddChannel_def
        EpollPoller_Update_def EpollPoller_new_def epoll_ctl_def Channel_SetCallback_def Channel_new_def listening_def
        pool_running_def Let_def upt_rec)
  then show ?thesis using that by blast
qed

theorem TcpServer_HandleAccept_round_robin_witness:
  "\<exists>s s' a. example_server = Inr s \<and> TcpServer_HandleAccept 9 [Accepted 7 (Some a) (Some a), Accepted 8 None None, Accepted 10 (Some a) (Some a),
      Accepted 11 (Some a) (Some a)] s = Inr s' \<and>
    attached (sv_log s') = [(1, 0, 7, a, a), (2, 1, 10, a, a), (1, 2, 11, a, a)] \<and> sv_conns s' = {0, 1, 2}"
proof -
  define a where "a = Ip4Addr_new (\<lambda>_. None) [] 80"
  obtain s where s: "example_server = Inr s" "listening s" "sv_tid s = 9" "pool_running [1, 2] (sv_pool s)" "lp_next (sv_pool s) = 0"
    "sv_fresh s = 0" "sv_log s = []" "sv_conns s = {}"
    by (rule example_server_ok)
  have three: "[0 ..< 3] = [0, 1, 2 :: nat]" "{0 ..< 3} = {0, 1, 2 :: nat}" by (auto simp: upt_rec)
  show ?thesis
    using TcpServer_HandleAccept_round_robin [OF s(2) _ s(4), of 9 "[Accepted 7 (Some a) (Some a), Accepted 8 None None,
        Accepted 10 (Some a) (Some a), Accepted 11 (Some a) (Some a)]"] s
    by (fastforce simp: three numeral_3_eq_3 upt_rec)
qed

text \<open>
  The convenience constructor never has a result: it reads the return value of a function that does not return one, whether
  binding succeeds or not.
\<close>

theorem TcpServer_StartServer_indeterminate:
  "TcpServer_StartServer StartLoop resolve tid loop p host port threads c fd ids bound err =
     Inl (if bound \<and> tid \<noteq> ep_tid p then AssertFailed else Indeterminate)"
  by (simp add: TcpServer_StartServer_def TcpServer_Bind_host_def TcpServer_Bind_def TcpServer_new_def EpollPoller_AddChannel_def
      EpollPoller_Update_def Let_def)

text \<open>
  The destructor closes every connection of the set once, on the connection's own loop, and then the listening channel.
\<close>

theorem TcpServer_delete_closes:
  assumes "tid = sv_tid s" and "finite (sv_conns s)" and "\<forall>con \<in> sv_conns s. loop_of con = Some (f con)"
    and "sv_listen s = Some c" and "ep_wf (sv_poller s)" and "ep_tid (sv_poller s) = tid" and "c \<in> ep_registered (sv_poller s)"
  shows "\<exists>s'. TcpServer_delete tid loop_of s = Inr s' \<and> ep_heap (sv_poller s') c = None \<and>
    sv_log s' = sv_log s @ map (\<lambda>con. CloseIn (f con) con) (sorted_list_of_set (sv_conns s))"
proof -
  let ?close = "\<lambda>con s. rbind (conn_loop loop_of con) (\<lambda>l. Inr (emit (CloseIn l con) s))"
  have fold: "rfold ?close xs u = Inr (u\<lparr>sv_log := sv_log u @ map (\<lambda>con. CloseIn (f con) con) xs\<rparr>)"
    if "set xs \<subseteq> sv_conns s" for xs u
    using that assms(3) by (induction xs arbitrary: u) (auto simp: conn_loop_def emit_def)
  obtain p1 where p1: "Channel_Close tid c (sv_poller s) = Inr p1" using Channel_Close_ok [OF assms(5-7)] by blast
  obtain ch where ch: "ep_heap (sv_poller s) c = Some ch" "0 \<le> ch_fd ch" using ep_registeredE [OF assms(5,7)] by metis
  have "Channel_delete tid c (sv_poller s) = Inr (p1\<lparr>ep_heap := (ep_heap p1)(c := None)\<rparr>)"
    using p1 ch by (simp add: Channel_delete_def)
  then show ?thesis
    using fold [of "sorted_list_of_set (sv_conns s)" s] assms(1,2,4) by (simp add: TcpServer_delete_def)
qed

lemma example_server_poller:
  "example_server = Inr s \<Longrightarrow> sv_listen s = Some 1 \<and> sv_poller s = (EpollPoller_new 9 Map.empty)
     \<lparr>ep_heap := [1 \<mapsto> Channel_SetCallback ReadCallback (Channel_new 3 kReadEvent 0)], ep_channels := [3 \<mapsto> 1],
      ep_interest := [3 \<mapsto> (scast kReadEvent, 1)]\<rparr>"
  by (auto simp: example_server_def TcpServer_Start_def TcpServer_Bind_def start_pool_def EventLoopPool_Start_def
      TcpServer_SetThreadNum_def EventLoopPool_SetThreadNum_def TcpServer_new_def EventLoopPool_new_def EpollPoller_AddChannel_def
      EpollPoller_Update_def EpollPoller_new_def epoll_ctl_def Channel_SetCallback_def Channel_new_def Let_def)

theorem TcpServer_delete_closes_witness:
  "\<exists>s s'. example_server = Inr s \<and> TcpServer_delete 9 [0 \<mapsto> 1, 1 \<mapsto> 2] (s\<lparr>sv_conns := {0, 1}\<rparr>) = Inr s' \<and>
    sv_log s' = [CloseIn 1 0, CloseIn 2 1]"
proof -
  obtain s where s: "example_server = Inr s" "sv_tid s = 9" "sv_log s = []" by (rule example_server_ok)
  note p = example_server_poller [OF s(1)]
  have "ep_wf (sv_poller s)" "ep_tid (sv_poller s) = 9" "1 \<in> ep_registered (sv_poller s)"
    using p by (auto simp: EpollPoller_new_def ep_wf_def ep_fds_def ep_reg_def ep_registered_def Channel_new_def
        Channel_SetCallback_def kInitEventListSize_def split: if_splits)
  then show ?thesis
    using TcpServer_delete_closes [of 9 "s\<lparr>sv_conns := {0, 1}\<rparr>" "[0 \<mapsto> 1, 1 \<mapsto> 2]" "\<lambda>n. n + 1" 1] s p
    by (auto simp: sorted_list_of_set_nonempty)
qed

end
