(* ===== verification/Any.thy ===== *)
theory Any
  imports JNet_Prelude
begin

text \<open>
  The type-erased container of \<^verbatim>\<open>net/any.h\<close>, which holds the context of a connection: construction, copy, move,
  assignment and the cast, first on single values and then on a store of objects under any program of
  operations, with the typing of the objects that the cast relies on.
\<close>

section \<open>Operations\<close>

text \<open>A type-erased value is a type name and a value; the default one has the type \<^verbatim>\<open>void\<close> and no value.\<close>

record 'v any =
  any_type :: string
  any_ptr :: "'v option"

definition Any_void :: "'v any" where
  "Any_void = \<lparr>any_type = ''void'', any_ptr = None\<rparr>"

definition Any_of :: "string \<Rightarrow> 'v \<Rightarrow> 'v any" where
  "Any_of ty v = \<lparr>any_type = ty, any_ptr = Some v\<rparr>"

definition Any_IsNull :: "'v any \<Rightarrow> bool" where
  "Any_IsNull a \<longleftrightarrow> any_ptr a = None"

definition Any_Is :: "string \<Rightarrow> 'v any \<Rightarrow> bool" where
  "Any_Is ty a \<longleftrightarrow> any_type a = ty"

definition AnyCast :: "string \<Rightarrow> 'v any \<Rightarrow> 'v res" where
  "AnyCast ty a =
     (if Any_Is ty a then (case any_ptr a of None \<Rightarrow> Inl NullPointer | Some v \<Rightarrow> Inr v) else Inl BadCast)"

text \<open>Assignment clones the value; assigning one empty object to another keeps the target, type included.\<close>

definition Any_assign :: "'v any \<Rightarrow> 'v any \<Rightarrow> 'v any" where
  "Any_assign this a = (if any_ptr this = None \<and> any_ptr a = None then this else a)"

text \<open>
  The move constructor takes the pointer and copies the type, so that the object moved from keeps the type
  without a value. The result is the new object and the old one afterwards.
\<close>

definition Any_move :: "'v any \<Rightarrow> 'v any \<times> 'v any" where
  "Any_move that = (that, that\<lparr>any_ptr := None\<rparr>)"

section \<open>Programs over objects\<close>

text \<open>
  The objects of a program, known by numbers. \<open>ty\<close> is the type of a value. \<open>AnyContext\<close> is \<^verbatim>\<open>TcpConn::SetContext\<close>, an assignment from
  a temporary; assigning from a temporary of an rvalue copies as well, because there is no move assignment.
\<close>

datatype 'v any_op =
    AnyNew nat
  | AnyValue nat 'v
  | AnyCopy nat nat
  | AnyMove nat nat
  | AnyAssign nat nat
  | AnyContext nat 'v

type_synonym 'v any_store = "nat \<rightharpoonup> 'v any"

definition any_at :: "'v any_store \<Rightarrow> nat \<Rightarrow> 'v any res" where
  "any_at st x = (case st x of None \<Rightarrow> Inl UseAfterFree | Some a \<Rightarrow> Inr a)"

fun any_exec :: "('v \<Rightarrow> string) \<Rightarrow> 'v any_op \<Rightarrow> 'v any_store \<Rightarrow> 'v any_store res" where
  "any_exec ty (AnyNew x) st = Inr (st(x \<mapsto> Any_void))"
| "any_exec ty (AnyValue x v) st = Inr (st(x \<mapsto> Any_of (ty v) v))"
| "any_exec ty (AnyCopy x y) st = rbind (any_at st y) (\<lambda>a. Inr (st(x \<mapsto> a)))"
| "any_exec ty (AnyMove x y) st = rbind (any_at st y) (\<lambda>a. case Any_move a of (n, m) \<Rightarrow> Inr (st(y \<mapsto> m, x \<mapsto> n)))"
| "any_exec ty (AnyAssign x y) st =
     rbind (any_at st x) (\<lambda>this. rbind (any_at st y) (\<lambda>a. Inr (st(x \<mapsto> Any_assign this a))))"
| "any_exec ty (AnyContext x v) st = rbind (any_at st x) (\<lambda>this. Inr (st(x \<mapsto> Any_assign this (Any_of (ty v) v))))"

section \<open>Typing\<close>

text \<open>A value has the type that the object records; an object that was never moved from has a value unless its type is \<^verbatim>\<open>void\<close>.\<close>

definition any_typed :: "('v \<Rightarrow> string) \<Rightarrow> 'v any \<Rightarrow> bool" where
  "any_typed ty a \<longleftrightarrow> (\<forall>v. any_ptr a = Some v \<longrightarrow> any_type a = ty v)"

definition any_full :: "'v any \<Rightarrow> bool" where
  "any_full a \<longleftrightarrow> any_ptr a = None \<longrightarrow> any_type a = ''void''"

lemmas any_defs = any_typed_def any_full_def Any_void_def Any_of_def Any_assign_def Any_move_def

fun any_moves :: "'v any_op \<Rightarrow> bool" where
  "any_moves (AnyMove x y) \<longleftrightarrow> True"
| "any_moves _ \<longleftrightarrow> False"

lemma any_at_Inr: "any_at st x = Inr a \<longleftrightarrow> st x = Some a"
  by (auto simp: any_at_def split: option.splits)

text \<open>Every operation keeps a property of objects that the new objects have and that assignment keeps.\<close>

lemma any_exec_keeps:
  assumes "any_exec ty op st = Inr st'" and "\<forall>x a. st x = Some a \<longrightarrow> P a" and "st' x = Some a"
    and "P Any_void" and "\<And>v. P (Any_of (ty v) v)" and "\<And>b c. P b \<Longrightarrow> P c \<Longrightarrow> P (Any_assign b c)"
    and "any_moves op \<Longrightarrow> (\<And>b. P b \<Longrightarrow> P (b\<lparr>any_ptr := None\<rparr>))"
  shows "P a"
  using assms by (cases op) (auto simp: rbind_Inr_iff any_at_Inr Any_move_def split: if_splits)

lemma any_run_keeps:
  assumes "rfold (any_exec ty) ops st = Inr st'" and "\<forall>x a. st x = Some a \<longrightarrow> P a" and "st' x = Some a"
    and "P Any_void" and "\<And>v. P (Any_of (ty v) v)" and "\<And>b c. P b \<Longrightarrow> P c \<Longrightarrow> P (Any_assign b c)"
    and "\<And>b. \<exists>op \<in> set ops. any_moves op \<Longrightarrow> P b \<Longrightarrow> P (b\<lparr>any_ptr := None\<rparr>)"
  shows "P a"
  using assms(1,2,7)
proof (induction ops arbitrary: st)
  case Nil
  then show ?case using assms(3) by simp
next
  case (Cons op ops)
  then obtain s1 where s1: "any_exec ty op st = Inr s1" "rfold (any_exec ty) ops s1 = Inr st'" by (auto elim: rbind_InrE)
  have "\<forall>x a. s1 x = Some a \<longrightarrow> P a"
    using any_exec_keeps [OF s1(1) Cons.prems(2) _ assms(4-6)] Cons.prems(3) by auto
  then show ?case using Cons.IH [OF s1(2)] Cons.prems(3) by simp
qed

section \<open>Properties\<close>

text \<open>
  C35. The container is type safe: after any program of constructions, copies, moves and assignments, a cast that
  returns gives a value of the type asked for. If the program moves no object, the cast to a type returns the
  value exactly if the object holds one of that type and throws otherwise.
\<close>

theorem Any_cast_typed:
  assumes "rfold (any_exec ty) ops Map.empty = Inr st" and "st x = Some a"
  shows "(\<forall>T v. AnyCast T a = Inr v \<longrightarrow> any_ptr a = Some v \<and> ty v = T) \<and>
    ((\<forall>op \<in> set ops. \<not> any_moves op) \<longrightarrow> (\<forall>T. T \<noteq> ''void'' \<longrightarrow>
       AnyCast T a = (case any_ptr a of None \<Rightarrow> Inl BadCast | Some v \<Rightarrow> if ty v = T then Inr v else Inl BadCast)))"
proof -
  have typed: "any_typed ty a"
    by (rule any_run_keeps [OF assms(1) _ assms(2), where P = "any_typed ty"]) (auto simp: any_defs)
  have full: "any_full a" if "\<forall>op \<in> set ops. \<not> any_moves op"
    by (rule any_run_keeps [OF assms(1) _ assms(2), where P = any_full]) (use that in \<open>auto simp: any_defs\<close>)
  show ?thesis
    using typed full by (auto simp: AnyCast_def Any_Is_def any_typed_def any_full_def split: option.splits if_splits)
qed

theorem Any_cast_typed_witness:
  "\<exists>st a. rfold (any_exec (\<lambda>v. if v then ''bool'' else ''int'')) [AnyNew 0, AnyContext 0 True, AnyCopy 1 0, AnyContext 0 False] Map.empty = Inr st \<and>
    st 1 = Some a \<and> AnyCast ''bool'' a = Inr True \<and> AnyCast ''int'' a = Inl BadCast"
proof -
  let ?ty = "\<lambda>v. if v then ''bool'' else ''int''"
  let ?ops = "[AnyNew 0, AnyContext 0 True, AnyCopy 1 0, AnyContext 0 False]"
  obtain st where st: "rfold (any_exec ?ty) ?ops Map.empty = Inr st" "st 1 = Some (Any_of ''bool'' True)"
    by (simp add: any_at_def Any_assign_def Any_of_def)
  from Any_cast_typed [OF st] have "AnyCast T (Any_of ''bool'' True) = (if T = ''bool'' then Inr True else Inl BadCast)" if "T \<noteq> ''void''" for T
    using that by (auto simp: Any_of_def)
  then show ?thesis using st by (intro exI [of _ st] exI [of _ "Any_of ''bool'' True"]) simp
qed

text \<open>
  An object that was moved from still claims its type: asking it for that type dereferences a null pointer instead of
  throwing, and assigning an empty object to it does not help, because two empty objects compare as the same.
\<close>

theorem Any_moved_cast:
  "\<exists>st a. rfold (any_exec ty) [AnyValue 0 v, AnyMove 1 0, AnyNew 2, AnyAssign 0 2] Map.empty = Inr st \<and>
    st 0 = Some a \<and> Any_IsNull a \<and> Any_Is (ty v) a \<and> AnyCast (ty v) a = Inl NullPointer"
  by (simp add: any_at_def any_defs Any_IsNull_def Any_Is_def AnyCast_def)

end
