(* ===== verification/Http.thy ===== *)
theory Http
  imports TcpConn Slice Codec Util Net Any
begin

text \<open>
  HTTP messages and the HTTP server: \<^verbatim>\<open>net/http.h\<close>, \<^verbatim>\<open>net/http.cc\<close>. Positions are integers because the code stores the result of \<^verbatim>\<open>find\<close> in an \<^verbatim>\<open>int\<close>,
  where a failed search is -1; a negative count converts to a number larger than every string.

  A run of the decoder may not end: its result is \<open>None\<close> then, and \<open>Some\<close> of an error or a value otherwise.
  A \<^verbatim>\<open>std::map\<close> from strings is the list of its entries in key order.
\<close>

section \<open>Maps from strings\<close>

type_synonym smap = "(byte list \<times> byte list) list"

fun map_put :: "byte list \<Rightarrow> byte list \<Rightarrow> smap \<Rightarrow> smap" where
  "map_put k v [] = [(k, v)]"
| "map_put k v ((k', v') # m) =
     (if k < k' then (k, v) # (k', v') # m
      else if k = k' then (k', v) # m
      else (k', v') # map_put k v m)"

definition GetValueFromMap :: "smap \<Rightarrow> byte list \<Rightarrow> byte list" where
  "GetValueFromMap m n = (case map_of m n of None \<Rightarrow> [] | Some v \<Rightarrow> v)"

section \<open>Messages\<close>

datatype http_result = HError | HComplete | HNotComplete | HContinue

record http_msg =
  hm_headers :: smap
  hm_version :: "byte list"
  hm_body :: "byte list"
  hm_complete :: bool
  hm_contentLen :: "64 word"
  hm_scanned :: nat

definition HttpMsg_Clear :: http_msg where
  "HttpMsg_Clear =
     \<lparr>hm_headers = [], hm_version = ''HTTP/1.1'', hm_body = [], hm_complete = False, hm_contentLen = 0, hm_scanned = 0\<rparr>"

definition GetHeader :: "http_msg \<Rightarrow> byte list \<Rightarrow> byte list" where
  "GetHeader m n = GetValueFromMap (hm_headers m) n"

record http_request =
  hr_msg :: http_msg
  hr_args :: smap
  hr_method :: "byte list"
  hr_uri :: "byte list"
  hr_query_uri :: "byte list"

definition HttpRequest_Clear :: http_request where
  "HttpRequest_Clear = \<lparr>hr_msg = HttpMsg_Clear, hr_args = [], hr_method = ''Get'', hr_uri = [], hr_query_uri = []\<rparr>"

definition GetArg :: "http_request \<Rightarrow> byte list \<Rightarrow> byte list" where
  "GetArg r n = GetValueFromMap (hr_args r) n"

definition SetMethod :: "byte list \<Rightarrow> http_request \<Rightarrow> http_request" where
  "SetMethod method r = r\<lparr>hr_method := method\<rparr>"

definition SetUri :: "byte list \<Rightarrow> http_request \<Rightarrow> http_request" where
  "SetUri uri r = r\<lparr>hr_uri := uri\<rparr>"

definition SetQueryUri :: "byte list \<Rightarrow> http_request \<Rightarrow> http_request" where
  "SetQueryUri query_uri r = r\<lparr>hr_query_uri := query_uri\<rparr>"

definition SetVersion :: "byte list \<Rightarrow> http_msg \<Rightarrow> http_msg" where
  "SetVersion version m = m\<lparr>hm_version := version\<rparr>"

definition SetHeaders :: "smap \<Rightarrow> http_msg \<Rightarrow> http_msg" where
  "SetHeaders headers m = m\<lparr>hm_headers := headers\<rparr>"

lemmas message_setters [simp] = SetMethod_def SetUri_def SetQueryUri_def SetVersion_def SetHeaders_def

record http_response =
  hp_msg :: http_msg
  hp_statusWord :: "byte list"
  hp_status :: int

definition HttpResponse_Clear :: http_response where
  "HttpResponse_Clear = \<lparr>hp_msg = HttpMsg_Clear, hp_statusWord = ''OK'', hp_status = 200\<rparr>"

definition SetStatus :: "int \<Rightarrow> byte list \<Rightarrow> http_response \<Rightarrow> http_response" where
  "SetStatus st msg r = r\<lparr>hp_status := st, hp_statusWord := msg\<rparr>"

section \<open>Decoding\<close>

type_synonym 'a run = "'a res option"

definition obind :: "'a run \<Rightarrow> ('a \<Rightarrow> 'b run) \<Rightarrow> 'b run" where
  "obind m f = (case m of None \<Rightarrow> None | Some (Inl e) \<Rightarrow> Some (Inl e) | Some (Inr x) \<Rightarrow> f x)"

lemma obind_simps [simp]:
  "obind None f = None" "obind (Some (Inl e)) f = Some (Inl e)" "obind (Some (Inr x)) f = f x"
  by (simp_all add: obind_def)

text \<open>The first loop of \<^verbatim>\<open>TrimeSpaceAndToLower\<close> moves both ends inwards over white space.\<close>

function trim_loop :: "byte list \<Rightarrow> int \<Rightarrow> int \<Rightarrow> (int \<times> int) res" where
  "trim_loop buf start end' =
     (case string_at buf start of
        Inl e \<Rightarrow> Inl e
      | Inr c \<Rightarrow>
          if isspace c then trim_loop buf (start + 1) end'
          else (case string_at buf end' of
                  Inl e \<Rightarrow> Inl e
                | Inr d \<Rightarrow> if isspace d then trim_loop buf start (end' - 1) else Inr (start, end')))"
  by pat_completeness auto
termination
  by (relation "measure (\<lambda>(buf, start, end'). nat (int (length buf) + 1 - start) + nat (end' + 1))")
    (auto simp: string_at_def split: if_splits)

declare trim_loop.simps [simp del]

text \<open>The second loop computes a lower-case letter and throws it away; nothing it tests changes.\<close>

partial_function (option) lower_loop :: "byte list \<Rightarrow> int \<Rightarrow> int \<Rightarrow> unit option" where
  "lower_loop buf i end' = (if i \<le> end' then lower_loop buf i end' else Some ())"

definition TrimeSpaceAndToLower :: "byte list \<Rightarrow> int \<Rightarrow> int \<Rightarrow> (int \<times> int) run" where
  "TrimeSpaceAndToLower buf start end' =
     (case trim_loop buf start end' of
        Inl e \<Rightarrow> Some (Inl e)
      | Inr (s, e) \<Rightarrow> (case lower_loop buf s e of None \<Rightarrow> None | Some _ \<Rightarrow> Some (Inr (s, e))))"

partial_function (option) DecodeHeader :: "byte list \<Rightarrow> int \<Rightarrow> int \<Rightarrow> smap \<Rightarrow> smap res option" where
  "DecodeHeader buf start end' hs =
     (if start < end' then
        let i = string_find buf [CHR 0x0D, CHR 0x0A] start;
            kEnd = string_find buf '':'' start
        in case TrimeSpaceAndToLower buf start kEnd of
             None \<Rightarrow> None
           | Some (Inl e) \<Rightarrow> Some (Inl e)
           | Some (Inr (start', kEnd')) \<Rightarrow>
               (case TrimeSpaceAndToLower buf (kEnd + 1) i of
                  None \<Rightarrow> None
                | Some (Inl e) \<Rightarrow> Some (Inl e)
                | Some (Inr (vStart', i')) \<Rightarrow>
                    (case substr buf start' (kEnd' - start') of
                       Inl e \<Rightarrow> Some (Inl e)
                     | Inr k \<Rightarrow>
                         (case substr buf vStart' (i' - vStart') of
                            Inl e \<Rightarrow> Some (Inl e)
                          | Inr v \<Rightarrow> DecodeHeader buf (i + 2) end' (map_put k v hs))))
      else Some (Inr hs))"

text \<open>
  The code keeps positions in variables of type \<^verbatim>\<open>int\<close>, here they are unbounded integers: the two agree as long as the input is shorter than \<open>2 ^ 31\<close> bytes,
  and the decoders are meant for such inputs.
\<close>

definition HttpMsg_TryDecode :: "byte list \<Rightarrow> int \<Rightarrow> int \<Rightarrow> http_msg \<Rightarrow> (http_result \<times> int \<times> int \<times> http_msg) run" where
  "HttpMsg_TryDecode buf lineStart lineEnd m =
     (if hm_complete m then Some (Inr (HComplete, lineStart, lineEnd, m))
      else if hm_contentLen m = 0 then
        let p = string_find buf [CHR 0x0D, CHR 0x0A, CHR 0x0D, CHR 0x0A] 0 in
        if p = - 1 then Some (Inr (HNotComplete, lineStart, lineEnd, m))
        else
          let lineEnd = string_find buf [CHR 0x0D, CHR 0x0A] 0 - 1 in
          obind (DecodeHeader buf (lineEnd + 4) p (hm_headers m)) (\<lambda>hs.
          let m = m\<lparr>hm_headers := hs\<rparr>;
              contentLen = word_of_int (atoi (GetHeader m ''content-length''));
              scanned = nat (p + 4)
          in case substr buf (int scanned) (int (unat contentLen)) of
               Inl e \<Rightarrow> Some (Inl e)
             | Inr body \<Rightarrow>
                 Some (Inr (HComplete, 0, lineEnd,
                   m\<lparr>hm_contentLen := contentLen, hm_scanned := scanned, hm_body := body, hm_complete := True\<rparr>)))
      else Some (Inr (if hm_complete m then HComplete else HNotComplete, lineStart, lineEnd, m)))"

text \<open>The argument list of a query: keys and values between \<open>=\<close> and \<open>&\<close>, by position.\<close>

function scan :: "(byte \<Rightarrow> bool) \<Rightarrow> byte list \<Rightarrow> nat \<Rightarrow> nat" where
  "scan P qs c = (if c < length qs \<and> P (qs ! c) then scan P qs (Suc c) else c)"
  by pat_completeness auto
termination
  by (relation "measure (\<lambda>(P, qs, c). length qs - c)") auto

declare scan.simps [simp del]

lemma scan_bounds: "c \<le> length qs \<Longrightarrow> c \<le> scan P qs c \<and> scan P qs c \<le> length qs"
proof (induction P qs c rule: scan.induct)
  case (1 P qs c)
  then show ?case by (subst (1 2) scan.simps) auto
qed

lemma scan_stop: "scan P qs c < length qs \<Longrightarrow> \<not> P (qs ! scan P qs c)"
proof (induction P qs c rule: scan.induct)
  case (1 P qs c)
  then show ?case by (cases "c < length qs \<and> P (qs ! c)") (simp_all add: scan.simps [of P qs c])
qed

definition skip :: "byte \<Rightarrow> byte list \<Rightarrow> nat \<Rightarrow> nat" where
  "skip ch qs c = (if c < length qs \<and> qs ! c = ch then Suc c else c)"

abbreviation key_char :: "byte \<Rightarrow> bool" where
  "key_char ch \<equiv> ch \<noteq> CHR ''='' \<and> ch \<noteq> CHR ''&''"

abbreviation value_char :: "byte \<Rightarrow> bool" where
  "value_char ch \<equiv> ch \<noteq> CHR ''&''"

text \<open>One turn of the loop: the end of the key, the start and the end of the value and the next position.\<close>

definition args_turn :: "byte list \<Rightarrow> nat \<Rightarrow> nat \<times> nat \<times> nat \<times> nat" where
  "args_turn qs c =
     (let ke = scan key_char qs c; vb = skip (CHR ''='') qs ke; ve = scan value_char qs vb
      in (ke, vb, ve, skip (CHR ''&'') qs ve))"

lemma args_turn_advances:
  assumes "c < length qs" and "args_turn qs c = (ke, vb, ve, c')"
  shows "c < c' \<and> c' \<le> length qs"
proof -
  have eq: "ke = scan key_char qs c" "vb = skip (CHR ''='') qs ke" "ve = scan value_char qs vb" "c' = skip (CHR ''&'') qs ve"
    using assms(2) by (auto simp: args_turn_def Let_def)
  have ke: "c \<le> ke" "ke \<le> length qs" using scan_bounds [of c qs key_char] assms(1) eq(1) by simp_all
  have vb: "ke \<le> vb" "vb \<le> length qs" using eq(2) ke(2) by (auto simp: skip_def)
  have ve: "vb \<le> ve" "ve \<le> length qs" using scan_bounds [OF vb(2), of value_char] eq(3) by simp_all
  have c': "ve \<le> c'" "c' \<le> length qs" using eq(4) ve(2) by (auto simp: skip_def)
  have "c < c'"
  proof (rule ccontr)
    assume "\<not> c < c'"
    then have same: "ke = c" "vb = c" "ve = c" "c' = c" using ke vb ve c' by simp_all
    have "\<not> key_char (qs ! c)" using scan_stop [of key_char qs c] same(1) eq(1) assms(1) by simp
    moreover have "qs ! c \<noteq> CHR ''=''" using eq(2) same assms(1) by (auto simp: skip_def split: if_splits)
    moreover have "qs ! c \<noteq> CHR ''&''" using eq(4) same assms(1) by (auto simp: skip_def split: if_splits)
    ultimately show False by simp
  qed
  then show ?thesis using c' by simp
qed

function args_loop :: "byte list \<Rightarrow> nat \<Rightarrow> smap \<Rightarrow> smap" where
  "args_loop qs c args =
     (if c < length qs then
        case args_turn qs c of (ke, vb, ve, c') \<Rightarrow>
          args_loop qs c'
            (if c \<noteq> ke then map_put (take (ke - c) (drop c qs)) (take (ve - vb) (drop vb qs)) args else args)
      else args)"
  by pat_completeness auto
termination
  by (relation "measure (\<lambda>(qs, c, args). length qs - c)") (auto dest!: args_turn_advances [OF _ sym])

declare args_loop.simps [simp del]

text \<open>The loop over the positions of the query, which stops at the first question mark.\<close>

function DecodeArgs_from :: "nat \<Rightarrow> http_request \<Rightarrow> http_request" where
  "DecodeArgs_from i r =
     (if i \<le> length (hr_query_uri r) then
        let r1 = (if i = length (hr_query_uri r) then r\<lparr>hr_uri := hr_query_uri r\<rparr> else r) in
        if i < length (hr_query_uri r) \<and> hr_query_uri r ! i = CHR ''?'' then
          r1\<lparr>hr_uri := take i (hr_query_uri r), hr_args := args_loop (drop (Suc i) (hr_query_uri r)) 0 (hr_args r)\<rparr>
        else DecodeArgs_from (Suc i) r1
      else r)"
  by pat_completeness auto
termination
  by (relation "measure (\<lambda>(i, r). Suc (length (hr_query_uri r)) - i)") (auto simp: Let_def)

declare DecodeArgs_from.simps [simp del]

definition DecodeArgs :: "http_request \<Rightarrow> http_request" where
  "DecodeArgs = DecodeArgs_from 0"

definition HttpRequest_TryDecode :: "byte list \<Rightarrow> http_request \<Rightarrow> (http_result \<times> http_request) run" where
  "HttpRequest_TryDecode buf r =
     obind (HttpMsg_TryDecode buf 0 0 (hr_msg r)) (\<lambda>(res, start, end', m).
     let i = string_find buf '' '' start in
     obind (Some (substr buf start (i - start))) (\<lambda>method.
     let oldI = i + 1; j = string_find buf '' '' (i + 1) in
     obind (Some (substr buf oldI (j - oldI))) (\<lambda>query_uri.
     obind (Some (substr buf (j + 1) (end' - j))) (\<lambda>version.
     let r = r\<lparr>hr_msg := m\<lparr>hm_version := version\<rparr>, hr_method := method, hr_query_uri := query_uri\<rparr> in
     if query_uri = [] \<or> hd query_uri \<noteq> CHR ''/'' then Some (Inr (HError, r))
     else Some (Inr (res, DecodeArgs r))))))"

definition HttpResponse_TryDecode :: "byte list \<Rightarrow> http_response \<Rightarrow> (http_result \<times> http_response) run" where
  "HttpResponse_TryDecode buf r =
     obind (HttpMsg_TryDecode buf 0 0 (hp_msg r)) (\<lambda>(res, start, end', m).
     let r = r\<lparr>hp_msg := m\<rparr> in
     if start < end' then
       let i = string_find buf '' '' start in
       obind (Some (substr buf start (i - start))) (\<lambda>version.
       let oldI = i; j = string_find buf '' '' (i + 1) in
       obind (Some (substr buf (j + 1) (j - oldI))) (\<lambda>status.
       obind (Some (substr buf (j + 1) end')) (\<lambda>word.
       Some (Inr (res, r\<lparr>hp_msg := m\<lparr>hm_version := version\<rparr>, hp_status := atoi status, hp_statusWord := word\<rparr>)))))
     else Some (Inr (res, r)))"

section \<open>Encoding\<close>

definition CRLF :: "byte list" where
  "CRLF = [CHR 0x0D, CHR 0x0A]"

definition header_pieces :: "smap \<Rightarrow> byte list list" where
  "header_pieces hs = concat (map (\<lambda>(k, v). [k, '': '', v, CRLF]) hs)"

definition tail_pieces :: "http_msg \<Rightarrow> byte list list" where
  "tail_pieces m =
     header_pieces (hm_headers m) @
     [''Connection: Keep-Alive'' @ CRLF,
      snprintf 1024 (''Content-Length: '' @ decimal (length (hm_body m)) @ CRLF), CRLF, hm_body m]"

definition append_pieces :: "byte list list \<Rightarrow> buffer \<Rightarrow> (size_t \<times> buffer) res" where
  "append_pieces ps buf =
     rbind (rfold (\<lambda>p b. Buffer_Append b p) ps buf) (\<lambda>b. Inr (Buffer_GetSize b - Buffer_GetSize buf, b))"

definition request_line :: "http_request \<Rightarrow> byte list" where
  "request_line r =
     snprintf 4096 (cstr (hr_method r) @ '' '' @ cstr (hr_query_uri r) @ '' '' @ cstr (hm_version (hr_msg r)) @ CRLF)"

definition HttpRequest_Encode :: "http_request \<Rightarrow> buffer \<Rightarrow> (size_t \<times> buffer) res" where
  "HttpRequest_Encode r buf = append_pieces (request_line r # tail_pieces (hr_msg r)) buf"

definition status_line :: "http_response \<Rightarrow> byte list" where
  "status_line r =
     snprintf 1024 (cstr (hm_version (hp_msg r)) @ '' '' @ signed_decimal (hp_status r) @ '' '' @ cstr (hp_statusWord r) @ CRLF)"

definition HttpResponse_Encode :: "http_response \<Rightarrow> buffer \<Rightarrow> (size_t \<times> buffer) res" where
  "HttpResponse_Encode r buf = append_pieces (status_line r # tail_pieces (hp_msg r)) buf"

section \<open>The context of a connection\<close>

text \<open>An HTTP connection is a TCP connection whose context holds a request and a response.\<close>

record http_conn =
  hc_tcp :: conn
  hc_peer :: ip4addr
  hc_ctx :: "(http_request \<times> http_response) any"

definition GetRequest :: "http_conn \<Rightarrow> http_request res" where
  "GetRequest s = rbind (AnyCast ''HttpContext'' (hc_ctx s)) (\<lambda>(req, rep). Inr req)"

definition GetResponse :: "http_conn \<Rightarrow> http_response res" where
  "GetResponse s = rbind (AnyCast ''HttpContext'' (hc_ctx s)) (\<lambda>(req, rep). Inr rep)"

definition put_request :: "http_request \<Rightarrow> http_conn \<Rightarrow> http_conn" where
  "put_request req s = s\<lparr>hc_ctx := (hc_ctx s)\<lparr>any_ptr := map_option (\<lambda>(_, rep). (req, rep)) (any_ptr (hc_ctx s))\<rparr>\<rparr>"

definition put_response :: "http_response \<Rightarrow> http_conn \<Rightarrow> http_conn" where
  "put_response rep s = s\<lparr>hc_ctx := (hc_ctx s)\<lparr>any_ptr := map_option (\<lambda>(req, _). (req, rep)) (any_ptr (hc_ctx s))\<rparr>\<rparr>"

definition IsClient :: "http_conn \<Rightarrow> bool" where
  "IsClient s \<longleftrightarrow> 0 < sint (GetPort (hc_peer s))"

definition ClearData :: "http_conn \<Rightarrow> http_conn res" where
  "ClearData s =
     (if IsClient s then
        rbind (GetResponse s) (\<lambda>rep.
        Inr (put_response HttpResponse_Clear
          (s\<lparr>hc_tcp := (hc_tcp s)\<lparr>tc_input := Buffer_Consume (tc_input (hc_tcp s)) (of_nat (hm_scanned (hp_msg rep)))\<rparr>\<rparr>)))
      else
        rbind (GetRequest s) (\<lambda>req.
        Inr (put_request HttpRequest_Clear
          (s\<lparr>hc_tcp := (hc_tcp s)\<lparr>tc_input := Buffer_Consume (tc_input (hc_tcp s)) (of_nat (hm_scanned (hr_msg req)))\<rparr>\<rparr>))))"

definition SendResponse :: "wres list \<Rightarrow> http_response \<Rightarrow> http_conn \<Rightarrow> http_conn res" where
  "SendResponse ws rep s =
     rbind (HttpResponse_Encode rep (tc_output (hc_tcp s))) (\<lambda>(n, b).
     rbind (ClearData (s\<lparr>hc_tcp := (hc_tcp s)\<lparr>tc_output := b\<rparr>\<rparr>)) (\<lambda>s.
     rbind (TcpConn_SendOutput ws (hc_tcp s)) (\<lambda>(t, _). Inr (s\<lparr>hc_tcp := t\<rparr>))))"

definition HttpConn_HandleRead :: "(http_conn \<Rightarrow> http_conn res) \<Rightarrow> wres list \<Rightarrow> http_conn \<Rightarrow> http_conn run" where
  "HttpConn_HandleRead cb ws s =
     (if \<not> IsClient s then
        obind (Some (GetRequest s)) (\<lambda>req.
        obind (Some (buffer_bytes (tc_input (hc_tcp s)))) (\<lambda>buf.
        obind (HttpRequest_TryDecode buf req) (\<lambda>(r, req).
        let s = put_request req s in
        case r of
          HError \<Rightarrow> Some (rbind (TcpConn_Close (hc_tcp s)) (\<lambda>t. Inr (s\<lparr>hc_tcp := t\<rparr>)))
        | HContinue \<Rightarrow>
            Some (rbind (TcpConn_Send (tc_tid (hc_tcp s)) ws (''Http/1.1 100 Continue'' @ [CHR 0x0A, CHR 0x0D, CHR 0x0A]) (hc_tcp s))
              (\<lambda>(t, _). Inr (s\<lparr>hc_tcp := t\<rparr>)))
        | HComplete \<Rightarrow> Some (cb s)
        | HNotComplete \<Rightarrow> Some (Inr s))))
      else
        obind (Some (GetResponse s)) (\<lambda>rep.
        obind (Some (buffer_bytes (tc_input (hc_tcp s)))) (\<lambda>buf.
        obind (HttpResponse_TryDecode buf rep) (\<lambda>(r, rep).
        let s = put_response rep s in
        case r of
          HError \<Rightarrow> Some (rbind (TcpConn_Close (hc_tcp s)) (\<lambda>t. Inr (s\<lparr>hc_tcp := t\<rparr>)))
        | HComplete \<Rightarrow> Some (cb s)
        | _ \<Rightarrow> Some (Inr s)))))"

section \<open>The server\<close>

text \<open>Callbacks by method and path; \<^verbatim>\<open>OnGet\<close> registers for GET.\<close>

type_synonym 'h http_table = "byte list \<rightharpoonup> byte list \<rightharpoonup> 'h"

definition OnRequest :: "byte list \<Rightarrow> byte list \<Rightarrow> 'h \<Rightarrow> 'h http_table \<Rightarrow> 'h http_table" where
  "OnRequest method uri cb cbs =
     cbs(method \<mapsto> (case cbs method of None \<Rightarrow> Map.empty | Some m \<Rightarrow> m)(uri \<mapsto> cb))"

definition OnGet :: "byte list \<Rightarrow> 'h \<Rightarrow> 'h http_table \<Rightarrow> 'h http_table" where
  "OnGet uri cb cbs = OnRequest ''GET'' uri cb cbs"

definition HttpServer_lookup :: "'h http_table \<Rightarrow> 'h \<Rightarrow> http_request \<Rightarrow> 'h" where
  "HttpServer_lookup cbs defcb req =
     (case cbs (hr_method req) of
        None \<Rightarrow> defcb
      | Some m \<Rightarrow> (case m (hr_uri req) of None \<Rightarrow> defcb | Some cb \<Rightarrow> cb))"

definition HttpServer_default :: "wres list \<Rightarrow> http_conn \<Rightarrow> http_conn res" where
  "HttpServer_default ws s =
     rbind (GetResponse s) (\<lambda>rep.
     let rep = SetStatus 404 ''Not Found'' rep;
         rep = rep\<lparr>hp_msg := (hp_msg rep)\<lparr>hm_body := ''Not Found''\<rparr>\<rparr>
     in SendResponse ws rep (put_response rep s))"

definition HttpServer_OnMsg :: "(http_conn \<Rightarrow> http_conn res) http_table \<Rightarrow> wres list \<Rightarrow> http_conn \<Rightarrow> http_conn res" where
  "HttpServer_OnMsg cbs ws s =
     rbind (GetRequest s) (\<lambda>req. HttpServer_lookup cbs (HttpServer_default ws) req s)"

section \<open>Lemmas\<close>

lemma lower_loop_iff: "lower_loop buf i end' = (if i \<le> end' then None else Some ())"
proof -
  have "\<not> i \<le> end'" if "lower_loop buf i end' = Some y" for y
    using lower_loop.raw_induct [of "\<lambda>buf i end' y. \<not> i \<le> end'", OF _ that]
    by (metis option.distinct(1) option.inject)
  then have "i \<le> end' \<Longrightarrow> lower_loop buf i end' = None" by (cases "lower_loop buf i end'") auto
  moreover have "\<not> i \<le> end' \<Longrightarrow> lower_loop buf i end' = Some ()" by (subst lower_loop.simps) simp
  ultimately show ?thesis by simp
qed

lemma map_of_map_put [simp]: "map_of (map_put k v m) = (map_of m)(k \<mapsto> v)"
  by (induction k v m rule: map_put.induct) auto

text \<open>Scanning, as taking a prefix of the rest.\<close>

lemma scan_takeWhile: "c \<le> length qs \<Longrightarrow> scan P qs c = c + length (takeWhile P (drop c qs))"
proof (induction P qs c rule: scan.induct)
  case (1 P qs c)
  show ?case
  proof (cases "c < length qs \<and> P (qs ! c)")
    case True
    then show ?thesis using 1 by (simp add: scan.simps [of P qs c] Cons_nth_drop_Suc [symmetric])
  next
    case False
    then have "takeWhile P (drop c qs) = []"
      by (cases "c < length qs") (auto simp: Cons_nth_drop_Suc [symmetric])
    moreover have "scan P qs c = c" using False by (subst scan.simps) auto
    ultimately show ?thesis by simp
  qed
qed

lemma scan_at:
  assumes "drop c qs = xs @ rest" and "\<forall>x \<in> set xs. P x" and "rest = [] \<or> \<not> P (hd rest)" and "c \<le> length qs"
  shows "scan P qs c = c + length xs"
proof -
  have "takeWhile P (xs @ rest) = xs" using assms(2,3) by (cases rest) (auto simp: takeWhile_append2)
  then show ?thesis using scan_takeWhile [OF assms(4)] assms(1) by simp
qed

fun render_args :: "(byte list \<times> byte list) list \<Rightarrow> byte list" where
  "render_args [] = []"
| "render_args [(k, v)] = k @ ''='' @ v"
| "render_args ((k, v) # kvs) = k @ ''='' @ v @ ''&'' @ render_args kvs"

definition args_ok :: "(byte list \<times> byte list) list \<Rightarrow> bool" where
  "args_ok kvs \<longleftrightarrow> (\<forall>(k, v) \<in> set kvs. k \<noteq> [] \<and> CHR ''='' \<notin> set k \<and> CHR ''&'' \<notin> set k \<and> CHR ''&'' \<notin> set v)"

lemma drop_plus: "drop c qs = xs @ ys \<Longrightarrow> drop (c + length xs) qs = ys"
  by (metis add.commute append_eq_conv_conj drop_drop)

lemma skip_at: "drop c qs = ch # ys \<Longrightarrow> skip ch qs c = Suc c \<and> drop (Suc c) qs = ys \<and> c < length qs"
  by (metis Cons_nth_drop_Suc drop_all linorder_not_less list.inject list.simps(3) skip_def)

lemma skip_end: "drop c qs = [] \<Longrightarrow> skip ch qs c = c"
  by (simp add: skip_def)

text \<open>One turn of the loop on a rendered argument.\<close>

lemma args_turn_at:
  assumes d: "drop c qs = k @ ''='' @ v @ rest" and k: "k \<noteq> []" "CHR ''='' \<notin> set k" "CHR ''&'' \<notin> set k"
    and v: "CHR ''&'' \<notin> set v" and rest: "rest = [] \<or> (\<exists>more. rest = CHR ''&'' # more)"
  shows "\<exists>ke vb ve c'. args_turn qs c = (ke, vb, ve, c') \<and> c \<noteq> ke \<and> c < length qs \<and>
    take (ke - c) (drop c qs) = k \<and> take (ve - vb) (drop vb qs) = v \<and> drop c' qs = tl rest"
proof -
  have c: "c < length qs" using d by (metis append_is_Nil_conv drop_all linorder_not_less list.simps(3))
  have ke: "scan key_char qs c = c + length k" using c k by (intro scan_at [OF d]) auto
  have d1: "drop (c + length k) qs = CHR ''='' # v @ rest" using drop_plus [OF d] by simp
  note sk = skip_at [OF d1]
  have d2: "drop (Suc (c + length k)) qs = v @ rest" using sk by simp
  have ve: "scan value_char qs (Suc (c + length k)) = Suc (c + length k) + length v"
    using sk v rest by (intro scan_at [OF d2]) auto
  have d3: "drop (Suc (c + length k) + length v) qs = rest" using drop_plus [OF d2] by simp
  have last: "drop (skip (CHR ''&'') qs (Suc (c + length k) + length v)) qs = tl rest"
  proof (cases rest)
    case Nil
    then show ?thesis using d3 skip_end [of "Suc (c + length k) + length v" qs] by simp
  next
    case (Cons x more)
    then have "drop (Suc (c + length k) + length v) qs = CHR ''&'' # more" using d3 rest by auto
    then show ?thesis using skip_at Cons by simp
  qed
  have "args_turn qs c = (c + length k, Suc (c + length k), Suc (c + length k) + length v,
      skip (CHR ''&'') qs (Suc (c + length k) + length v))"
    using ke sk ve by (simp add: args_turn_def Let_def)
  then show ?thesis using c d d2 last k(1) by simp
qed

lemma args_loop_render:
  assumes "drop c qs = render_args kvs" and "args_ok kvs"
  shows "map_of (args_loop qs c args) = map_of args ++ map_of (rev kvs)"
  using assms
proof (induction kvs arbitrary: c args rule: render_args.induct)
  case 1
  then show ?case by (simp add: args_loop.simps [of qs c])
next
  case (2 k v)
  have ok: "k \<noteq> []" "CHR ''='' \<notin> set k" "CHR ''&'' \<notin> set k" "CHR ''&'' \<notin> set v" using 2(2) by (auto simp: args_ok_def)
  have "drop c qs = k @ ''='' @ v @ []" using 2(1) by simp
  from args_turn_at [OF this ok] obtain ke vb ve c' where t: "args_turn qs c = (ke, vb, ve, c')" "c \<noteq> ke" "c < length qs"
    "take (ke - c) (drop c qs) = k" "take (ve - vb) (drop vb qs) = v" "drop c' qs = []" by auto
  have "args_loop qs c' x = x" for x using t(6) by (simp add: args_loop.simps [of qs c'])
  then have "args_loop qs c args = map_put k v args" using t by (simp add: args_loop.simps [of qs c])
  then show ?case by (auto simp: map_add_def fun_eq_iff)
next
  case (3 k v kv kvs)
  have ok: "k \<noteq> []" "CHR ''='' \<notin> set k" "CHR ''&'' \<notin> set k" "CHR ''&'' \<notin> set v" and ok': "args_ok (kv # kvs)"
    using 3(3) by (auto simp: args_ok_def)
  have "drop c qs = k @ ''='' @ v @ (CHR ''&'' # render_args (kv # kvs))" using 3(2) by simp
  from args_turn_at [OF this ok] obtain ke vb ve c' where t: "args_turn qs c = (ke, vb, ve, c')" "c \<noteq> ke" "c < length qs"
    "take (ke - c) (drop c qs) = k" "take (ve - vb) (drop vb qs) = v" "drop c' qs = render_args (kv # kvs)" by auto
  have "args_loop qs c args = args_loop qs c' (map_put k v args)" using t by (simp add: args_loop.simps [of qs c])
  then have "map_of (args_loop qs c args) = map_of (map_put k v args) ++ map_of (rev (kv # kvs))"
    using 3(1) [OF t(6) ok', of "map_put k v args"] by (simp only:)
  moreover have "map_of (map_put k v args) = map_of args ++ map_of [(k, v)]" by (simp add: map_add_def fun_eq_iff)
  ultimately show ?case by (simp only: rev.simps(2) [of "(k, v)"] map_of_append map_add_assoc)
qed

lemma DecodeArgs_from_scan:
  assumes "hr_query_uri r = path @ CHR ''?'' # qs" and "CHR ''?'' \<notin> set path" and "i \<le> length path"
  shows "DecodeArgs_from i r = r\<lparr>hr_uri := path, hr_args := args_loop qs 0 (hr_args r)\<rparr>"
  using assms(3)
proof (induction "length path - i" arbitrary: i)
  case 0
  then have "i = length path" by simp
  then show ?case using assms(1) by (subst DecodeArgs_from.simps) (simp add: Let_def)
next
  case (Suc n)
  then have i: "i < length path" by simp
  then have "hr_query_uri r ! i \<noteq> CHR ''?''" using assms(1,2) by (metis nth_append nth_mem)
  then have "DecodeArgs_from i r = DecodeArgs_from (Suc i) r"
    using i assms(1) by (simp add: DecodeArgs_from.simps [of i r] Let_def)
  then show ?case using Suc i by simp
qed

lemma DecodeArgs_from_plain:
  assumes "CHR ''?'' \<notin> set (hr_query_uri r)" and "i \<le> length (hr_query_uri r)"
  shows "DecodeArgs_from i r = r\<lparr>hr_uri := hr_query_uri r\<rparr>"
  using assms(2)
proof (induction "length (hr_query_uri r) - i" arbitrary: i)
  case 0
  then have i: "i = length (hr_query_uri r)" by simp
  show ?case by (simp add: DecodeArgs_from.simps [of i r] i Let_def) (simp add: DecodeArgs_from.simps)
next
  case (Suc n)
  then have i: "i < length (hr_query_uri r)" by simp
  then have "hr_query_uri r ! i \<noteq> CHR ''?''" using assms(1) by (metis nth_mem)
  then have "DecodeArgs_from i r = DecodeArgs_from (Suc i) r"
    using i by (simp add: DecodeArgs_from.simps [of i r] Let_def)
  then show ?case using Suc i by simp
qed

text \<open>A message head without header lines: the request line, then an empty line.\<close>

lemma no_headers_decode:
  assumes "CHR 0x0D \<notin> set line" and "\<not> hm_complete m" and "hm_contentLen m = 0" and "hm_headers m = []"
  shows "HttpMsg_TryDecode (line @ CRLF @ CRLF @ rest) a b m =
    Some (Inr (HComplete, 0, int (length line) - 1,
      m\<lparr>hm_contentLen := 0, hm_scanned := length line + 4, hm_body := [], hm_complete := True\<rparr>))"
proof -
  let ?buf = "line @ CRLF @ CRLF @ rest"
  have p: "string_find ?buf [CHR 0x0D, CHR 0x0A, CHR 0x0D, CHR 0x0A] 0 = int (length line)"
    using string_find_first [OF assms(1), of "[]" "[CHR 0x0A, CHR 0x0D, CHR 0x0A]" rest] by (simp add: CRLF_def)
  have l: "string_find ?buf [CHR 0x0D, CHR 0x0A] 0 = int (length line)"
    using string_find_first [OF assms(1), of "[]" "[CHR 0x0A]" "CRLF @ rest"] by (simp add: CRLF_def)
  have "DecodeHeader ?buf (int (length line) - 1 + 4) (int (length line)) (hm_headers m) = Some (Inr [])"
    using assms(4) by (subst DecodeHeader.simps) simp
  moreover have "atoi (GetHeader (m\<lparr>hm_headers := []\<rparr>) ''content-length'') = 0"
    by (simp add: GetHeader_def GetValueFromMap_def atoi_def)
  moreover have "substr ?buf (int (nat (int (length line) + 4))) 0 = Inr []"
    by (simp add: substr_def CRLF_def)
  moreover have "m\<lparr>hm_headers := []\<rparr> = m" using assms(4) by simp
  ultimately show ?thesis
    using p l assms(2,3) by (simp add: HttpMsg_TryDecode_def Let_def nat_add_distrib)
qed

text \<open>A message head with a header line: the decoder hangs in the loop that should convert the name.\<close>

lemma header_hangs:
  assumes "CHR 0x0D \<notin> set line" and "k = d # ks" and "\<not> isspace d" and "CHR '':'' \<notin> set k"
    and "\<not> hm_complete m" and "hm_contentLen m = 0"
    and p: "string_find (line @ CRLF @ a # k @ '':'' @ rest) [CHR 0x0D, CHR 0x0A, CHR 0x0D, CHR 0x0A] 0 = p"
    and far: "int (length line) + 3 < p"
  shows "HttpMsg_TryDecode (line @ CRLF @ a # k @ '':'' @ rest) x y m = None"
proof -
  let ?buf = "line @ CRLF @ a # k @ '':'' @ rest"
  let ?start = "int (length line) + 3"
  have l: "string_find ?buf [CHR 0x0D, CHR 0x0A] 0 = int (length line)"
    using string_find_first [OF assms(1), of "[]" "[CHR 0x0A]" "a # k @ '':'' @ rest"] by (simp add: CRLF_def)
  have len: "int (length (line @ CRLF @ [a])) = ?start" by (simp add: CRLF_def)
  have kEnd: "string_find ?buf '':'' ?start = ?start + int (length k)"
    using string_find_first [OF assms(4), of "line @ CRLF @ [a]" "[]" rest] len by (simp add: algebra_simps)
  have at1: "string_at ?buf ?start = Inr d"
  proof -
    have "?buf = (line @ CRLF @ [a]) @ d # ks @ '':'' @ rest" using assms(2) by simp
    moreover have "nat ?start = length (line @ CRLF @ [a])" by (simp add: CRLF_def)
    ultimately show ?thesis unfolding string_at_def by (simp add: nth_append CRLF_def)
  qed
  have at2: "string_at ?buf (?start + int (length k)) = Inr (CHR '':'')"
  proof -
    have "?buf = (line @ CRLF @ a # k) @ CHR '':'' # rest" by simp
    moreover have "nat (?start + int (length k)) = length (line @ CRLF @ a # k)" by (simp add: CRLF_def nat_add_distrib)
    ultimately show ?thesis unfolding string_at_def by (simp add: nth_append CRLF_def)
  qed
  have "trim_loop ?buf ?start (?start + int (length k)) = Inr (?start, ?start + int (length k))"
    using at1 at2 assms(3) by (subst trim_loop.simps) (simp add: isspace_def)
  then have "TrimeSpaceAndToLower ?buf ?start (?start + int (length k)) = None"
    by (simp add: TrimeSpaceAndToLower_def lower_loop_iff)
  then have "DecodeHeader ?buf ?start p (hm_headers m) = None"
    using far kEnd by (subst DecodeHeader.simps) (simp add: Let_def)
  then show ?thesis
    using l p far assms(5,6) by (simp add: HttpMsg_TryDecode_def Let_def algebra_simps)
qed

abbreviation head_end :: "byte list" where
  "head_end \<equiv> [CHR 0x0D, CHR 0x0A, CHR 0x0D, CHR 0x0A]"

lemma find_pat_ge: "find_pat pat n (xs @ pat @ rest) \<ge> int n"
proof (induction xs arbitrary: n)
  case Nil
  then show ?case using prefix_at_append [of pat rest] by (cases "pat @ rest") auto
next
  case (Cons x xs)
  then show ?case using Cons [of "Suc n"] by simp
qed

lemma find_head_end_skip:
  assumes "CHR 0x0D \<notin> set line" and "a \<noteq> CHR 0x0D"
  shows "find_pat head_end n (line @ CRLF @ a # w) = find_pat head_end (n + length line + 3) w"
  using assms(1)
proof (induction line arbitrary: n)
  case Nil
  then show ?case using assms(2) by (simp add: CRLF_def numeral_3_eq_3)
next
  case (Cons x line)
  then show ?case using Cons.IH [of "Suc n"] by simp
qed

definition plain_request :: "byte list \<Rightarrow> byte list \<Rightarrow> byte list \<Rightarrow> byte list \<Rightarrow> byte list" where
  "plain_request method query version rest = method @ '' '' @ query @ '' '' @ version @ CRLF @ CRLF @ rest"

lemma request_line_fields:
  fixes m q v rest :: "byte list"
  assumes "CHR '' '' \<notin> set m" and "CHR '' '' \<notin> set q"
  defines "buf \<equiv> m @ '' '' @ q @ '' '' @ v @ rest"
  shows "string_find buf '' '' 0 = int (length m)"
    and "string_find buf '' '' (int (length m) + 1) = int (length m + 1 + length q)"
    and "substr buf 0 (int (length m)) = Inr m"
    and "substr buf (int (length m) + 1) (int (length q)) = Inr q"
    and "substr buf (int (length m + 1 + length q) + 1) (int (length v)) = Inr v"
proof -
  show "string_find buf '' '' 0 = int (length m)"
    using string_find_first [OF assms(1), of "[]" "[]" "q @ '' '' @ v @ rest"] by (simp add: buf_def)
  show "string_find buf '' '' (int (length m) + 1) = int (length m + 1 + length q)"
    using string_find_first [OF assms(2), of "m @ '' ''" "[]" "v @ rest"] by (simp add: buf_def algebra_simps)
  show "substr buf 0 (int (length m)) = Inr m"
    using substr_mid [of 0 "[]" _ m] by (simp add: buf_def)
  show "substr buf (int (length m) + 1) (int (length q)) = Inr q"
    using substr_mid [of "int (length m) + 1" "m @ '' ''" _ q] by (simp add: buf_def)
  show "substr buf (int (length m + 1 + length q) + 1) (int (length v)) = Inr v"
    using substr_mid [of "int (length m + 1 + length q) + 1" "m @ '' '' @ q @ '' ''" _ v rest] by (simp add: buf_def)
qed

lemma plain_request_decode:
  assumes "CHR 0x0D \<notin> set m \<union> set q \<union> set v" and "CHR '' '' \<notin> set m \<union> set q" and "q = CHR ''/'' # q'"
  shows "HttpRequest_TryDecode (plain_request m q v rest) HttpRequest_Clear =
    Some (Inr (HComplete, DecodeArgs (HttpRequest_Clear\<lparr>hr_method := m, hr_query_uri := q,
      hr_msg := HttpMsg_Clear\<lparr>hm_version := v, hm_contentLen := 0, hm_scanned := length m + length q + length v + 6,
        hm_body := [], hm_complete := True\<rparr>\<rparr>)))"
proof -
  let ?line = "m @ '' '' @ q @ '' '' @ v"
  let ?buf = "plain_request m q v rest"
  have buf: "?buf = ?line @ CRLF @ CRLF @ rest" by (simp add: plain_request_def)
  have cr: "CHR 0x0D \<notin> set ?line" using assms(1) by simp
  have dec: "HttpMsg_TryDecode ?buf 0 0 (hr_msg HttpRequest_Clear) = Some (Inr (HComplete, 0, int (length ?line) - 1,
      HttpMsg_Clear\<lparr>hm_contentLen := 0, hm_scanned := length ?line + 4, hm_body := [], hm_complete := True\<rparr>))"
    unfolding buf using no_headers_decode [OF cr, of HttpMsg_Clear rest 0 0]
    by (simp add: HttpRequest_Clear_def HttpMsg_Clear_def)
  have sp: "CHR '' '' \<notin> set m" "CHR '' '' \<notin> set q" using assms(2) by auto
  note f = request_line_fields [OF sp, of v "CRLF @ CRLF @ rest", folded plain_request_def]
  have n1: "int (length m + 1 + length q) - (int (length m) + 1) = int (length q)" by simp
  have n2: "int (length ?line) - 1 - int (length m + 1 + length q) = int (length v)" by simp
  have hd: "\<not> (q = [] \<or> hd q \<noteq> CHR ''/'')" using assms(3) by simp
  show ?thesis
    unfolding HttpRequest_TryDecode_def dec obind_simps prod.case Let_def f(1,2) n1 n2 diff_zero f(3-5) if_not_P [OF hd]
    by (simp add: HttpRequest_Clear_def HttpMsg_Clear_def ac_simps)
qed

section \<open>Properties\<close>

text \<open>
  C30. A request without header lines, shorter than \<open>2 ^ 31\<close> bytes, is decoded completely: method, query, version, and how many bytes of the input it
  takes. Without a question mark the path is the whole query and there are no arguments. With one, the path is what precedes it and the arguments are what follows,
  where a later argument replaces an earlier one of the same name. Names of arguments are not empty and contain no equals sign or ampersand, values no ampersand.
\<close>

theorem HttpRequest_decode_plain:
  assumes "CHR 0x0D \<notin> set m \<union> set q \<union> set v" and "CHR '' '' \<notin> set m \<union> set q"
    and "q = path @ (case args of None \<Rightarrow> [] | Some kvs \<Rightarrow> CHR ''?'' # render_args kvs)" and "path = CHR ''/'' # path'" and "CHR ''?'' \<notin> set path"
    and "\<forall>kvs \<in> set_option args. args_ok kvs" and "length (plain_request m q v rest) < 2 ^ 31"
  shows "\<exists>r. HttpRequest_TryDecode (plain_request m q v rest) HttpRequest_Clear = Some (Inr (HComplete, r)) \<and>
    hr_method r = m \<and> hr_query_uri r = q \<and> hm_version (hr_msg r) = v \<and> hm_scanned (hr_msg r) = length (plain_request m q v []) \<and> hr_uri r = path \<and>
    (\<forall>n. GetArg r n = (case args of None \<Rightarrow> [] | Some kvs \<Rightarrow> (case map_of (rev kvs) n of None \<Rightarrow> [] | Some x \<Rightarrow> x)))"
proof -
  define r0 where "r0 = HttpRequest_Clear\<lparr>hr_method := m, hr_query_uri := q,
      hr_msg := HttpMsg_Clear\<lparr>hm_version := v, hm_contentLen := 0, hm_scanned := length m + length q + length v + 6,
        hm_body := [], hm_complete := True\<rparr>\<rparr>"
  have r0: "hr_method r0 = m" "hr_query_uri r0 = q" "hm_version (hr_msg r0) = v" "hm_scanned (hr_msg r0) = length (plain_request m q v [])"
    "hr_args r0 = []"
    by (simp_all add: r0_def HttpRequest_Clear_def plain_request_def CRLF_def)
  obtain q' where q: "q = CHR ''/'' # q'" using assms(3,4) by simp
  have run: "HttpRequest_TryDecode (plain_request m q v rest) HttpRequest_Clear = Some (Inr (HComplete, DecodeArgs r0))"
    using plain_request_decode [OF assms(1,2) q] by (simp add: r0_def)
  show ?thesis
  proof (cases args)
    case None
    then have "DecodeArgs r0 = r0\<lparr>hr_uri := path\<rparr>"
      using assms(3,5) DecodeArgs_from_plain [of r0 0] r0(2) by (simp add: DecodeArgs_def)
    then show ?thesis using run r0 None by (simp add: GetArg_def GetValueFromMap_def)
  next
    case (Some kvs)
    then have "hr_query_uri r0 = path @ CHR ''?'' # render_args kvs" using assms(3) r0(2) by simp
    from DecodeArgs_from_scan [OF this assms(5), of 0]
    have "DecodeArgs r0 = r0\<lparr>hr_uri := path, hr_args := args_loop (render_args kvs) 0 []\<rparr>" using r0(5) by (simp add: DecodeArgs_def)
    moreover have "map_of (args_loop (render_args kvs) 0 []) = map_of (rev kvs)"
      using args_loop_render [of 0 "render_args kvs" kvs "[]"] assms(6) Some by simp
    ultimately show ?thesis using run r0 Some by (simp add: GetArg_def GetValueFromMap_def)
  qed
qed

theorem HttpRequest_decode_plain_witness:
  "(\<exists>r. HttpRequest_TryDecode (plain_request ''GET'' ''/a?x=1&y=2'' ''HTTP/1.1'' []) HttpRequest_Clear = Some (Inr (HComplete, r)) \<and>
     hr_uri r = ''/a'' \<and> GetArg r ''y'' = ''2'') \<and>
   (\<exists>r. HttpRequest_TryDecode (plain_request ''GET'' ''/index'' ''HTTP/1.1'' []) HttpRequest_Clear = Some (Inr (HComplete, r)) \<and>
     hr_uri r = ''/index'' \<and> GetArg r ''y'' = [])"
proof
  have h: "CHR 0x0D \<notin> set ''GET'' \<union> set ''/a?x=1&y=2'' \<union> set ''HTTP/1.1''" "CHR '' '' \<notin> set ''GET'' \<union> set ''/a?x=1&y=2''"
    "''/a?x=1&y=2'' = ''/a'' @ (case Some [(''x'', ''1''), (''y'', ''2'')] of None \<Rightarrow> [] | Some kvs \<Rightarrow> CHR ''?'' # render_args kvs)"
    "''/a'' = CHR ''/'' # ''a''" "CHR ''?'' \<notin> set ''/a''" "\<forall>kvs \<in> set_option (Some [(''x'', ''1''), (''y'', ''2'')]). args_ok kvs"
    "length (plain_request ''GET'' ''/a?x=1&y=2'' ''HTTP/1.1'' []) < 2 ^ 31"
    by (simp_all add: args_ok_def plain_request_def CRLF_def)
  show "\<exists>r. HttpRequest_TryDecode (plain_request ''GET'' ''/a?x=1&y=2'' ''HTTP/1.1'' []) HttpRequest_Clear = Some (Inr (HComplete, r)) \<and>
     hr_uri r = ''/a'' \<and> GetArg r ''y'' = ''2''"
    using HttpRequest_decode_plain [OF h] by (elim exE conjE) (intro exI conjI, assumption, assumption, simp)
next
  have h: "CHR 0x0D \<notin> set ''GET'' \<union> set ''/index'' \<union> set ''HTTP/1.1''" "CHR '' '' \<notin> set ''GET'' \<union> set ''/index''"
    "''/index'' = ''/index'' @ (case None of None \<Rightarrow> [] | Some kvs \<Rightarrow> CHR ''?'' # render_args kvs)"
    "''/index'' = CHR ''/'' # ''index''" "CHR ''?'' \<notin> set ''/index''" "\<forall>kvs \<in> set_option None. args_ok kvs"
    "length (plain_request ''GET'' ''/index'' ''HTTP/1.1'' []) < 2 ^ 31"
    by (simp_all add: plain_request_def CRLF_def)
  show "\<exists>r. HttpRequest_TryDecode (plain_request ''GET'' ''/index'' ''HTTP/1.1'' []) HttpRequest_Clear = Some (Inr (HComplete, r)) \<and>
     hr_uri r = ''/index'' \<and> GetArg r ''y'' = []"
    using HttpRequest_decode_plain [OF h] by (elim exE conjE) (intro exI conjI, assumption, assumption, simp)
qed

text \<open>
  C31. A request with a header line is never decoded: once its head is complete, decoding it does not
  return, because the loop that should turn the header's name into lower case does not advance.
\<close>

theorem HttpRequest_decode_header_hangs:
  assumes "CHR 0x0D \<notin> set line \<union> set k \<union> set v" and "a \<noteq> CHR 0x0D" and "k = d # ks" and "\<not> isspace d" and "CHR '':'' \<notin> set k"
  shows "HttpRequest_TryDecode (line @ CRLF @ a # k @ '':'' @ v @ CRLF @ CRLF @ rest) HttpRequest_Clear = None"
proof -
  let ?buf = "line @ CRLF @ a # k @ '':'' @ v @ CRLF @ CRLF @ rest"
  have line: "CHR 0x0D \<notin> set line" and nocr: "CHR 0x0D \<notin> set (k @ '':'' @ v)" using assms(1) by auto
  have "string_find ?buf head_end 0 = find_pat head_end (length line + 3) (k @ '':'' @ v @ CRLF @ CRLF @ rest)"
    using find_head_end_skip [OF line assms(2), of 0] by (simp add: string_find_def)
  also have "\<dots> = int (length line + 3 + length (k @ '':'' @ v))"
    using find_pat_first [OF refl nocr, of "tl head_end" "length line + 3" rest] by (simp add: CRLF_def)
  finally have "string_find ?buf head_end 0 = int (length line + 3 + length (k @ '':'' @ v))" .
  moreover have "int (length line) + 3 < int (length line + 3 + length (k @ '':'' @ v))" by simp
  ultimately have "HttpMsg_TryDecode ?buf 0 0 (hr_msg HttpRequest_Clear) = None"
    using header_hangs [OF line assms(3-5), of "hr_msg HttpRequest_Clear" a "v @ CRLF @ CRLF @ rest"]
    by (simp add: HttpRequest_Clear_def HttpMsg_Clear_def)
  then show ?thesis by (simp add: HttpRequest_TryDecode_def)
qed

theorem HttpRequest_decode_header_hangs_witness:
  "HttpRequest_TryDecode (''GET / HTTP/1.1'' @ CRLF @ ''Host: a'' @ CRLF @ CRLF) HttpRequest_Clear = None"
  using HttpRequest_decode_header_hangs [of "''GET / HTTP/1.1''" "''ost''" "'' a''" "CHR ''H''" "CHR ''o''" "''st''" "[]"]
  by (simp add: isspace_def)

definition response_bytes :: "http_response \<Rightarrow> byte list" where
  "response_bytes r = concat (status_line r # tail_pieces (hp_msg r))"

lemma append_pieces_Inr:
  assumes wf: "buffer_wf buf" and small: "\<forall>p \<in> set ps. length p < 2 ^ 64" and r: "append_pieces ps buf = Inr (n, b)"
  shows "buffer_wf b \<and> content b = content buf @ map Some (concat ps) \<and> n = of_nat (length (concat ps))"
proof -
  have run: "rfold (\<lambda>p b. Buffer_Append b p) ps buf = Inr b" and n: "n = Buffer_GetSize b - Buffer_GetSize buf"
    using r by (auto simp: append_pieces_def rbind_Inr_iff)
  have "buffer_wf b \<and> content b = content buf @ map Some (concat ps)"
    using run small wf
  proof (induction ps arbitrary: buf)
    case (Cons p ps)
    then obtain b1 where b1: "Buffer_Append buf p = Inr b1" "rfold (\<lambda>p b. Buffer_Append b p) ps b1 = Inr b"
      by (auto elim: rbind_InrE)
    have "buffer_wf b1 \<and> content b1 = content buf @ map Some p" using Append_Inr [OF Cons.prems(3) _ b1(1)] Cons.prems(2) by simp
    then show ?case using Cons.IH [OF b1(2)] Cons.prems(2) by simp
  qed simp
  moreover have "Buffer_GetSize x = of_nat (length (content x))" if "buffer_wf x" for x
    using length_content [OF that] by simp
  ultimately show ?thesis using n wf by simp
qed

text \<open>
  Encoding appends the status line, the headers, the length of the body as a decimal number, an empty
  line and the body to the buffer, and returns how many bytes it appended.
\<close>

theorem HttpResponse_Encode_layout:
  assumes "buffer_wf buf" and "\<forall>p \<in> set (status_line r # tail_pieces (hp_msg r)). length p < 2 ^ 64"
    and "HttpResponse_Encode r buf = Inr (n, b)"
  shows "content b = content buf @ map Some (response_bytes r) \<and> n = of_nat (length (response_bytes r))"
  using append_pieces_Inr [OF assms(1,2)] assms(3) unfolding HttpResponse_Encode_def response_bytes_def by blast

definition small_response :: http_response where
  "small_response = HttpResponse_Clear\<lparr>hp_msg := HttpMsg_Clear\<lparr>hm_body := ''ok''\<rparr>\<rparr>"

lemma small_response_run: "\<not> isl (HttpResponse_Encode small_response (Buffer_SetSuggestSize Buffer_new 96))"
  by code_simp

lemma small_response_pieces: "\<forall>p \<in> set (status_line small_response # tail_pieces (hp_msg small_response)). length p < 100"
  by code_simp

theorem HttpResponse_Encode_layout_witness:
  "\<exists>n b. HttpResponse_Encode small_response (Buffer_SetSuggestSize Buffer_new 96) = Inr (n, b) \<and>
    content b = map Some (response_bytes small_response)"
proof -
  obtain n b where r: "HttpResponse_Encode small_response (Buffer_SetSuggestSize Buffer_new 96) = Inr (n, b)"
    using small_response_run by (cases "HttpResponse_Encode small_response (Buffer_SetSuggestSize Buffer_new 96)") auto
  have "\<forall>p \<in> set (status_line small_response # tail_pieces (hp_msg small_response)). length p < 2 ^ 64"
    using small_response_pieces by fastforce
  from HttpResponse_Encode_layout [OF suggested_buffer(1) this r] show ?thesis using r by simp
qed

lemma encoded_head_end:
  assumes "CHR 0x0D \<notin> set line"
  shows "int (length line) + 3 < string_find (line @ CRLF @ CHR ''C'' # CHR ''o'' # w @ head_end @ rest) head_end 0"
proof -
  have "string_find (line @ CRLF @ CHR ''C'' # CHR ''o'' # w @ head_end @ rest) head_end 0 =
      find_pat head_end (length line + 3) (CHR ''o'' # w @ head_end @ rest)"
    using find_head_end_skip [OF assms, of "CHR ''C''" 0] by (simp add: string_find_def)
  also have "\<dots> = find_pat head_end (length line + 4) (w @ head_end @ rest)" by (simp add: add.commute)
  finally show ?thesis using find_pat_ge [of "length line + 4" head_end w rest] by simp
qed

definition request_bytes :: "http_request \<Rightarrow> byte list" where
  "request_bytes r = concat (request_line r # tail_pieces (hr_msg r))"

lemma request_bytes_shape:
  assumes "hm_headers (hr_msg r) = []" and "request_line r = line @ CRLF" and "length (decimal (length (hm_body (hr_msg r)))) < 1000"
  shows "\<exists>w. request_bytes r = line @ CRLF @ CHR ''C'' # ''onnection'' @ '':'' @ '' Keep-Alive'' @ CRLF @ w @ head_end @ hm_body (hr_msg r)"
proof -
  have "snprintf 1024 (''Content-Length: '' @ decimal (length (hm_body (hr_msg r))) @ CRLF) =
      ''Content-Length: '' @ decimal (length (hm_body (hr_msg r))) @ CRLF"
    using assms(3) by (simp add: snprintf_def CRLF_def)
  then have "request_bytes r = line @ CRLF @ ''Connection: Keep-Alive'' @ CRLF @
      (''Content-Length: '' @ decimal (length (hm_body (hr_msg r)))) @ head_end @ hm_body (hr_msg r)"
    using assms(1,2) by (simp add: request_bytes_def tail_pieces_def header_pieces_def CRLF_def)
  then show ?thesis by auto
qed

text \<open>
  A request that the library has encoded cannot be decoded by it: decoding the bytes of an encoded
  request without headers of its own does not return, because the encoder always adds two header lines.
\<close>

theorem HttpRequest_roundtrip_hangs:
  assumes "hm_headers (hr_msg r) = []" and "request_line r = line @ CRLF" and "CHR 0x0D \<notin> set line"
    and "length (decimal (length (hm_body (hr_msg r)))) < 1000"
    and "buffer_wf buf" and "content buf = []" and "HttpRequest_Encode r buf = Inr (n, b)" and "\<forall>p \<in> set (request_line r # tail_pieces (hr_msg r)). length p < 2 ^ 64"
    and "buffer_bytes b = Inr data"
  shows "data = request_bytes r \<and> HttpRequest_TryDecode data HttpRequest_Clear = None"
proof -
  have b: "buffer_wf b \<and> content b = map Some (request_bytes r)"
    using append_pieces_Inr [OF assms(5,8)] assms(6,7) unfolding HttpRequest_Encode_def request_bytes_def by simp
  then have data: "data = request_bytes r" using buffer_bytes_ok [of b "request_bytes r"] assms(9) by simp
  obtain w where w: "request_bytes r = line @ CRLF @ CHR ''C'' # ''onnection'' @ '':'' @ '' Keep-Alive'' @ CRLF @ w @ head_end @ hm_body (hr_msg r)"
    using request_bytes_shape [OF assms(1,2,4)] by blast
  have far: "int (length line) + 3 < string_find (line @ CRLF @ CHR ''C'' # ''onnection'' @ '':'' @ ('' Keep-Alive'' @ CRLF @ w @ head_end @ hm_body (hr_msg r))) head_end 0"
    using encoded_head_end [OF assms(3), of "''nnection'' @ '':'' @ '' Keep-Alive'' @ CRLF @ w" "hm_body (hr_msg r)"] by simp
  have "HttpMsg_TryDecode (request_bytes r) 0 0 (hr_msg HttpRequest_Clear) = None"
    unfolding w
    by (rule header_hangs [OF assms(3) _ _ _ _ _ refl far, where d = "CHR ''o''" and ks = "''nnection''"])
      (simp_all add: isspace_def HttpRequest_Clear_def HttpMsg_Clear_def)
  then show ?thesis using data by (simp add: HttpRequest_TryDecode_def)
qed

definition small_request :: http_request where
  "small_request = SetQueryUri ''/'' (SetMethod ''GET'' HttpRequest_Clear)"

lemma small_request_run: "\<not> isl (HttpRequest_Encode small_request (Buffer_SetSuggestSize Buffer_new 96))"
  by code_simp

lemma small_request_line: "request_line small_request = ''GET / HTTP/1.1'' @ CRLF"
  by code_simp

lemma small_request_pieces:
  "\<forall>p \<in> set (request_line small_request # tail_pieces (hr_msg small_request)). length p < 100"
  "length (decimal (length (hm_body (hr_msg small_request)))) < 1000"
  by code_simp+

theorem HttpRequest_roundtrip_hangs_witness:
  "\<exists>n b data. HttpRequest_Encode small_request (Buffer_SetSuggestSize Buffer_new 96) = Inr (n, b) \<and> buffer_bytes b = Inr data \<and>
    HttpRequest_TryDecode data HttpRequest_Clear = None"
proof -
  let ?buf = "Buffer_SetSuggestSize Buffer_new 96"
  obtain n b where r: "HttpRequest_Encode small_request ?buf = Inr (n, b)"
    using small_request_run by (cases "HttpRequest_Encode small_request ?buf") auto
  have ps: "\<forall>p \<in> set (request_line small_request # tail_pieces (hr_msg small_request)). length p < 2 ^ 64"
    using small_request_pieces(1) by fastforce
  have "buffer_wf b" "content b = map Some (request_bytes small_request)"
    using append_pieces_Inr [OF suggested_buffer(1) ps] r unfolding HttpRequest_Encode_def request_bytes_def by simp_all
  then have d: "buffer_bytes b = Inr (request_bytes small_request)" by (rule buffer_bytes_ok)
  have h: "hm_headers (hr_msg small_request) = []" "CHR 0x0D \<notin> set ''GET / HTTP/1.1''"
    by (simp_all add: small_request_def HttpRequest_Clear_def HttpMsg_Clear_def)
  from HttpRequest_roundtrip_hangs [OF h(1) small_request_line h(2) small_request_pieces(2) suggested_buffer r ps d]
  show ?thesis using r d by blast
qed

text \<open>
  A request that arrives in pieces is refused: when the first piece has no space in it, decoding it
  reports an error, and the connection is closed, although the rest may follow.
\<close>

theorem HttpRequest_fragment_refused:
  assumes "CHR '' '' \<notin> set buf" and "CHR 0x0D \<notin> set buf" and "buf \<noteq> []" and "hd buf \<noteq> CHR ''/''"
  shows "\<exists>r. HttpRequest_TryDecode buf HttpRequest_Clear = Some (Inr (HError, r))"
proof -
  have msg: "HttpMsg_TryDecode buf 0 0 (hr_msg HttpRequest_Clear) = Some (Inr (HNotComplete, 0, 0, HttpMsg_Clear))"
    using find_pat_none [OF assms(2), of "tl head_end" 0]
    by (simp add: HttpMsg_TryDecode_def string_find_def HttpRequest_Clear_def HttpMsg_Clear_def)
  have f: "string_find buf '' '' 0 = - 1" using find_pat_none [OF assms(1), of "[]" 0] by (simp add: string_find_def)
  have s: "substr buf 0 (- 1) = Inr buf" "substr buf (- 1 + 1) (- 1 - (- 1 + 1)) = Inr buf" "\<exists>v. substr buf (- 1 + 1) (0 - - 1) = Inr v"
    by (simp_all add: substr_def)
  then obtain v where v: "substr buf (- 1 + 1) (0 - - 1) = Inr v" by blast
  show ?thesis
    using msg f s(1,2) v assms(3,4) by (simp add: HttpRequest_TryDecode_def Let_def)
qed

theorem HttpRequest_fragment_refused_witness: "\<exists>r. HttpRequest_TryDecode ''GE'' HttpRequest_Clear = Some (Inr (HError, r))"
  by (rule HttpRequest_fragment_refused) simp_all

text \<open>
  The server never gives a connection the context that its handler needs: reading from a connection whose
  context was not set ends with the exception for a bad cast, whatever has arrived and whoever the peer is.
\<close>

theorem HttpConn_HandleRead_bad_cast:
  assumes "hc_ctx s = Any_void"
  shows "HttpConn_HandleRead cb ws s = Some (Inl BadCast)"
  using assms by (simp add: HttpConn_HandleRead_def GetRequest_def GetResponse_def AnyCast_def Any_Is_def Any_void_def)

theorem HttpConn_HandleRead_bad_cast_witness:
  "HttpConn_HandleRead Inr [] \<lparr>hc_tcp = example_conn, hc_peer = Ip4Addr_new (\<lambda>_. None) [] 8080, hc_ctx = Any_void\<rparr> = Some (Inl BadCast)"
  by (rule HttpConn_HandleRead_bad_cast) simp

text \<open>
  The path a client sets is not the one it sends: \<^verbatim>\<open>Encode\<close> writes the query, which only \<^verbatim>\<open>SetQueryUri\<close> and the decoder set, so that a
  request with a path and no query asks for the empty path.
\<close>

theorem HttpRequest_SetUri_unsent:
  "HttpRequest_Encode (SetUri uri (SetMethod method HttpRequest_Clear)) buf = HttpRequest_Encode (SetMethod method HttpRequest_Clear) buf \<and>
   request_line (SetUri uri (SetMethod method HttpRequest_Clear)) = snprintf 4096 (cstr method @ ''  HTTP/1.1'' @ CRLF)"
  by (simp add: HttpRequest_Encode_def request_line_def HttpRequest_Clear_def HttpMsg_Clear_def cstr_def)

text \<open>
  The server's table: after registering a callback it is the one found for its method and path, every
  other method and path finds what it found before, and a request without an entry gets the default.
\<close>

theorem HttpServer_lookup_OnRequest:
  "HttpServer_lookup (OnRequest method uri cb cbs) d req =
     (if hr_method req = method \<and> hr_uri req = uri then cb else HttpServer_lookup cbs d req) \<and>
   HttpServer_lookup Map.empty d req = d"
  by (auto simp: HttpServer_lookup_def OnRequest_def split: option.splits)

end
