(* ===== verification/RaftLog.thy ===== *)
theory RaftLog
  imports JNet_Prelude
begin

text \<open>
  The persistent log of a Raft node (\<^verbatim>\<open>raft/storage.h\<close>, \<^verbatim>\<open>raft/storage.cc\<close>, \<^verbatim>\<open>raft/raft_log.h\<close>,
  \<^verbatim>\<open>raft/raft_log.cc\<close>).

  A storage is a file, a list of bytes, with the answers the system will give to the next calls on it: a
  call does everything it is asked, transfers fewer bytes, or fails. When no answer is listed the call
  succeeds. The generated code for \<^verbatim>\<open>LogEntry\<close> is not part of the repository: its serialisation and what
  \<^verbatim>\<open>ParseFromString\<close> leaves in a fresh entry are arguments.

  The log keeps for every entry its offset in the file and its term. On disk the index of the first entry
  (8 bytes) is followed by one frame per entry: a header of 16 bytes, whose last 4 bytes are padding with
  unspecified values, and the serialised entry.
\<close>

section \<open>Storage\<close>

datatype io_answer = IoFull | IoShort nat | IoError

record storage =
  st_file :: "byte list"
  st_answers :: "io_answer list"

text \<open>Opening the file, which is created when there is none; \<open>ok\<close> is whether \<^verbatim>\<open>open\<close> succeeded.\<close>

definition Storage_new :: "bool \<Rightarrow> byte list option \<Rightarrow> io_answer list \<Rightarrow> storage res" where
  "Storage_new ok old as =
     rbind (cxx_assert ok) (\<lambda>_. Inr \<lparr>st_file = (case old of None \<Rightarrow> [] | Some bs \<Rightarrow> bs), st_answers = as\<rparr>)"

definition io_pop :: "storage \<Rightarrow> io_answer \<times> storage" where
  "io_pop st = (case st_answers st of [] \<Rightarrow> (IoFull, st) | a # as \<Rightarrow> (a, st\<lparr>st_answers := as\<rparr>))"

definition io_count :: "io_answer \<Rightarrow> nat \<Rightarrow> nat" where
  "io_count a n = (case a of IoFull \<Rightarrow> n | IoShort k \<Rightarrow> min k n | IoError \<Rightarrow> 0)"

text \<open>Writing behind the end of a file fills the gap with zeros.\<close>

definition file_write :: "byte list \<Rightarrow> nat \<Rightarrow> byte list \<Rightarrow> byte list" where
  "file_write f off bs =
     (if bs = [] then f
      else take off (f @ replicate (off - length f) (CHR 0x00)) @ bs @ drop (off + length bs) f)"

definition Storage_Write :: "byte list \<Rightarrow> int64 \<Rightarrow> storage \<Rightarrow> int \<times> storage" where
  "Storage_Write buf off st =
     (case io_pop st of (a, st) \<Rightarrow>
        if a = IoError \<or> sint off < 0 then (- 1, st)
        else let n = io_count a (length buf) in
             (int n, st\<lparr>st_file := file_write (st_file st) (unat off) (take n buf)\<rparr>))"

definition Storage_Read :: "nat \<Rightarrow> int64 \<Rightarrow> storage \<Rightarrow> int \<times> byte list \<times> storage" where
  "Storage_Read len off st =
     (case io_pop st of (a, st) \<Rightarrow>
        if a = IoError \<or> sint off < 0 then (- 1, [], st)
        else let got = take (io_count a len) (drop (unat off) (st_file st)) in (int (length got), got, st))"

definition Storage_Truncate :: "int64 \<Rightarrow> storage \<Rightarrow> int \<times> storage" where
  "Storage_Truncate off st =
     (case io_pop st of (a, st) \<Rightarrow>
        if a = IoError \<or> sint off < 0 then (- 1, st)
        else (0, st\<lparr>st_file := take (unat off) (st_file st @ replicate (unat off - length (st_file st)) (CHR 0x00))\<rparr>))"

definition Storage_FileSize :: "storage \<Rightarrow> int64" where
  "Storage_FileSize st = of_nat (length (st_file st))"

section \<open>The log\<close>

datatype entry_type = ENTRY_TYPE_NOOP | ENTRY_TYPE_DATA | ENTRY_TYPE_CONFIGURATION

record log_entry =
  le_type :: entry_type
  le_term :: int64
  le_index :: int64
  le_command :: "byte list"

record raft_log =
  rl_first :: int64
  rl_bytes :: int64
  rl_offset_term :: "(int64 \<times> int64) list"
  rl_storage :: storage

definition RaftLog_new :: "storage \<Rightarrow> raft_log" where
  "RaftLog_new st = \<lparr>rl_first = - 1, rl_bytes = 0, rl_offset_term = [], rl_storage = st\<rparr>"

definition header_size :: nat where
  "header_size = 16"

definition LogHeader_bytes :: "int64 \<Rightarrow> int32 \<Rightarrow> 32 word \<Rightarrow> byte list" where
  "LogHeader_bytes term len pad = bytes64 term @ bytes32 len @ bytes32 pad"

text \<open>A header read from disk, over the zeros of a default header when the file is too short.\<close>

definition header_fill :: "byte list \<Rightarrow> byte list" where
  "header_fill got = got @ replicate (header_size - length got) (CHR 0x00)"

definition header_term :: "byte list \<Rightarrow> int64" where
  "header_term h = word64 (take 8 h)"

definition header_len :: "byte list \<Rightarrow> int32" where
  "header_len h = word32 (take 4 (drop 8 h))"

text \<open>A read of a vector element outside the vector is undefined.\<close>

definition nth_res :: "'a list \<Rightarrow> int64 \<Rightarrow> 'a res" where
  "nth_res xs i = (if unat i < length xs then Inr (xs ! unat i) else Inl OutOfBounds)"

text \<open>A serialised entry of \<open>2^31\<close> bytes or more has a negative length, which \<^verbatim>\<open>pwrite\<close> reads as a huge count.\<close>

definition RaftLog_Append :: "(log_entry \<Rightarrow> byte list) \<Rightarrow> 32 word \<Rightarrow> log_entry \<Rightarrow> raft_log \<Rightarrow> raft_log res" where
  "RaftLog_Append serialize pad entry l =
     (let term = le_term entry; str = serialize entry; len = of_nat (length str) :: int32;
          (r, st) = Storage_Write (LogHeader_bytes term len pad) (rl_bytes l) (rl_storage l); l = l\<lparr>rl_storage := st\<rparr>
      in if r = - 1 then Inr l
         else if sint len < 0 then Inl OutOfBounds
         else
           let (r, st) = Storage_Write (take (unat len) str) (rl_bytes l + of_nat header_size) (rl_storage l); l = l\<lparr>rl_storage := st\<rparr>
           in if r = - 1 then Inr l
              else Inr (l\<lparr>rl_offset_term := rl_offset_term l @ [(rl_bytes l, term)],
                          rl_bytes := rl_bytes l + (scast len + of_nat header_size)\<rparr>))"

text \<open>The loop of \<^verbatim>\<open>Load\<close>. An array of negative length is undefined.\<close>

function load_loop :: "int64 \<Rightarrow> raft_log \<Rightarrow> raft_log res" where
  "load_loop file_size l =
     (if sint (rl_bytes l) < sint file_size then
        (case Storage_Read header_size (rl_bytes l) (rl_storage l) of (r, got, st) \<Rightarrow>
           if r = - 1 then Inr (l\<lparr>rl_storage := st\<rparr>)
           else
             (let h = header_fill got; len = header_len h in
              if sint len < 0 then Inl OutOfBounds
              else
                (case Storage_Read (unat len) (rl_bytes l + of_nat header_size) st of (r2, buf, st2) \<Rightarrow>
                   let l2 = l\<lparr>rl_storage := st2, rl_offset_term := rl_offset_term l @ [(rl_bytes l, header_term h)]\<rparr> in
                   if r2 = - 1 then Inr l2
                   else load_loop file_size (l2\<lparr>rl_bytes := rl_bytes l + (of_nat header_size + scast len)\<rparr>))))
      else Inr l)"
  by pat_completeness auto

text \<open>The loop ends: a frame moves the position forward, or past the largest offset, where the next read fails.\<close>

lemma advance:
  fixes b :: int64 and len :: int32
  assumes "0 \<le> sint b" and "0 \<le> sint len"
  shows "unat (b + (16 + scast len)) = unat b + (16 + unat len)"
proof -
  have "unat b < 2 ^ 63" "unat len < 2 ^ 31" using assms by (simp_all add: sint_nonneg_iff)
  then show ?thesis using scast_nonneg [OF assms(2)] by (simp add: unat_plus_nowrap)
qed

lemma advance_sint:
  fixes b :: int64 and len :: int32
  assumes "0 \<le> sint b" and "0 \<le> sint len" and "0 \<le> sint (b + (16 + scast len))"
  shows "sint b < sint (b + (16 + scast len))"
proof -
  have "int (unat b) < int (unat (b + (16 + scast len)))" unfolding advance [OF assms(1,2)] by linarith
  then show ?thesis using sint_nonneg_eq [OF assms(1)] sint_nonneg_eq [OF assms(3)] by simp
qed

lemma Storage_Read_ok:
  assumes "Storage_Read n off st = (r, got, st')" and "r \<noteq> - 1"
  shows "0 \<le> sint off"
  using assms by (auto simp: Storage_Read_def Let_def split: prod.splits if_splits)

termination load_loop
proof (relation "measure (\<lambda>(fs, l). if sint (rl_bytes l) < 0 then 0 else Suc (nat (sint fs - sint (rl_bytes l))))", goal_cases)
  case 1
  then show ?case by simp
next
  case (2 fs l r x got st h len r2 y buf st2 l2)
  have b: "0 \<le> sint (rl_bytes l)" using Storage_Read_ok 2 by metis
  moreover have n: "0 \<le> sint len" using 2 by simp
  ultimately show ?case using advance_sint [OF b n] 2 by (auto simp: header_size_def)
qed

declare load_loop.simps [simp del]

text \<open>\<^verbatim>\<open>Load\<close> reads the index of the first entry over the old one and goes on from there.\<close>

definition RaftLog_Load :: "raft_log \<Rightarrow> raft_log res" where
  "RaftLog_Load l =
     (let file_size = Storage_FileSize (rl_storage l); (r, got, st) = Storage_Read 8 (rl_bytes l) (rl_storage l);
          l = l\<lparr>rl_storage := st, rl_first := (if r = - 1 then rl_first l else word64 (got @ drop (length got) (bytes64 (rl_first l))))\<rparr>
      in if r = - 1 then Inr l else load_loop file_size (l\<lparr>rl_bytes := rl_bytes l + 8\<rparr>))"

text \<open>The difference is a signed number, the size an unsigned one: the comparison is unsigned.\<close>

definition ValidIndex :: "int64 \<Rightarrow> raft_log \<Rightarrow> bool" where
  "ValidIndex index l \<longleftrightarrow> rl_offset_term l \<noteq> [] \<and> unat (index - rl_first l) < length (rl_offset_term l)"

text \<open>
  The bytes of an entry are parsed as a C string: up to the first zero byte, which is looked for behind the
  array when the array has none. An absent result is the null pointer.
\<close>

definition RaftLog_Get :: "(byte list \<Rightarrow> log_entry) \<Rightarrow> int64 \<Rightarrow> raft_log \<Rightarrow> (log_entry option \<times> raft_log) res" where
  "RaftLog_Get parse index l =
     (if \<not> ValidIndex index l then Inr (None, l)
      else
        rbind (nth_res (rl_offset_term l) (index - rl_first l)) (\<lambda>(off, term).
        let (r, got, st) = Storage_Read header_size off (rl_storage l); l = l\<lparr>rl_storage := st\<rparr>
        in if r = - 1 then Inr (None, l)
           else
             let len = header_len (header_fill got) in
             if sint len < 0 then Inl OutOfBounds
             else
               let (r, buf, st) = Storage_Read (unat len) (off + of_nat header_size) (rl_storage l); l = l\<lparr>rl_storage := st\<rparr>
               in if r = - 1 then Inr (None, l)
                  else if CHR 0x00 \<in> set buf then Inr (Some (parse (takeWhile (\<lambda>c. c \<noteq> CHR 0x00) buf)), l)
                  else if length buf < unat len then Inl Indeterminate
                  else Inl OutOfBounds))"

definition RaftLog_Term :: "int64 \<Rightarrow> raft_log \<Rightarrow> int64 res" where
  "RaftLog_Term index l =
     (if ValidIndex index l then Inr 0
      else rbind (nth_res (rl_offset_term l) (index - rl_first l)) (\<lambda>(off, term). Inr term))"

definition RaftLog_LastIndex :: "raft_log \<Rightarrow> int64" where
  "RaftLog_LastIndex l = of_nat (length (rl_offset_term l)) + rl_first l - 1"

definition RaftLog_SetFirstIndex :: "int64 \<Rightarrow> raft_log \<Rightarrow> raft_log" where
  "RaftLog_SetFirstIndex index l =
     (let (r, st) = Storage_Write (bytes64 index) (rl_bytes l) (rl_storage l); l = l\<lparr>rl_storage := st\<rparr>
      in if r = - 1 then l else l\<lparr>rl_bytes := rl_bytes l + 8, rl_first := index\<rparr>)"

text \<open>One element is erased, whatever follows it.\<close>

definition storage_cut :: "int64 \<Rightarrow> raft_log \<Rightarrow> raft_log res" where
  "storage_cut off l =
     (let (r, st) = Storage_Truncate off (rl_storage l)
      in rbind (cxx_assert (r \<noteq> - 1)) (\<lambda>_. Inr (l\<lparr>rl_storage := st, rl_bytes := off\<rparr>)))"

definition RaftLog_Truncate :: "int64 \<Rightarrow> raft_log \<Rightarrow> raft_log res" where
  "RaftLog_Truncate index l =
     (if \<not> ValidIndex index l then Inr l
      else
        rbind (if sint index \<le> sint (rl_first l)
               then rbind (storage_cut 0 l) (\<lambda>l. Inr (RaftLog_SetFirstIndex index l)) else Inr l) (\<lambda>l.
        rbind (nth_res (rl_offset_term l) (index - rl_first l)) (\<lambda>(off, term).
        rbind (storage_cut off l) (\<lambda>l.
        let k = unat (index - rl_first l) in
        Inr (l\<lparr>rl_offset_term := take k (rl_offset_term l) @ drop (Suc k) (rl_offset_term l)\<rparr>)))))"

definition RaftLog_ContainLog :: "int64 \<Rightarrow> int64 \<Rightarrow> raft_log \<Rightarrow> bool res" where
  "RaftLog_ContainLog index term l =
     (if \<not> ValidIndex index l then Inr False
      else rbind (nth_res (rl_offset_term l) (index - rl_first l)) (\<lambda>(off, t). Inr (t = term)))"

section \<open>What a log on disk looks like\<close>

text \<open>A frame is a term, a padding and a serialised entry.\<close>

type_synonym frame = "int64 \<times> 32 word \<times> byte list"

fun frame_bytes :: "frame \<Rightarrow> byte list" where
  "frame_bytes (t, pad, p) = LogHeader_bytes t (of_nat (length p)) pad @ p"

definition log_image :: "int64 \<Rightarrow> frame list \<Rightarrow> byte list" where
  "log_image i fs = bytes64 i @ concat (map frame_bytes fs)"

fun offsets :: "nat \<Rightarrow> frame list \<Rightarrow> (int64 \<times> int64) list" where
  "offsets n [] = []"
| "offsets n (f # fs) = (of_nat n, fst f) # offsets (n + length (frame_bytes f)) fs"

definition frames_ok :: "frame list \<Rightarrow> bool" where
  "frames_ok fs \<longleftrightarrow> (\<forall>(t, pad, p) \<in> set fs. length p < 2 ^ 31)"

text \<open>The log with first index \<open>i\<close> and the given frames, in memory and on a disk that works.\<close>

definition log_of :: "int64 \<Rightarrow> frame list \<Rightarrow> raft_log" where
  "log_of i fs =
     \<lparr>rl_first = i, rl_bytes = of_nat (length (log_image i fs)), rl_offset_term = offsets 8 fs,
      rl_storage = \<lparr>st_file = log_image i fs, st_answers = []\<rparr>\<rparr>"

definition entry_frame :: "(log_entry \<Rightarrow> byte list) \<Rightarrow> 32 word \<times> log_entry \<Rightarrow> frame" where
  "entry_frame serialize = (\<lambda>(pad, e). (le_term e, pad, serialize e))"

section \<open>Lemmas\<close>

lemma length_LogHeader_bytes [simp]: "length (LogHeader_bytes t n pad) = 16"
  by (simp add: LogHeader_bytes_def)

lemma length_frame_bytes [simp]: "length (frame_bytes f) = 16 + length (snd (snd f))"
  by (cases f) simp

lemma header_read [simp]:
  "header_fill (LogHeader_bytes t n pad) = LogHeader_bytes t n pad"
  "header_term (LogHeader_bytes t n pad) = t"
  "header_len (LogHeader_bytes t n pad) = n"
  by (simp_all add: header_fill_def header_size_def header_term_def header_len_def LogHeader_bytes_def)

lemma unat_offset: "n < 2 ^ 63 \<Longrightarrow> unat (of_nat n :: int64) = n"
  by (simp add: unat_of_nat_nowrap)

lemma sint_offset: "n < 2 ^ 63 \<Longrightarrow> sint (of_nat n :: int64) = int n"
proof -
  assume n: "n < 2 ^ 63"
  then have "0 \<le> sint (of_nat n :: int64)" by (simp add: sint_nonneg_iff unat_offset)
  then have "sint (of_nat n :: int64) = int (unat (of_nat n :: int64))" by (simp add: sint_nonneg_eq)
  then show ?thesis using n by (simp only: unat_offset)
qed

lemma sint_length32: "n < 2 ^ 31 \<Longrightarrow> 0 \<le> sint (of_nat n :: int32) \<and> unat (of_nat n :: int32) = n"
  by (simp add: sint_nonneg_iff unat_of_nat)

lemma Storage_Write_end:
  assumes "length f < 2 ^ 63"
  shows "Storage_Write buf (of_nat (length f)) \<lparr>st_file = f, st_answers = []\<rparr> =
    (int (length buf), \<lparr>st_file = f @ buf, st_answers = []\<rparr>)"
  using assms by (simp add: Storage_Write_def io_pop_def sint_offset unat_offset io_count_def file_write_def Let_def)

lemma Storage_Read_mid:
  assumes "length pre < 2 ^ 63" and "n = length mid"
  shows "Storage_Read n (of_nat (length pre)) \<lparr>st_file = pre @ mid @ post, st_answers = []\<rparr> =
    (int n, mid, \<lparr>st_file = pre @ mid @ post, st_answers = []\<rparr>)"
  using assms by (simp add: Storage_Read_def io_pop_def sint_offset unat_offset io_count_def Let_def)

lemma offsets_append:
  "offsets n (fs @ gs) = offsets n fs @ offsets (n + length (concat (map frame_bytes fs))) gs"
  by (induction fs arbitrary: n) (auto simp: ac_simps)

lemma length_offsets [simp]: "length (offsets n fs) = length fs"
  by (induction fs arbitrary: n) auto

lemma log_image_snoc: "log_image i (fs @ [f]) = log_image i fs @ frame_bytes f"
  by (simp add: log_image_def)

lemma length_log_image: "length (log_image i fs) = 8 + length (concat (map frame_bytes fs))"
  by (simp add: log_image_def)

lemma Append_ok:
  assumes p: "length (serialize e) < 2 ^ 31"
    and size: "length (log_image i fs) + 16 + length (serialize e) < 2 ^ 63"
  shows "RaftLog_Append serialize pad e (log_of i fs) = Inr (log_of i (fs @ [entry_frame serialize (pad, e)]))"
proof -
  let ?f = "log_image i fs" and ?n = "of_nat (length (serialize e)) :: int32"
  have w1: "Storage_Write (LogHeader_bytes t ?n pad) (of_nat (length ?f)) \<lparr>st_file = ?f, st_answers = []\<rparr> =
      (16, \<lparr>st_file = ?f @ LogHeader_bytes t ?n pad, st_answers = []\<rparr>)" for t
    using Storage_Write_end [of ?f] size by simp
  have w2: "Storage_Write (serialize e) (of_nat (length ?f) + 16) \<lparr>st_file = ?f @ LogHeader_bytes t ?n pad, st_answers = []\<rparr> =
      (int (length (serialize e)), \<lparr>st_file = (?f @ LogHeader_bytes t ?n pad) @ serialize e, st_answers = []\<rparr>)" for t
    using Storage_Write_end [of "?f @ LogHeader_bytes t ?n pad" "serialize e"] size by (simp add: ac_simps)
  have n: "0 \<le> sint ?n" "unat ?n = length (serialize e)" using sint_length32 [OF p] by auto
  have sc: "(scast ?n :: int64) = of_nat (length (serialize e))"
    using scast_nonneg [OF n(1)] n(2) by (metis of_nat_unat ucast_id)
  let ?t = "le_term e"
  have "RaftLog_Append serialize pad e (log_of i fs) =
      Inr \<lparr>rl_first = i, rl_bytes = of_nat (length ?f) + (of_nat (length (serialize e)) + 16),
        rl_offset_term = offsets 8 fs @ [(of_nat (length ?f), ?t)],
        rl_storage = \<lparr>st_file = (?f @ LogHeader_bytes ?t ?n pad) @ serialize e, st_answers = []\<rparr>\<rparr>"
    using n by (simp add: RaftLog_Append_def log_of_def w1 w2 header_size_def Let_def sc)
  also have "\<dots> = Inr (log_of i (fs @ [entry_frame serialize (pad, e)]))"
    by (simp add: log_of_def entry_frame_def log_image_snoc offsets_append length_log_image ac_simps)
  finally show ?thesis .
qed

lemma load_loop_ok:
  assumes "frames_ok fs" and "length pre + length (concat (map frame_bytes fs)) < 2 ^ 63"
    and "rl_bytes l = of_nat (length pre)"
    and "rl_storage l = \<lparr>st_file = pre @ concat (map frame_bytes fs), st_answers = []\<rparr>"
    and "n = length pre + length (concat (map frame_bytes fs))"
  shows "load_loop (of_nat n) l =
    Inr (l\<lparr>rl_bytes := of_nat n, rl_offset_term := rl_offset_term l @ offsets (length pre) fs\<rparr>)"
  using assms
proof (induction fs arbitrary: pre l)
  case Nil
  then show ?case by (subst load_loop.simps) simp
next
  case (Cons f fs)
  obtain t pad p where f: "f = (t, pad, p)" by (cases f)
  let ?h = "LogHeader_bytes t (of_nat (length p)) pad" and ?rest = "concat (map frame_bytes fs)"
  have p: "length p < 2 ^ 31" and ok: "frames_ok fs" using Cons.prems(1) f by (auto simp: frames_ok_def)
  have size: "length pre + 16 + length p + length ?rest < 2 ^ 63" using Cons.prems(2) f by simp
  have st: "rl_storage l = \<lparr>st_file = pre @ ?h @ p @ ?rest, st_answers = []\<rparr>" using Cons.prems(4) f by simp
  have r1: "Storage_Read 16 (of_nat (length pre)) (rl_storage l) = (16, ?h, rl_storage l)"
    using Storage_Read_mid [of pre 16 ?h "p @ ?rest"] size st by simp
  have r2: "Storage_Read (length p) (of_nat (length pre) + 16) (rl_storage l) = (int (length p), p, rl_storage l)"
    using Storage_Read_mid [of "pre @ ?h" "length p" p ?rest] size st by (simp add: ac_simps)
  have n: "0 \<le> sint (of_nat (length p) :: int32)" "unat (of_nat (length p) :: int32) = length p"
    using sint_length32 [OF p] by auto
  have sc: "(scast (of_nat (length p) :: int32) :: int64) = of_nat (length p)"
    using scast_nonneg [OF n(1)] n(2) by (metis of_nat_unat ucast_id)
  have less: "sint (of_nat (length pre) :: int64) < sint (of_nat n :: int64)"
  proof -
    have "length pre < n" "n < 2 ^ 63" using size Cons.prems(5) f by auto
    then show ?thesis using sint_offset [of n] sint_offset [of "length pre"] by linarith
  qed
  let ?l = "l\<lparr>rl_offset_term := rl_offset_term l @ [(of_nat (length pre), t)], rl_bytes := of_nat (length (pre @ ?h @ p))\<rparr>"
  have "load_loop (of_nat n) l = load_loop (of_nat n) ?l"
    using n less by (subst load_loop.simps) (simp add: Cons.prems(3) r1 r2 header_size_def sc ac_simps)
  also have "\<dots> = Inr (?l\<lparr>rl_bytes := of_nat n, rl_offset_term := rl_offset_term ?l @ offsets (length (pre @ ?h @ p)) fs\<rparr>)"
    using Cons.prems(5) size st f by (intro Cons.IH [OF ok]) simp_all
  also have "\<dots> = Inr (l\<lparr>rl_bytes := of_nat n, rl_offset_term := rl_offset_term l @ offsets (length pre) (f # fs)\<rparr>)"
    using f by (simp add: ac_simps)
  finally show ?case .
qed

lemma SetFirstIndex_new: "RaftLog_SetFirstIndex i (RaftLog_new \<lparr>st_file = [], st_answers = []\<rparr>) = log_of i []"
  using Storage_Write_end [of "[]" "bytes64 i"]
  by (simp add: RaftLog_SetFirstIndex_def RaftLog_new_def log_of_def log_image_def)

lemma Load_ok:
  assumes ok: "frames_ok fs" and size: "length (log_image i fs) < 2 ^ 63"
  shows "RaftLog_Load (RaftLog_new (rl_storage (log_of i fs))) = Inr (log_of i fs)"
proof -
  let ?b = "concat (map frame_bytes fs)"
  let ?l = "\<lparr>rl_first = i, rl_bytes = 8, rl_offset_term = [], rl_storage = \<lparr>st_file = log_image i fs, st_answers = []\<rparr>\<rparr>"
  have r: "Storage_Read 8 0 \<lparr>st_file = log_image i fs, st_answers = []\<rparr> =
      (8, bytes64 i, \<lparr>st_file = log_image i fs, st_answers = []\<rparr>)"
    using Storage_Read_mid [of "[]" 8 "bytes64 i" ?b] by (simp add: log_image_def)
  have "RaftLog_Load (RaftLog_new (rl_storage (log_of i fs))) = load_loop (of_nat (length (log_image i fs))) ?l"
    by (simp add: RaftLog_Load_def RaftLog_new_def log_of_def r Storage_FileSize_def)
  also have "\<dots> = Inr (?l\<lparr>rl_bytes := of_nat (length (log_image i fs)), rl_offset_term := [] @ offsets (length (bytes64 i)) fs\<rparr>)"
    using load_loop_ok [OF ok, of "bytes64 i" ?l "length (log_image i fs)"] size by (simp add: log_image_def)
  finally show ?thesis by (simp add: log_of_def)
qed

definition log_size :: "(log_entry \<Rightarrow> byte list) \<Rightarrow> log_entry list \<Rightarrow> nat" where
  "log_size serialize es = sum_list (map (\<lambda>e. 16 + length (serialize e)) es)"

lemma length_log_image_entries:
  "length (log_image i (map (entry_frame serialize) pes)) = 8 + log_size serialize (map snd pes)"
  by (induction pes) (auto simp: log_image_def log_size_def entry_frame_def)

lemma Appends_ok:
  assumes "\<forall>e \<in> set (map snd pes). length (serialize e) < 2 ^ 31"
    and "length (log_image i fs) + log_size serialize (map snd pes) < 2 ^ 63"
  shows "rfold (\<lambda>(pad, e). RaftLog_Append serialize pad e) pes (log_of i fs) =
    Inr (log_of i (fs @ map (entry_frame serialize) pes))"
  using assms
proof (induction pes arbitrary: fs)
  case (Cons pe pes)
  obtain pad e where pe: "pe = (pad, e)" by (cases pe)
  have size: "length (log_image i fs) + 16 + length (serialize e) + log_size serialize (map snd pes) < 2 ^ 63"
    using Cons.prems(2) pe by (simp add: log_size_def)
  have one: "RaftLog_Append serialize pad e (log_of i fs) = Inr (log_of i (fs @ [entry_frame serialize (pad, e)]))"
    using Cons.prems(1) size pe by (intro Append_ok) auto
  have "length (log_image i (fs @ [entry_frame serialize (pad, e)])) = length (log_image i fs) + 16 + length (serialize e)"
    by (simp add: log_image_snoc entry_frame_def)
  then have "rfold (\<lambda>(pad, e). RaftLog_Append serialize pad e) pes (log_of i (fs @ [entry_frame serialize (pad, e)])) =
      Inr (log_of i ((fs @ [entry_frame serialize (pad, e)]) @ map (entry_frame serialize) pes))"
    using Cons.prems(1) size by (intro Cons.IH) auto
  then show ?case using one pe by simp
qed simp

lemma offsets_nth:
  "k < length fs \<Longrightarrow> offsets n fs ! k = (of_nat (n + length (concat (map frame_bytes (take k fs)))), fst (fs ! k))"
  by (induction fs arbitrary: n k) (auto simp: nth_Cons ac_simps split: nat.splits)

lemma offsets_take: "offsets n (take k fs) = take k (offsets n fs)"
  by (induction fs arbitrary: n k) (auto simp: take_Cons split: nat.splits)

lemma log_of_sel [simp]:
  "rl_first (log_of i fs) = i"
  "length (rl_offset_term (log_of i fs)) = length fs"
  by (simp_all add: log_of_def)

lemma log_of_offset:
  "k < length fs \<Longrightarrow> rl_offset_term (log_of i fs) ! k = (of_nat (length (log_image i (take k fs))), fst (fs ! k))"
  by (simp add: log_of_def offsets_nth length_log_image)

lemma log_image_split:
  "k < length fs \<Longrightarrow> log_image i fs = log_image i (take k fs) @ frame_bytes (fs ! k) @ concat (map frame_bytes (drop (Suc k) fs))"
  by (subst id_take_nth_drop [of k fs]) (simp_all add: log_image_def)

lemma frames_few: "length fs \<le> length (log_image i fs)"
  by (induction fs) (auto simp: log_image_def)

lemma ValidIndex_log_of: "ValidIndex index (log_of i fs) \<longleftrightarrow> unat (index - i) < length fs"
  by (auto simp: ValidIndex_def log_of_def simp flip: length_greater_0_conv)

lemma index_position: "k < 2 ^ 64 \<Longrightarrow> unat ((i + of_nat k) - i :: int64) = k"
  by (simp add: unat_of_nat_nowrap)

lemma ContainLog_log_of:
  assumes "length fs < 2 ^ 64"
  shows "RaftLog_ContainLog index term (log_of i fs) = Inr (\<exists>k < length fs. index = i + of_nat k \<and> fst (fs ! k) = term)"
proof (cases "unat (index - i) < length fs")
  case True
  define k where "k = unat (index - i)"
  have k: "k < length fs" "index = i + of_nat k" using True by (simp_all add: k_def)
  have uniq: "\<forall>k' < length fs. index = i + of_nat k' \<longrightarrow> k' = k"
    using assms index_position by (auto simp: k_def)
  have "RaftLog_ContainLog index term (log_of i fs) = Inr (fst (fs ! k) = term)"
    using k log_of_offset [OF k(1), of i] assms
    by (simp add: RaftLog_ContainLog_def ValidIndex_log_of nth_res_def unat_of_nat_nowrap)
  moreover have "(\<exists>k < length fs. index = i + of_nat k \<and> fst (fs ! k) = term) \<longleftrightarrow> fst (fs ! k) = term"
    using k uniq by metis
  ultimately show ?thesis by simp
next
  case False
  have "\<not> (\<exists>k < length fs. index = i + of_nat k)" using False assms index_position by auto
  then show ?thesis using False by (auto simp: RaftLog_ContainLog_def ValidIndex_log_of)
qed

lemma Get_log_of:
  assumes k: "k < length fs" and ok: "frames_ok fs" and size: "length (log_image i fs) < 2 ^ 63" and f: "fs ! k = (t, pad, p)"
  shows "RaftLog_Get parse (i + of_nat k) (log_of i fs) =
    (if CHR 0x00 \<in> set p then Inr (Some (parse (takeWhile (\<lambda>c. c \<noteq> CHR 0x00) p)), log_of i fs) else Inl OutOfBounds)"
proof -
  let ?pre = "log_image i (take k fs)" and ?h = "LogHeader_bytes t (of_nat (length p)) pad"
    and ?post = "concat (map frame_bytes (drop (Suc k) fs))" and ?st = "rl_storage (log_of i fs)"
  have img: "log_image i fs = ?pre @ ?h @ p @ ?post" using log_image_split [OF k, of i] f by simp
  have k64: "k < 2 ^ 64" using k frames_few [of fs i] size by simp
  have p: "length p < 2 ^ 31" using ok nth_mem [OF k] f by (auto simp: frames_ok_def)
  have n: "0 \<le> sint (of_nat (length p) :: int32)" "unat (of_nat (length p) :: int32) = length p"
    using sint_length32 [OF p] by auto
  have pre: "length ?pre < 2 ^ 63" "length (?pre @ ?h) < 2 ^ 63"
    using size img by (simp_all add: trans_less_add1)
  have r1: "Storage_Read 16 (of_nat (length ?pre)) ?st = (16, ?h, ?st)"
    using Storage_Read_mid [OF pre(1), of 16 ?h "p @ ?post"] img by (simp add: log_of_def)
  have r2: "Storage_Read (length p) (of_nat (length ?pre) + 16) ?st = (int (length p), p, ?st)"
    using Storage_Read_mid [OF pre(2), of "length p" p ?post] img by (simp add: log_of_def ac_simps)
  have e: "nth_res (rl_offset_term (log_of i fs)) (of_nat k) = Inr (of_nat (length ?pre), t)"
    using log_of_offset [OF k, of i] k k64 f by (simp add: nth_res_def unat_of_nat_nowrap)
  have v: "ValidIndex (i + of_nat k) (log_of i fs)"
    unfolding ValidIndex_log_of using k k64 index_position [of k i] by simp
  have same: "(log_of i fs)\<lparr>rl_storage := ?st\<rparr> = log_of i fs" by simp
  show ?thesis using v n r1 r2 by (simp add: RaftLog_Get_def e header_size_def)
qed

lemma Storage_Truncate_ok:
  assumes "length pre < 2 ^ 63"
  shows "Storage_Truncate (of_nat (length pre)) \<lparr>st_file = pre @ post, st_answers = []\<rparr> = (0, \<lparr>st_file = pre, st_answers = []\<rparr>)"
  using assms by (simp add: Storage_Truncate_def io_pop_def sint_offset unat_offset)

lemma sint_plus_nat:
  fixes i :: int64
  assumes "sint i + int k < 2 ^ 63" and "k < 2 ^ 63"
  shows "sint (i + of_nat k) = sint i + int k"
proof -
  have "- (2 ^ 63) \<le> sint i" using sint_greater_eq [of i] by simp
  then have "signed_take_bit 63 (sint i + int k) = sint i + int k"
    using assms by (intro signed_take_bit_int_eq_self) auto
  then show ?thesis by (simp only: sint_word_ariths sint_offset [OF assms(2)]) simp
qed

lemma Truncate_log_of:
  assumes k: "k < length fs" and size: "length (log_image i fs) < 2 ^ 63" and i: "sint i + int k < 2 ^ 63"
  shows "RaftLog_Truncate (i + of_nat k) (log_of i fs) =
    Inr ((log_of i (take k fs))\<lparr>rl_offset_term := take k (offsets 8 fs) @ drop (Suc k) (offsets 8 fs)\<rparr>)"
proof -
  let ?pre = "log_image i (take k fs)"
  let ?cut = "(log_of i (take k fs))\<lparr>rl_offset_term := offsets 8 fs\<rparr>"
  have k64: "k < 2 ^ 64" using k frames_few [of fs i] size by simp
  have img: "log_image i fs = ?pre @ frame_bytes (fs ! k) @ concat (map frame_bytes (drop (Suc k) fs))"
    by (rule log_image_split [OF k])
  have pre: "length ?pre < 2 ^ 63" using size img by (simp add: trans_less_add1)
  have v: "ValidIndex (i + of_nat k) (log_of i fs)"
    unfolding ValidIndex_log_of using k k64 index_position [of k i] by simp
  have e: "nth_res (offsets 8 fs) (of_nat k) = Inr (of_nat (length ?pre), fst (fs ! k))"
    using k k64 offsets_nth [OF k, of 8] by (simp add: nth_res_def unat_of_nat_nowrap length_log_image)
  have cut: "storage_cut (of_nat (length ?pre)) (l\<lparr>rl_storage := \<lparr>st_file = ?pre @ post, st_answers = []\<rparr>\<rparr>) =
      Inr (l\<lparr>rl_storage := \<lparr>st_file = ?pre, st_answers = []\<rparr>, rl_bytes := of_nat (length ?pre)\<rparr>)" for l post
    by (simp add: storage_cut_def Storage_Truncate_ok [OF pre])
  show ?thesis
  proof (cases "k = 0")
    case True
    have "storage_cut 0 (log_of i fs) = Inr ((log_of i fs)\<lparr>rl_storage := \<lparr>st_file = [], st_answers = []\<rparr>, rl_bytes := 0\<rparr>)"
      using Storage_Truncate_ok [of "[]"] by (simp add: storage_cut_def log_of_def)
    moreover have "RaftLog_SetFirstIndex i ((log_of i fs)\<lparr>rl_storage := \<lparr>st_file = [], st_answers = []\<rparr>, rl_bytes := 0\<rparr>) =
        (log_of i [])\<lparr>rl_offset_term := offsets 8 fs\<rparr>"
      using Storage_Write_end [of "[]" "bytes64 i"] by (simp add: RaftLog_SetFirstIndex_def log_of_def log_image_def)
    moreover have "storage_cut (of_nat (length ?pre)) ((log_of i [])\<lparr>rl_offset_term := offsets 8 fs\<rparr>) = Inr ?cut"
      using True cut [of "[]" ?cut] by (simp add: log_of_def)
    ultimately show ?thesis using True v e by (simp add: RaftLog_Truncate_def)
  next
    case False
    have "sint (i + of_nat k) = sint i + int k" using sint_plus_nat [OF i] k frames_few [of fs i] size by simp
    then have "\<not> sint (i + of_nat k) \<le> sint i" using False by simp
    moreover have "storage_cut (of_nat (length ?pre)) (log_of i fs) = Inr ?cut"
      using cut [of _ "log_of i fs"] img by (simp add: log_of_def)
    ultimately show ?thesis using v e k64
      by (simp add: RaftLog_Truncate_def log_of_def [of i fs] unat_of_nat_nowrap)
  qed
qed

section \<open>The interface of a log\<close>

text \<open>
  What a Raft node relies on when it appends entries and later asks whether its log contains an entry of a
  given term at a given index. \<open>room\<close> is the number of bytes the log can still take.
\<close>

locale entry_log =
  fixes inv :: "'l \<Rightarrow> bool" and first :: "'l \<Rightarrow> int64" and terms :: "'l \<Rightarrow> int64 list" and room :: "'l \<Rightarrow> nat"
    and storable :: "'e \<Rightarrow> bool" and need :: "'e \<Rightarrow> nat" and term_of :: "'e \<Rightarrow> int64"
    and append :: "'e \<Rightarrow> 'l \<Rightarrow> 'l res" and contain :: "int64 \<Rightarrow> int64 \<Rightarrow> 'l \<Rightarrow> bool res"
  assumes append_ok: "inv l \<Longrightarrow> storable e \<Longrightarrow> need e \<le> room l \<Longrightarrow>
      \<exists>l'. append e l = Inr l' \<and> inv l' \<and> first l' = first l \<and> terms l' = terms l @ [term_of e] \<and> room l' = room l - need e"
    and contain_ok: "inv l \<Longrightarrow> contain index t l = Inr (\<exists>k < length (terms l). index = first l + of_nat k \<and> terms l ! k = t)"
begin

lemma appends:
  assumes "inv l" and "\<forall>e \<in> set es. storable e" and "sum_list (map need es) \<le> room l"
  shows "\<exists>l'. rfold append es l = Inr l' \<and> inv l' \<and> first l' = first l \<and> terms l' = terms l @ map term_of es"
  using assms
proof (induction es arbitrary: l)
  case (Cons e es)
  obtain l1 where l1: "append e l = Inr l1" "inv l1" "first l1 = first l" "terms l1 = terms l @ [term_of e]" "room l1 = room l - need e"
    using append_ok [of l e] Cons.prems by auto
  obtain l2 where "rfold append es l1 = Inr l2" "inv l2" "first l2 = first l1" "terms l2 = terms l1 @ map term_of es"
    using Cons.IH [of l1] l1 Cons.prems by (force simp: le_diff_conv2)
  then show ?case using l1 by auto
qed simp

lemma appends_contain:
  assumes "inv l" and "\<forall>e \<in> set es. storable e" and "sum_list (map need es) \<le> room l"
  shows "\<exists>l'. rfold append es l = Inr l' \<and>
    (\<forall>k < length es. contain (first l + of_nat (length (terms l) + k)) (term_of (es ! k)) l' = Inr True) \<and>
    (\<forall>index t. contain index t l = Inr True \<longrightarrow> contain index t l' = Inr True)"
proof -
  obtain l' where l': "rfold append es l = Inr l'" "inv l'" "first l' = first l" "terms l' = terms l @ map term_of es"
    using appends [OF assms] by blast
  have "contain (first l + of_nat (length (terms l) + k)) (term_of (es ! k)) l' = Inr True" if "k < length es" for k
    unfolding contain_ok [OF l'(2)] l'(3,4) using that by (auto intro!: exI [of _ "length (terms l) + k"] simp: nth_append)
  moreover have "contain index t l' = Inr True" if "contain index t l = Inr True" for index t
    using that unfolding contain_ok [OF l'(2)] contain_ok [OF assms(1)] l'(3,4)
    by (auto simp: nth_append)
  ultimately show ?thesis using l'(1) by blast
qed

end

definition log_inv :: "raft_log \<Rightarrow> bool" where
  "log_inv l \<longleftrightarrow> (\<exists>i fs. l = log_of i fs \<and> length (log_image i fs) < 2 ^ 63)"

definition log_room :: "raft_log \<Rightarrow> nat" where
  "log_room l = 2 ^ 63 - 1 - length (st_file (rl_storage l))"

lemma log_terms: "map snd (offsets n fs) = map fst fs"
  by (induction fs arbitrary: n) auto

interpretation rlog: entry_log log_inv rl_first "\<lambda>l. map snd (rl_offset_term l)" log_room
    "\<lambda>(pad, e). length (serialize e) < 2 ^ 31" "\<lambda>(pad, e). 16 + length (serialize e)" "\<lambda>(pad, e). le_term e"
    "\<lambda>(pad, e). RaftLog_Append serialize pad e" RaftLog_ContainLog
  for serialize :: "log_entry \<Rightarrow> byte list"
proof (unfold_locales, goal_cases)
  case (1 l pe)
  obtain pad e where pe: "pe = (pad, e)" by (cases pe)
  obtain i fs where l: "l = log_of i fs" "length (log_image i fs) < 2 ^ 63" using 1(1) by (auto simp: log_inv_def)
  let ?fs = "fs @ [entry_frame serialize (pad, e)]"
  have room: "16 + length (serialize e) \<le> 2 ^ 63 - 1 - length (log_image i fs)" using 1(3) pe l by (simp add: log_room_def log_of_def)
  then have size: "length (log_image i fs) + 16 + length (serialize e) < 2 ^ 63" by simp
  then have "length (log_image i ?fs) < 2 ^ 63" by (simp add: log_image_snoc entry_frame_def)
  moreover have "RaftLog_Append serialize pad e l = Inr (log_of i ?fs)" using Append_ok [of serialize e i fs pad] size 1(2) pe l by simp
  moreover have "map snd (rl_offset_term (log_of i ?fs)) = map snd (rl_offset_term l) @ [le_term e]"
    by (simp add: l log_of_def log_terms entry_frame_def)
  moreover have "log_room (log_of i ?fs) = log_room l - (16 + length (serialize e))"
    by (simp add: l log_room_def log_of_def log_image_snoc entry_frame_def)
  ultimately show ?case using pe l by (auto simp: log_inv_def)
next
  case (2 l index t)
  obtain i fs where l: "l = log_of i fs" "length (log_image i fs) < 2 ^ 63" using 2 by (auto simp: log_inv_def)
  have few: "length fs < 2 ^ 64" using frames_few [of fs i] l(2) by simp
  have "map snd (rl_offset_term l) = map fst fs" using l by (simp add: log_of_def log_terms)
  then show ?case using ContainLog_log_of [OF few, of index t i] l by auto
qed

section \<open>Properties\<close>

text \<open>
  C22. What was appended is found again. A log built on an empty file by setting the first index and appending
  entries is, byte for byte of its memory and its file, the log that \<^verbatim>\<open>Load\<close> reads from that file, whatever
  the serialisation and the padding of the headers; its terms are those of the entries. The bounds are
  that no serialised entry has \<open>2^31\<close> bytes and the file less than \<open>2^63\<close>.
\<close>

theorem RaftLog_Load_roundtrip:
  assumes "\<forall>e \<in> set (map snd pes). length (serialize e) < 2 ^ 31" and "8 + log_size serialize (map snd pes) < 2 ^ 63"
  shows "\<exists>l. rfold (\<lambda>(pad, e). RaftLog_Append serialize pad e) pes
        (RaftLog_SetFirstIndex i (RaftLog_new \<lparr>st_file = [], st_answers = []\<rparr>)) = Inr l \<and>
      RaftLog_Load (RaftLog_new (rl_storage l)) = Inr l \<and>
      rl_first l = i \<and> map snd (rl_offset_term l) = map (\<lambda>(pad, e). le_term e) pes"
proof -
  let ?fs = "map (entry_frame serialize) pes"
  have "frames_ok ?fs" using assms(1) by (auto simp: frames_ok_def entry_frame_def)
  moreover have "length (log_image i ?fs) < 2 ^ 63" using assms(2) by (simp add: length_log_image_entries)
  ultimately have "RaftLog_Load (RaftLog_new (rl_storage (log_of i ?fs))) = Inr (log_of i ?fs)" by (rule Load_ok)
  moreover have "rfold (\<lambda>(pad, e). RaftLog_Append serialize pad e) pes (log_of i []) = Inr (log_of i ([] @ ?fs))"
    using assms by (intro Appends_ok) (simp_all add: log_image_def)
  moreover have "map snd (rl_offset_term (log_of i ?fs)) = map (\<lambda>(pad, e). le_term e) pes"
    by (simp add: log_of_def log_terms entry_frame_def split_def comp_def)
  ultimately show ?thesis by (simp add: SetFirstIndex_new)
qed

definition example_entry :: "nat \<Rightarrow> log_entry" where
  "example_entry t = \<lparr>le_type = ENTRY_TYPE_DATA, le_term = of_nat t, le_index = 1, le_command = ''set''\<rparr>"

theorem RaftLog_Load_roundtrip_witness:
  "\<exists>l. rfold (\<lambda>(pad, e). RaftLog_Append le_command pad e) [(7, example_entry 2), (9, example_entry 5)]
        (RaftLog_SetFirstIndex 1 (RaftLog_new \<lparr>st_file = [], st_answers = []\<rparr>)) = Inr l \<and>
      RaftLog_Load (RaftLog_new (rl_storage l)) = Inr l \<and> rl_first l = 1 \<and> map snd (rl_offset_term l) = [2, 5]"
  using RaftLog_Load_roundtrip [of "[(7, example_entry 2), (9, example_entry 5)]" le_command 1]
  by (simp add: example_entry_def log_size_def)

text \<open>
  \<^verbatim>\<open>ContainLog\<close> agrees with what was appended. After appending entries to a log, the log contains the
  \<open>k\<close>-th of them, with its term, \<open>k\<close> places behind the old last entry, and everything it contained before.
\<close>

theorem RaftLog_Append_contains:
  assumes "length (log_image i fs) + log_size serialize (map snd pes) < 2 ^ 63"
    and "\<forall>e \<in> set (map snd pes). length (serialize e) < 2 ^ 31"
  shows "\<exists>l'. rfold (\<lambda>(pad, e). RaftLog_Append serialize pad e) pes (log_of i fs) = Inr l' \<and>
    (\<forall>k < length pes. RaftLog_ContainLog (RaftLog_LastIndex (log_of i fs) + 1 + of_nat k) (le_term (snd (pes ! k))) l' = Inr True) \<and>
    (\<forall>index t. RaftLog_ContainLog index t (log_of i fs) = Inr True \<longrightarrow> RaftLog_ContainLog index t l' = Inr True)"
proof -
  have inv: "log_inv (log_of i fs)" using assms(1) unfolding log_inv_def by (intro exI [of _ i] exI [of _ fs]) simp
  have s: "sum_list (map (\<lambda>(pad, e). 16 + length (serialize e)) pes) = log_size serialize (map snd pes)"
    by (simp add: log_size_def split_def comp_def)
  have room: "sum_list (map (\<lambda>(pad, e). 16 + length (serialize e)) pes) \<le> log_room (log_of i fs)"
    unfolding s using assms(1) by (simp add: log_room_def log_of_def)
  have st: "\<forall>pe \<in> set pes. (case pe of (pad, e) \<Rightarrow> length (serialize e) < 2 ^ 31)" using assms(2) by auto
  have last: "RaftLog_LastIndex (log_of i fs) + 1 = i + of_nat (length fs)" by (simp add: RaftLog_LastIndex_def)
  show ?thesis unfolding last
    using rlog.appends_contain [OF inv st room] by (simp add: split_def add.assoc)
qed

theorem RaftLog_Append_contains_witness:
  "\<exists>l'. rfold (\<lambda>(pad, e). RaftLog_Append le_command pad e) [(7, example_entry 2), (9, example_entry 5)] (log_of 1 [(1, 0, ''get'')]) = Inr l' \<and>
    RaftLog_ContainLog 2 2 l' = Inr True \<and> RaftLog_ContainLog 3 5 l' = Inr True"
proof -
  have size: "length (log_image 1 [(1, 0, ''get'')]) + log_size le_command (map snd [(7 :: 32 word, example_entry 2), (9, example_entry 5)]) < 2 ^ 63"
    by (simp add: log_image_def log_size_def example_entry_def)
  have last: "RaftLog_LastIndex (log_of 1 [(1, 0, ''get'')]) = 1" by (simp add: RaftLog_LastIndex_def)
  let ?pes = "[(7 :: 32 word, example_entry 2), (9, example_entry 5)]"
  have "\<forall>e \<in> set (map snd ?pes). length (le_command e) < 2 ^ 31" by (simp add: example_entry_def)
  from RaftLog_Append_contains [OF size this] obtain l' where
    l': "rfold (\<lambda>(pad, e). RaftLog_Append le_command pad e) ?pes (log_of 1 [(1, 0, ''get'')]) = Inr l'"
    and c: "\<forall>k < length ?pes. RaftLog_ContainLog (1 + 1 + of_nat k) (le_term (snd (?pes ! k))) l' = Inr True"
    unfolding last by blast
  have "RaftLog_ContainLog 2 2 l' = Inr True" "RaftLog_ContainLog 3 5 l' = Inr True"
    using spec [OF c, of 0] spec [OF c, of 1] by (simp_all add: example_entry_def)
  then show ?thesis using l' by blast
qed

text \<open>
  \<^verbatim>\<open>Truncate\<close> cuts the file before the entry of the given index and forgets the position of that one entry.
  The positions of the entries behind it stay, though their frames are gone: the log in memory is the log
  on disk exactly when the entry was the last one.
\<close>

theorem RaftLog_Truncate_result:
  assumes "k < length fs" and "length (log_image i fs) < 2 ^ 63" and "sint i + int k < 2 ^ 63"
  shows "\<exists>l'. RaftLog_Truncate (i + of_nat k) (log_of i fs) = Inr l' \<and>
    rl_storage l' = rl_storage (log_of i (take k fs)) \<and> rl_bytes l' = rl_bytes (log_of i (take k fs)) \<and>
    rl_offset_term l' = take k (offsets 8 fs) @ drop (Suc k) (offsets 8 fs) \<and>
    (l' = log_of i (take k fs) \<longleftrightarrow> Suc k = length fs)"
proof -
  let ?l = "(log_of i (take k fs))\<lparr>rl_offset_term := take k (offsets 8 fs) @ drop (Suc k) (offsets 8 fs)\<rparr>"
  have "?l = log_of i (take k fs) \<longleftrightarrow> take k (offsets 8 fs) @ drop (Suc k) (offsets 8 fs) = take k (offsets 8 fs)"
    by (simp add: log_of_def offsets_take)
  also have "\<dots> \<longleftrightarrow> Suc k = length fs" using assms(1) by auto
  finally show ?thesis using Truncate_log_of [OF assms] by (simp add: log_of_def)
qed

theorem RaftLog_Truncate_result_witness:
  "\<exists>l'. RaftLog_Truncate 1 (log_of 1 [(1, 0, ''a''), (1, 0, ''b'')]) = Inr l' \<and> l' \<noteq> log_of 1 []"
  using RaftLog_Truncate_result [of 0 "[(1, 0, ''a''), (1, 0, ''b'')]" 1] by (auto simp: log_image_def)

text \<open>\<^verbatim>\<open>Get\<close> reads the entry as a C string. The entry returned is parsed from the serialised bytes before the
  first zero byte only; if the serialised entry has no zero byte, the search for one leaves the array.
\<close>

theorem RaftLog_Get_result:
  assumes "k < length fs" and "frames_ok fs" and "length (log_image i fs) < 2 ^ 63" and "fs ! k = (t, pad, p)"
  shows "RaftLog_Get parse (i + of_nat k) (log_of i fs) =
    (if CHR 0x00 \<in> set p then Inr (Some (parse (takeWhile (\<lambda>c. c \<noteq> CHR 0x00) p)), log_of i fs) else Inl OutOfBounds)"
  by (rule Get_log_of [OF assms])

theorem RaftLog_Get_result_witness:
  "RaftLog_Get (\<lambda>bs. example_entry (length bs)) 1 (log_of 1 [(2, 0, ''set'')]) = Inl OutOfBounds \<and>
   RaftLog_Get (\<lambda>bs. example_entry (length bs)) 2 (log_of 1 [(2, 0, ''set''), (2, 0, [CHR ''a'', CHR 0x00, CHR ''b''])]) =
     Inr (Some (example_entry 1), log_of 1 [(2, 0, ''set''), (2, 0, [CHR ''a'', CHR 0x00, CHR ''b''])])"
proof
  show "RaftLog_Get (\<lambda>bs. example_entry (length bs)) 1 (log_of 1 [(2, 0, ''set'')]) = Inl OutOfBounds"
    using RaftLog_Get_result [of 0 "[(2, 0, ''set'')]" 1] by (simp add: frames_ok_def log_image_def)
  show "RaftLog_Get (\<lambda>bs. example_entry (length bs)) 2 (log_of 1 [(2, 0, ''set''), (2, 0, [CHR ''a'', CHR 0x00, CHR ''b''])]) =
     Inr (Some (example_entry 1), log_of 1 [(2, 0, ''set''), (2, 0, [CHR ''a'', CHR 0x00, CHR ''b''])])"
    using RaftLog_Get_result [of 1 "[(2, 0, ''set''), (2, 0, [CHR ''a'', CHR 0x00, CHR ''b''])]" 1] by (simp add: frames_ok_def log_image_def)
qed

end
