(* ===== verification/Raft.thy ===== *)
theory Raft
  imports RaftLog
begin

text \<open>
  A Raft node (\<^verbatim>\<open>raft/raft.h\<close>, \<^verbatim>\<open>raft/raft.cc\<close>) and a cluster of nodes whose calls travel through
  \<^verbatim>\<open>raft/node.cc\<close>, \<^verbatim>\<open>raft/raft_service.cc\<close> and \<^verbatim>\<open>raft/raft_peer.cc\<close>.

  The messages are those of \<^verbatim>\<open>raft/raft.proto\<close>. The constructor leaves the role, the count of votes and the two
  index vectors without a value or empty; an uninitialised member is \<open>None\<close>, and reading it is an error. A node
  holds its log, so every access of the log that the library would leave undefined is an error of the node.
\<close>

section \<open>Messages\<close>

record vote_request =
  rq_term :: int64
  rq_peerid :: int64
  rq_candidateid :: int64
  rq_lastlogindex :: int64
  rq_lastlogterm :: int64

record vote_response =
  rs_term :: int64
  rs_votegranted :: bool
  rs_peerid :: int64

record append_request =
  ar_term :: int64
  ar_peerid :: int64
  ar_prevlogindex :: int64
  ar_prevlogterm :: int64
  ar_commitedindex :: int64
  ar_type :: "entry_type list"
  ar_entries :: "byte list list"

text \<open>A field that was not set reads as false.\<close>

record append_response =
  as_term :: int64
  as_success :: "bool option"
  as_peerid :: int64

definition AppendEntriesRequest_new :: append_request where
  "AppendEntriesRequest_new = \<lparr>ar_term = 0, ar_peerid = 0, ar_prevlogindex = 0, ar_prevlogterm = 0, ar_commitedindex = 0, ar_type = [], ar_entries = []\<rparr>"

text \<open>Setting or reading an element of a repeated field that does not exist is not allowed.\<close>

definition set_at :: "nat \<Rightarrow> 'a \<Rightarrow> 'a list \<Rightarrow> 'a list res" where
  "set_at i x xs = (if i < length xs then Inr (xs[i := x]) else Inl OutOfBounds)"

section \<open>The node\<close>

datatype role = KLeader | KCandidater | KFollower

record raft =
  rf_heartbeatTimeout :: int64
  rf_electionTimeout :: int64
  rf_randomizedElectionTimeout :: int64
  rf_elpasedTime :: int64
  rf_role :: "role option"
  rf_currentTerm :: int64
  rf_votedFor :: int64
  rf_logs :: raft_log
  rf_commitIndex :: int64
  rf_lastApplied :: int64
  rf_nextIndex :: "int64 list"
  rf_matchIndex :: "int64 list"
  rf_peers :: nat
  rf_id :: int64
  rf_voted :: "int64 option"

text \<open>The random generator is built for the range from 0 to 0.\<close>

definition Raft_new :: "storage \<Rightarrow> int64 \<Rightarrow> nat \<Rightarrow> raft" where
  "Raft_new st nid peers =
     \<lparr>rf_heartbeatTimeout = 0, rf_electionTimeout = 0, rf_randomizedElectionTimeout = 0, rf_elpasedTime = 0,
      rf_role = None, rf_currentTerm = 0, rf_votedFor = - 1, rf_logs = RaftLog_new st, rf_commitIndex = 0,
      rf_lastApplied = 0, rf_nextIndex = [], rf_matchIndex = [], rf_peers = peers, rf_id = nid, rf_voted = None\<rparr>"

definition Parse :: "byte list \<Rightarrow> entry_type" where
  "Parse cmd = ENTRY_TYPE_DATA"

definition SetCurrentTerm :: "int64 \<Rightarrow> raft \<Rightarrow> raft" where
  "SetCurrentTerm term r = r\<lparr>rf_currentTerm := term\<rparr>"

definition SetVotedFor :: "int64 \<Rightarrow> raft \<Rightarrow> raft" where
  "SetVotedFor nid r = r\<lparr>rf_votedFor := nid\<rparr>"

definition ResetElectionTime :: "raft \<Rightarrow> raft" where
  "ResetElectionTime r = r\<lparr>rf_electionTimeout := 0\<rparr>"

definition ResetHeartbeatTime :: "raft \<Rightarrow> raft" where
  "ResetHeartbeatTime r = r\<lparr>rf_heartbeatTimeout := 0\<rparr>"

definition ResetTimer :: "raft \<Rightarrow> raft" where
  "ResetTimer r = r\<lparr>rf_elpasedTime := 0, rf_randomizedElectionTimeout := 0\<rparr>"

definition ToFollower :: "raft \<Rightarrow> raft" where
  "ToFollower r = r\<lparr>rf_role := Some KFollower, rf_voted := Some 0, rf_votedFor := - 1\<rparr>"

definition ToLeader :: "raft \<Rightarrow> raft" where
  "ToLeader r = r\<lparr>rf_role := Some KLeader\<rparr>"

section \<open>Elections\<close>

definition NewestLog :: "vote_request \<Rightarrow> raft \<Rightarrow> bool res" where
  "NewestLog request r =
     (let newestIndex = RaftLog_LastIndex (rf_logs r) in
      rbind (RaftLog_Term newestIndex (rf_logs r)) (\<lambda>newestTerm.
      if rq_lastlogterm request \<noteq> newestTerm then Inr (sint newestTerm < sint (rq_lastlogterm request))
      else Inr (sint newestIndex < sint (rq_lastlogindex request))))"

definition Raft_RequestVote :: "vote_request \<Rightarrow> raft \<Rightarrow> (raft \<times> vote_response) res" where
  "Raft_RequestVote request r =
     rbind (if sint (rf_currentTerm r) < sint (rq_term request) \<and> (rf_votedFor r = - 1 \<or> rf_votedFor r = rq_peerid request)
            then NewestLog request r else Inr False) (\<lambda>granted.
     Inr (if granted then r\<lparr>rf_votedFor := rq_peerid request\<rparr> else r,
          \<lparr>rs_term = rf_currentTerm r, rs_votegranted = granted, rs_peerid = rf_id r\<rparr>))"

text \<open>The count of votes is a signed number, the number of peers an unsigned one.\<close>

definition Majority :: "int64 \<Rightarrow> nat \<Rightarrow> bool" where
  "Majority voted peers \<longleftrightarrow> (peers + 1) div 2 < unat voted"

definition Raft_OnRequestVote :: "vote_response \<Rightarrow> raft \<Rightarrow> raft res" where
  "Raft_OnRequestVote reply r =
     (case rf_role r of
        None \<Rightarrow> Inl Indeterminate
      | Some role \<Rightarrow>
          if role \<noteq> KCandidater \<or> \<not> rs_votegranted reply \<or> sint (rs_term reply) < sint (rf_currentTerm r) then Inr r
          else case rf_voted r of
                 None \<Rightarrow> Inl Indeterminate
               | Some v \<Rightarrow>
                   let r = r\<lparr>rf_voted := Some (v + 1)\<rparr> in
                   Inr (if Majority (v + 1) (rf_peers r) then ToLeader r else r))"

definition StartRequestVote :: "raft \<Rightarrow> vote_request list" where
  "StartRequestVote r =
     replicate (rf_peers r)
       \<lparr>rq_term = rf_currentTerm r, rq_peerid = rf_id r, rq_candidateid = rf_id r, rq_lastlogindex = 0, rq_lastlogterm = 0\<rparr>"

text \<open>A candidate sends one request to every peer.\<close>

definition ToCandidater :: "raft \<Rightarrow> raft \<times> vote_request list" where
  "ToCandidater r =
     (let r = r\<lparr>rf_role := Some KCandidater\<rparr>;
          r = SetCurrentTerm (rf_currentTerm r + 1) r;
          r = SetVotedFor (rf_id r) r;
          r = r\<lparr>rf_voted := Some 1\<rparr>;
          r = ResetElectionTime r
      in (r, StartRequestVote r))"

definition Raft_Propose :: "byte list \<Rightarrow> raft \<Rightarrow> raft \<times> vote_request list" where
  "Raft_Propose cmd r = ToCandidater r"

section \<open>Replication\<close>

text \<open>Appending the entries of a request; \<open>pads\<close> are the padding bytes of the headers. Every entry gets the same index.\<close>

fun append_entries_loop :: "(log_entry \<Rightarrow> byte list) \<Rightarrow> (nat \<Rightarrow> 32 word) \<Rightarrow> append_request \<Rightarrow> int64 \<Rightarrow> nat \<Rightarrow> byte list list \<Rightarrow> raft_log \<Rightarrow> raft_log res" where
  "append_entries_loop serialize pads request insertIndex i [] l = Inr l"
| "append_entries_loop serialize pads request insertIndex i (e # es) l =
     rbind (if i < length (ar_type request) then Inr (ar_type request ! i) else Inl OutOfBounds) (\<lambda>ty.
     rbind (RaftLog_Append serialize (pads i)
              \<lparr>le_type = ty, le_term = ar_term request, le_index = insertIndex, le_command = e\<rparr> l)
       (append_entries_loop serialize pads request insertIndex (i + 1) es))"

definition Raft_AppendEntries :: "(log_entry \<Rightarrow> byte list) \<Rightarrow> (nat \<Rightarrow> 32 word) \<Rightarrow> append_request \<Rightarrow> append_response \<Rightarrow> raft \<Rightarrow> (raft \<times> append_response) res" where
  "Raft_AppendEntries serialize pads request reply r =
     (let reply = reply\<lparr>as_term := rf_currentTerm r, as_peerid := rf_id r\<rparr>;
          insertIndex = ar_prevlogindex request + 1;
          term = ar_term request
      in rbind (if sint term < sint (rf_currentTerm r) then Inr False
                else RaftLog_ContainLog (ar_prevlogindex request) (ar_prevlogterm request) (rf_logs r)) (\<lambda>matches.
         if \<not> matches then Inr (r, reply\<lparr>as_success := Some False\<rparr>)
         else
           rbind (RaftLog_ContainLog insertIndex term (rf_logs r)) (\<lambda>has.
           rbind (if \<not> has then RaftLog_Truncate insertIndex (rf_logs r) else Inr (rf_logs r)) (\<lambda>l.
           rbind (append_entries_loop serialize pads request insertIndex 0 (ar_entries request) l) (\<lambda>l.
           let r = r\<lparr>rf_logs := l\<rparr> in
           Inr (if sint (rf_commitIndex r) < sint (ar_commitedindex request)
                then r\<lparr>rf_commitIndex := (if sint insertIndex < sint (ar_commitedindex request) then insertIndex else ar_commitedindex request)\<rparr>
                else r, reply))))))"

text \<open>Retrying after a refusal calls the peer, which only prints a message, and then this node's own handler.\<close>

definition Raft_OnAppendEntries :: "(log_entry \<Rightarrow> byte list) \<Rightarrow> (nat \<Rightarrow> 32 word) \<Rightarrow> append_request \<Rightarrow> append_response \<Rightarrow> raft \<Rightarrow> raft res" where
  "Raft_OnAppendEntries serialize pads request reply r =
     (let peerid = as_peerid reply in
      if sint (rf_currentTerm r) < sint (ar_term request) then Inr r
      else if as_success reply \<noteq> Some True then
        rbind (nth_res (rf_nextIndex r) peerid) (\<lambda>next.
        let r = r\<lparr>rf_nextIndex := (rf_nextIndex r)[unat peerid := next - 1]\<rparr>;
            request = request\<lparr>ar_prevlogindex := next - 1 - 1\<rparr>
        in rbind (RaftLog_Term (ar_prevlogindex request) (rf_logs r)) (\<lambda>t.
           let request = request\<lparr>ar_prevlogterm := t\<rparr> in
           if rf_peers r \<le> unat peerid then Inl OutOfBounds
           else rbind (Raft_AppendEntries serialize pads request reply r) (\<lambda>(r, reply). Inr r)))
      else
        rbind (nth_res (rf_nextIndex r) peerid) (\<lambda>next.
        let r = r\<lparr>rf_nextIndex := (rf_nextIndex r)[unat peerid := next + 1]\<rparr> in
        rbind (set_at (unat peerid) next (rf_matchIndex r)) (\<lambda>ms.
        Inr (r\<lparr>rf_matchIndex := ms, rf_commitIndex := ar_prevlogindex request + 1\<rparr>))))"

fun send_to_peers :: "raft \<Rightarrow> append_request \<Rightarrow> nat \<Rightarrow> nat \<Rightarrow> append_request list res" where
  "send_to_peers r request i 0 = Inr []"
| "send_to_peers r request i (Suc n) =
     rbind (nth_res (rf_nextIndex r) (of_nat i)) (\<lambda>next.
     let request = request\<lparr>ar_prevlogindex := next - 1\<rparr> in
     rbind (RaftLog_Term (ar_prevlogindex request) (rf_logs r)) (\<lambda>t.
     let request = request\<lparr>ar_prevlogterm := t\<rparr> in
     rbind (send_to_peers r request (i + 1) n) (\<lambda>rest. Inr (request # rest))))"

definition StartAppendEntries :: "byte list \<Rightarrow> raft \<Rightarrow> append_request list res" where
  "StartAppendEntries cmd r =
     (case rf_role r of
        None \<Rightarrow> Inl Indeterminate
      | Some role \<Rightarrow>
          if role \<noteq> KLeader then Inr []
          else
            let request = AppendEntriesRequest_new\<lparr>ar_term := rf_currentTerm r, ar_peerid := rf_id r\<rparr> in
            rbind (set_at 0 cmd (ar_entries request)) (\<lambda>es.
            let request = request\<lparr>ar_entries := es, ar_commitedindex := rf_commitIndex r\<rparr> in
            rbind (set_at 0 (Parse cmd) (ar_type request)) (\<lambda>ts.
            send_to_peers r (request\<lparr>ar_type := ts\<rparr>) 0 (rf_peers r))))"

section \<open>The cluster\<close>

text \<open>
  A call from one node to another is a message on the network: \<^verbatim>\<open>RaftPeer::RequestVote\<close> issues the call,
  \<^verbatim>\<open>RaftServiceImpl::RequestVote\<close> runs the handler of the node in its loop and then the closure that sends the
  response, and the response runs \<^verbatim>\<open>Node::OnRequestVote\<close>. A handler that goes wrong stops its node. Messages may be
  delivered in any order or get lost. The other two calls of the service have empty handlers in \<^verbatim>\<open>Node\<close> or are
  not issued by any peer.
\<close>

definition Node_RequestVote :: "vote_request \<Rightarrow> raft \<Rightarrow> (raft \<times> vote_response) res" where
  "Node_RequestVote request r = Raft_RequestVote request r"

definition Node_OnRequestVote :: "vote_response \<Rightarrow> raft \<Rightarrow> raft res" where
  "Node_OnRequestVote reply r = Raft_OnRequestVote reply r"

definition Node_Propose :: "byte list \<Rightarrow> raft \<Rightarrow> raft \<times> vote_request list" where
  "Node_Propose cmd r = Raft_Propose cmd r"

datatype raft_msg = VoteCall nat nat vote_request | VoteReturn nat vote_response

record cluster =
  cl_nodes :: "raft option list"
  cl_net :: "raft_msg list"

definition cluster_new :: "(nat \<Rightarrow> int64) \<Rightarrow> nat \<Rightarrow> cluster" where
  "cluster_new ids n =
     \<lparr>cl_nodes = map (\<lambda>i. Some (Raft_new \<lparr>st_file = [], st_answers = []\<rparr> (ids i) (n - 1))) [0..<n], cl_net = []\<rparr>"

definition peers_of :: "nat \<Rightarrow> nat \<Rightarrow> nat list" where
  "peers_of n i = filter (\<lambda>j. j \<noteq> i) [0..<n]"

inductive cl_step :: "cluster \<Rightarrow> cluster \<Rightarrow> bool" where
  propose: "i < length (cl_nodes c) \<Longrightarrow> cl_nodes c ! i = Some r \<Longrightarrow> Node_Propose cmd r = (r', requests) \<Longrightarrow>
    cl_step c (c\<lparr>cl_nodes := (cl_nodes c)[i := Some r'],
                 cl_net := cl_net c @ map (\<lambda>(j, rq). VoteCall i j rq) (zip (peers_of (length (cl_nodes c)) i) requests)\<rparr>)"
| call: "cl_net c = xs @ VoteCall i j request # ys \<Longrightarrow> j < length (cl_nodes c) \<Longrightarrow> cl_nodes c ! j = Some r \<Longrightarrow>
    Node_RequestVote request r = Inr (r', reply) \<Longrightarrow>
    cl_step c (c\<lparr>cl_nodes := (cl_nodes c)[j := Some r'], cl_net := xs @ ys @ [VoteReturn i reply]\<rparr>)"
| call_fails: "cl_net c = xs @ VoteCall i j request # ys \<Longrightarrow> j < length (cl_nodes c) \<Longrightarrow> cl_nodes c ! j = Some r \<Longrightarrow>
    Node_RequestVote request r = Inl e \<Longrightarrow>
    cl_step c (c\<lparr>cl_nodes := (cl_nodes c)[j := None], cl_net := xs @ ys\<rparr>)"
| answer: "cl_net c = xs @ VoteReturn i reply # ys \<Longrightarrow> i < length (cl_nodes c) \<Longrightarrow> cl_nodes c ! i = Some r \<Longrightarrow>
    Node_OnRequestVote reply r = Inr r' \<Longrightarrow>
    cl_step c (c\<lparr>cl_nodes := (cl_nodes c)[i := Some r'], cl_net := xs @ ys\<rparr>)"
| answer_fails: "cl_net c = xs @ VoteReturn i reply # ys \<Longrightarrow> i < length (cl_nodes c) \<Longrightarrow> cl_nodes c ! i = Some r \<Longrightarrow>
    Node_OnRequestVote reply r = Inl e \<Longrightarrow>
    cl_step c (c\<lparr>cl_nodes := (cl_nodes c)[i := None], cl_net := xs @ ys\<rparr>)"
| lose: "cl_net c = xs @ m # ys \<Longrightarrow> cl_step c (c\<lparr>cl_net := xs @ ys\<rparr>)"

inductive_cases cl_stepE: "cl_step c c'"

inductive cl_reach :: "(nat \<Rightarrow> int64) \<Rightarrow> nat \<Rightarrow> cluster \<Rightarrow> bool" for ids n where
  start: "cl_reach ids n (cluster_new ids n)"
| step: "cl_reach ids n c \<Longrightarrow> cl_step c c' \<Longrightarrow> cl_reach ids n c'"

section \<open>Lemmas\<close>

text \<open>Nobody ever appends to the log of a node, so it stays as the constructor made it.\<close>

definition bare :: "raft \<Rightarrow> bool" where
  "bare r \<longleftrightarrow> rl_offset_term (rf_logs r) = [] \<and> rf_role r \<noteq> Some KLeader"

definition no_vote :: "raft_msg \<Rightarrow> bool" where
  "no_vote m \<longleftrightarrow> (case m of VoteCall i j rq \<Rightarrow> True | VoteReturn i reply \<Rightarrow> \<not> rs_votegranted reply)"

lemma NewestLog_empty: "rl_offset_term (rf_logs r) = [] \<Longrightarrow> NewestLog rq r = Inl OutOfBounds"
  by (simp add: NewestLog_def RaftLog_Term_def ValidIndex_def nth_res_def)

lemma RequestVote_bare:
  assumes "bare r" and "Raft_RequestVote rq r = Inr (r', reply)"
  shows "r' = r \<and> \<not> rs_votegranted reply"
  using assms NewestLog_empty [of r rq] by (auto simp: Raft_RequestVote_def bare_def split: if_splits)

lemma ToCandidater_bare: "bare r \<Longrightarrow> ToCandidater r = (r', rqs) \<Longrightarrow> bare r'"
  by (auto simp: ToCandidater_def Let_def bare_def SetCurrentTerm_def SetVotedFor_def ResetElectionTime_def)

lemma OnRequestVote_refused:
  "\<not> rs_votegranted reply \<Longrightarrow> Raft_OnRequestVote reply r = Inr r' \<Longrightarrow> r' = r"
  by (auto simp: Raft_OnRequestVote_def split: option.splits)

definition cl_inv :: "cluster \<Rightarrow> bool" where
  "cl_inv c \<longleftrightarrow> (\<forall>r. Some r \<in> set (cl_nodes c) \<longrightarrow> bare r) \<and> (\<forall>m \<in> set (cl_net c). no_vote m)"

lemma cl_inv_new: "cl_inv (cluster_new ids n)"
  by (auto simp: cl_inv_def cluster_new_def bare_def Raft_new_def RaftLog_new_def)

lemma cl_inv_node:
  assumes "cl_inv c" and "i < length (cl_nodes c)" and "cl_nodes c ! i = Some r"
  shows "bare r"
  using assms nth_mem [OF assms(2)] by (auto simp: cl_inv_def)

lemma set_update_Some: "Some r \<in> set (xs[i := x]) \<Longrightarrow> Some r \<in> set xs \<or> x = Some r"
  using set_update_subset_insert [of xs i x] by auto

lemma cl_inv_update:
  assumes "cl_inv c" and "\<forall>r. x = Some r \<longrightarrow> bare r" and "\<forall>m \<in> set ms. m \<in> set (cl_net c) \<or> no_vote m"
  shows "cl_inv (c\<lparr>cl_nodes := (cl_nodes c)[i := x], cl_net := ms\<rparr>)"
  using assms set_update_Some unfolding cl_inv_def by fastforce

lemma cl_inv_step:
  assumes "cl_step c c'" and inv: "cl_inv c"
  shows "cl_inv c'"
  using assms(1)
proof cases
  case (propose i r cmd r' rqs)
  have "bare r'" using cl_inv_node [OF inv propose(2,3)] propose(4) ToCandidater_bare by (simp add: Node_Propose_def Raft_Propose_def)
  then show ?thesis using inv propose(1) by (auto intro!: cl_inv_update simp: no_vote_def)
next
  case (call xs i j rq ys r r' reply)
  have "r' = r" "\<not> rs_votegranted reply" "bare r"
    using RequestVote_bare cl_inv_node [OF inv call(3,4)] call(5) unfolding Node_RequestVote_def by blast+
  then show ?thesis using inv call(1,2) by (auto intro!: cl_inv_update simp: no_vote_def)
next
  case (call_fails xs i j rq ys r e)
  then show ?thesis using inv by (auto intro!: cl_inv_update)
next
  case (answer xs i reply ys r r')
  have "no_vote (VoteReturn i reply)" using inv answer(2) by (auto simp: cl_inv_def)
  then have "r' = r" using OnRequestVote_refused answer(5) by (simp add: no_vote_def Node_OnRequestVote_def)
  then show ?thesis using inv answer(1,2) cl_inv_node [OF inv answer(3,4)] by (auto intro!: cl_inv_update)
next
  case (answer_fails xs i reply ys r e)
  then show ?thesis using inv by (auto intro!: cl_inv_update)
next
  case (lose xs m ys)
  then show ?thesis using inv by (auto simp: cl_inv_def)
qed

lemma cl_inv_reach: "cl_reach ids n c \<Longrightarrow> cl_inv c"
  by (induction rule: cl_reach.induct) (auto intro: cl_inv_new cl_inv_step)

text \<open>Answering a sequence of vote requests.\<close>

fun vote_all :: "vote_request list \<Rightarrow> raft \<Rightarrow> (raft \<times> vote_response list) res" where
  "vote_all [] r = Inr (r, [])"
| "vote_all (rq # rqs) r =
     rbind (Raft_RequestVote rq r) (\<lambda>(r, reply). rbind (vote_all rqs r) (\<lambda>(r, replies). Inr (r, reply # replies)))"

lemma RequestVote_cases:
  assumes "Raft_RequestVote rq r = Inr (r', reply)"
  shows "rs_term reply = rf_currentTerm r \<and> rf_currentTerm r' = rf_currentTerm r \<and> rf_logs r' = rf_logs r \<and>
    (if rs_votegranted reply
     then sint (rf_currentTerm r) < sint (rq_term rq) \<and> (rf_votedFor r = - 1 \<or> rf_votedFor r = rq_peerid rq) \<and> rf_votedFor r' = rq_peerid rq
     else r' = r)"
  using assms unfolding Raft_RequestVote_def by (elim rbind_InrE) (auto split: if_splits)

lemma vote_all_votedFor:
  assumes "vote_all rqs r = Inr (r', replies)" and "\<forall>rq \<in> set rqs. rq_peerid rq \<noteq> - 1"
  shows "length replies = length rqs \<and>
    (rf_votedFor r \<noteq> - 1 \<longrightarrow> rf_votedFor r' = rf_votedFor r) \<and>
    (\<forall>i < length rqs. rs_votegranted (replies ! i) \<longrightarrow> rq_peerid (rqs ! i) = rf_votedFor r')"
  using assms
proof (induction rqs arbitrary: r replies)
  case (Cons rq rqs)
  from Cons.prems(1) obtain r1 reply replies1 where
    v: "Raft_RequestVote rq r = Inr (r1, reply)" "vote_all rqs r1 = Inr (r', replies1)" "replies = reply # replies1"
    by (auto simp: rbind_Inr_iff)
  have IH: "length replies1 = length rqs" "rf_votedFor r1 \<noteq> - 1 \<longrightarrow> rf_votedFor r' = rf_votedFor r1"
    "\<forall>i < length rqs. rs_votegranted (replies1 ! i) \<longrightarrow> rq_peerid (rqs ! i) = rf_votedFor r'"
    using Cons.IH [OF v(2)] Cons.prems(2) by auto
  have one: "rf_votedFor r1 = (if rs_votegranted reply then rq_peerid rq else rf_votedFor r)"
    "rs_votegranted reply \<longrightarrow> rf_votedFor r = - 1 \<or> rf_votedFor r = rq_peerid rq"
    using RequestVote_cases [OF v(1)] by (auto split: if_splits)
  show ?case using IH one v(3) Cons.prems(2) by (auto simp: nth_Cons split: nat.splits if_splits)
qed simp

text \<open>The entries of a request as the handler appends them.\<close>

definition request_entries :: "(nat \<Rightarrow> 32 word) \<Rightarrow> append_request \<Rightarrow> (32 word \<times> log_entry) list" where
  "request_entries pads request =
     map (\<lambda>k. (pads k, \<lparr>le_type = ar_type request ! k, le_term = ar_term request, le_index = ar_prevlogindex request + 1,
                        le_command = ar_entries request ! k\<rparr>)) [0..<length (ar_entries request)]"

lemma append_entries_loop_rfold:
  assumes "i + length es \<le> length (ar_type request)"
  shows "append_entries_loop serialize pads request idx i es l =
    rfold (\<lambda>(pad, e). RaftLog_Append serialize pad e)
      (map (\<lambda>k. (pads (i + k), \<lparr>le_type = ar_type request ! (i + k), le_term = ar_term request, le_index = idx, le_command = es ! k\<rparr>)) [0..<length es]) l"
  using assms
proof (induction es arbitrary: i l)
  case (Cons e es)
  have eq: "append_entries_loop serialize pads request idx (i + 1) es =
      rfold (\<lambda>(pad, e). RaftLog_Append serialize pad e)
        (map (\<lambda>k. (pads (i + 1 + k), \<lparr>le_type = ar_type request ! (i + 1 + k), le_term = ar_term request, le_index = idx, le_command = es ! k\<rparr>)) [0..<length es])"
    using Cons by (intro ext Cons.IH) simp
  have upt: "[0..<length (e # es)] = 0 # map Suc [0..<length es]" by (simp add: map_Suc_upt upt_conv_Cons del: upt_Suc)
  show ?case using Cons.prems unfolding upt by (simp add: eq [simplified] comp_def)
qed simp

lemma append_entries_loop_ok:
  assumes "length (ar_entries request) \<le> length (ar_type request)"
    and "\<forall>e \<in> set (map snd (request_entries pads request)). length (serialize e) < 2 ^ 31"
    and "length (log_image i fs) + log_size serialize (map snd (request_entries pads request)) < 2 ^ 63"
  shows "append_entries_loop serialize pads request (ar_prevlogindex request + 1) 0 (ar_entries request) (log_of i fs) =
    Inr (log_of i (fs @ map (entry_frame serialize) (request_entries pads request)))"
  using Appends_ok [OF assms(2,3)] append_entries_loop_rfold [of 0 "ar_entries request" request] assms(1)
  by (simp add: request_entries_def)

lemma request_terms: "map fst (map (entry_frame serialize) (request_entries pads request)) = replicate (length (ar_entries request)) (ar_term request)"
  by (auto simp: request_entries_def entry_frame_def intro: nth_equalityI)

lemma LastIndex_pos:
  assumes "fs \<noteq> []"
  shows "RaftLog_LastIndex (log_of i fs) = i + of_nat (length fs - 1)"
  using assms by (cases fs) (simp_all add: RaftLog_LastIndex_def)

lemma contains_last:
  assumes "fs \<noteq> []" and "length fs < 2 ^ 64"
  shows "RaftLog_ContainLog (RaftLog_LastIndex (log_of i fs)) (fst (last fs)) (log_of i fs) = Inr True"
  unfolding LastIndex_pos [OF assms(1)] using ContainLog_log_of [OF assms(2)] assms(1)
  by (auto intro!: exI [of _ "length fs - 1"] simp: last_conv_nth)

lemma invalid_next:
  assumes "length fs < 2 ^ 64"
  shows "\<not> ValidIndex (RaftLog_LastIndex (log_of i fs) + 1) (log_of i fs)"
  unfolding ValidIndex_log_of using index_position [OF assms, of i] by (simp add: RaftLog_LastIndex_def algebra_simps)

lemma AppendEntries_at_end:
  assumes logs: "rf_logs r = log_of i fs" and ne: "fs \<noteq> []" and cur: "sint (rf_currentTerm r) \<le> sint (ar_term request)"
    and prev: "ar_prevlogindex request = RaftLog_LastIndex (log_of i fs)" "ar_prevlogterm request = fst (last fs)"
    and types: "length (ar_entries request) \<le> length (ar_type request)"
    and small: "\<forall>e \<in> set (map snd (request_entries pads request)). length (serialize e) < 2 ^ 31"
    and size: "length (log_image i fs) + log_size serialize (map snd (request_entries pads request)) < 2 ^ 63"
  shows "\<exists>r' reply'. Raft_AppendEntries serialize pads request reply r = Inr (r', reply') \<and>
    rf_logs r' = log_of i (fs @ map (entry_frame serialize) (request_entries pads request)) \<and>
    sint (rf_commitIndex r') = (if sint (rf_commitIndex r) < sint (ar_commitedindex request)
      then min (sint (ar_commitedindex request)) (sint (ar_prevlogindex request + 1)) else sint (rf_commitIndex r)) \<and>
    rf_currentTerm r' = rf_currentTerm r \<and> as_success reply' = as_success reply"
proof -
  have few: "length fs < 2 ^ 64" using frames_few [of fs i] size by simp
  note c1 = contains_last [OF ne few, of i] and nv = invalid_next [OF few, of i]
  have c2: "RaftLog_ContainLog (RaftLog_LastIndex (log_of i fs) + 1) t (log_of i fs) = Inr False" for t
    using nv by (simp add: RaftLog_ContainLog_def)
  have tr: "RaftLog_Truncate (RaftLog_LastIndex (log_of i fs) + 1) (log_of i fs) = Inr (log_of i fs)"
    using nv by (simp add: RaftLog_Truncate_def)
  have lp: "append_entries_loop serialize pads request (RaftLog_LastIndex (log_of i fs) + 1) 0 (ar_entries request) (log_of i fs) =
      Inr (log_of i (fs @ map (entry_frame serialize) (request_entries pads request)))"
    using append_entries_loop_ok [OF types small size] prev by simp
  show ?thesis using cur by (auto simp: Raft_AppendEntries_def logs prev c1 c2 tr lp min_def)
qed

lemma contains_nth:
  assumes "k < length fs" and "length fs < 2 ^ 64" and "fst (fs ! k) = t"
  shows "RaftLog_ContainLog (i + of_nat k) t (log_of i fs) = Inr True"
  using ContainLog_log_of [OF assms(2)] assms(1,3) by auto

text \<open>A request that is delivered again finds its first entry in the log and appends all its entries once more.\<close>

lemma AppendEntries_again:
  assumes logs: "rf_logs r = log_of i (fs @ gs)" and ne: "fs \<noteq> []" "gs \<noteq> []" and gs: "fst (hd gs) = ar_term request"
    and cur: "sint (rf_currentTerm r) \<le> sint (ar_term request)"
    and prev: "ar_prevlogindex request = RaftLog_LastIndex (log_of i fs)" "ar_prevlogterm request = fst (last fs)"
    and types: "length (ar_entries request) \<le> length (ar_type request)"
    and small: "\<forall>e \<in> set (map snd (request_entries pads request)). length (serialize e) < 2 ^ 31"
    and size: "length (log_image i (fs @ gs)) + log_size serialize (map snd (request_entries pads request)) < 2 ^ 63"
  shows "\<exists>r' reply'. Raft_AppendEntries serialize pads request reply r = Inr (r', reply') \<and>
    rf_logs r' = log_of i ((fs @ gs) @ map (entry_frame serialize) (request_entries pads request)) \<and> as_success reply' = as_success reply"
proof -
  have few: "length (fs @ gs) < 2 ^ 64" using frames_few [of "fs @ gs" i] size by simp
  have p: "ar_prevlogindex request = i + of_nat (length fs - 1)" using LastIndex_pos [OF ne(1)] prev(1) by simp
  have p1: "ar_prevlogindex request + 1 = i + of_nat (length fs)" using p ne(1) by (cases fs) simp_all
  have c1: "RaftLog_ContainLog (ar_prevlogindex request) (ar_prevlogterm request) (log_of i (fs @ gs)) = Inr True"
    unfolding p prev(2) using ne(1) few by (intro contains_nth) (auto simp: last_conv_nth nth_append trans_less_add1)
  have c2: "RaftLog_ContainLog (ar_prevlogindex request + 1) (ar_term request) (log_of i (fs @ gs)) = Inr True"
    unfolding p1 using ne(2) gs few by (intro contains_nth) (auto simp: hd_conv_nth nth_append)
  show ?thesis using cur append_entries_loop_ok [OF types small size]
    by (auto simp: Raft_AppendEntries_def logs c1 c2 Let_def)
qed

section \<open>Properties\<close>

text \<open>
  C23. No cluster ever elects a leader. Whatever the nodes are told to propose and however the network orders or
  loses the messages, no node becomes leader: the log of every node stays empty, so a vote request of a
  later term makes its receiver read outside the vector of terms, and no response grants a vote.
\<close>

theorem Raft_no_leader:
  assumes "cl_reach ids n c" and "i < length (cl_nodes c)" and "cl_nodes c ! i = Some r"
  shows "rf_role r \<noteq> Some KLeader \<and> rl_offset_term (rf_logs r) = [] \<and>
    (\<forall>j reply. VoteReturn j reply \<in> set (cl_net c) \<longrightarrow> \<not> rs_votegranted reply)"
  using cl_inv_reach [OF assms(1)] cl_inv_node [OF cl_inv_reach [OF assms(1)] assms(2,3)]
  by (force simp: bare_def cl_inv_def no_vote_def)

definition example_node :: raft where
  "example_node = Raft_new \<lparr>st_file = [], st_answers = []\<rparr> 0 2"

definition example_cluster :: cluster where
  "example_cluster = (cluster_new of_nat 3)\<lparr>cl_nodes := (cl_nodes (cluster_new of_nat 3))[0 := Some (fst (ToCandidater example_node))],
     cl_net := map (\<lambda>(j, rq). VoteCall 0 j rq) (zip [1, 2] (snd (ToCandidater example_node)))\<rparr>"

theorem Raft_no_leader_witness:
  "cl_reach of_nat 3 example_cluster \<and> length (cl_net example_cluster) = 2 \<and> rf_role (fst (ToCandidater example_node)) \<noteq> Some KLeader"
proof -
  have n: "cl_nodes (cluster_new of_nat 3) ! 0 = Some example_node" "length (cl_nodes (cluster_new of_nat 3)) = 3"
    by (simp_all add: cluster_new_def example_node_def)
  have "cl_step (cluster_new of_nat 3) example_cluster"
    using cl_step.propose [of 0 "cluster_new of_nat 3" example_node "[]" "fst (ToCandidater example_node)" "snd (ToCandidater example_node)"] n
    by (simp add: example_cluster_def Node_Propose_def Raft_Propose_def cluster_new_def peers_of_def upt_rec numeral_2_eq_2)
  then have r: "cl_reach of_nat 3 example_cluster" by (rule cl_reach.step [OF cl_reach.start])
  have e: "cl_nodes example_cluster ! 0 = Some (fst (ToCandidater example_node))" "0 < length (cl_nodes example_cluster)"
    using n(2) by (simp_all add: example_cluster_def)
  have "length (cl_net example_cluster) = 2"
    by (simp add: example_cluster_def ToCandidater_def StartRequestVote_def Let_def SetCurrentTerm_def SetVotedFor_def
        ResetElectionTime_def example_node_def Raft_new_def)
  then show ?thesis using Raft_no_leader [OF r e(2,1)] r by simp
qed

text \<open>The first vote request that a new node receives makes it read outside its log, whatever the request, if
  its term is positive.
\<close>

theorem Raft_first_vote_fails:
  assumes "0 < sint (rq_term request)"
  shows "Raft_RequestVote request (Raft_new st nid peers) = Inl OutOfBounds"
  using assms by (simp add: Raft_RequestVote_def Raft_new_def NewestLog_empty RaftLog_new_def)

theorem Raft_first_vote_fails_witness:
  "Raft_RequestVote \<lparr>rq_term = 1, rq_peerid = 0, rq_candidateid = 0, rq_lastlogindex = 0, rq_lastlogterm = 0\<rparr> example_node = Inl OutOfBounds"
  unfolding example_node_def
  using Raft_first_vote_fails [of "\<lparr>rq_term = 1, rq_peerid = 0, rq_candidateid = 0, rq_lastlogindex = 0, rq_lastlogterm = 0\<rparr>"] by simp

text \<open>
  A vote that is granted is never counted, even with logs that work. The response carries the voter's
  term, which is smaller than the term of the request that it grants; the candidate, whose term has not
  decreased since it sent the request, takes the response for an expired one.
\<close>

theorem Raft_granted_vote_ignored:
  assumes "Raft_RequestVote request voter = Inr (voter', reply)" and "rs_votegranted reply"
    and "rf_role candidate \<noteq> None" and "sint (rq_term request) \<le> sint (rf_currentTerm candidate)"
  shows "Raft_OnRequestVote reply candidate = Inr candidate"
  using RequestVote_cases [OF assms(1)] assms(2-4) by (auto simp: Raft_OnRequestVote_def)

definition example_voter :: raft where
  "example_voter = example_node\<lparr>rf_logs := log_of 1 [(1, 0, ''set'')], rf_id := 2\<rparr>"

definition example_request :: "int64 \<Rightarrow> vote_request" where
  "example_request p = \<lparr>rq_term = 1, rq_peerid = p, rq_candidateid = p, rq_lastlogindex = 5, rq_lastlogterm = 1\<rparr>"

lemma example_vote:
  "Raft_RequestVote (example_request 0) example_voter =
     Inr (example_voter\<lparr>rf_votedFor := 0\<rparr>, \<lparr>rs_term = 0, rs_votegranted = True, rs_peerid = 2\<rparr>)"
  "Raft_RequestVote (example_request 1) (example_voter\<lparr>rf_votedFor := 0\<rparr>) =
     Inr (example_voter\<lparr>rf_votedFor := 0\<rparr>, \<lparr>rs_term = 0, rs_votegranted = False, rs_peerid = 2\<rparr>)"
  by (simp_all add: Raft_RequestVote_def example_request_def example_voter_def example_node_def Raft_new_def NewestLog_def
      RaftLog_Term_def RaftLog_LastIndex_def ValidIndex_log_of)

theorem Raft_granted_vote_ignored_witness:
  "Raft_OnRequestVote \<lparr>rs_term = 0, rs_votegranted = True, rs_peerid = 2\<rparr> (fst (ToCandidater example_node)) = Inr (fst (ToCandidater example_node))"
proof -
  have "rf_role (fst (ToCandidater example_node)) \<noteq> None" "sint (rq_term (example_request 0)) \<le> sint (rf_currentTerm (fst (ToCandidater example_node)))"
    by (simp_all add: ToCandidater_def Let_def SetCurrentTerm_def SetVotedFor_def ResetElectionTime_def example_node_def Raft_new_def example_request_def)
  then show ?thesis using Raft_granted_vote_ignored [OF example_vote(1)] by simp
qed

text \<open>
  What the handler of votes would guarantee if it got as far as granting one, which no reachable node does: in any sequence of vote
  requests that a node answers, all those it grants come from the same candidate (a candidate's identity is never the mark for no vote).
\<close>

theorem Raft_vote_once:
  assumes "vote_all rqs r = Inr (r', replies)" and "\<forall>rq \<in> set rqs. rq_peerid rq \<noteq> - 1"
    and "i < length rqs" and "j < length rqs" and "rs_votegranted (replies ! i)" and "rs_votegranted (replies ! j)"
  shows "rq_peerid (rqs ! i) = rq_peerid (rqs ! j)"
  using vote_all_votedFor [OF assms(1,2)] assms(3-6) by auto

theorem Raft_vote_once_witness:
  "\<exists>r' replies. vote_all [example_request 0, example_request 1] example_voter = Inr (r', replies) \<and>
    rs_votegranted (replies ! 0) \<and> \<not> rs_votegranted (replies ! 1)"
proof -
  have v: "vote_all [example_request 0, example_request 1] example_voter =
      Inr (example_voter\<lparr>rf_votedFor := 0\<rparr>, [\<lparr>rs_term = 0, rs_votegranted = True, rs_peerid = 2\<rparr>, \<lparr>rs_term = 0, rs_votegranted = False, rs_peerid = 2\<rparr>])"
    by (simp add: example_vote)
  have "rq_peerid (example_request 0) \<noteq> - 1" "rq_peerid (example_request 1) \<noteq> - 1" "rq_peerid (example_request 0) \<noteq> rq_peerid (example_request 1)"
    by (simp_all add: example_request_def)
  then have "\<not> rs_votegranted ([\<lparr>rs_term = 0, rs_votegranted = True, rs_peerid = 2\<rparr>, \<lparr>rs_term = 0, rs_votegranted = False, rs_peerid = 2\<rparr>] ! 1)"
    using Raft_vote_once [OF v, of 0 1] by auto
  then show ?thesis using v by auto
qed

text \<open>
  Two majorities share a node: whenever \<^verbatim>\<open>Majority\<close> accepts the sizes of two sets of nodes of a cluster of one
  node and its peers, the sets intersect.
\<close>

theorem Raft_Majority_quorum:
  assumes "finite S" and "card S = peers + 1" and "A \<subseteq> S" and "B \<subseteq> S"
    and "Majority (of_nat (card A)) peers" and "Majority (of_nat (card B)) peers"
  shows "A \<inter> B \<noteq> {}"
proof
  assume "A \<inter> B = {}"
  moreover have fin: "finite A" "finite B" using assms finite_subset by auto
  ultimately have "card A + card B = card (A \<union> B)" by (simp add: card_Un_disjoint)
  also have "\<dots> \<le> peers + 1" using assms card_mono [of S "A \<union> B"] by simp
  finally have le: "card A + card B \<le> peers + 1" .
  have "(peers + 1) div 2 < card A" "(peers + 1) div 2 < card B"
    using assms(5,6) by (auto simp: Majority_def unat_of_nat take_bit_eq_mod elim: less_le_trans)
  then show False using le by linarith
qed

theorem Raft_Majority_quorum_witness: "{0, 1 :: nat} \<inter> {1, 2} \<noteq> {}"
proof -
  have "Majority (of_nat (card {0, 1 :: nat})) 2" "Majority (of_nat (card {1, 2 :: nat})) 2" by (simp_all add: Majority_def)
  then show ?thesis using Raft_Majority_quorum [of "{0, 1, 2 :: nat}" 2 "{0, 1}" "{1, 2}"] by simp
qed

text \<open>
  \<^verbatim>\<open>AppendEntries\<close> at the end of the log. A request of a current term whose previous index and term are those
  of the last entry appends its entries, all with the same index, in order; the commit index becomes the
  smaller of the leader's and the insertion index when the leader's is larger, and no success is reported.
\<close>

theorem Raft_AppendEntries_result:
  assumes "rf_logs r = log_of i fs" and "fs \<noteq> []" and "sint (rf_currentTerm r) \<le> sint (ar_term request)"
    and "ar_prevlogindex request = RaftLog_LastIndex (log_of i fs)" and "ar_prevlogterm request = fst (last fs)"
    and "length (ar_entries request) \<le> length (ar_type request)"
    and "\<forall>e \<in> set (map snd (request_entries pads request)). length (serialize e) < 2 ^ 31"
    and "length (log_image i fs) + log_size serialize (map snd (request_entries pads request)) < 2 ^ 63"
  shows "\<exists>r' reply'. Raft_AppendEntries serialize pads request reply r = Inr (r', reply') \<and>
    rf_logs r' = log_of i (fs @ map (entry_frame serialize) (request_entries pads request)) \<and>
    sint (rf_commitIndex r') = (if sint (rf_commitIndex r) < sint (ar_commitedindex request)
      then min (sint (ar_commitedindex request)) (sint (ar_prevlogindex request + 1)) else sint (rf_commitIndex r)) \<and>
    rf_currentTerm r' = rf_currentTerm r \<and> as_success reply' = as_success reply"
  by (rule AppendEntries_at_end [OF assms])

definition example_append :: append_request where
  "example_append = \<lparr>ar_term = 3, ar_peerid = 0, ar_prevlogindex = 1, ar_prevlogterm = 1, ar_commitedindex = 1,
     ar_type = [ENTRY_TYPE_DATA, ENTRY_TYPE_DATA], ar_entries = [''x'', ''y'']\<rparr>"

lemma example_append_facts:
  "rf_logs example_voter = log_of 1 [(1, 0, ''set'')]"
  "sint (rf_currentTerm example_voter) \<le> sint (ar_term example_append)"
  "ar_prevlogindex example_append = RaftLog_LastIndex (log_of 1 [(1, 0, ''set'')])"
  "length (ar_entries example_append) \<le> length (ar_type example_append)"
  "request_entries (\<lambda>_. 0) example_append =
     [(0, \<lparr>le_type = ENTRY_TYPE_DATA, le_term = 3, le_index = 2, le_command = ''x''\<rparr>),
      (0, \<lparr>le_type = ENTRY_TYPE_DATA, le_term = 3, le_index = 2, le_command = ''y''\<rparr>)]"
  by (simp_all add: example_voter_def example_node_def Raft_new_def example_append_def RaftLog_LastIndex_def request_entries_def upt_rec)

theorem Raft_AppendEntries_result_witness:
  "\<exists>r' reply'. Raft_AppendEntries le_command (\<lambda>_. 0) example_append \<lparr>as_term = 0, as_success = None, as_peerid = 0\<rparr> example_voter = Inr (r', reply') \<and>
    rf_logs r' = log_of 1 [(1, 0, ''set''), (3, 0, ''x''), (3, 0, ''y'')] \<and> as_success reply' = None"
  using Raft_AppendEntries_result [OF example_append_facts(1) _ example_append_facts(2,3) _ example_append_facts(4), of "\<lambda>_. 0" le_command "\<lparr>as_term = 0, as_success = None, as_peerid = 0\<rparr>"]
  unfolding example_append_facts(5)
  by (auto simp: example_append_def log_image_def log_size_def entry_frame_def)

text \<open>\<^verbatim>\<open>AppendEntries\<close> is not idempotent: the same request delivered twice appends its entries twice.
\<close>

theorem Raft_AppendEntries_twice:
  assumes "rf_logs r = log_of i fs" and "fs \<noteq> []" and "sint (rf_currentTerm r) \<le> sint (ar_term request)"
    and "ar_prevlogindex request = RaftLog_LastIndex (log_of i fs)" and "ar_prevlogterm request = fst (last fs)"
    and "length (ar_entries request) \<le> length (ar_type request)" and "ar_entries request \<noteq> []"
    and "\<forall>e \<in> set (map snd (request_entries pads request)). length (serialize e) < 2 ^ 31"
    and "length (log_image i fs) + 2 * log_size serialize (map snd (request_entries pads request)) < 2 ^ 63"
  shows "\<exists>r1 reply1 r2 reply2. Raft_AppendEntries serialize pads request reply r = Inr (r1, reply1) \<and>
    Raft_AppendEntries serialize pads request reply' r1 = Inr (r2, reply2) \<and>
    map snd (rl_offset_term (rf_logs r2)) =
      map snd (rl_offset_term (rf_logs r)) @ replicate (2 * length (ar_entries request)) (ar_term request)"
proof -
  let ?gs = "map (entry_frame serialize) (request_entries pads request)"
  obtain r1 reply1 where r1: "Raft_AppendEntries serialize pads request reply r = Inr (r1, reply1)"
    "rf_logs r1 = log_of i (fs @ ?gs)" "rf_currentTerm r1 = rf_currentTerm r"
    using AppendEntries_at_end [OF assms(1-6,8), of reply] assms(9) by auto
  have gs: "?gs \<noteq> []" "fst (hd ?gs) = ar_term request"
    using assms(7) by (auto simp: request_entries_def entry_frame_def hd_map)
  have "length (log_image i (fs @ ?gs)) = length (log_image i fs) + log_size serialize (map snd (request_entries pads request))"
    using length_log_image_entries [of i serialize "request_entries pads request"] by (simp add: log_image_def)
  then have size: "length (log_image i (fs @ ?gs)) + log_size serialize (map snd (request_entries pads request)) < 2 ^ 63"
    using assms(9) by simp
  obtain r2 reply2 where r2: "Raft_AppendEntries serialize pads request reply' r1 = Inr (r2, reply2)" "rf_logs r2 = log_of i ((fs @ ?gs) @ ?gs)"
    using AppendEntries_again [OF r1(2) assms(2) gs _ assms(4,5,6,8) size, of reply'] assms(3) r1(3) by auto
  have t: "map snd (rl_offset_term (log_of i hs)) = map fst hs" for hs by (simp add: log_of_def log_terms)
  have "map snd (rl_offset_term (rf_logs r2)) = map fst fs @ map fst ?gs @ map fst ?gs"
    unfolding r2(2) t by (simp only: map_append append_assoc)
  also have "\<dots> = map snd (rl_offset_term (rf_logs r)) @ replicate (2 * length (ar_entries request)) (ar_term request)"
    unfolding assms(1) t request_terms by (simp add: mult_2 replicate_add)
  finally show ?thesis using r1(1) r2(1) by blast
qed

theorem Raft_AppendEntries_twice_witness:
  "\<exists>r1 reply1 r2 reply2.
    Raft_AppendEntries le_command (\<lambda>_. 0) example_append \<lparr>as_term = 0, as_success = None, as_peerid = 0\<rparr> example_voter = Inr (r1, reply1) \<and>
    Raft_AppendEntries le_command (\<lambda>_. 0) example_append \<lparr>as_term = 0, as_success = None, as_peerid = 0\<rparr> r1 = Inr (r2, reply2) \<and>
    length (rl_offset_term (rf_logs r2)) = 5"
proof -
  let ?reply = "\<lparr>as_term = 0, as_success = None, as_peerid = 0\<rparr>"
  have "\<exists>r1 reply1 r2 reply2. Raft_AppendEntries le_command (\<lambda>_. 0) example_append ?reply example_voter = Inr (r1, reply1) \<and>
    Raft_AppendEntries le_command (\<lambda>_. 0) example_append ?reply r1 = Inr (r2, reply2) \<and>
    map snd (rl_offset_term (rf_logs r2)) =
      map snd (rl_offset_term (rf_logs example_voter)) @ replicate (2 * length (ar_entries example_append)) (ar_term example_append)"
    by (rule Raft_AppendEntries_twice [OF example_append_facts(1) _ example_append_facts(2,3) _ example_append_facts(4)])
      (simp_all only: example_append_facts(5), simp_all add: example_append_def log_image_def log_size_def)
  then obtain r1 reply1 r2 reply2 where r: "Raft_AppendEntries le_command (\<lambda>_. 0) example_append ?reply example_voter = Inr (r1, reply1)"
    "Raft_AppendEntries le_command (\<lambda>_. 0) example_append ?reply r1 = Inr (r2, reply2)"
    and m: "map snd (rl_offset_term (rf_logs r2)) =
      map snd (rl_offset_term (rf_logs example_voter)) @ replicate (2 * length (ar_entries example_append)) (ar_term example_append)"
    by blast
  have "length (map snd (rl_offset_term (rf_logs r2))) = 5"
    unfolding m example_append_facts(1) by (simp add: example_append_def)
  then show ?thesis using r by auto
qed

end
