(* ===== verification/Rpc.thy ===== *)
theory Rpc
  imports TcpConn
begin

text \<open>
  Remote procedure calls (\<^verbatim>\<open>rpc/protobuf/protobuf_codec.h\<close>, \<^verbatim>\<open>rpc/protobuf/protobuf_codec.cc\<close>,
  \<^verbatim>\<open>rpc/protorpc/rpc_channel.h\<close>, \<^verbatim>\<open>rpc/protorpc/rpc_channel.cc\<close>, \<^verbatim>\<open>rpc/protorpc/rpc_server.cc\<close>) over a TCP connection.

  A message on the wire is a frame: the length of the serialised message in network order and the
  serialised message. The generated code for \<^verbatim>\<open>RpcMessage\<close> is not part of the repository: its serialisation \<open>ser\<close>
  and what \<^verbatim>\<open>ParseFromArray\<close> leaves in a fresh message, \<open>parse\<close>, are arguments; that parsing undoes
  serialising is a hypothesis where it is needed. A service is user code: it maps the name of a method to what
  the method does, which gives no answer to a request it cannot parse and otherwise runs the closure once
  with a serialised response, inside the call.

  The state of a channel has a history: the closures that were run, with the response each was given.
\<close>

section \<open>Framing\<close>

datatype message_type = REQUEST | RESPONSE

record rpc_message =
  rm_type :: message_type
  rm_id :: int64
  rm_service :: "byte list"
  rm_method :: "byte list"
  rm_request :: "byte list"
  rm_response :: "byte list"

definition kHeaderLen :: nat where
  "kHeaderLen = 4"

text \<open>Nothing makes room for the serialised message.\<close>

definition SerializeToBuffer :: "('m \<Rightarrow> byte list) \<Rightarrow> 'm \<Rightarrow> buffer \<Rightarrow> (nat \<times> buffer) res" where
  "SerializeToBuffer ser message b =
     (let bytes = ser message; byte_size = length bytes in
      rbind (mem_write (buf_mem b) (Buffer_Begin b + of_nat kHeaderLen) (map Some bytes)) (\<lambda>m.
      Inr (byte_size, Buffer_AddSize (b\<lparr>buf_mem := m\<rparr>) (of_nat byte_size))))"

definition FillEmptyBuffer :: "('m \<Rightarrow> byte list) \<Rightarrow> 'm \<Rightarrow> buffer \<Rightarrow> buffer res" where
  "FillEmptyBuffer ser message b =
     rbind (cxx_assert (Buffer_GetSize b = 0)) (\<lambda>_.
     rbind (Buffer_AppendInt32 b 0) (\<lambda>b.
     rbind (SerializeToBuffer ser message b) (\<lambda>(byte_size, b).
     rbind (mem_write (buf_mem b) (Buffer_Begin b) (map Some (bytes32 (htonl (of_nat byte_size))))) (\<lambda>m.
     Inr (b\<lparr>buf_mem := m\<rparr>)))))"

definition ProtobufCodec_Send :: "('m \<Rightarrow> byte list) \<Rightarrow> wres list \<Rightarrow> 'm \<Rightarrow> conn \<Rightarrow> (conn \<times> wres list) res" where
  "ProtobufCodec_Send ser ws message s =
     rbind (FillEmptyBuffer ser message Buffer_new) (\<lambda>b.
     rbind (TcpConn_Send_buffer ws b s) (\<lambda>(b, s, ws). Inr (s, ws)))"

definition ParseFromBuffer :: "(byte list \<Rightarrow> 'm) \<Rightarrow> buffer \<Rightarrow> size_t \<Rightarrow> size_t \<Rightarrow> 'm res" where
  "ParseFromBuffer parse b off len =
     rbind (mem_read (buf_mem b) off len) (\<lambda>cs. rbind (cells_bytes cs) (\<lambda>bs. Inr (parse bs)))"

section \<open>The channel\<close>

text \<open>An outstanding call: whether it has a response object, and its closure, known by a label.\<close>

record outstanding_call =
  oc_response :: bool
  oc_done :: nat

type_synonym service = "byte list \<rightharpoonup> (byte list \<Rightarrow> byte list option)"

record rpc_channel =
  rc_conn :: conn
  rc_id :: int64
  rc_outstandings :: "int32 \<rightharpoonup> outstanding_call"
  rc_services :: "(byte list \<rightharpoonup> service) option"
  rc_ran :: "(nat \<times> byte list) list"

text \<open>The constructors leave the counter \<^verbatim>\<open>id_\<close> with the value the memory has.\<close>

definition RpcChannel_new :: "int64 \<Rightarrow> conn \<Rightarrow> rpc_channel" where
  "RpcChannel_new garbage conn =
     \<lparr>rc_conn = conn, rc_id = garbage, rc_outstandings = Map.empty, rc_services = None, rc_ran = []\<rparr>"

definition SetServices :: "(byte list \<rightharpoonup> service) \<Rightarrow> rpc_channel \<Rightarrow> rpc_channel" where
  "SetServices services c = c\<lparr>rc_services := Some services\<rparr>"

text \<open>
  \<^verbatim>\<open>CallMethod\<close> has two accesses of the counter: it draws an identifier, and it registers the call under the
  counter minus one. The key of the map is an \<^verbatim>\<open>int\<close>.
\<close>

definition CallMethod_draw :: "rpc_channel \<Rightarrow> int64 \<times> rpc_channel" where
  "CallMethod_draw c = (rc_id c, c\<lparr>rc_id := rc_id c + 1\<rparr>)"

definition CallMethod_register :: "outstanding_call \<Rightarrow> rpc_channel \<Rightarrow> rpc_channel" where
  "CallMethod_register call c = c\<lparr>rc_outstandings := (rc_outstandings c)(ucast (rc_id c - 1) \<mapsto> call)\<rparr>"

definition RpcChannel_send :: "(rpc_message \<Rightarrow> byte list) \<Rightarrow> wres list \<Rightarrow> rpc_message \<Rightarrow> rpc_channel \<Rightarrow> (rpc_channel \<times> wres list) res" where
  "RpcChannel_send ser ws message c =
     rbind (ProtobufCodec_Send ser ws message (rc_conn c)) (\<lambda>(s, ws). Inr (c\<lparr>rc_conn := s\<rparr>, ws))"

definition request_message :: "int64 \<Rightarrow> byte list \<Rightarrow> byte list \<Rightarrow> byte list \<Rightarrow> rpc_message" where
  "request_message n service method request =
     \<lparr>rm_type = REQUEST, rm_id = n, rm_service = service, rm_method = method, rm_request = request, rm_response = []\<rparr>"

definition RpcChannel_CallMethod ::
    "(rpc_message \<Rightarrow> byte list) \<Rightarrow> wres list \<Rightarrow> byte list \<Rightarrow> byte list \<Rightarrow> byte list \<Rightarrow> outstanding_call \<Rightarrow> rpc_channel \<Rightarrow> (rpc_channel \<times> wres list) res" where
  "RpcChannel_CallMethod ser ws service method request call c =
     (let (n, c) = CallMethod_draw c; message = request_message n service method request; c = CallMethod_register call c
      in RpcChannel_send ser ws message c)"

definition response_message :: "int64 \<Rightarrow> byte list \<Rightarrow> rpc_message" where
  "response_message n response =
     \<lparr>rm_type = RESPONSE, rm_id = n, rm_service = [], rm_method = [], rm_request = [], rm_response = response\<rparr>"

definition DoneCallback :: "(rpc_message \<Rightarrow> byte list) \<Rightarrow> wres list \<Rightarrow> byte list \<Rightarrow> int64 \<Rightarrow> rpc_channel \<Rightarrow> (rpc_channel \<times> wres list) res" where
  "DoneCallback ser ws response n c = RpcChannel_send ser ws (response_message n response) c"

text \<open>Taking an outstanding call out of the map and running its closure.\<close>

definition finish_call :: "int64 \<Rightarrow> byte list \<Rightarrow> rpc_channel \<Rightarrow> rpc_channel res" where
  "finish_call n response c =
     (case rc_outstandings c (ucast n) of
        None \<Rightarrow> Inl AssertFailed
      | Some call \<Rightarrow>
          let c = c\<lparr>rc_outstandings := (rc_outstandings c)(ucast n := None)\<rparr> in
          Inr (if oc_response call then c\<lparr>rc_ran := rc_ran c @ [(oc_done call, response)]\<rparr> else c))"

definition RpcChannel_OnRpcMessage :: "(rpc_message \<Rightarrow> byte list) \<Rightarrow> wres list \<Rightarrow> rpc_message \<Rightarrow> rpc_channel \<Rightarrow> (rpc_channel \<times> wres list) res" where
  "RpcChannel_OnRpcMessage ser ws message c =
     (case rm_type message of
        RESPONSE \<Rightarrow> rbind (finish_call (rm_id message) (rm_response message) c) (\<lambda>c. Inr (c, ws))
      | REQUEST \<Rightarrow>
          (case rc_services c of
             None \<Rightarrow> Inl AssertFailed
           | Some services \<Rightarrow>
               (case services (rm_service message) of
                  None \<Rightarrow> Inl AssertFailed
                | Some service \<Rightarrow>
                    (case service (rm_method message) of
                       None \<Rightarrow> Inr (c, ws)
                     | Some run \<Rightarrow>
                         (case run (rm_request message) of
                            None \<Rightarrow> Inr (c, ws)
                          | Some response \<Rightarrow> DoneCallback ser ws response (rm_id message) c)))))"

text \<open>
  \<^verbatim>\<open>ProtobufCodec::OnMessage\<close>, with the channel's handler as the callback. The length is compared with all the
  bytes received, those of the length included.
\<close>

definition RpcChannel_OnMessage :: "(rpc_message \<Rightarrow> byte list) \<Rightarrow> (byte list \<Rightarrow> rpc_message) \<Rightarrow> wres list \<Rightarrow> rpc_channel \<Rightarrow> (rpc_channel \<times> wres list) res" where
  "RpcChannel_OnMessage ser parse ws c =
     (let b = tc_input (rc_conn c) in
      rbind (Buffer_PeekInt32 b) (\<lambda>len.
      if (scast len :: size_t) \<le> Buffer_GetSize b then
        rbind (ParseFromBuffer parse b (Buffer_Begin b + of_nat kHeaderLen) (scast len)) (\<lambda>message.
        rbind (RpcChannel_OnRpcMessage ser ws message c) (\<lambda>(c, ws).
        Inr (c\<lparr>rc_conn := (rc_conn c)\<lparr>tc_input := Buffer_Consume (tc_input (rc_conn c)) (scast (len + of_nat kHeaderLen))\<rparr>\<rparr>, ws)))
      else Inr (c, ws)))"

section \<open>The server\<close>

record rpc_server =
  sv_services :: "byte list \<rightharpoonup> service"

definition RegisterService :: "byte list \<Rightarrow> service \<Rightarrow> rpc_server \<Rightarrow> rpc_server" where
  "RegisterService full_name service sv = sv\<lparr>sv_services := (sv_services sv)(full_name \<mapsto> service)\<rparr>"

definition RpcServer_OnConnection :: "int64 \<Rightarrow> conn \<Rightarrow> rpc_server \<Rightarrow> rpc_channel" where
  "RpcServer_OnConnection garbage conn sv =
     SetServices (sv_services sv) (RpcChannel_new garbage (conn\<lparr>tc_readcb := True\<rparr>))"

section \<open>Lemmas on frames\<close>

definition frame_of :: "byte list \<Rightarrow> byte list" where
  "frame_of p = bytes32 (htonl (of_nat (length p))) @ p"

lemma length_frame_of [simp]: "length (frame_of p) = 4 + length p"
  by (simp add: frame_of_def)

definition frame_buffer :: "byte list \<Rightarrow> byte list \<Rightarrow> buffer" where
  "frame_buffer hdr p =
     \<lparr>buf_mem = Some (map Some hdr @ map Some p @ replicate (4092 - length p) None), buf_b = 0, buf_e = of_nat (4 + length p),
      buf_cap = 4096, buf_exp = 4096, buf_extra = 0\<rparr>"

lemma bytes32_not_Nil [simp]: "bytes32 w \<noteq> []"
  by (simp flip: length_0_conv)

lemma AppendInt32_new: "Buffer_AppendInt32 Buffer_new 0 = Inr (frame_buffer (bytes32 (htonl 0)) [])"
proof -
  have ex: "Buffer_Expand Buffer_new 4 = Inr (Buffer_new\<lparr>buf_mem := Some (replicate 4096 None), buf_cap := 4096\<rparr>)"
    by (simp add: Buffer_Expand_def mem_read_def Buffer_Begin_def Buffer_End_def Let_def Buffer_new_def Buffer_GetSize_def mem_write_def new_chars_def
        content_def max_def)
  have mk: "Buffer_MakeRoom Buffer_new 4 = Inr (0, Buffer_new\<lparr>buf_mem := Some (replicate 4096 None), buf_cap := 4096\<rparr>)"
    using ex by (simp add: Buffer_MakeRoom_def Buffer_End_def Buffer_GetSize_def Buffer_new_def)
  show ?thesis
    by (simp add: Buffer_AppendInt32_def Buffer_Append_def Buffer_AllocRoom_def mk [unfolded Buffer_new_def] Buffer_AddSize_def mem_write_def
        frame_buffer_def Buffer_new_def list_splice_zero)
qed

lemma Serialize_frame:
  assumes "length (ser m) \<le> 4092" and h: "length hdr = 4"
  shows "SerializeToBuffer ser m (frame_buffer hdr []) = Inr (length (ser m), frame_buffer hdr (ser m))"
  using assms by (simp add: SerializeToBuffer_def frame_buffer_def mem_write_def kHeaderLen_def Buffer_Begin_def Buffer_AddSize_def
      list_splice_def Let_def)

lemma Serialize_overflow:
  assumes "4092 < length (ser m)" and h: "length hdr = 4"
  shows "SerializeToBuffer ser m (frame_buffer hdr []) = Inl OutOfBounds"
  using assms by (auto simp: SerializeToBuffer_def frame_buffer_def mem_write_def kHeaderLen_def Buffer_Begin_def Let_def
     )

lemma Fill_ok:
  assumes "length (ser m) \<le> 4092"
  shows "FillEmptyBuffer ser m Buffer_new = Inr (frame_buffer (bytes32 (htonl (of_nat (length (ser m))))) (ser m))"
proof -
  have "mem_write (buf_mem (frame_buffer (bytes32 h) p)) (Buffer_Begin (frame_buffer (bytes32 h) p)) (map Some (bytes32 n)) =
      Inr (buf_mem (frame_buffer (bytes32 n) p))" for h n p
    by (auto simp: mem_write_def frame_buffer_def Buffer_Begin_def list_splice_zero simp flip: length_0_conv)
  moreover have "(frame_buffer (bytes32 h) p)\<lparr>buf_mem := buf_mem (frame_buffer (bytes32 n) p)\<rparr> = frame_buffer (bytes32 n) p" for h n p
    by (simp add: frame_buffer_def)
  moreover have "Buffer_GetSize Buffer_new = 0" by (simp add: Buffer_GetSize_def Buffer_new_def)
  ultimately show ?thesis using Serialize_frame [of ser m, OF assms] by (simp add: FillEmptyBuffer_def AppendInt32_new)
qed

lemma GetSize_new: "Buffer_GetSize Buffer_new = 0"
  by (simp add: Buffer_GetSize_def Buffer_new_def)

lemma Fill_overflow: "4092 < length (ser m) \<Longrightarrow> FillEmptyBuffer ser m Buffer_new = Inl OutOfBounds"
  by (simp add: FillEmptyBuffer_def AppendInt32_new Serialize_overflow GetSize_new)

lemma frame_buffer_content:
  assumes "length p \<le> 4092" and "length hdr = 4"
  shows "buffer_wf (frame_buffer hdr p)" and "content (frame_buffer hdr p) = map Some (hdr @ p)"
proof -
  have e: "unat (of_nat (4 + length p) :: size_t) = 4 + length p" using assms(1) by (intro unat_of_nat_nowrap) simp
  show "buffer_wf (frame_buffer hdr p)" using assms e by (simp add: buffer_wf_def frame_buffer_def del: of_nat_add)
  show "content (frame_buffer hdr p) = map Some (hdr @ p)"
    using assms e by (simp add: content_def frame_buffer_def del: of_nat_add)
qed

lemma Send_accepted:
  assumes ch: "conn_channel s = Inr (c, chn)" "tc_channel s \<noteq> None" "\<not> IsWriting chn"
    and m: "buffer_wf m" "content m = map Some bs" "bs \<noteq> []" and n: "length bs \<le> n"
  shows "TcpConn_Send_buffer (Wrote n # ws) m s = Inr (Buffer_Clear m, s\<lparr>tc_wire := tc_wire s @ bs\<rparr>, ws)"
proof -
  have ne: "Buffer_GetSize m \<noteq> 0" using GetSize_message [OF m(1,2)] m(3) by simp
  have "n \<noteq> 0" using m(3) n by (cases n) auto
  then have "write_loop (Wrote n # ws) bs = (bs, False, ws)" using m(3) n by (cases bs) auto
  then have i: "TcpConn_ISend (Wrote n # ws) bs s = Inr (length bs, s\<lparr>tc_wire := tc_wire s @ bs\<rparr>, ws)"
    using m(3) ch by (simp add: TcpConn_ISend_def)
  have "length bs < 2 ^ 64" using length_content_less [OF m(1)] m(2) by simp
  then have c: "Buffer_Consume m (of_nat (length bs)) = Buffer_Clear m"
    using m(2) by (intro Consume_all [OF m(1)]) (simp add: unat_of_nat_nowrap)
  have z: "Buffer_GetSize (Buffer_Clear m) = 0" by (simp add: Buffer_GetSize_def Buffer_Clear_def)
  show ?thesis using ch ne by (simp add: TcpConn_Send_buffer_def buffer_bytes_ok [OF m(1,2)] i c z)
qed

text \<open>A connection that is ready to take a whole frame.\<close>

definition ready :: "conn \<Rightarrow> bool" where
  "ready s \<longleftrightarrow> (\<exists>c ch. conn_channel s = Inr (c, ch) \<and> tc_channel s \<noteq> None \<and> \<not> IsWriting ch)"

lemma Codec_Send_ok:
  assumes "ready s" and "length (ser m) \<le> 4092" and "4 + length (ser m) \<le> n"
  shows "ProtobufCodec_Send ser (Wrote n # ws) m s = Inr (s\<lparr>tc_wire := tc_wire s @ frame_of (ser m)\<rparr>, ws)"
proof -
  obtain c ch where ch: "conn_channel s = Inr (c, ch)" "tc_channel s \<noteq> None" "\<not> IsWriting ch"
    using assms(1) by (auto simp: ready_def)
  let ?b = "frame_buffer (bytes32 (htonl (of_nat (length (ser m))))) (ser m)"
  have "content ?b = map Some (frame_of (ser m))" using frame_buffer_content(2) [OF assms(2)] by (simp add: frame_of_def)
  moreover have "frame_of (ser m) \<noteq> []" by (simp flip: length_0_conv)
  ultimately show ?thesis
    using Send_accepted [OF ch frame_buffer_content(1) [OF assms(2)], of "bytes32 (htonl (of_nat (length (ser m))))" "frame_of (ser m)" n ws] assms(3)
    by (simp add: ProtobufCodec_Send_def Fill_ok [of ser m, OF assms(2)])
qed

section \<open>Lemmas on the channel\<close>

lemma scast_frame_len: "n < 2 ^ 31 \<Longrightarrow> unat (scast (of_nat n :: int32) :: int64) = n"
proof -
  assume n: "n < 2 ^ 31"
  have "unat (of_nat n :: int32) = n" using n by (simp add: unat_of_nat)
  moreover have "0 \<le> sint (of_nat n :: int32)" using n by (simp add: sint_nonneg_iff unat_of_nat)
  ultimately show ?thesis using scast_nonneg by metis
qed

lemma mem_read_inside:
  assumes wf: "buffer_wf b" and c: "content b = xs @ ys @ zs" and off: "unat off = unat (buf_b b) + length xs" and n: "unat n = length ys"
  shows "mem_read (buf_mem b) off n = Inr ys"
proof (cases "ys = []")
  case True
  then show ?thesis using n by (simp add: mem_read_def unat_eq_0)
next
  case False
  then have n0: "n \<noteq> 0" using n by auto
  obtain cs where cs: "buf_mem b = Some cs" using c False by (cases "buf_mem b") (auto simp: content_def)
  have len: "length (content b) = unat (buf_e b) - unat (buf_b b)" using length_content [OF wf] unat_GetSize [OF wf] by simp
  let ?k = "unat (buf_e b) - unat (buf_b b)" and ?d = "drop (unat (buf_b b)) cs"
  have k: "length xs + length ys \<le> ?k" using len c by simp
  have fits: "unat off + unat n \<le> length cs" using wf off n k cs by (auto simp: buffer_wf_def)
  have t: "take ?k ?d = xs @ ys @ zs" using c cs by (simp add: content_def)
  have "take (length ys) (drop (length xs) ?d) = take (length ys) (drop (length xs) (take ?k ?d))"
    using k by (simp add: drop_take min_def)
  also have "\<dots> = ys" unfolding t by simp
  finally show ?thesis using n0 fits cs off n by (simp add: mem_read_def add.commute)
qed

lemma frame_read:
  assumes wf: "buffer_wf b" and c: "content b = map Some (frame_of p @ rest)" and p: "length p + 4 < 2 ^ 31"
  shows "Buffer_PeekInt32 b = Inr (of_nat (length p))"
    and "(scast (of_nat (length p) :: int32) :: size_t) \<le> Buffer_GetSize b"
    and "ParseFromBuffer parse b (Buffer_Begin b + of_nat kHeaderLen) (scast (of_nat (length p) :: int32)) = Inr (parse p)"
    and "unat (scast (of_nat (length p) + of_nat kHeaderLen :: int32) :: size_t) = length (frame_of p)"
proof -
  show "Buffer_PeekInt32 b = Inr (of_nat (length p))"
    using PeekInt32_front [OF wf, of "of_nat (length p)" "p @ rest"] c by (simp add: frame_of_def)
  have len: "unat (scast (of_nat (length p) :: int32) :: size_t) = length p" using p by (intro scast_frame_len) simp
  have size: "unat (Buffer_GetSize b) = 4 + length p + length rest" using length_content [OF wf] c by simp
  show "(scast (of_nat (length p) :: int32) :: size_t) \<le> Buffer_GetSize b" using len size by (simp add: word_le_nat_alt)
  show "unat (scast (of_nat (length p) + of_nat kHeaderLen :: int32) :: size_t) = length (frame_of p)"
    using scast_frame_len [OF p] by (simp add: kHeaderLen_def ac_simps)
  have "unat (buf_b b) + 4 < 2 ^ 64"
    using size unat_GetSize [OF wf] unsigned_less [of "buf_e b", where 'a = nat] by simp
  then have off: "unat (Buffer_Begin b + of_nat kHeaderLen) = unat (buf_b b) + 4"
    by (simp add: Buffer_Begin_def kHeaderLen_def unat_plus_nowrap)
  have "mem_read (buf_mem b) (Buffer_Begin b + of_nat kHeaderLen) (scast (of_nat (length p) :: int32)) = Inr (map Some p)"
    using c off len by (intro mem_read_inside [OF wf, of "map Some (bytes32 (htonl (of_nat (length p))))" _ "map Some rest"])
      (simp_all add: frame_of_def)
  then show "ParseFromBuffer parse b (Buffer_Begin b + of_nat kHeaderLen) (scast (of_nat (length p) :: int32)) = Inr (parse p)"
    by (simp add: ParseFromBuffer_def)
qed

lemma OnMessage_frame:
  assumes wf: "buffer_wf (tc_input (rc_conn c))" and ct: "content (tc_input (rc_conn c)) = map Some (frame_of p @ rest)"
    and p: "length p + 4 < 2 ^ 31" and run: "RpcChannel_OnRpcMessage ser ws (parse p) c = Inr (c1, ws1)"
    and same: "tc_input (rc_conn c1) = tc_input (rc_conn c)"
  shows "\<exists>b. RpcChannel_OnMessage ser parse ws c = Inr (c1\<lparr>rc_conn := (rc_conn c1)\<lparr>tc_input := b\<rparr>\<rparr>, ws1) \<and>
    buffer_wf b \<and> content b = map Some rest"
proof -
  note f = frame_read [OF wf ct p]
  let ?n = "scast (of_nat (length p) + of_nat kHeaderLen :: int32) :: size_t"
  let ?b = "Buffer_Consume (tc_input (rc_conn c)) ?n"
  have "buffer_wf ?b \<and> content ?b = map Some rest"
    using Consume_ok [OF wf, of ?n] ct f(4) by simp
  moreover have "RpcChannel_OnMessage ser parse ws c = Inr (c1\<lparr>rc_conn := (rc_conn c1)\<lparr>tc_input := ?b\<rparr>\<rparr>, ws1)"
    using f(1,2) f(3) [of parse] run same by (simp add: RpcChannel_OnMessage_def Let_def)
  ultimately show ?thesis by blast
qed

lemma ready_wire [simp]: "ready (s\<lparr>tc_wire := w\<rparr>) = ready s" "ready (s\<lparr>tc_input := b\<rparr>) = ready s"
  by (simp_all add: ready_def conn_channel_def cong: option.case_cong)

lemma RpcChannel_send_ok:
  assumes "ready (rc_conn c)" and "length (ser m) \<le> 4092" and "4 + length (ser m) \<le> n"
  shows "RpcChannel_send ser (Wrote n # ws) m c =
    Inr (c\<lparr>rc_conn := (rc_conn c)\<lparr>tc_wire := tc_wire (rc_conn c) @ frame_of (ser m)\<rparr>\<rparr>, ws)"
  using Codec_Send_ok [of "rc_conn c" ser m n ws] assms by (simp add: RpcChannel_send_def)

lemma CallMethod_ok:
  assumes "ready (rc_conn c)" and "length (ser (request_message (rc_id c) sv mt rq)) \<le> 4092"
    and "4 + length (ser (request_message (rc_id c) sv mt rq)) \<le> n"
  shows "RpcChannel_CallMethod ser (Wrote n # ws) sv mt rq call c =
    Inr (c\<lparr>rc_id := rc_id c + 1, rc_outstandings := (rc_outstandings c)(ucast (rc_id c) \<mapsto> call),
           rc_conn := (rc_conn c)\<lparr>tc_wire := tc_wire (rc_conn c) @ frame_of (ser (request_message (rc_id c) sv mt rq))\<rparr>\<rparr>, ws)"
  using RpcChannel_send_ok [of "c\<lparr>rc_id := rc_id c + 1, rc_outstandings := (rc_outstandings c)(ucast (rc_id c) \<mapsto> call)\<rparr>" ser
      "request_message (rc_id c) sv mt rq" n ws] assms
  by (simp add: RpcChannel_CallMethod_def CallMethod_draw_def CallMethod_register_def Let_def)

lemma OnMessage_request:
  assumes law: "parse (ser (request_message k sv mt rq)) = request_message k sv mt rq"
    and sv: "rc_services d = Some svs" "svs sv = Some service" "service mt = Some run" "run rq = Some response"
    and wf: "buffer_wf (tc_input (rc_conn d))" and ct: "content (tc_input (rc_conn d)) = map Some (frame_of (ser (request_message k sv mt rq)))"
    and rd: "ready (rc_conn d)" and q: "length (ser (request_message k sv mt rq)) \<le> 4092"
    and r: "length (ser (response_message k response)) \<le> 4092" "4 + length (ser (response_message k response)) \<le> n"
  shows "\<exists>d1. RpcChannel_OnMessage ser parse (Wrote n # ws) d = Inr (d1, ws) \<and>
    tc_wire (rc_conn d1) = tc_wire (rc_conn d) @ frame_of (ser (response_message k response)) \<and> content (tc_input (rc_conn d1)) = []"
proof -
  let ?d = "d\<lparr>rc_conn := (rc_conn d)\<lparr>tc_wire := tc_wire (rc_conn d) @ frame_of (ser (response_message k response))\<rparr>\<rparr>"
  have "RpcChannel_OnRpcMessage ser (Wrote n # ws) (request_message k sv mt rq) d = Inr (?d, ws)"
    using sv RpcChannel_send_ok [of d ser "response_message k response" n ws] rd r by (simp add: RpcChannel_OnRpcMessage_def request_message_def DoneCallback_def)
  then have run: "RpcChannel_OnRpcMessage ser (Wrote n # ws) (parse (ser (request_message k sv mt rq))) d = Inr (?d, ws)" using law by simp
  have ct': "content (tc_input (rc_conn d)) = map Some (frame_of (ser (request_message k sv mt rq)) @ [])" using ct by simp
  have q': "length (ser (request_message k sv mt rq)) + 4 < 2 ^ 31" using q by simp
  show ?thesis using OnMessage_frame [where parse = parse, OF wf ct' q' run] by auto
qed

lemma OnMessage_response:
  assumes law: "parse (ser (response_message k response)) = response_message k response"
    and call: "rc_outstandings c (ucast k) = Some call" "oc_response call"
    and wf: "buffer_wf (tc_input (rc_conn c))" and ct: "content (tc_input (rc_conn c)) = map Some (frame_of (ser (response_message k response)))"
    and r: "length (ser (response_message k response)) \<le> 4092"
  shows "\<exists>c1. RpcChannel_OnMessage ser parse ws c = Inr (c1, ws) \<and> rc_ran c1 = rc_ran c @ [(oc_done call, response)] \<and>
    rc_outstandings c1 = (rc_outstandings c)(ucast k := None)"
proof -
  let ?c = "c\<lparr>rc_outstandings := (rc_outstandings c)(ucast k := None), rc_ran := rc_ran c @ [(oc_done call, response)]\<rparr>"
  have run: "RpcChannel_OnRpcMessage ser ws (parse (ser (response_message k response))) c = Inr (?c, ws)"
    using call unfolding law by (simp add: RpcChannel_OnRpcMessage_def response_message_def finish_call_def Let_def)
  have ct': "content (tc_input (rc_conn c)) = map Some (frame_of (ser (response_message k response)) @ [])" using ct by simp
  have r': "length (ser (response_message k response)) + 4 < 2 ^ 31" using r by simp
  show ?thesis using OnMessage_frame [where parse = parse, OF wf ct' r' run] by auto
qed

lemma OnMessage_short:
  assumes wf: "buffer_wf b" and b: "b = tc_input (rc_conn c)" and ct: "content b = map Some (take j (frame_of p))"
    and j: "4 \<le> j" "length p \<le> j" "j < 4 + length p" and p: "length p + 4 < 2 ^ 31"
    and fresh: "\<forall>x \<in> set (drop (unat (buf_e b)) (mem_cells (buf_mem b))). x = None"
  shows "RpcChannel_OnMessage ser parse ws c \<in> {Inl Indeterminate, Inl OutOfBounds}"
proof -
  have hd: "content b = map Some (bytes32 (htonl (of_nat (length p))) @ take (j - 4) p)" using ct j(1) by (simp add: frame_of_def)
  have peek: "Buffer_PeekInt32 b = Inr (of_nat (length p))" using PeekInt32_front [OF wf hd] .
  have len: "unat (scast (of_nat (length p) :: int32) :: size_t) = length p" using p by (intro scast_frame_len) simp
  have size: "unat (Buffer_GetSize b) = j" "unat (buf_e b) = unat (buf_b b) + j"
    using length_content [OF wf] ct j unat_GetSize [OF wf] wf by (auto simp: buffer_wf_def)
  have le: "(scast (of_nat (length p) :: int32) :: size_t) \<le> Buffer_GetSize b" using len size j by (simp add: word_le_nat_alt)
  have "unat (buf_b b) + 4 < 2 ^ 64" using size j unsigned_less [of "buf_e b", where 'a = nat] by simp
  then have off: "unat (Buffer_Begin b + of_nat kHeaderLen) = unat (buf_b b) + 4"
    by (simp add: Buffer_Begin_def kHeaderLen_def unat_plus_nowrap)
  obtain cs where cs: "buf_mem b = Some cs" using hd by (cases "buf_mem b") (auto simp: content_def)
  let ?off = "unat (buf_b b) + 4" and ?i = "length p - 1"
  have "ParseFromBuffer parse b (Buffer_Begin b + of_nat kHeaderLen) (scast (of_nat (length p) :: int32)) \<in> {Inl Indeterminate, Inl OutOfBounds}"
  proof (cases "?off + length p \<le> length cs")
    case False
    then show ?thesis using j len off cs by (auto simp: ParseFromBuffer_def mem_read_def simp flip: unat_eq_0_size)
  next
    case True
    let ?r = "take (length p) (drop ?off cs)"
    have i: "?i < length ?r" "?off + ?i < length cs" "unat (buf_e b) \<le> ?off + ?i" using True j size by auto
    have "drop (unat (buf_e b)) cs ! (?off + ?i - unat (buf_e b)) = cs ! (?off + ?i)" using i by simp
    moreover have "?off + ?i - unat (buf_e b) < length (drop (unat (buf_e b)) cs)" using i by simp
    ultimately have "cs ! (?off + ?i) \<in> set (drop (unat (buf_e b)) cs)" by (metis nth_mem)
    then have "cs ! (?off + ?i) = None" using fresh cs by simp
    then have "?r ! ?i = None" using i True by simp
    then have "None \<in> set ?r" using i(1) nth_mem by metis
    moreover have "mem_read (buf_mem b) (Buffer_Begin b + of_nat kHeaderLen) (scast (of_nat (length p) :: int32)) = Inr ?r"
      using True j len off cs by (auto simp: mem_read_def simp flip: unat_eq_0_size)
    ultimately show ?thesis by (simp add: ParseFromBuffer_def cells_bytes_def)
  qed
  then show ?thesis using peek le b by (auto simp: RpcChannel_OnMessage_def)
qed

section \<open>The interface of the table of calls\<close>

text \<open>
  A caller relies on a table of numbered calls: a new call gets the next number; the answer to a pending
  call runs that call's closure once and removes the call; an answer to any other number is refused. The
  abstract machine below is what a sequence of calls and answers should do.
\<close>

datatype rpc_op = Call outstanding_call | Return nat "byte list"

fun calls_spec :: "rpc_op list \<Rightarrow> nat \<Rightarrow> (nat \<rightharpoonup> outstanding_call) \<Rightarrow> (nat \<times> byte list) list \<Rightarrow> ((nat \<rightharpoonup> outstanding_call) \<times> (nat \<times> byte list) list) option" where
  "calls_spec [] n pending hist = Some (pending, hist)"
| "calls_spec (Call x # ops) n pending hist = calls_spec ops (Suc n) (pending(n \<mapsto> x)) hist"
| "calls_spec (Return k r # ops) n pending hist =
     (case pending k of
        None \<Rightarrow> None
      | Some x \<Rightarrow> calls_spec ops n (pending(k := None)) (hist @ (if oc_response x then [(oc_done x, r)] else [])))"

fun calls_exec :: "(outstanding_call \<Rightarrow> 's \<Rightarrow> 's) \<Rightarrow> (nat \<Rightarrow> byte list \<Rightarrow> 's \<Rightarrow> 's res) \<Rightarrow> rpc_op \<Rightarrow> 's \<Rightarrow> 's res" where
  "calls_exec call answer (Call x) s = Inr (call x s)"
| "calls_exec call answer (Return k r) s = answer k r s"

fun num_calls :: "rpc_op list \<Rightarrow> nat" where
  "num_calls [] = 0"
| "num_calls (Call x # ops) = Suc (num_calls ops)"
| "num_calls (Return k r # ops) = num_calls ops"

locale call_table =
  fixes bound :: nat and inv :: "nat \<Rightarrow> 's \<Rightarrow> bool" and pending :: "'s \<Rightarrow> nat \<rightharpoonup> outstanding_call" and hist :: "'s \<Rightarrow> (nat \<times> byte list) list"
    and call :: "outstanding_call \<Rightarrow> 's \<Rightarrow> 's" and answer :: "nat \<Rightarrow> byte list \<Rightarrow> 's \<Rightarrow> 's res"
  assumes call_ok: "inv n s \<Longrightarrow> n < bound \<Longrightarrow>
      inv (Suc n) (call x s) \<and> pending (call x s) = (pending s)(n \<mapsto> x) \<and> hist (call x s) = hist s"
    and answer_ok: "inv n s \<Longrightarrow> pending s k = Some x \<Longrightarrow>
      \<exists>s'. answer k r s = Inr s' \<and> inv n s' \<and> pending s' = (pending s)(k := None) \<and>
           hist s' = hist s @ (if oc_response x then [(oc_done x, r)] else [])"
    and answer_unknown: "inv n s \<Longrightarrow> k < bound \<Longrightarrow> pending s k = None \<Longrightarrow> answer k r s = Inl AssertFailed"
begin

lemma calls_refine:
  assumes "inv n s" and "n + num_calls ops \<le> bound" and "\<forall>k r. Return k r \<in> set ops \<longrightarrow> k < bound"
  shows "case calls_spec ops n (pending s) (hist s) of
      None \<Rightarrow> rfold (calls_exec call answer) ops s = Inl AssertFailed
    | Some (p, l) \<Rightarrow> \<exists>s'. rfold (calls_exec call answer) ops s = Inr s' \<and> pending s' = p \<and> hist s' = l"
  using assms
proof (induction ops arbitrary: n s)
  case (Cons op ops)
  show ?case
  proof (cases op)
    case (Call x)
    have c: "inv (Suc n) (call x s)" "pending (call x s) = (pending s)(n \<mapsto> x)" "hist (call x s) = hist s"
      using call_ok [OF Cons.prems(1)] Cons.prems(2) Call by auto
    have p: "Suc n + num_calls ops \<le> bound" "\<forall>k r. Return k r \<in> set ops \<longrightarrow> k < bound" using Cons.prems(2,3) Call by auto
    show ?thesis using Cons.IH [OF c(1) p, unfolded c(2,3)]
      by (simp only: Call calls_spec.simps rfold.simps calls_exec.simps rbind_simps)
  next
    case (Return k r)
    then have k: "k < bound" using Cons.prems(3) by auto
    show ?thesis
    proof (cases "pending s k")
      case None
      then show ?thesis using answer_unknown [OF Cons.prems(1) k None] Return by simp
    next
      case (Some x)
      then obtain s1 where s1: "answer k r s = Inr s1" "inv n s1" "pending s1 = (pending s)(k := None)"
        "hist s1 = hist s @ (if oc_response x then [(oc_done x, r)] else [])"
        using answer_ok [OF Cons.prems(1)] by blast
      have p: "n + num_calls ops \<le> bound" "\<forall>k r. Return k r \<in> set ops \<longrightarrow> k < bound" using Cons.prems(2,3) Return by auto
      show ?thesis using Cons.IH [OF s1(2) p, unfolded s1(3,4)]
        by (simp only: Return Some s1(1) calls_spec.simps option.case rfold.simps calls_exec.simps rbind_simps)
    qed
  qed
qed simp

end

definition start_call :: "outstanding_call \<Rightarrow> rpc_channel \<Rightarrow> rpc_channel" where
  "start_call x c = CallMethod_register x (snd (CallMethod_draw c))"

definition call_key :: "int64 \<Rightarrow> nat \<Rightarrow> int32" where
  "call_key g k = ucast (g + of_nat k)"

definition pending_calls :: "int64 \<Rightarrow> rpc_channel \<Rightarrow> nat \<rightharpoonup> outstanding_call" where
  "pending_calls g c k = (if k < 2 ^ 32 then rc_outstandings c (call_key g k) else None)"

definition calls_inv :: "int64 \<Rightarrow> nat \<Rightarrow> rpc_channel \<Rightarrow> bool" where
  "calls_inv g n c \<longleftrightarrow> rc_id c = g + of_nat n \<and> n \<le> 2 ^ 32 \<and> dom (pending_calls g c) \<subseteq> {..<n}"

lemma call_key_plus: "call_key g n = ucast g + of_nat n"
proof -
  have m: "(of_nat (x mod 2 ^ 64) :: int32) = of_nat x" for x
    by (rule word_of_nat_eq_iff [THEN iffD2]) (simp add: take_bit_eq_mod mod_mod_cancel)
  have "unat (g + of_nat n) = (unat g + n) mod 2 ^ 64"
    by (simp add: unat_word_ariths unat_of_nat mod_add_right_eq)
  then have "(of_nat (unat (g + of_nat n)) :: int32) = of_nat (unat g + n)" by (simp only: m)
  then show ?thesis unfolding call_key_def by (simp only: of_nat_unat of_nat_add)
qed

lemma call_key_inj: "j < 2 ^ 32 \<Longrightarrow> k < 2 ^ 32 \<Longrightarrow> call_key g j = call_key g k \<longleftrightarrow> j = k"
proof -
  assume jk: "j < 2 ^ 32" "k < 2 ^ 32"
  have "call_key g j = call_key g k \<longleftrightarrow> (of_nat j :: int32) = of_nat k" by (simp add: call_key_plus)
  also have "\<dots> \<longleftrightarrow> j = k" using jk by (simp add: word_of_nat_eq_iff take_bit_eq_mod)
  finally show ?thesis .
qed

lemma start_call_key: "rc_id c = g + of_nat n \<Longrightarrow>
  start_call x c = c\<lparr>rc_id := g + of_nat (Suc n), rc_outstandings := (rc_outstandings c)(call_key g n \<mapsto> x)\<rparr>"
  by (simp add: start_call_def CallMethod_register_def CallMethod_draw_def call_key_def ac_simps)

interpretation rct: call_table "2 ^ 32" "calls_inv g" "pending_calls g" rc_ran start_call "\<lambda>k. finish_call (g + of_nat k)"
  for g :: int64
proof (unfold_locales, goal_cases)
  case (1 n c x)
  have id: "rc_id c = g + of_nat n" and n: "n < 2 ^ 32" and d: "dom (pending_calls g c) \<subseteq> {..<n}"
    using 1 by (auto simp: calls_inv_def)
  have p: "pending_calls g (start_call x c) = (pending_calls g c)(n \<mapsto> x)"
    unfolding start_call_key [OF id] using call_key_inj [of _ n g] n by (auto simp: pending_calls_def fun_eq_iff)
  then have "dom (pending_calls g (start_call x c)) \<subseteq> {..<Suc n}" using d by auto
  then show ?case using p n id start_call_key [OF id] by (simp add: calls_inv_def)
next
  case (2 n c k x r)
  have k: "k < 2 ^ 32" and o: "rc_outstandings c (call_key g k) = Some x"
    using 2(2) by (auto simp: pending_calls_def split: if_splits)
  let ?c = "c\<lparr>rc_outstandings := (rc_outstandings c)(call_key g k := None), rc_ran := rc_ran c @ (if oc_response x then [(oc_done x, r)] else [])\<rparr>"
  have "finish_call (g + of_nat k) r c = Inr ?c" using o by (simp add: finish_call_def call_key_def Let_def)
  moreover have p: "pending_calls g ?c = (pending_calls g c)(k := None)"
    using call_key_inj [of _ k g] k by (auto simp: pending_calls_def fun_eq_iff)
  moreover have "calls_inv g n ?c" using 2(1) p by (auto simp: calls_inv_def)
  ultimately show ?case by auto
next
  case (3 n c k r)
  then show ?case by (simp add: finish_call_def pending_calls_def call_key_def)
qed

section \<open>Properties\<close>

text \<open>
  C37. A frame is the length in network order and the serialised message, if both fit into the 4096 bytes that
  the first append allocates; a longer message is written past the end of the allocation.
\<close>

theorem ProtobufCodec_frame:
  "(length (ser m) \<le> 4092 \<longrightarrow> (\<exists>b. FillEmptyBuffer ser m Buffer_new = Inr b \<and> buffer_wf b \<and> content b = map Some (frame_of (ser m)))) \<and>
   (4092 < length (ser m) \<longrightarrow> FillEmptyBuffer ser m Buffer_new = Inl OutOfBounds)"
  using Fill_ok [of ser m] frame_buffer_content [of "ser m" "bytes32 (htonl (of_nat (length (ser m))))"] Fill_overflow [of ser m]
  by (auto simp: frame_of_def)

theorem ProtobufCodec_frame_witness:
  "(\<exists>b. FillEmptyBuffer rm_request (request_message 1 [] [] ''ping'') Buffer_new = Inr b \<and> content b = map Some (frame_of ''ping'')) \<and>
   FillEmptyBuffer (\<lambda>_. replicate 5000 CHR 0x00) (request_message 1 [] [] ''ping'') Buffer_new = Inl OutOfBounds"
  using ProtobufCodec_frame [of rm_request "request_message 1 [] [] ''ping''"]
    ProtobufCodec_frame [of "\<lambda>_. replicate 5000 CHR 0x00" "request_message 1 [] [] ''ping''"]
  by (auto simp: request_message_def)

text \<open>A call and its answer, frame by frame.\<close>

lemma Rpc_exchange:
  assumes "\<forall>m. parse (ser m) = m"
    and "ready (rc_conn c)" and "ready (rc_conn d)" and "oc_response call"
    and "rc_services d = Some svs" and "svs sv = Some service" and "service mt = Some run" and "run rq = Some response"
    and "length (ser (request_message (rc_id c) sv mt rq)) \<le> 4092" and "length (ser (response_message (rc_id c) response)) \<le> 4092"
    and "4096 \<le> n"
  shows "\<exists>c1 q. RpcChannel_CallMethod ser [Wrote n] sv mt rq call c = Inr (c1, []) \<and> tc_wire (rc_conn c1) = tc_wire (rc_conn c) @ q \<and>
    (\<forall>b. buffer_wf b \<and> content b = map Some q \<longrightarrow>
      (\<exists>d1 a. RpcChannel_OnMessage ser parse [Wrote n] (d\<lparr>rc_conn := (rc_conn d)\<lparr>tc_input := b\<rparr>\<rparr>) = Inr (d1, []) \<and>
        tc_wire (rc_conn d1) = tc_wire (rc_conn d) @ a \<and> content (tc_input (rc_conn d1)) = [] \<and>
        (\<forall>b'. buffer_wf b' \<and> content b' = map Some a \<longrightarrow>
          (\<exists>c2. RpcChannel_OnMessage ser parse [] (c1\<lparr>rc_conn := (rc_conn c1)\<lparr>tc_input := b'\<rparr>\<rparr>) = Inr (c2, []) \<and>
            rc_ran c2 = rc_ran c @ [(oc_done call, response)] \<and>
            rc_outstandings c2 = (rc_outstandings c)(ucast (rc_id c) := None)))))"
proof -
  let ?k = "rc_id c" let ?q = "frame_of (ser (request_message ?k sv mt rq))" and ?a = "frame_of (ser (response_message ?k response))"
  let ?c1 = "c\<lparr>rc_id := rc_id c + 1, rc_outstandings := (rc_outstandings c)(ucast (rc_id c) \<mapsto> call),
      rc_conn := (rc_conn c)\<lparr>tc_wire := tc_wire (rc_conn c) @ ?q\<rparr>\<rparr>"
  have c1: "RpcChannel_CallMethod ser [Wrote n] sv mt rq call c = Inr (?c1, [])"
    using CallMethod_ok [of c ser sv mt rq n "[]" call] assms(2,9,11) by simp
  have d1: "\<exists>d1. RpcChannel_OnMessage ser parse [Wrote n] (d\<lparr>rc_conn := (rc_conn d)\<lparr>tc_input := b\<rparr>\<rparr>) = Inr (d1, []) \<and>
      tc_wire (rc_conn d1) = tc_wire (rc_conn d) @ ?a \<and> content (tc_input (rc_conn d1)) = []"
    if "buffer_wf b" "content b = map Some ?q" for b
    using OnMessage_request [of parse ser ?k sv mt rq "d\<lparr>rc_conn := (rc_conn d)\<lparr>tc_input := b\<rparr>\<rparr>" svs service run response n "[]"] that assms by simp
  have c2: "\<exists>c2. RpcChannel_OnMessage ser parse [] (?c1\<lparr>rc_conn := (rc_conn ?c1)\<lparr>tc_input := b'\<rparr>\<rparr>) = Inr (c2, []) \<and>
      rc_ran c2 = rc_ran c @ [(oc_done call, response)] \<and> rc_outstandings c2 = (rc_outstandings c)(ucast ?k := None)"
    if "buffer_wf b'" "content b' = map Some ?a" for b'
    using OnMessage_response [of parse ser ?k response "?c1\<lparr>rc_conn := (rc_conn ?c1)\<lparr>tc_input := b'\<rparr>\<rparr>" call "[]"] that assms by simp
  have all: "\<exists>d1 a. RpcChannel_OnMessage ser parse [Wrote n] (d\<lparr>rc_conn := (rc_conn d)\<lparr>tc_input := b\<rparr>\<rparr>) = Inr (d1, []) \<and>
      tc_wire (rc_conn d1) = tc_wire (rc_conn d) @ a \<and> content (tc_input (rc_conn d1)) = [] \<and>
      (\<forall>b'. buffer_wf b' \<and> content b' = map Some a \<longrightarrow>
        (\<exists>c2. RpcChannel_OnMessage ser parse [] (?c1\<lparr>rc_conn := (rc_conn ?c1)\<lparr>tc_input := b'\<rparr>\<rparr>) = Inr (c2, []) \<and>
          rc_ran c2 = rc_ran c @ [(oc_done call, response)] \<and> rc_outstandings c2 = (rc_outstandings c)(ucast ?k := None)))"
    if "buffer_wf b \<and> content b = map Some ?q" for b
    using d1 [of b] c2 that by blast
  have w: "tc_wire (rc_conn ?c1) = tc_wire (rc_conn c) @ ?q" by simp
  show ?thesis by (rule exI [of _ ?c1], rule exI [of _ ?q], intro conjI allI impI c1 w all) blast+
qed

text \<open>
  C15. A call reaches its service and its answer reaches the caller. A client channel that calls a method puts
  one frame on the wire; a server channel that receives the bytes of this frame runs the method of the
  service and puts one frame on its wire; the client that receives those bytes runs the closure of the
  call with the response of the method and forgets the call. The connections take a frame at once, messages
  fit the buffer, and parsing undoes serialising.
\<close>

theorem Rpc_call_roundtrip:
  assumes "\<forall>m. parse (ser m) = m"
    and "ready (rc_conn c)" and "ready (rc_conn d)" and "oc_response call"
    and "rc_services d = Some svs" and "svs sv = Some service" and "service mt = Some run" and "run rq = Some response"
    and "length (ser (request_message (rc_id c) sv mt rq)) \<le> 4092" and "length (ser (response_message (rc_id c) response)) \<le> 4092"
    and "4096 \<le> n"
  shows "\<exists>c1 q. RpcChannel_CallMethod ser [Wrote n] sv mt rq call c = Inr (c1, []) \<and> tc_wire (rc_conn c1) = tc_wire (rc_conn c) @ q \<and>
    (\<forall>b. buffer_wf b \<and> content b = map Some q \<longrightarrow>
      (\<exists>d1 a. RpcChannel_OnMessage ser parse [Wrote n] (d\<lparr>rc_conn := (rc_conn d)\<lparr>tc_input := b\<rparr>\<rparr>) = Inr (d1, []) \<and>
        tc_wire (rc_conn d1) = tc_wire (rc_conn d) @ a \<and> content (tc_input (rc_conn d1)) = [] \<and>
        (\<forall>b'. buffer_wf b' \<and> content b' = map Some a \<longrightarrow>
          (\<exists>c2. RpcChannel_OnMessage ser parse [] (c1\<lparr>rc_conn := (rc_conn c1)\<lparr>tc_input := b'\<rparr>\<rparr>) = Inr (c2, []) \<and>
            rc_ran c2 = rc_ran c @ [(oc_done call, response)] \<and>
            rc_outstandings c2 = (rc_outstandings c)(ucast (rc_id c) := None)))))"
  by (rule Rpc_exchange [OF assms])

text \<open>A serialisation that parsing undoes, for the witnesses: every string is escaped and ended by a zero byte.\<close>

fun esc :: "byte list \<Rightarrow> byte list" where
  "esc [] = [CHR 0x00]"
| "esc (c # cs) = CHR 0x01 # c # esc cs"

fun unesc :: "byte list \<Rightarrow> byte list \<times> byte list" where
  "unesc (m # c # cs) = (if m = CHR 0x01 then (c # fst (unesc cs), snd (unesc cs)) else ([], c # cs))"
| "unesc [m] = ([], [])"
| "unesc [] = ([], [])"

lemma unesc_esc [simp]: "unesc (esc s @ rest) = (s, rest)"
proof (induction s)
  case Nil
  show ?case by (cases rest) simp_all
qed simp

definition example_ser :: "rpc_message \<Rightarrow> byte list" where
  "example_ser m = (case rm_type m of REQUEST \<Rightarrow> CHR 0x01 | RESPONSE \<Rightarrow> CHR 0x02) # bytes64 (rm_id m) @
     esc (rm_service m) @ esc (rm_method m) @ esc (rm_request m) @ esc (rm_response m)"

definition example_parse :: "byte list \<Rightarrow> rpc_message" where
  "example_parse bs =
     (let (sv, r1) = unesc (drop 9 bs); (mt, r2) = unesc r1; (rq, r3) = unesc r2; (rs, r4) = unesc r3 in
      \<lparr>rm_type = (if hd bs = CHR 0x01 then REQUEST else RESPONSE), rm_id = word64 (take 8 (drop 1 bs)),
       rm_service = sv, rm_method = mt, rm_request = rq, rm_response = rs\<rparr>)"

lemma example_parse_ser: "example_parse (example_ser m) = m"
proof -
  have "unesc (esc (rm_response m)) = (rm_response m, [])" using unesc_esc [of "rm_response m" "[]"] by simp
  then show ?thesis by (cases m) (auto simp: example_parse_def example_ser_def Let_def split: message_type.splits)
qed

definition upcase :: "byte list \<Rightarrow> byte list" where
  "upcase = map (\<lambda>c. if CHR ''a'' \<le> c \<and> c \<le> CHR ''z'' then char_of (of_char c - 32 :: nat) else c)"

definition example_client :: rpc_channel where
  "example_client = RpcChannel_new 41 example_conn"

definition example_server :: rpc_channel where
  "example_server = RpcServer_OnConnection 7 example_conn
     (RegisterService ''Echo'' [''Up'' \<mapsto> (\<lambda>rq. Some (upcase rq))] \<lparr>sv_services = Map.empty\<rparr>)"

lemma example_ready: "ready example_conn" "ready (example_conn\<lparr>tc_readcb := True\<rparr>)"
  by (simp_all add: ready_def conn_channel_def example_conn_def example_poller_def EpollPoller_new_def channel_at_def Channel_new_def
      IsWriting_def kReadEvent_def kWriteEvent_def has_event_def)

theorem Rpc_call_roundtrip_witness:
  "\<exists>c1 q. RpcChannel_CallMethod example_ser [Wrote 4096] ''Echo'' ''Up'' ''hi'' \<lparr>oc_response = True, oc_done = 3\<rparr> example_client = Inr (c1, []) \<and>
    (\<forall>b. buffer_wf b \<and> content b = map Some q \<longrightarrow>
      (\<exists>d1 a. RpcChannel_OnMessage example_ser example_parse [Wrote 4096] (example_server\<lparr>rc_conn := (rc_conn example_server)\<lparr>tc_input := b\<rparr>\<rparr>) = Inr (d1, []) \<and>
        (\<forall>b'. buffer_wf b' \<and> content b' = map Some a \<longrightarrow>
          (\<exists>c2. RpcChannel_OnMessage example_ser example_parse [] (c1\<lparr>rc_conn := (rc_conn c1)\<lparr>tc_input := b'\<rparr>\<rparr>) = Inr (c2, []) \<and>
            rc_ran c2 = [(3, ''HI'')]))))"
proof -
  have u: "upcase ''hi'' = ''HI''" by code_simp
  have e: "rc_ran example_client = []" "rc_id example_client = 41" "rc_conn example_client = example_conn"
    by (simp_all add: example_client_def RpcChannel_new_def)
  have d: "rc_services example_server = Some [''Echo'' \<mapsto> [''Up'' \<mapsto> (\<lambda>rq. Some (upcase rq))]]" "ready (rc_conn example_server)"
    using example_ready by (simp_all add: example_server_def RpcServer_OnConnection_def SetServices_def RpcChannel_new_def RegisterService_def)
  have l: "length (example_ser (request_message 41 ''Echo'' ''Up'' ''hi'')) \<le> 4092" "length (example_ser (response_message 41 ''HI'')) \<le> 4092"
    by (simp_all add: example_ser_def request_message_def response_message_def)
  have law: "\<forall>m. example_parse (example_ser m) = m" using example_parse_ser by simp
  have svs: "[''Echo'' \<mapsto> [''Up'' \<mapsto> (\<lambda>rq. Some (upcase rq))]] ''Echo'' = Some [''Up'' \<mapsto> (\<lambda>rq. Some (upcase rq))]"
    "[''Up'' \<mapsto> (\<lambda>rq. Some (upcase rq))] ''Up'' = Some (\<lambda>rq. Some (upcase rq))" "Some (upcase ''hi'') = Some ''HI''" using u by simp_all
  have oc: "oc_response \<lparr>oc_response = True, oc_done = 3\<rparr>" by simp
  have cl: "ready (rc_conn example_client)" using e example_ready by simp
  note rt = Rpc_call_roundtrip [where ser = example_ser and parse = example_parse and n = 4096, OF law cl d(2) oc d(1) svs, unfolded e, OF l order_refl]
  then obtain c1 q where c1: "RpcChannel_CallMethod example_ser [Wrote 4096] ''Echo'' ''Up'' ''hi'' \<lparr>oc_response = True, oc_done = 3\<rparr> example_client = Inr (c1, [])"
    and d1: "\<forall>b. buffer_wf b \<and> content b = map Some q \<longrightarrow>
      (\<exists>d1 a. RpcChannel_OnMessage example_ser example_parse [Wrote 4096] (example_server\<lparr>rc_conn := (rc_conn example_server)\<lparr>tc_input := b\<rparr>\<rparr>) = Inr (d1, []) \<and>
        tc_wire (rc_conn d1) = tc_wire (rc_conn example_server) @ a \<and> content (tc_input (rc_conn d1)) = [] \<and>
        (\<forall>b'. buffer_wf b' \<and> content b' = map Some a \<longrightarrow>
          (\<exists>c2. RpcChannel_OnMessage example_ser example_parse [] (c1\<lparr>rc_conn := (rc_conn c1)\<lparr>tc_input := b'\<rparr>\<rparr>) = Inr (c2, []) \<and>
            rc_ran c2 = [(3, ''HI'')] \<and> rc_outstandings c2 = (rc_outstandings example_client)(ucast (41 :: int64) := None))))"
    by (simp only: outstanding_call.select_convs append_Nil) blast
  show ?thesis
  proof (rule exI [of _ c1], rule exI [of _ q], intro conjI allI impI c1)
    fix b assume "buffer_wf b \<and> content b = map Some q"
    with d1 show "\<exists>d1 a. RpcChannel_OnMessage example_ser example_parse [Wrote 4096] (example_server\<lparr>rc_conn := (rc_conn example_server)\<lparr>tc_input := b\<rparr>\<rparr>) = Inr (d1, []) \<and>
        (\<forall>b'. buffer_wf b' \<and> content b' = map Some a \<longrightarrow>
          (\<exists>c2. RpcChannel_OnMessage example_ser example_parse [] (c1\<lparr>rc_conn := (rc_conn c1)\<lparr>tc_input := b'\<rparr>\<rparr>) = Inr (c2, []) \<and>
            rc_ran c2 = [(3, ''HI'')]))" by meson
  qed
qed

text \<open>
  C19. Answers are matched with calls. Any sequence of calls and answers on a new channel does what the abstract
  table of numbered calls does, whatever value the counter started with: every answer to a pending call runs the
  closure of that call and no other, exactly once; an answer to a call that is not pending stops the program.
  At most \<open>2^32\<close> calls are made, the number of keys of the table.
\<close>

theorem RpcChannel_calls_refine:
  assumes "num_calls ops \<le> 2 ^ 32" and "\<forall>k r. Return k r \<in> set ops \<longrightarrow> k < 2 ^ 32"
  shows "case calls_spec ops 0 Map.empty [] of
      None \<Rightarrow> rfold (calls_exec start_call (\<lambda>k. finish_call (g + of_nat k))) ops (RpcChannel_new g conn) = Inl AssertFailed
    | Some (p, l) \<Rightarrow> \<exists>c. rfold (calls_exec start_call (\<lambda>k. finish_call (g + of_nat k))) ops (RpcChannel_new g conn) = Inr c \<and>
        pending_calls g c = p \<and> rc_ran c = l"
proof -
  have "pending_calls g (RpcChannel_new g conn) k = None" for k by (simp add: pending_calls_def RpcChannel_new_def)
  then have p1: "pending_calls g (RpcChannel_new g conn) = Map.empty" by (rule ext)
  have p2: "rc_ran (RpcChannel_new g conn) = []" by (simp add: RpcChannel_new_def)
  have "calls_inv g 0 (RpcChannel_new g conn)" unfolding calls_inv_def p1 by (simp add: RpcChannel_new_def)
  from rct.calls_refine [OF this _ assms(2)] assms(1) show ?thesis by (simp only: p1 p2 add_0)
qed

theorem RpcChannel_calls_refine_witness:
  "\<exists>c. rfold (calls_exec start_call (\<lambda>k. finish_call (41 + of_nat k)))
      [Call \<lparr>oc_response = True, oc_done = 3\<rparr>, Call \<lparr>oc_response = True, oc_done = 4\<rparr>, Return 1 ''b'', Return 0 ''a''] example_client = Inr c \<and>
    rc_ran c = [(4, ''b''), (3, ''a'')]"
  using RpcChannel_calls_refine [of "[Call \<lparr>oc_response = True, oc_done = 3\<rparr>, Call \<lparr>oc_response = True, oc_done = 4\<rparr>, Return 1 ''b'', Return 0 ''a'']" 41 example_conn]
  by (auto simp: example_client_def)

text \<open>
  Two threads that call at the same time can lose a call. When both draw their identifier before the first
  registers its call, both calls are registered under the second identifier: the answer to the first finds
  no call and stops the program, and the closure of the first call is gone.
\<close>

theorem RpcChannel_concurrent_calls:
  assumes "rc_outstandings c (ucast (rc_id c)) = None"
    and "CallMethod_draw c = (n1, c1)" and "CallMethod_draw c1 = (n2, c2)"
    and "c3 = CallMethod_register call2 (CallMethod_register call1 c2)"
  shows "n1 \<noteq> n2 \<and> finish_call n1 r c3 = Inl AssertFailed \<and> rc_outstandings c3 (ucast n2) = Some call2"
proof -
  have "(ucast (rc_id c) :: int32) \<noteq> ucast (rc_id c + 1)"
    using call_key_inj [of 0 1 "rc_id c"] by (simp add: call_key_def)
  moreover have "n1 = rc_id c" "n2 = rc_id c + 1" "rc_outstandings c3 = (rc_outstandings c)(ucast (rc_id c + 1) \<mapsto> call2)"
    using assms(2-4) by (auto simp: CallMethod_draw_def CallMethod_register_def ac_simps)
  ultimately show ?thesis using assms(1) by (auto simp: finish_call_def)
qed

theorem RpcChannel_concurrent_calls_witness:
  "finish_call 41 ''a'' (CallMethod_register \<lparr>oc_response = True, oc_done = 4\<rparr> (CallMethod_register \<lparr>oc_response = True, oc_done = 3\<rparr>
      (snd (CallMethod_draw (snd (CallMethod_draw example_client)))))) = Inl AssertFailed"
  using RpcChannel_concurrent_calls [of example_client 41 "snd (CallMethod_draw example_client)" 42]
  by (simp add: example_client_def RpcChannel_new_def CallMethod_draw_def)

text \<open>A frame that is not complete is parsed. The length is compared with the bytes received including the
  four of the length, so a frame of which up to four bytes are missing is taken for complete, and parsing it
  reads bytes that were never received or lies outside the buffer.
\<close>

theorem RpcChannel_OnMessage_short:
  assumes "buffer_wf (tc_input (rc_conn c))" and "content (tc_input (rc_conn c)) = map Some (take j (frame_of p))"
    and "4 \<le> j" and "length p \<le> j" and "j < 4 + length p" and "length p + 4 < 2 ^ 31"
    and "\<forall>x \<in> set (drop (unat (buf_e (tc_input (rc_conn c)))) (mem_cells (buf_mem (tc_input (rc_conn c))))). x = None"
  shows "RpcChannel_OnMessage ser parse ws c \<in> {Inl Indeterminate, Inl OutOfBounds}"
  by (rule OnMessage_short [OF assms(1) refl assms(2-7)])

definition short_input :: buffer where
  "short_input = \<lparr>buf_mem = Some (map Some (take 6 (frame_of ''ping'')) @ [None, None]), buf_b = 0, buf_e = 6, buf_cap = 8, buf_exp = 8, buf_extra = 0\<rparr>"

theorem RpcChannel_OnMessage_short_witness:
  "RpcChannel_OnMessage example_ser example_parse [] (RpcChannel_new 0 (example_conn\<lparr>tc_input := short_input\<rparr>)) \<in> {Inl Indeterminate, Inl OutOfBounds}"
proof -
  have "tc_input (rc_conn (RpcChannel_new 0 (example_conn\<lparr>tc_input := short_input\<rparr>))) = short_input" by (simp add: RpcChannel_new_def)
  moreover have "buffer_wf short_input" "content short_input = map Some (take 6 (frame_of ''ping''))"
    "\<forall>x \<in> set (drop (unat (buf_e short_input)) (mem_cells (buf_mem short_input))). x = None"
    by (simp_all add: short_input_def buffer_wf_def content_def)
  ultimately show ?thesis
    using RpcChannel_OnMessage_short [of "RpcChannel_new 0 (example_conn\<lparr>tc_input := short_input\<rparr>)" 6 "''ping''"] by simp
qed

end
