(* ===== verification/Daemon.thy ===== *)
theory Daemon
  imports Util
begin

text \<open>
  Running as a daemon (\<^verbatim>\<open>net/daemon.h\<close>, \<^verbatim>\<open>net/daemon.cc\<close>). The pid file is its content, or \<open>None\<close> when it does not exist;
  the answers of the system calls are arguments. A function that ends the process has the exit code as its outcome.
\<close>

section \<open>The pid file\<close>

text \<open>
  Opening truncates the file before the lock is tried. \<open>written\<close> is how many bytes \<^verbatim>\<open>write\<close> took. The result is the returned code
  and the file.
\<close>

definition WritePidFile :: "bool \<Rightarrow> bool \<Rightarrow> nat \<Rightarrow> int \<Rightarrow> byte list option \<Rightarrow> int \<times> byte list option" where
  "WritePidFile opened locked written pid file =
     (if \<not> opened then (- 1, file)
      else if \<not> locked then (- 1, Some [])
      else let str = signed_decimal pid @ [CHR 0x0A] in (if written \<noteq> length str then - 1 else 0, Some (take written str)))"

text \<open>
  \<^verbatim>\<open>strchr\<close> for a newline in an array of which some cells have no value: the position, or \<open>None\<close> at the terminating NUL.
\<close>

fun strchr_newline :: "cell list \<Rightarrow> nat option res" where
  "strchr_newline [] = Inl OutOfBounds"
| "strchr_newline (None # cs) = Inl Indeterminate"
| "strchr_newline (Some c # cs) =
     (if c = CHR 0x0A then Inr (Some 0)
      else if c = CHR 0x00 then Inr None
      else rbind (strchr_newline cs) (\<lambda>r. Inr (map_option Suc r)))"

text \<open>The buffer has 64 cells, of which \<^verbatim>\<open>read\<close> fills as many as the file has; the last one is then cleared.\<close>

definition pid_buffer :: "byte list \<Rightarrow> cell list" where
  "pid_buffer content = (take 64 (map Some content @ replicate 64 None))[63 := Some (CHR 0x00)]"

definition GetPidFromFile :: "byte list option \<Rightarrow> int res" where
  "GetPidFromFile file =
     (case file of
        None \<Rightarrow> Inr (- 1)
      | Some content \<Rightarrow>
          if content = [] then Inr (- 1)
          else
            rbind (strchr_newline (pid_buffer content)) (\<lambda>p.
            case p of
              None \<Rightarrow> Inr (- 1)
            | Some n \<Rightarrow> rbind (cells_bytes (take n (pid_buffer content))) (\<lambda>buffer. Inr (to_int32 (Util_Atoi buffer)))))"

section \<open>Starting, stopping, restarting\<close>

datatype outcome = Returns int | Exits int

datatype kill_answer = Delivered | NotPermitted | NoProcess

text \<open>
  What the system answers while the daemon starts: whether the process of a pid can be signalled, the parent's pid, the results of
  the two forks in the process looked at, the answers for the pid file, and whether \<^verbatim>\<open>/dev/null\<close> can be opened.
\<close>

record start_answers =
  sa_kill :: "int \<Rightarrow> kill_answer"
  sa_ppid :: int
  sa_fork1 :: int
  sa_fork2 :: int
  sa_opened :: bool
  sa_locked :: bool
  sa_written :: nat
  sa_pid :: int
  sa_devnull :: bool

definition DaemonStart :: "start_answers \<Rightarrow> byte list option \<Rightarrow> (outcome \<times> byte list option) res" where
  "DaemonStart sa file =
     rbind (GetPidFromFile file) (\<lambda>pid.
     if 0 < pid \<and> sa_kill sa pid \<noteq> NoProcess then Inr (Returns (- 1), file)
     else if sa_ppid sa = 1 then Inr (Returns (- 1), file)
     else if 0 < sa_fork1 sa then Inr (Exits 0, file)
     else if 0 < sa_fork2 sa then Inr (Exits 0, file)
     else
       case WritePidFile (sa_opened sa) (sa_locked sa) (sa_written sa) (sa_pid sa) file of (ret, file) \<Rightarrow>
         if ret \<noteq> 0 then Inr (Returns ret, file)
         else if sa_devnull sa then Inr (Returns 0, file)
         else Inr (Returns (- 1), file))"

text \<open>\<open>kills i\<close> is the i-th answer to \<^verbatim>\<open>kill(pid, SIGQUIT)\<close>. The loop tries \<open>n\<close> times.\<close>

fun stop_loop :: "nat \<Rightarrow> (nat \<Rightarrow> kill_answer) \<Rightarrow> nat \<Rightarrow> byte list option \<Rightarrow> int \<times> byte list option" where
  "stop_loop 0 kills i file = (- 1, file)"
| "stop_loop (Suc n) kills i file = (if kills i \<noteq> Delivered then (0, None) else stop_loop n kills (Suc i) file)"

definition DaemonStop :: "(nat \<Rightarrow> kill_answer) \<Rightarrow> byte list option \<Rightarrow> (int \<times> byte list option) res" where
  "DaemonStop kills file =
     rbind (GetPidFromFile file) (\<lambda>pid.
     if pid \<le> 0 then Inr (- 1, file)
     else if kills 0 \<noteq> Delivered then Inr (- 1, file)
     else Inr (stop_loop 1000 kills 1 file))"

definition DaemonRestart :: "kill_answer \<Rightarrow> (nat \<Rightarrow> kill_answer) \<Rightarrow> start_answers \<Rightarrow> byte list option \<Rightarrow> (outcome \<times> byte list option) res" where
  "DaemonRestart probe kills sa file =
     rbind (GetPidFromFile file) (\<lambda>pid.
     if 0 < pid \<and> probe = Delivered
     then rbind (DaemonStop kills file) (\<lambda>(ret, file). if ret < 0 then Inr (Returns ret, file) else DaemonStart sa file)
     else if 0 < pid \<and> probe = NotPermitted then Inr (Returns (- 1), file)
     else DaemonStart sa file)"

text \<open>\<^verbatim>\<open>DaemonProcess\<close> returns normally exactly in the process that is the daemon.\<close>

definition exit_on_error :: "outcome \<Rightarrow> outcome" where
  "exit_on_error r = (case r of Returns ret \<Rightarrow> if ret \<noteq> 0 then Exits 1 else r | Exits _ \<Rightarrow> r)"

definition DaemonProcess :: "string option \<Rightarrow> kill_answer \<Rightarrow> (nat \<Rightarrow> kill_answer) \<Rightarrow> start_answers \<Rightarrow> byte list option
    \<Rightarrow> (outcome \<times> byte list option) res" where
  "DaemonProcess cmd probe kills sa file =
     rbind (if cmd = None \<or> cmd = Some ''start'' then DaemonStart sa file
            else if cmd = Some ''stop''
            then rbind (DaemonStop kills file) (\<lambda>(ret, file). Inr (if ret = 0 then Exits 0 else Returns ret, file))
            else if cmd = Some ''restart'' then DaemonRestart probe kills sa file
            else Inr (Returns (- 1), file)) (\<lambda>(r, file). Inr (exit_on_error r, file))"

section \<open>Lemmas\<close>

lemma strchr_newline_found:
  assumes "CHR 0x0A \<notin> set xs" and "CHR 0x00 \<notin> set xs"
  shows "strchr_newline (map Some xs @ Some (CHR 0x0A) # cs) = Inr (Some (length xs))"
  using assms by (induction xs) auto

lemma strchr_newline_indeterminate:
  assumes "CHR 0x0A \<notin> set xs" and "CHR 0x00 \<notin> set xs"
  shows "strchr_newline (map Some xs @ None # cs) = Inl Indeterminate"
  using assms by (induction xs) auto

lemma pid_buffer_short: "length xs < 63 \<Longrightarrow> pid_buffer xs = map Some xs @ replicate (63 - length xs) None @ [Some (CHR 0x00)]"
  by (rule nth_equalityI) (auto simp: pid_buffer_def nth_append nth_list_update)

lemma GetPid_line:
  assumes "0 \<le> pid" and "pid < 2 ^ 31"
  shows "GetPidFromFile (Some (signed_decimal pid @ [CHR 0x0A])) = Inr pid"
proof -
  let ?d = "decimal (nat pid)"
  have d: "signed_decimal pid = ?d" using assms(1) by (simp add: signed_decimal_def)
  have len: "length ?d \<le> 10" using decimal_length [of "nat pid" 9] assms by simp
  have buf: "\<exists>cs. pid_buffer (?d @ [CHR 0x0A]) = map Some ?d @ Some (CHR 0x0A) # cs"
    using pid_buffer_short [of "?d @ [CHR 0x0A]"] len by auto
  have "atoi ?d = pid" using atoi_decimal [of "[]" "nat pid"] assms(1) by simp
  moreover have "to_int32 pid = pid" using to_int32_id [of pid] assms by simp
  ultimately have "to_int32 (Util_Atoi ?d) = pid" using assms by (simp add: Util_Atoi_def)
  then show ?thesis
    using buf strchr_newline_found [OF decimal_no_newline, of "nat pid"] by (auto simp: GetPidFromFile_def d)
qed

lemma WritePidFile_ok:
  "fst (WritePidFile opened locked written pid file) = 0 \<longleftrightarrow>
     opened \<and> locked \<and> written = length (signed_decimal pid @ [CHR 0x0A])"
  "fst (WritePidFile opened locked written pid file) = 0 \<Longrightarrow>
     snd (WritePidFile opened locked written pid file) = Some (signed_decimal pid @ [CHR 0x0A])"
  by (auto simp: WritePidFile_def Let_def split: if_splits)

lemma stop_loop_result:
  "stop_loop n kills i file = (if \<exists>k < n. kills (i + k) \<noteq> Delivered then (0, None) else (- 1, file))"
proof (induction n arbitrary: i)
  case (Suc n)
  have "(\<exists>k < Suc n. kills (i + k) \<noteq> Delivered) \<longleftrightarrow> kills i \<noteq> Delivered \<or> (\<exists>k < n. kills (Suc i + k) \<noteq> Delivered)"
    by (subst Ex_less_Suc2) simp
  then show ?case using Suc.IH [of "Suc i"] by (cases "kills i \<noteq> Delivered") simp_all
qed simp

lemma DaemonStop_eq:
  assumes "GetPidFromFile file = Inr pid"
  shows "DaemonStop kills file =
    Inr (if 0 < pid \<and> kills 0 = Delivered \<and> (\<exists>k \<in> {1 .. 1000}. kills k \<noteq> Delivered) then (0, None) else (- 1, file))"
proof -
  have "(\<exists>k < 1000. kills (1 + k) \<noteq> Delivered) \<longleftrightarrow> (\<exists>k \<in> {1 .. 1000}. kills k \<noteq> Delivered)"
  proof
    assume "\<exists>k \<in> {1 .. 1000}. kills k \<noteq> Delivered"
    then obtain k where "1 \<le> k" "k \<le> 1000" "kills (1 + (k - 1)) \<noteq> Delivered" by auto
    then show "\<exists>k < 1000. kills (1 + k) \<noteq> Delivered" by (intro exI [of _ "k - 1"]) auto
  qed force
  then show ?thesis using assms by (simp only: DaemonStop_def stop_loop_result) (auto simp: not_less)
qed

lemma DaemonStart_returns_0:
  assumes "DaemonStart sa file = Inr (Returns 0, file')"
  shows "sa_fork1 sa \<le> 0 \<and> sa_fork2 sa \<le> 0 \<and> file' = Some (signed_decimal (sa_pid sa) @ [CHR 0x0A])"
proof -
  have w: "fst (WritePidFile (sa_opened sa) (sa_locked sa) (sa_written sa) (sa_pid sa) file) = 0"
    "file' = snd (WritePidFile (sa_opened sa) (sa_locked sa) (sa_written sa) (sa_pid sa) file)" "sa_fork1 sa \<le> 0" "sa_fork2 sa \<le> 0"
    using assms by (auto simp: DaemonStart_def rbind_Inr_iff split: if_splits prod.splits)
  then show ?thesis using WritePidFile_ok(2) [OF w(1)] by simp
qed

lemma exit_on_error_Returns [simp]: "exit_on_error x = Returns r \<longleftrightarrow> x = Returns 0 \<and> r = 0"
  by (cases x) (auto simp: exit_on_error_def)

lemma DaemonRestart_returns_0:
  "DaemonRestart probe kills sa file = Inr (Returns 0, file') \<Longrightarrow> \<exists>file1. DaemonStart sa file1 = Inr (Returns 0, file')"
  by (auto simp: DaemonRestart_def rbind_Inr_iff split: if_splits)

section \<open>Properties\<close>

text \<open>
  C39. A process that has become the daemon has left its own pid in the file, and reading the file gives that pid; while it is alive,
  every further start is refused and leaves the file alone.
\<close>

theorem DaemonStart_exclusive:
  assumes "DaemonStart sa file = Inr (Returns 0, file')" and "0 < sa_pid sa" and "sa_pid sa < 2 ^ 31"
    and "sa_kill sb (sa_pid sa) \<noteq> NoProcess"
  shows "GetPidFromFile file' = Inr (sa_pid sa) \<and> DaemonStart sb file' = Inr (Returns (- 1), file')"
proof -
  have "file' = Some (signed_decimal (sa_pid sa) @ [CHR 0x0A])" using DaemonStart_returns_0 [OF assms(1)] by simp
  then have "GetPidFromFile file' = Inr (sa_pid sa)" using GetPid_line [of "sa_pid sa"] assms(2,3) by simp
  then show ?thesis using assms(2,4) by (simp add: DaemonStart_def)
qed

definition example_start :: start_answers where
  "example_start = \<lparr>sa_kill = (\<lambda>p. if p = 4711 then Delivered else NoProcess), sa_ppid = 7, sa_fork1 = 0, sa_fork2 = 0, sa_opened = True,
     sa_locked = True, sa_written = 5, sa_pid = 4711, sa_devnull = True\<rparr>"

lemma decimal_4711: "decimal 4711 = ''4711''"
  by (simp add: decimal.simps) (simp add: char_of_def bit_simps bit_0)

lemma example_start_run: "DaemonStart example_start None = Inr (Returns 0, Some (''4711'' @ [CHR 0x0A]))"
  by (simp add: DaemonStart_def GetPidFromFile_def example_start_def WritePidFile_def signed_decimal_def decimal_4711)

theorem DaemonStart_exclusive_witness:
  "GetPidFromFile (Some (''4711'' @ [CHR 0x0A])) = Inr 4711 \<and>
   DaemonStart example_start (Some (''4711'' @ [CHR 0x0A])) = Inr (Returns (- 1), Some (''4711'' @ [CHR 0x0A]))"
  using DaemonStart_exclusive [OF example_start_run, of example_start] by (simp add: example_start_def)

text \<open>
  Stopping succeeds exactly if the file holds a pid, the first signal reaches the process and one of the next thousand does not;
  then the file is gone. Otherwise the result is -1 and the file is as before.
\<close>

theorem DaemonStop_result:
  assumes "GetPidFromFile file = Inr pid"
  shows "DaemonStop kills file =
    Inr (if 0 < pid \<and> kills 0 = Delivered \<and> (\<exists>k \<in> {1 .. 1000}. kills k \<noteq> Delivered) then (0, None) else (- 1, file))"
  using DaemonStop_eq [OF assms] .

theorem DaemonStop_result_witness:
  "DaemonStop (\<lambda>k. if k < 3 then Delivered else NoProcess) (Some (''4711'' @ [CHR 0x0A])) = Inr (0, None)"
proof -
  have "GetPidFromFile (Some (''4711'' @ [CHR 0x0A])) = Inr 4711"
    using GetPid_line [of 4711] by (simp add: signed_decimal_def decimal_4711)
  from DaemonStop_result [OF this, of "\<lambda>k. if k < 3 then Delivered else NoProcess"] show ?thesis
    by (force intro: bexI [of _ 3])
qed

text \<open>
  A pid file that another program wrote without a newline makes the reader look at bytes of its buffer that were never written.
\<close>

theorem GetPidFromFile_unterminated:
  assumes "content \<noteq> []" and "length content < 63" and "CHR 0x0A \<notin> set content" and "CHR 0x00 \<notin> set content"
  shows "GetPidFromFile (Some content) = Inl Indeterminate"
proof -
  have "pid_buffer content = map Some content @ None # replicate (62 - length content) None @ [Some (CHR 0x00)]"
    using pid_buffer_short [OF assms(2)] assms(2) by (cases "63 - length content") auto
  then show ?thesis using assms strchr_newline_indeterminate [OF assms(3,4)] by (simp add: GetPidFromFile_def)
qed

theorem GetPidFromFile_unterminated_witness: "GetPidFromFile (Some ''4711'') = Inl Indeterminate"
  using GetPidFromFile_unterminated [of "''4711''"] by simp

text \<open>
  Restarting a running daemon that stops in time is a start without a pid file; if it does not stop, nothing is started and the file stays.
\<close>

theorem DaemonRestart_stops_first:
  assumes "GetPidFromFile file = Inr pid" and "0 < pid"
  shows "DaemonRestart Delivered kills sa file =
    (if kills 0 = Delivered \<and> (\<exists>k \<in> {1 .. 1000}. kills k \<noteq> Delivered) then DaemonStart sa None else Inr (Returns (- 1), file))"
  using assms DaemonStop_eq [OF assms(1), of kills] by (auto simp: DaemonRestart_def)

theorem DaemonRestart_stops_first_witness:
  "DaemonRestart Delivered (\<lambda>k. if k < 3 then Delivered else NoProcess) example_start (Some (''4711'' @ [CHR 0x0A])) =
    DaemonStart example_start None"
proof -
  have "GetPidFromFile (Some (''4711'' @ [CHR 0x0A])) = Inr 4711"
    using GetPid_line [of 4711] by (simp add: signed_decimal_def decimal_4711)
  from DaemonRestart_stops_first [OF this, of "\<lambda>k. if k < 3 then Delivered else NoProcess" example_start] show ?thesis
    by (force intro: bexI [of _ 3])
qed

text \<open>
  Only the daemon comes back from the command: when \<^verbatim>\<open>DaemonProcess\<close> returns, the caller is the process behind both forks and its
  pid is in the file. Everyone else, the caller of a failed or of an unknown command included, exits.
\<close>

theorem DaemonProcess_returns_daemon:
  assumes "DaemonProcess cmd probe kills sa file = Inr (Returns r, file')"
  shows "r = 0 \<and> cmd \<in> {None, Some ''start'', Some ''restart''} \<and> sa_fork1 sa \<le> 0 \<and> sa_fork2 sa \<le> 0 \<and>
    file' = Some (signed_decimal (sa_pid sa) @ [CHR 0x0A])"
proof -
  have r: "r = 0" using assms by (auto simp: DaemonProcess_def rbind_Inr_iff split: if_splits)
  consider "cmd \<in> {None, Some ''start''}" | "cmd = Some ''stop''" | "cmd = Some ''restart''" | "cmd \<notin> {None, Some ''start'', Some ''stop'', Some ''restart''}"
    by blast
  then show ?thesis
  proof cases
    case 1
    then have "DaemonStart sa file = Inr (Returns 0, file')"
      using assms r by (auto simp: DaemonProcess_def rbind_Inr_iff split: if_splits)
    then show ?thesis using DaemonStart_returns_0 1 r by auto
  next
    case 2
    then show ?thesis using assms by (auto simp: DaemonProcess_def rbind_Inr_iff split: if_splits)
  next
    case 3
    then have "DaemonRestart probe kills sa file = Inr (Returns 0, file')"
      using assms r by (auto simp: DaemonProcess_def rbind_Inr_iff split: if_splits)
    then show ?thesis using DaemonRestart_returns_0 DaemonStart_returns_0 3 r by blast
  next
    case 4
    then show ?thesis using assms by (auto simp: DaemonProcess_def exit_on_error_def)
  qed
qed

theorem DaemonProcess_returns_daemon_witness:
  "DaemonProcess (Some ''start'') Delivered (\<lambda>_. Delivered) example_start None = Inr (Returns 0, Some (''4711'' @ [CHR 0x0A])) \<and>
   sa_fork1 example_start \<le> 0"
proof -
  have "DaemonProcess (Some ''start'') Delivered (\<lambda>_. Delivered) example_start None = Inr (Returns 0, Some (''4711'' @ [CHR 0x0A]))"
    by (simp add: DaemonProcess_def example_start_run exit_on_error_def)
  from DaemonProcess_returns_daemon [OF this] this show ?thesis by blast
qed

end
