(* ===== verification/Process.thy ===== *)
theory Process
  imports Status Util "HOL-Library.Multiset"
begin

text \<open>
  Files (\<^verbatim>\<open>net/file.h\<close>, \<^verbatim>\<open>net/file.cc\<close>) and what a process finds out about itself from \<^verbatim>\<open>/proc\<close> (\<^verbatim>\<open>net/processinfo.cc\<close>).
  The answers of \<^verbatim>\<open>open\<close>, \<^verbatim>\<open>read\<close> and \<^verbatim>\<open>write\<close>, the contents of the files of \<^verbatim>\<open>/proc\<close> and the names in its directories are arguments.
\<close>

section \<open>Files\<close>

text \<open>An error of a system call: its number and its text.\<close>

type_synonym sys_error = "int32 \<times> byte list"

definition Status_IoError :: "byte list \<Rightarrow> byte list \<Rightarrow> sys_error \<Rightarrow> status res" where
  "Status_IoError op name err = Status_FromFormat (fst err) (cstr op @ '' '' @ cstr name @ '' '' @ snd err)"

text \<open>
  The loop of \<^verbatim>\<open>GetContent\<close>: an answer to \<^verbatim>\<open>read\<close> is an error or some bytes, none at the end of the file; when the answers are
  used up the end is reached.
\<close>

fun get_loop :: "(sys_error + byte list) list \<Rightarrow> byte list \<Rightarrow> byte list \<times> sys_error option" where
  "get_loop [] result = (result, None)"
| "get_loop (Inl err # rs) result = (result, Some err)"
| "get_loop (Inr bs # rs) result = (if bs = [] then (result, None) else get_loop rs (result @ bs))"

definition File_GetContent :: "byte list \<Rightarrow> sys_error option \<Rightarrow> (sys_error + byte list) list \<Rightarrow> byte list \<Rightarrow> (status \<times> byte list) res" where
  "File_GetContent filename opening rs result =
     (case opening of
        Some err \<Rightarrow> rbind (Status_IoError ''open'' filename err) (\<lambda>st. Inr (st, result))
      | None \<Rightarrow>
          (case get_loop rs result of
             (result, Some err) \<Rightarrow> rbind (Status_IoError ''read'' filename err) (\<lambda>st. Inr (st, result))
           | (result, None) \<Rightarrow> Inr (Status_ok, result)))"

text \<open>Opening truncates the file; a write takes some of the bytes and is not repeated.\<close>

definition File_WriteContent :: "byte list \<Rightarrow> sys_error option \<Rightarrow> sys_error + nat \<Rightarrow> byte list \<Rightarrow> byte list \<Rightarrow> (status \<times> byte list) res" where
  "File_WriteContent filename opening written bytes file =
     (case opening of
        Some err \<Rightarrow> rbind (Status_IoError ''open'' filename err) (\<lambda>st. Inr (st, file))
      | None \<Rightarrow>
          (case written of
             Inl err \<Rightarrow> rbind (Status_IoError ''write'' filename err) (\<lambda>st. Inr (st, []))
           | Inr n \<Rightarrow> Inr (Status_ok, take n bytes)))"

section \<open>The process\<close>

text \<open>The last position of a character, -1 when there is none.\<close>

definition string_rfind :: "byte list \<Rightarrow> byte \<Rightarrow> int" where
  "string_rfind buf c = (if c \<in> set buf then int (length buf) - 1 - int (length (takeWhile (\<lambda>x. x \<noteq> c) (rev buf))) else - 1)"

definition procName :: "byte list \<Rightarrow> byte list" where
  "procName stat =
     (let lp = string_find stat ''('' 0; rp = string_rfind stat (CHR '')'') in
      if lp \<noteq> - 1 \<and> rp \<noteq> - 1 \<and> lp < rp then take (nat (rp - lp - 1)) (drop (nat (lp + 1)) stat) else [])"

definition numThreads :: "byte list \<Rightarrow> int" where
  "numThreads status =
     (let pos = string_find status ''Threads:'' 0 in
      if pos \<noteq> - 1 then to_int32 (Util_Atoi (cstr (drop (nat pos + 8) status))) else 0)"

text \<open>The filters of \<^verbatim>\<open>scandir\<close> see every name of a directory, count or collect those that start with a digit, and select none.\<close>

definition starts_digit :: "byte list \<Rightarrow> bool" where
  "starts_digit name \<longleftrightarrow> (case name of [] \<Rightarrow> False | c # cs \<Rightarrow> isdigit c)"

definition FdDirFilter :: "byte list \<Rightarrow> int \<Rightarrow> int" where
  "FdDirFilter name numOpenedFiles = (if starts_digit name then numOpenedFiles + 1 else numOpenedFiles)"

definition TaskDirFilter :: "byte list \<Rightarrow> int list \<Rightarrow> int list" where
  "TaskDirFilter name pids = (if starts_digit name then pids @ [to_int32 (Util_Atoi name)] else pids)"

definition openedFiles :: "byte list list \<Rightarrow> int" where
  "openedFiles entries = fold FdDirFilter entries 0"

definition threads :: "byte list list \<Rightarrow> int list" where
  "threads entries = sort (fold TaskDirFilter entries [])"

section \<open>Lemmas\<close>

lemma get_loop_bytes:
  assumes "\<forall>bs \<in> set chunks. bs \<noteq> []"
  shows "get_loop (map Inr chunks) result = (result @ concat chunks, None)"
  using assms by (induction chunks arbitrary: result) auto

lemma openedFiles_count: "openedFiles entries = int (length (filter starts_digit entries))"
proof -
  have "fold FdDirFilter es n = n + int (length (filter starts_digit es))" for es n
    by (induction es arbitrary: n) (auto simp: FdDirFilter_def)
  then show ?thesis by (simp add: openedFiles_def)
qed

lemma TaskDirFilter_fold: "fold TaskDirFilter es ps = ps @ map (\<lambda>n. to_int32 (Util_Atoi n)) (filter starts_digit es)"
  by (induction es arbitrary: ps) (auto simp: TaskDirFilter_def)

lemma Atoi_decimal:
  assumes "n < 2 ^ 31" and "rest = [] \<or> \<not> isdigit (hd rest)"
  shows "to_int32 (Util_Atoi (decimal n @ rest)) = int n"
  using atoi_decimal [OF assms(2), of n] to_int32_id [of "int n"] assms(1) by (simp add: Util_Atoi_def)

lemma starts_digit_decimal [simp]: "starts_digit (decimal n)"
  using decimal_digits [of "hd (decimal n)" n] by (cases "decimal n") (auto simp: starts_digit_def dest: arg_cong [of _ _ "\<lambda>x. x = []"])

lemma string_rfind_last:
  assumes "c \<notin> set ys"
  shows "string_rfind (xs @ c # ys) c = int (length xs)"
proof -
  have "takeWhile (\<lambda>x. x \<noteq> c) (rev ys @ c # rev xs) = rev ys"
    using assms takeWhile_append2 [of "rev ys" "\<lambda>x. x \<noteq> c" "c # rev xs"] by auto
  then show ?thesis by (simp add: string_rfind_def)
qed

section \<open>Properties\<close>

text \<open>
  A file written in full and read back, in whatever pieces \<^verbatim>\<open>read\<close> delivers, gives the content that was written, behind what the
  result string held before.
\<close>

theorem File_roundtrip:
  assumes "File_WriteContent name None (Inr (length bytes)) bytes old = Inr (st, file)"
    and "concat chunks = file" and "\<forall>bs \<in> set chunks. bs \<noteq> []"
  shows "st = Status_ok \<and> File_GetContent name None (map Inr chunks) result = Inr (Status_ok, result @ bytes)"
  using assms get_loop_bytes [OF assms(3), of result] by (auto simp: File_WriteContent_def File_GetContent_def)

theorem File_roundtrip_witness:
  "File_WriteContent ''f'' None (Inr 5) ''hello'' ''old'' = Inr (Status_ok, ''hello'') \<and>
   File_GetContent ''f'' None (map Inr [''he'', ''llo'']) [] = Inr (Status_ok, ''hello'')"
proof -
  have w: "File_WriteContent ''f'' None (Inr (length ''hello'')) ''hello'' ''old'' = Inr (Status_ok, ''hello'')"
    by (simp add: File_WriteContent_def)
  show ?thesis using File_roundtrip [OF w, of "[''he'', ''llo'']" "[]"] by (simp add: File_WriteContent_def)
qed

text \<open>A write that takes only part of the content is reported as success.\<close>

theorem File_WriteContent_short:
  "File_WriteContent name None (Inr n) bytes old = Inr (Status_ok, take n bytes)"
  by (simp add: File_WriteContent_def)

text \<open>
  The process name is found between the first opening and the last closing parenthesis, so that a name with parentheses of its own is
  returned whole.
\<close>

theorem procName_whole:
  assumes "CHR ''('' \<notin> set pid" and "CHR '')'' \<notin> set rest"
  shows "procName (pid @ CHR ''('' # name @ CHR '')'' # rest) = name"
proof -
  let ?s = "pid @ CHR ''('' # name @ CHR '')'' # rest"
  have "string_find ?s ''('' 0 = int (length pid)"
    using string_find_first [OF assms(1), of "[]" "[]" "name @ CHR '')'' # rest"] by simp
  moreover have "string_rfind ?s (CHR '')'') = int (length pid + 1 + length name)"
    using string_rfind_last [OF assms(2), of "pid @ CHR ''('' # name"] by simp
  moreover have "nat (int (length pid) + 1) = Suc (length pid)" by simp
  ultimately show ?thesis by (simp add: procName_def Let_def)
qed

theorem procName_whole_witness: "procName ''42 (a) (b)) S 1'' = ''a) (b)''"
  using procName_whole [of "''42 ''" "'' S 1''" "''a) (b)''"] by simp

text \<open>
  The number of threads is the number behind the first \<^verbatim>\<open>Threads:\<close> of the status file, blanks and tabs skipped.
\<close>

theorem numThreads_reads:
  assumes "\<forall>j < length pre. \<not> prefix_at ''Threads:'' (drop j (pre @ ''Threads:'' @ blanks @ decimal n @ CHR 0x0A # post))"
    and "\<forall>c \<in> set blanks. isspace c" and "n < 2 ^ 31"
  shows "numThreads (pre @ ''Threads:'' @ blanks @ decimal n @ CHR 0x0A # post) = int n"
proof -
  let ?tail = "blanks @ decimal n @ CHR 0x0A # post"
  let ?s = "pre @ ''Threads:'' @ ?tail"
  have "find_pat ''Threads:'' 0 ?s = int (0 + length pre)"
    using assms(1) prefix_at_append [of "''Threads:''" ?tail] by (intro find_pat_least) simp_all
  then have pos: "string_find ?s ''Threads:'' 0 = int (length pre)" by (simp add: string_find_def)
  have "\<not> isspace (CHR 0x00)" by (simp add: isspace_def)
  then have "\<forall>c \<in> set (blanks @ decimal n @ [CHR 0x0A]). c \<noteq> CHR 0x00"
    using assms(2) decimal_no_newline(2) [of n] by auto
  then have "cstr ?tail = (blanks @ decimal n @ [CHR 0x0A]) @ cstr post"
    using takeWhile_append2 [of "blanks @ decimal n @ [CHR 0x0A]" "\<lambda>c. c \<noteq> CHR 0x00" post] by (simp add: cstr_def)
  moreover have "atoi ((blanks @ decimal n @ [CHR 0x0A]) @ cstr post) = int n"
    using assms(2) atoi_decimal [of "CHR 0x0A # cstr post" n] by (simp add: atoi_def dropWhile_append2 isdigit_def)
  ultimately have "Util_Atoi (cstr ?tail) = int n" using assms(3) by (simp add: Util_Atoi_def)
  then show ?thesis using pos to_int32_id [of "int n"] assms(3) by (simp add: numThreads_def Let_def)
qed

theorem numThreads_reads_witness: "numThreads (''Tgid:x'' @ ''Threads:'' @ [CHR 0x09] @ decimal 17 @ CHR 0x0A # ''x'') = 17"
proof -
  have "\<forall>j < length ''Tgid:x''. \<not> prefix_at ''Threads:'' (drop j (''Tgid:x'' @ ''Threads:'' @ [CHR 0x09] @ decimal 17 @ CHR 0x0A # ''x''))"
    by (auto simp: less_Suc_eq numeral_eq_Suc)
  from numThreads_reads [OF this] show ?thesis by (simp add: isspace_def)
qed

text \<open>
  The list of threads is the sorted list of the numbers among the names of the task directory, whatever their order, and the number of
  open files is the number of numeric names.
\<close>

theorem threads_sorted:
  assumes "mset entries = mset (map decimal tids) + {#''.'', ''..''#}" and "\<forall>t \<in> set tids. t < 2 ^ 31"
  shows "threads entries = sort (map int tids) \<and> openedFiles entries = int (length tids)"
proof
  have dots: "\<not> starts_digit ''.''" "\<not> starts_digit ''..''" by (simp_all add: starts_digit_def)
  have "mset (filter starts_digit entries) = filter_mset starts_digit (mset (map decimal tids))"
    using assms(1) dots by simp
  also have "\<dots> = mset (filter starts_digit (map decimal tids))" by (rule mset_filter [symmetric])
  also have "filter starts_digit (map decimal tids) = map decimal tids" by (simp add: filter_id_conv)
  finally have names: "mset (filter starts_digit entries) = mset (map decimal tids)" .
  have "map (\<lambda>n. to_int32 (Util_Atoi n)) (map decimal tids) = map int tids"
    using assms(2) Atoi_decimal [of _ "[]"] by (simp add: comp_def)
  then have "mset (map (\<lambda>n. to_int32 (Util_Atoi n)) (filter starts_digit entries)) = mset (map int tids)"
    using names by (metis mset_map)
  then show "threads entries = sort (map int tids)"
    unfolding threads_def TaskDirFilter_fold by (simp add: properties_for_sort)
  show "openedFiles entries = int (length tids)"
    using names mset_eq_length [of "filter starts_digit entries" "map decimal tids"] by (simp add: openedFiles_count)
qed

theorem threads_sorted_witness: "threads [''..'', decimal 12, ''.'', decimal 7] = [7, 12]"
proof -
  have "mset [''..'', decimal 12, ''.'', decimal 7] = mset (map decimal [12, 7]) + {#''.'', ''..''#}" by simp
  from threads_sorted [OF this] show ?thesis by simp
qed

end
