(* ===== verification/Calendar.thy ===== *)
theory Calendar
  imports TimeStamp Util
begin

text \<open>
  Printing a time stamp (\<^verbatim>\<open>net/timestamp.cc\<close>). The calendar is that of \<^verbatim>\<open>gmtime_r\<close>: Gregorian years from 1970, counted within
  a period of 400 years, so that times before 1970 are covered too.
\<close>

section \<open>The calendar\<close>

definition leap :: "int \<Rightarrow> bool" where
  "leap y \<longleftrightarrow> y mod 4 = 0 \<and> (y mod 100 \<noteq> 0 \<or> y mod 400 = 0)"

definition year_len :: "int \<Rightarrow> nat" where
  "year_len y = (if leap y then 366 else 365)"

definition month_lens :: "int \<Rightarrow> nat list" where
  "month_lens y = [31, if leap y then 29 else 28, 31, 30, 31, 30, 31, 31, 30, 31, 30, 31]"

text \<open>The year of the day \<open>d\<close> counted from the start of the year \<open>y\<close>, and the day in that year.\<close>

function gm_year :: "int \<Rightarrow> nat \<Rightarrow> int \<times> nat" where
  "gm_year y d = (if d < year_len y then (y, d) else gm_year (y + 1) (d - year_len y))"
  by pat_completeness auto
termination
  by (relation "measure snd") (auto simp: year_len_def split: if_splits)

declare gm_year.simps [simp del]

fun gm_month :: "nat list \<Rightarrow> nat \<Rightarrow> nat \<times> nat" where
  "gm_month [] d = (0, d)"
| "gm_month (l # ls) d = (if d < l then (0, d) else case gm_month ls (d - l) of (m, r) \<Rightarrow> (Suc m, r))"

record tm =
  tm_year :: int
  tm_mon :: int
  tm_mday :: int
  tm_hour :: int
  tm_min :: int
  tm_sec :: int

definition gmtime :: "int \<Rightarrow> tm" where
  "gmtime seconds =
     (let days = seconds div 86400; rest = seconds mod 86400;
          (y, yday) = gm_year (1970 + 400 * (days div 146097)) (nat (days mod 146097));
          (mon, mday) = gm_month (month_lens y) yday in
      \<lparr>tm_year = y - 1900, tm_mon = int mon, tm_mday = int mday + 1, tm_hour = rest div 3600, tm_min = rest div 60 mod 60,
       tm_sec = rest mod 60\<rparr>)"

section \<open>Printing\<close>

text \<open>A number in at least \<open>w\<close> columns, filled with zeros behind the sign.\<close>

definition pad :: "nat \<Rightarrow> nat \<Rightarrow> byte list" where
  "pad w n = replicate (w - length (decimal n)) (CHR ''0'') @ decimal n"

definition pad_signed :: "nat \<Rightarrow> int \<Rightarrow> byte list" where
  "pad_signed w i = (if i < 0 then CHR ''-'' # pad (w - 1) (nat (- i)) else pad w (nat i))"

definition date_text :: "tm \<Rightarrow> byte list" where
  "date_text t =
     pad_signed 4 (tm_year t + 1900) @ CHR ''-'' # pad_signed 2 (tm_mon t + 1) @ CHR ''-'' # pad_signed 2 (tm_mday t) @ CHR '' '' #
     pad_signed 2 (tm_hour t) @ CHR '':'' # pad_signed 2 (tm_min t) @ CHR '':'' # pad_signed 2 (tm_sec t)"

definition ToFormattedString :: "bool \<Rightarrow> timestamp \<Rightarrow> byte list" where
  "ToFormattedString showMicroSeconds t =
     (let us = MicroSecondsSinceEpoch t; tm = gmtime (cquot us kMicroSecondsPerSecond) in
      if showMicroSeconds then snprintf 31 (date_text tm @ CHR ''.'' # pad_signed 6 (crem us kMicroSecondsPerSecond))
      else snprintf 31 (date_text tm))"

text \<open>
  \<^verbatim>\<open>ToString\<close> passes the size of a pointer for the size of its buffer, 8; and a precision of 0 prints nothing for 0.
\<close>

definition TimeStamp_ToString :: "timestamp \<Rightarrow> byte list" where
  "TimeStamp_ToString t =
     (let us = MicroSecondsSinceEpoch t; micro = crem us kMicroSecondsPerSecond in
      snprintf 8 (signed_decimal (cquot us kMicroSecondsPerSecond) @ (if micro = 0 then [] else signed_decimal micro)))"

section \<open>Lemmas\<close>

definition days_upto :: "int \<Rightarrow> nat \<Rightarrow> nat" where
  "days_upto y n = sum_list (map (\<lambda>i. year_len (y + int i)) [0 ..< n])"

lemma year_len_pos [simp]: "0 < year_len y"
  by (simp add: year_len_def)

lemma days_upto_Suc: "days_upto y (Suc n) = year_len y + days_upto (y + 1) n"
proof -
  have "[0 ..< Suc n] = 0 # map Suc [0 ..< n]" by (simp add: map_Suc_upt upt_conv_Cons del: upt_Suc)
  then show ?thesis by (simp add: days_upto_def comp_def algebra_simps del: upt_Suc)
qed

lemma days_upto_mono: "m \<le> n \<Longrightarrow> days_upto y m \<le> days_upto y n"
proof -
  assume "m \<le> n"
  then have "[0 ..< n] = [0 ..< m] @ [m ..< n]" using upt_add_eq_append [of 0 m "n - m"] by simp
  then show ?thesis by (simp add: days_upto_def)
qed

lemma gm_year_split:
  "\<exists>n. fst (gm_year y d) = y + int n \<and> d = days_upto y n + snd (gm_year y d) \<and> snd (gm_year y d) < year_len (y + int n)"
proof (induction y d rule: gm_year.induct)
  case (1 y d)
  show ?case
  proof (cases "d < year_len y")
    case True
    then show ?thesis by (intro exI [of _ 0]) (simp add: gm_year.simps days_upto_def)
  next
    case False
    then obtain n where "fst (gm_year (y + 1) (d - year_len y)) = y + 1 + int n"
      "d - year_len y = days_upto (y + 1) n + snd (gm_year (y + 1) (d - year_len y))"
      "snd (gm_year (y + 1) (d - year_len y)) < year_len (y + 1 + int n)"
      using 1 by blast
    then show ?thesis
      using False by (intro exI [of _ "Suc n"]) (simp add: gm_year.simps [of y d] days_upto_Suc algebra_simps)
  qed
qed

lemma leap_period: "leap (400 * p + y) = leap y"
proof -
  have "(400 * p + y) mod 4 = y mod 4" "(400 * p + y) mod 100 = y mod 100" "(400 * p + y) mod 400 = y mod 400"
    by (simp_all add: mod_eq_dvd_iff)
  then show ?thesis by (simp add: leap_def)
qed

lemma days_upto_period: "days_upto (1970 + 400 * p) n = days_upto 1970 n"
proof -
  have "year_len (1970 + 400 * p + i) = year_len (1970 + i)" for i
    using leap_period [of p "1970 + i"] by (simp add: year_len_def algebra_simps)
  then show ?thesis by (simp add: days_upto_def)
qed

lemma days_upto_add: "days_upto y (m + n) = days_upto y m + days_upto (y + int m) n"
  by (induction m arbitrary: y) (simp_all add: days_upto_Suc algebra_simps, simp add: days_upto_def)

text \<open>Ten blocks of 40 years.\<close>

lemma days_40:
  "days_upto 1970 40 = 14610"
  "days_upto 2010 40 = 14610"
  "days_upto 2050 40 = 14610"
  "days_upto 2090 40 = 14609"
  "days_upto 2130 40 = 14610"
  "days_upto 2170 40 = 14609"
  "days_upto 2210 40 = 14610"
  "days_upto 2250 40 = 14610"
  "days_upto 2290 40 = 14609"
  "days_upto 2330 40 = 14610"
  by (simp_all add: days_upto_def year_len_def leap_def upt_rec)

lemma days_400: "days_upto 1970 400 = 146097"
proof -
  have "days_upto 1970 400 = days_upto 1970 40 + days_upto 2010 40 + days_upto 2050 40 + days_upto 2090 40 + days_upto 2130 40 +
      days_upto 2170 40 + days_upto 2210 40 + days_upto 2250 40 + days_upto 2290 40 + days_upto 2330 40"
    using days_upto_add [of 1970 40 360] days_upto_add [of 2010 40 320] days_upto_add [of 2050 40 280] days_upto_add [of 2090 40 240]
      days_upto_add [of 2130 40 200] days_upto_add [of 2170 40 160] days_upto_add [of 2210 40 120] days_upto_add [of 2250 40 80]
      days_upto_add [of 2290 40 40] by simp
  then show ?thesis by (simp only: days_40)
qed

text \<open>The year within a period of 400 years, and the day that it starts from.\<close>

lemma gm_year_period:
  assumes "d < 146097"
  shows "\<exists>n < 400. fst (gm_year (1970 + 400 * p) d) = 1970 + 400 * p + int n \<and> d = days_upto 1970 n + snd (gm_year (1970 + 400 * p) d) \<and>
    snd (gm_year (1970 + 400 * p) d) < year_len (1970 + 400 * p + int n)"
proof -
  obtain n where n: "fst (gm_year (1970 + 400 * p) d) = 1970 + 400 * p + int n"
    "d = days_upto (1970 + 400 * p) n + snd (gm_year (1970 + 400 * p) d)"
    "snd (gm_year (1970 + 400 * p) d) < year_len (1970 + 400 * p + int n)"
    using gm_year_split [of "1970 + 400 * p" d] by blast
  have "\<not> 400 \<le> n"
    using days_upto_mono [of 400 n 1970] days_400 n(2) assms by (auto simp: days_upto_period)
  then show ?thesis using n by (intro exI [of _ n]) (simp add: days_upto_period)
qed

lemma gm_month_split:
  assumes "d < sum_list ls"
  shows "fst (gm_month ls d) < length ls \<and> d = sum_list (take (fst (gm_month ls d)) ls) + snd (gm_month ls d) \<and>
    snd (gm_month ls d) < ls ! fst (gm_month ls d)"
  using assms
proof (induction ls d rule: gm_month.induct)
  case (2 l ls d)
  show ?case
  proof (cases "d < l")
    case False
    have "d - l < sum_list ls" using 2(2) False by simp
    from 2(1) [OF False this] show ?thesis using False by (cases "gm_month ls (d - l)") auto
  qed simp
qed simp

lemma month_lens_sum: "sum_list (month_lens y) = year_len y"
  by (simp add: month_lens_def year_len_def)

text \<open>The fields of a broken-down time determine the time.\<close>

definition timegm :: "tm \<Rightarrow> int" where
  "timegm t =
     (let y = tm_year t + 1900; p = (y - 1970) div 400; n = nat ((y - 1970) mod 400);
          days = 146097 * p + int (days_upto 1970 n + sum_list (take (nat (tm_mon t)) (month_lens y))) + tm_mday t - 1 in
      86400 * days + 3600 * tm_hour t + 60 * tm_min t + tm_sec t)"

lemma clock_split: "3600 * (r div 3600) + 60 * (r div 60 mod 60) + r mod 60 = (r :: int)"
proof -
  have "r div 3600 = r div 60 div 60" using zdiv_zmult2_eq [of 60 r 60] by simp
  moreover have "60 * (r div 60 div 60) + r div 60 mod 60 = r div 60" by simp
  moreover have "60 * (r div 60) + r mod 60 = r" by simp
  ultimately show ?thesis by linarith
qed

lemma gmtime_fields:
  assumes "gmtime seconds = t"
  obtains n p where "n < 400" "tm_year t + 1900 = 1970 + 400 * p + int n" "p = seconds div 86400 div 146097"
    "0 \<le> tm_mon t" "tm_mon t < 12" "1 \<le> tm_mday t" "tm_mday t \<le> 31"
    "0 \<le> tm_hour t" "tm_hour t < 24" "0 \<le> tm_min t" "tm_min t < 60" "0 \<le> tm_sec t" "tm_sec t < 60"
    "seconds div 86400 mod 146097 = int (days_upto 1970 n + sum_list (take (nat (tm_mon t)) (month_lens (tm_year t + 1900)))) + tm_mday t - 1"
    "seconds mod 86400 = 3600 * tm_hour t + 60 * tm_min t + tm_sec t"
proof -
  define days where "days = seconds div 86400"
  define rest where "rest = seconds mod 86400"
  define p where "p = days div 146097"
  define d where "d = nat (days mod 146097)"
  obtain y yday where y: "gm_year (1970 + 400 * p) d = (y, yday)" by force
  obtain mon mday where m: "gm_month (month_lens y) yday = (mon, mday)" by force
  have t: "t = \<lparr>tm_year = y - 1900, tm_mon = int mon, tm_mday = int mday + 1, tm_hour = rest div 3600, tm_min = rest div 60 mod 60,
       tm_sec = rest mod 60\<rparr>"
    using assms y m by (simp add: gmtime_def Let_def days_def [symmetric] rest_def [symmetric] p_def [symmetric] d_def [symmetric])
  have d: "int d = days mod 146097" "d < 146097" by (simp_all add: d_def nat_less_iff)
  obtain n where n: "n < 400" "y = 1970 + 400 * p + int n" "d = days_upto 1970 n + yday" "yday < year_len y"
    using gm_year_period [OF d(2), of p] y by auto
  have ms: "mon < 12" "yday = sum_list (take mon (month_lens y)) + mday" "mday < month_lens y ! mon"
    using gm_month_split [of yday "month_lens y"] m n(4) by (simp_all add: month_lens_sum) (simp add: month_lens_def)
  have "month_lens y ! mon \<in> set (month_lens y)" using ms(1) by (intro nth_mem) (simp add: month_lens_def)
  then have "month_lens y ! mon \<le> 31" by (auto simp: month_lens_def split: if_splits)
  then have md: "int mday + 1 \<le> 31" using ms(3) by linarith
  have "0 \<le> rest" "rest < 86400" by (simp_all add: rest_def)
  then have hours: "rest div 3600 < 24" "0 \<le> rest div 3600" by (simp_all add: div_less_iff_less_mult pos_imp_zdiv_nonneg_iff)
  show ?thesis
  proof (rule that [OF n(1)])
    show "tm_year t + 1900 = 1970 + 400 * p + int n" using t n(2) by simp
    show "p = seconds div 86400 div 146097" by (simp only: p_def days_def)
    show "seconds div 86400 mod 146097 =
        int (days_upto 1970 n + sum_list (take (nat (tm_mon t)) (month_lens (tm_year t + 1900)))) + tm_mday t - 1"
      unfolding days_def [symmetric] d(1) [symmetric] using t n(3) ms(2) by simp
    show "seconds mod 86400 = 3600 * tm_hour t + 60 * tm_min t + tm_sec t"
      unfolding rest_def [symmetric] using t clock_split [of rest] by simp
  qed (use t ms(1) md hours in simp_all)
qed

lemma timegm_gmtime: "timegm (gmtime seconds) = seconds"
proof -
  define t where "t = gmtime seconds"
  obtain n p where f: "n < 400" "tm_year t + 1900 = 1970 + 400 * p + int n" "p = seconds div 86400 div 146097"
    "seconds div 86400 mod 146097 = int (days_upto 1970 n + sum_list (take (nat (tm_mon t)) (month_lens (tm_year t + 1900)))) + tm_mday t - 1"
    "seconds mod 86400 = 3600 * tm_hour t + 60 * tm_min t + tm_sec t"
    using gmtime_fields [OF t_def [symmetric]] by metis
  let ?days = "int (days_upto 1970 n + sum_list (take (nat (tm_mon t)) (month_lens (tm_year t + 1900)))) + tm_mday t - 1"
  have year: "(tm_year t + 1900 - 1970) div 400 = p" "nat ((tm_year t + 1900 - 1970) mod 400) = n" using f(1,2) by simp_all
  have "timegm t = 86400 * (146097 * p + ?days) + (3600 * tm_hour t + 60 * tm_min t + tm_sec t)"
    unfolding timegm_def Let_def year by (simp only: add_ac add_diff_eq)
  also have "\<dots> = 86400 * (146097 * p + seconds div 86400 mod 146097) + seconds mod 86400" by (simp only: f(4,5))
  also have "146097 * p + seconds div 86400 mod 146097 = seconds div 86400" unfolding f(3) by (rule mult_div_mod_eq)
  also have "86400 * (seconds div 86400) + seconds mod 86400 = seconds" by (rule mult_div_mod_eq)
  finally show ?thesis by (simp only: t_def)
qed

lemma pad_digits: "c \<in> set (pad w n) \<Longrightarrow> isdigit c"
  using decimal_digits by (auto simp: pad_def isdigit_def)

lemma digits_value_zeros: "digits_value 0 (replicate k (CHR ''0'') @ xs) = digits_value 0 xs"
  by (induction k) (auto simp: isdigit_def)

lemma digits_value_pad: "digits_value 0 (pad w n) = n"
  by (simp add: pad_def digits_value_zeros digits_value_decimal)

lemma takeWhile_pad: "\<not> isdigit c \<Longrightarrow> takeWhile isdigit (pad w n @ c # r) = pad w n"
  using pad_digits by (simp add: takeWhile_append2)

lemma pad_inj: "pad w m = pad w n \<longleftrightarrow> m = n"
  using digits_value_pad by metis

lemma pad_field_inj:
  assumes "\<not> isdigit c"
  shows "pad w m @ c # r = pad w n @ c # s \<longleftrightarrow> m = n \<and> r = s"
  using takeWhile_pad [OF assms, of w m r] takeWhile_pad [OF assms, of w n s] pad_inj by (metis append_same_eq same_append_eq list.inject)

lemma pad_hd: "\<exists>d ds. pad w n = d # ds \<and> isdigit d"
proof -
  have "pad w n \<noteq> []" by (simp add: pad_def)
  then show ?thesis using pad_digits [of "hd (pad w n)" w n] by (cases "pad w n") auto
qed

lemma pad_not_minus: "pad w n @ r \<noteq> CHR ''-'' # s"
  using pad_hd [of w n] by (auto simp: isdigit_def)

lemma pad_signed_field_inj:
  assumes "\<not> isdigit c"
  shows "pad_signed w i @ c # r = pad_signed w j @ c # s \<longleftrightarrow> i = j \<and> r = s"
  using pad_field_inj [OF assms] pad_not_minus not_sym [OF pad_not_minus] by (auto simp: pad_signed_def)

lemma pad_signed_inj: "pad_signed w i = pad_signed w j \<longleftrightarrow> i = j"
  using pad_signed_field_inj [of "CHR '':''" w i "[]" j "[]"] by simp

lemma not_isdigit_separators [simp]: "\<not> isdigit (CHR ''-'')" "\<not> isdigit (CHR '' '')"
  by (auto simp: isdigit_def)

lemma date_text_inj: "date_text t @ CHR ''.'' # r = date_text u @ CHR ''.'' # s \<longleftrightarrow> t = u \<and> r = s"
  by (cases t; cases u) (auto simp: date_text_def pad_signed_field_inj)

lemma pad_length: "n < 10 ^ Suc k \<Longrightarrow> Suc k \<le> w \<Longrightarrow> length (pad w n) = w"
  using decimal_length [of n k] by (simp add: pad_def)

lemma pad_length_le: "n < 10 ^ Suc k \<Longrightarrow> length (pad w n) \<le> max w (Suc k)"
  using decimal_length [of n k] by (simp add: pad_def)

lemma pad2_length: "0 \<le> i \<Longrightarrow> i < 100 \<Longrightarrow> length (pad_signed 2 i) = 2"
  using pad_length [of "nat i" 1 2] by (simp add: pad_signed_def)

lemma pad_signed_length_le: "\<bar>i\<bar> < 10 ^ Suc k \<Longrightarrow> w \<le> Suc k \<Longrightarrow> length (pad_signed w i) \<le> Suc (Suc k)"
  using pad_length_le [of "nat (- i)" k "w - 1"] pad_length_le [of "nat i" k w]
  by (auto simp: pad_signed_def nat_less_iff)

lemma date_text_length:
  assumes "gmtime seconds = t" and "\<bar>tm_year t + 1900\<bar> < 1000000"
  shows "length (date_text t) \<le> 22"
proof -
  have "length (pad_signed 4 (tm_year t + 1900)) \<le> 7" using pad_signed_length_le [of "tm_year t + 1900" 5 4] assms(2) by simp
  moreover obtain "0 \<le> tm_mon t" "tm_mon t < 12" "1 \<le> tm_mday t" "tm_mday t \<le> 31" "0 \<le> tm_hour t" "tm_hour t < 24"
    "0 \<le> tm_min t" "tm_min t < 60" "0 \<le> tm_sec t" "tm_sec t < 60"
    by (rule gmtime_fields [OF assms(1)])
  then have "length (pad_signed 2 (tm_mon t + 1)) = 2" "length (pad_signed 2 (tm_mday t)) = 2" "length (pad_signed 2 (tm_hour t)) = 2"
    "length (pad_signed 2 (tm_min t)) = 2" "length (pad_signed 2 (tm_sec t)) = 2"
    by (simp_all add: pad2_length)
  ultimately show ?thesis by (simp add: date_text_def)
qed

lemma cquot_crem: "cquot a b * b + crem a b = a"
  by (simp add: cquot_def crem_def)

lemma cquot_crem_neg: "a < 0 \<Longrightarrow> 0 < b \<Longrightarrow> cquot a b = - (- a div b) \<and> crem a b = - (- a mod b)"
  by (simp add: crem_def cquot_def minus_div_mult_eq_mod [symmetric])

lemma abs_cquot: "0 < b \<Longrightarrow> \<bar>cquot a b\<bar> = \<bar>a\<bar> div b"
  using cquot_nonneg [of a b] cquot_crem_neg [of a b] by (cases "a < 0") (simp_all add: pos_imp_zdiv_nonneg_iff)

lemma abs_crem_less: "0 < b \<Longrightarrow> \<bar>crem a b\<bar> < b"
  using crem_nonneg [of a b] cquot_crem_neg [of a b] by (cases "a < 0") simp_all

lemma gmtime_year_bound:
  assumes "\<bar>seconds\<bar> \<le> 9223372036855"
  shows "\<bar>tm_year (gmtime seconds) + 1900\<bar> < 1000000"
proof -
  obtain n p where f: "n < 400" "tm_year (gmtime seconds) + 1900 = 1970 + 400 * p + int n" "p = seconds div 86400 div 146097"
    using gmtime_fields [OF refl, of seconds] by metis
  have "seconds < 800 * 12622780800" "- 800 * 12622780800 \<le> seconds" using assms by simp_all
  moreover have "p = seconds div 12622780800" using f(3) zdiv_zmult2_eq [of 146097 seconds 86400] by simp
  ultimately have "p < 800" "- 800 \<le> p"  by (simp_all add: div_less_iff_less_mult)
  then show ?thesis using f(1,2) by simp
qed

definition int64_range :: "timestamp \<Rightarrow> bool" where
  "int64_range t \<longleftrightarrow> - (2 ^ 63) \<le> MicroSecondsSinceEpoch t \<and> MicroSecondsSinceEpoch t < 2 ^ 63"

lemma ToFormattedString_text:
  assumes "int64_range t"
  shows "ToFormattedString True t = date_text (gmtime (cquot (MicroSecondsSinceEpoch t) 1000000)) @ CHR ''.'' #
    pad_signed 6 (crem (MicroSecondsSinceEpoch t) 1000000)"
proof -
  let ?us = "MicroSecondsSinceEpoch t"
  have "\<bar>?us\<bar> \<le> 9223372036854775808" using assms unfolding int64_range_def by simp linarith
  then have "\<bar>cquot ?us 1000000\<bar> \<le> 9223372036855"
    using zdiv_mono1 [of "\<bar>?us\<bar>" 9223372036854775808 1000000] by (simp add: abs_cquot)
  then have "length (date_text (gmtime (cquot ?us 1000000))) \<le> 22" using date_text_length [OF refl gmtime_year_bound] by simp
  moreover have "length (pad_signed 6 (crem ?us 1000000)) \<le> 7"
    using pad_signed_length_le [of "crem ?us 1000000" 5 6] abs_crem_less [of 1000000 ?us] by simp
  ultimately show ?thesis by (simp add: ToFormattedString_def Let_def kMicroSecondsPerSecond_def snprintf_def)
qed

section \<open>Properties\<close>

text \<open>
  The formatted text determines the time to the microsecond, for every time stamp that the 64 bits can hold: the text always
  fits its buffer, and two time stamps are printed alike only if they are equal.
\<close>

theorem ToFormattedString_inj:
  assumes "int64_range t" and "int64_range u"
  shows "ToFormattedString True t = ToFormattedString True u \<longleftrightarrow> t = u"
proof
  let ?us = "MicroSecondsSinceEpoch"
  assume "ToFormattedString True t = ToFormattedString True u"
  then have eq: "gmtime (cquot (?us t) 1000000) = gmtime (cquot (?us u) 1000000)" "crem (?us t) 1000000 = crem (?us u) 1000000"
    by (simp_all add: ToFormattedString_text [OF assms(1)] ToFormattedString_text [OF assms(2)] date_text_inj pad_signed_inj)
  have q: "cquot (?us t) 1000000 = cquot (?us u) 1000000" using arg_cong [OF eq(1), of timegm] by (simp only: timegm_gmtime)
  have "?us t = cquot (?us t) 1000000 * 1000000 + crem (?us t) 1000000" by (rule cquot_crem [symmetric])
  also have "\<dots> = ?us u" unfolding q eq(2) by (rule cquot_crem)
  finally have "?us t = ?us u" .
  then show "t = u" by (cases t; cases u) simp
qed (rule arg_cong)

theorem ToFormattedString_inj_witness: "ToFormattedString True (TimeStamp 0) \<noteq> ToFormattedString True (TimeStamp (- 1))"
  using ToFormattedString_inj [of "TimeStamp 0" "TimeStamp (- 1)"] by (simp add: int64_range_def)

lemma decimal_length_lower: "10 ^ k \<le> n \<Longrightarrow> Suc k \<le> length (decimal n)"
proof (induction k arbitrary: n)
  case 0
  then show ?case by (cases "decimal n") auto
next
  case (Suc k)
  have "10 ^ k \<le> n div 10" using Suc.prems by (simp add: less_eq_div_iff_mult_less_eq mult.commute)
  moreover have "10 \<le> n" using Suc.prems by (simp add: order_trans [of 10 "10 * 10 ^ k" n])
  ultimately show ?case using Suc.IH [of "n div 10"] by (subst decimal.simps) simp
qed

lemma decimal_div_prefix: "10 ^ k \<le> n \<Longrightarrow> \<exists>ds. decimal n = decimal (n div 10 ^ k) @ ds"
proof (induction k arbitrary: n)
  case (Suc k)
  have "10 ^ k \<le> n div 10" using Suc.prems by (simp add: less_eq_div_iff_mult_less_eq mult.commute)
  from Suc.IH [OF this] obtain ds where "decimal (n div 10) = decimal (n div 10 div 10 ^ k) @ ds" by blast
  moreover have "10 \<le> n" using Suc.prems by (simp add: order_trans [of 10 "10 * 10 ^ k" n])
  then have "decimal n = decimal (n div 10) @ [char_of (48 + n mod 10)]" by (subst decimal.simps) simp
  ultimately show ?case by (simp add: div_mult2_eq)
qed simp

text \<open>
  The unformatted text is cut to seven characters, because the size of a pointer is passed for the size of the buffer: for the
  times from 2001 to 2286 it is the number of whole thousands of seconds, without the last three digits of the seconds and
  without the microseconds.
\<close>

theorem TimeStamp_ToString_truncated:
  assumes "1000000000000000 \<le> us" and "us < 10000000000000000"
  shows "TimeStamp_ToString (TimeStamp us) = decimal (nat (us div 1000000000))"
proof -
  let ?s = "nat (us div 1000000)" and ?k = "nat (us div 1000000000)"
  have s: "1000000000 \<le> us div 1000000" "us div 1000000 < 10000000000" using assms by (simp_all add: div_less_iff_less_mult less_eq_div_iff_mult_less_eq)
  have k: "?k = ?s div 1000" using zdiv_zmult2_eq [of 1000 us 1000000] s by (simp add: nat_div_distrib)
  have "10 ^ 6 \<le> ?k" "?k < 10 ^ 7" using k s by (simp_all add: less_eq_div_iff_mult_less_eq div_less_iff_less_mult)
  then have len: "length (decimal ?k) = 7" using decimal_length_lower [of 6 ?k] decimal_length [of ?k 6] by simp
  have "10 ^ 3 \<le> ?s" "10 ^ 3 = (1000 :: nat)" using s(1) by (simp_all add: le_nat_iff)
  then obtain ds where "decimal ?s = decimal ?k @ ds" using decimal_div_prefix [of 3 ?s] unfolding k by metis
  then show ?thesis
    using len assms(1) s(1)
    by (simp add: TimeStamp_ToString_def Let_def kMicroSecondsPerSecond_def cquot_nonneg signed_decimal_def snprintf_def)
qed

theorem TimeStamp_ToString_truncated_witness:
  "TimeStamp_ToString (TimeStamp 1500000000000000) = TimeStamp_ToString (TimeStamp 1500000999999999)"
  using TimeStamp_ToString_truncated [of 1500000000000000] TimeStamp_ToString_truncated [of 1500000999999999] by simp

end
