(* ===== verification/Logger.thy ===== *)
theory Logger
  imports Calendar
begin

text \<open>
  The logger (\<^verbatim>\<open>net/log.h\<close>, \<^verbatim>\<open>net/log.cc\<close>). Files are numbered data; a directory maps names to files, and the logger's descriptor
  refers to a file whatever its name is, so that renaming and reopening are two different things. Clock readings, the text that
  the format gives and the answers of the system calls are arguments.
\<close>

section \<open>Levels\<close>

datatype log_level = LFATAL | LERROR | LWARN | LINFO | LDEBUG | LTRACE | LALL

fun level_num :: "log_level \<Rightarrow> int" where
  "level_num LFATAL = 0"
| "level_num LERROR = 1"
| "level_num LWARN = 2"
| "level_num LINFO = 3"
| "level_num LDEBUG = 4"
| "level_num LTRACE = 5"
| "level_num LALL = 6"

lemma level_num_inj: "level_num a = level_num b \<longleftrightarrow> a = b"
  by (cases a; cases b) simp_all

instantiation log_level :: linorder
begin

definition less_eq_log_level :: "log_level \<Rightarrow> log_level \<Rightarrow> bool" where
  "less_eq_log_level a b \<longleftrightarrow> level_num a \<le> level_num b"

definition less_log_level :: "log_level \<Rightarrow> log_level \<Rightarrow> bool" where
  "less_log_level a b \<longleftrightarrow> level_num a < level_num b"

instance
  by standard (auto simp: less_eq_log_level_def less_log_level_def level_num_inj)

end

definition levels :: "log_level list" where
  "levels = [LFATAL, LERROR, LWARN, LINFO, LDEBUG, LTRACE, LALL]"

definition levelStrs :: "string list" where
  "levelStrs = [''FATAL'', ''ERROR'', ''WARN'', ''INFO'', ''DEBUG'', ''TRAVE'', ''ALL'']"

section \<open>State\<close>

type_synonym inode = nat

record logger =
  lg_level :: log_level
  lg_last :: int
  lg_real :: int
  lg_interval :: int
  lg_filename :: "byte list"
  lg_fd :: "inode option"
  lg_dir :: "byte list \<rightharpoonup> inode"
  lg_data :: "inode \<Rightarrow> byte list"
  lg_inodes :: nat
  lg_stdout :: "byte list"
  lg_syslog :: "byte list list"
  lg_stderr :: "byte list"

definition Logger_new :: "int \<Rightarrow> logger" where
  "Logger_new now =
     \<lparr>lg_level = LALL, lg_last = now, lg_real = now, lg_interval = 86400, lg_filename = [], lg_fd = None, lg_dir = Map.empty,
      lg_data = (\<lambda>_. []), lg_inodes = 0, lg_stdout = [], lg_syslog = [], lg_stderr = []\<rparr>"

section \<open>Configuration\<close>

definition lower :: "byte \<Rightarrow> byte" where
  "lower c = (if 65 \<le> (of_char c :: nat) \<and> (of_char c :: nat) \<le> 90 then char_of (of_char c + 32 :: nat) else c)"

definition strcasecmp_eq :: "byte list \<Rightarrow> byte list \<Rightarrow> bool" where
  "strcasecmp_eq s t \<longleftrightarrow> map lower s = map lower t"

fun find_level :: "(string \<times> log_level) list \<Rightarrow> byte list \<Rightarrow> log_level" where
  "find_level [] level = LINFO"
| "find_level ((s, l) # ls) level = (if strcasecmp_eq s level then l else find_level ls level)"

definition SetLogLevel_string :: "byte list \<Rightarrow> logger \<Rightarrow> logger" where
  "SetLogLevel_string level s = s\<lparr>lg_level := find_level (zip levelStrs levels) level\<rparr>"

text \<open>
  A number converted to the enumeration: its three bits hold 0 to 7, other numbers give no value. \<^verbatim>\<open>SetLogLevel\<close> takes what lies
  above the last level for the last level.
\<close>

definition SetLogLevel :: "int \<Rightarrow> logger \<Rightarrow> logger res" where
  "SetLogLevel level s =
     (if 0 \<le> level \<and> level < 8 then Inr (s\<lparr>lg_level := levels ! nat (min 6 (max 0 level))\<rparr>) else Inl Indeterminate)"

definition AdjustLogLevel :: "int \<Rightarrow> logger \<Rightarrow> logger res" where
  "AdjustLogLevel adjust s = SetLogLevel (level_num (lg_level s) + adjust) s"

definition SetRotateInterval :: "int \<Rightarrow> logger \<Rightarrow> logger" where
  "SetRotateInterval rotateInterval s = s\<lparr>lg_interval := rotateInterval\<rparr>"

text \<open>Opening for appending, creating the file if there is none.\<close>

definition open_append :: "byte list \<Rightarrow> logger \<Rightarrow> inode \<times> logger" where
  "open_append name s =
     (case lg_dir s name of
        Some i \<Rightarrow> (i, s)
      | None \<Rightarrow> (lg_inodes s, s\<lparr>lg_dir := (lg_dir s)(name \<mapsto> lg_inodes s), lg_inodes := Suc (lg_inodes s)\<rparr>))"

text \<open>With or without a file before, the descriptor refers to the opened file afterwards.\<close>

definition SetFileName :: "bool \<Rightarrow> byte list \<Rightarrow> logger \<Rightarrow> logger" where
  "SetFileName opened filename s =
     (if \<not> opened then s
      else case open_append filename s of (i, s) \<Rightarrow> s\<lparr>lg_filename := filename, lg_fd := Some i\<rparr>)"

section \<open>Rotation\<close>

definition same_interval :: "int \<Rightarrow> logger \<Rightarrow> int \<Rightarrow> int \<Rightarrow> bool res" where
  "same_interval timezone s a b =
     (if lg_interval s = 0 then Inl DivByZero
      else Inr (cquot (a - timezone) (lg_interval s) = cquot (b - timezone) (lg_interval s)))"

definition rename_file :: "byte list \<Rightarrow> byte list \<Rightarrow> logger \<Rightarrow> logger" where
  "rename_file old new s = s\<lparr>lg_dir := (lg_dir s)(old := None, new := lg_dir s old)\<rparr>"

text \<open>The copy of the descriptor replaces the logger's, which stays closed if it was.\<close>

definition reopen :: "logger \<Rightarrow> logger" where
  "reopen s = (case open_append (lg_filename s) s of (i, s) \<Rightarrow> s\<lparr>lg_fd := map_option (\<lambda>_. i) (lg_fd s)\<rparr>)"

definition MaybeRotate :: "int \<Rightarrow> int \<Rightarrow> timestamp \<Rightarrow> bool \<Rightarrow> bool \<Rightarrow> logger \<Rightarrow> logger res" where
  "MaybeRotate now timezone stamp renamed opened s =
     (if lg_filename s = [] then Inr s
      else
        rbind (same_interval timezone s now (lg_last s)) (\<lambda>same.
        if same then Inr s
        else
          let old = lg_real s; s = s\<lparr>lg_last := now, lg_real := now\<rparr> in
          rbind (same_interval timezone s old (lg_last s)) (\<lambda>same.
          if same then Inr s
          else
            let newname = lg_filename s @ ToFormattedString True stamp in
            if \<not> renamed \<or> lg_dir s (lg_filename s) = None then Inr s
            else
              let s = rename_file (lg_filename s) newname s in
              if \<not> opened then Inr s else Inr (reopen s))))"

section \<open>Writing\<close>

text \<open>The buffer of 4096 characters; a store outside of it is an error.\<close>

definition buf_store :: "nat \<Rightarrow> byte list \<Rightarrow> cell list \<Rightarrow> cell list res" where
  "buf_store i xs cs = (if i + length xs \<le> length cs then Inr (list_splice cs i (map Some xs)) else Inl OutOfBounds)"

text \<open>The loop that trims newlines: the position of the last other character in front of \<open>p\<close>.\<close>

fun trim_back :: "cell list \<Rightarrow> nat \<Rightarrow> nat res" where
  "trim_back cs 0 = Inl OutOfBounds"
| "trim_back cs (Suc p) =
     (if length cs \<le> p then Inl OutOfBounds
      else case cs ! p of
        None \<Rightarrow> Inl Indeterminate
      | Some c \<Rightarrow> if c = CHR 0x0A then trim_back cs p else Inr p)"

definition log_buffer :: "byte list \<Rightarrow> byte list \<Rightarrow> (cell list \<times> nat) res" where
  "log_buffer tm msg =
     rbind (buf_store 0 tm (replicate 4096 None)) (\<lambda>buffer.
     if 2 ^ 31 \<le> length msg then Inl Indeterminate
     else
       rbind (buf_store (length tm) (take (4096 - length tm - 1) msg @ [CHR 0x00]) buffer) (\<lambda>buffer.
       let p = min (length tm + length msg) (4096 - 2) in
       rbind (trim_back buffer p) (\<lambda>p.
       rbind (buf_store (p + 1) [CHR 0x0A] buffer) (\<lambda>buffer.
       rbind (buf_store (p + 2) [CHR 0x00] buffer) (\<lambda>buffer.
       Inr (buffer, p + 2))))))"

definition write_out :: "byte list \<Rightarrow> logger \<Rightarrow> logger" where
  "write_out bs s =
     (case lg_fd s of
        None \<Rightarrow> s\<lparr>lg_stdout := lg_stdout s @ bs\<rparr>
      | Some i \<Rightarrow> s\<lparr>lg_data := (lg_data s)(i := lg_data s i @ bs)\<rparr>)"

text \<open>\<open>written\<close> is how many bytes \<^verbatim>\<open>write\<close> took; a short write is only reported.\<close>

definition emit_line :: "log_level \<Rightarrow> nat \<Rightarrow> byte list \<Rightarrow> logger \<Rightarrow> logger" where
  "emit_line level written line s =
     (let s = write_out (take written line) s;
          s = (if level \<le> LERROR then s\<lparr>lg_syslog := lg_syslog s @ [drop 27 line]\<rparr> else s)
      in if level = LFATAL then s\<lparr>lg_stderr := lg_stderr s @ line\<rparr> else s)"

definition Logger_Write :: "log_level \<Rightarrow> int \<Rightarrow> int \<Rightarrow> timestamp \<Rightarrow> timestamp \<Rightarrow> bool \<Rightarrow> bool \<Rightarrow> byte list \<Rightarrow> nat \<Rightarrow> logger \<Rightarrow> logger res" where
  "Logger_Write level now timezone rstamp stamp renamed opened msg written s =
     (if lg_level s < level then Inr s
      else
        rbind (MaybeRotate now timezone rstamp renamed opened s) (\<lambda>s.
        rbind (log_buffer (ToFormattedString True stamp @ '' '') msg) (\<lambda>(buffer, p).
        rbind (cells_bytes (take p buffer)) (\<lambda>line.
        Inr (emit_line level written line s)))))"

section \<open>The macros and the destructor\<close>

text \<open>
  \<open>write level\<close> is the call of \<^verbatim>\<open>Write\<close> that a macro expands to. \<^verbatim>\<open>EXITIF\<close> ends the process with the code 1, which is
  the second component of its result.
\<close>

definition hlog :: "log_level \<Rightarrow> (log_level \<Rightarrow> logger \<Rightarrow> logger res) \<Rightarrow> logger \<Rightarrow> logger res" where
  "hlog level write s = (if level \<le> lg_level s then write level s else Inr s)"

definition FATALIF :: "bool \<Rightarrow> (log_level \<Rightarrow> logger \<Rightarrow> logger res) \<Rightarrow> logger \<Rightarrow> logger res" where
  "FATALIF b write s = (if b then hlog LFATAL write s else Inr s)"

definition EXITIF :: "bool \<Rightarrow> (log_level \<Rightarrow> logger \<Rightarrow> logger res) \<Rightarrow> logger \<Rightarrow> (logger \<times> int option) res" where
  "EXITIF b write s = (if b then rbind (hlog LERROR write s) (\<lambda>s. Inr (s, Some 1)) else Inr (s, None))"

definition GetLogLevelStr :: "logger \<Rightarrow> string" where
  "GetLogLevelStr s = levelStrs ! nat (level_num (lg_level s))"

definition Logger_destruct :: "logger \<Rightarrow> logger" where
  "Logger_destruct s = (if lg_fd s \<noteq> None then s\<lparr>lg_fd := None\<rparr> else s)"

section \<open>Lemmas\<close>

definition rstrip :: "byte list \<Rightarrow> byte list" where
  "rstrip xs = rev (dropWhile (\<lambda>c. c = CHR 0x0A) (rev xs))"

lemma rstrip_snoc: "rstrip (xs @ [c]) = (if c = CHR 0x0A then rstrip xs else xs @ [c])"
  by (simp add: rstrip_def)

lemma rstrip_prefix: "\<exists>ys. xs = rstrip xs @ ys"
proof -
  have "rev xs = takeWhile (\<lambda>c. c = CHR 0x0A) (rev xs) @ dropWhile (\<lambda>c. c = CHR 0x0A) (rev xs)" by simp
  then have "rev (rev xs) = rstrip xs @ rev (takeWhile (\<lambda>c. c = CHR 0x0A) (rev xs))"
    unfolding rstrip_def by (metis rev_append)
  then show ?thesis by auto
qed

lemma rstrip_append: "xs \<noteq> [] \<Longrightarrow> last xs \<noteq> CHR 0x0A \<Longrightarrow> rstrip (xs @ ys) = xs @ rstrip ys"
proof (induction ys rule: rev_induct)
  case Nil
  then show ?case using rstrip_snoc [of "butlast xs" "last xs"] by (simp add: rstrip_def)
next
  case (snoc y ys)
  then show ?case using rstrip_snoc [of "xs @ ys" y] rstrip_snoc [of ys y] by simp
qed

text \<open>The trimming loop on a prefix that is written: it stops behind what remains of the prefix.\<close>

lemma trim_back_ok:
  assumes "rstrip xs \<noteq> []"
  shows "trim_back (map Some xs @ cs) (length xs) = Inr (length (rstrip xs) - 1)"
  using assms
proof (induction xs arbitrary: cs rule: rev_induct)
  case (snoc x xs)
  have "(map Some (xs @ [x]) @ cs) ! length xs = Some x" by (simp add: nth_append)
  then have step: "trim_back (map Some (xs @ [x]) @ cs) (length (xs @ [x])) =
      (if x = CHR 0x0A then trim_back (map Some (xs @ [x]) @ cs) (length xs) else Inr (length xs))"
    by simp
  show ?case
  proof (cases "x = CHR 0x0A")
    case True
    then have "rstrip (xs @ [x]) = rstrip xs" by (simp add: rstrip_snoc)
    then show ?thesis using snoc.IH [of "Some x # cs"] snoc.prems True step by simp
  next
    case False
    then show ?thesis using step by (simp add: rstrip_snoc)
  qed
qed (simp add: rstrip_def)

lemma buf_store_0: "length xs \<le> n \<Longrightarrow> buf_store 0 xs (replicate n None) = Inr (map Some xs @ replicate (n - length xs) None)"
  by (simp add: buf_store_def list_splice_def)

lemma buf_store_at:
  assumes "length ys \<le> length cs"
  shows "buf_store (length xs) ys (map Some xs @ cs) = Inr (map Some (xs @ ys) @ drop (length ys) cs)"
  using assms by (simp add: buf_store_def list_splice_def)

lemma log_buffer_ok:
  assumes tm: "tm \<noteq> []" "last tm \<noteq> CHR 0x0A" "length tm \<le> 40" and msg: "length msg < 2 ^ 31"
  shows "\<exists>buffer p. log_buffer tm msg = Inr (buffer, p) \<and> length buffer = 4096 \<and> p \<le> 4095 \<and>
    take p buffer = map Some (tm @ rstrip (take (4094 - length tm) msg) @ [CHR 0x0A])"
proof -
  let ?m = "take (4096 - length tm - 1) msg" and ?c = "take (4094 - length tm) msg"
  let ?all = "tm @ ?m @ [CHR 0x00]"
  have len: "length ?all \<le> 4096" using tm(3) by auto
  define b1 where "b1 = map Some tm @ replicate (4096 - length tm) (None :: cell)"
  define b2 where "b2 = map Some ?all @ replicate (4096 - length ?all) (None :: cell)"
  have 1: "buf_store 0 tm (replicate 4096 None) = Inr b1" using tm(3) by (simp add: buf_store_0 b1_def)
  have 2: "buf_store (length tm) (?m @ [CHR 0x00]) b1 = Inr b2"
    unfolding b1_def b2_def using len by (subst buf_store_at) (simp_all add: algebra_simps)
  define p where "p = min (length tm + length msg) 4094"
  have p: "p = length (tm @ ?c)" using tm(3) by (simp add: p_def)
  obtain rest where rest: "b2 = map Some (tm @ ?c) @ rest" "length rest = 4096 - p"
  proof -
    let ?x = "drop (4094 - length tm) ?m"
    have "take (4094 - length tm) ?m = ?c" by (simp add: min_def)
    then have "?m = ?c @ ?x" using append_take_drop_id [of "4094 - length tm" ?m] by simp
    then have "b2 = map Some (tm @ ?c) @ map Some (?x @ [CHR 0x00]) @ replicate (4096 - length ?all) None"
      unfolding b2_def by (metis append.assoc map_append)
    moreover have "length b2 = 4096" using len by (simp add: b2_def)
    ultimately show ?thesis
      using that [of "map Some (?x @ [CHR 0x00]) @ replicate (4096 - length ?all) None"] p by (metis add_diff_cancel_left' length_append length_map)
  qed
  define r where "r = rstrip ?c"
  obtain cut where cut: "?c = r @ cut" unfolding r_def using rstrip_prefix [of ?c] by blast
  let ?l = "tm @ r" and ?rest = "map Some cut @ rest"
  have q: "0 < length ?l" "length ?l + length cut = p" using tm(1) p cut by simp_all
  have 3: "trim_back b2 p = Inr (length ?l - 1)"
    unfolding rest(1) p using trim_back_ok [of "tm @ ?c" rest] rstrip_append [OF tm(1,2), of ?c] tm(1) by (simp add: r_def)
  have b2: "b2 = map Some ?l @ ?rest" using rest(1) cut by simp
  have n: "length ?rest = 4096 - length ?l" "length ?l \<le> 4094" using q rest(2) by (simp_all add: p_def)
  have 4: "buf_store (length ?l - 1 + 1) [CHR 0x0A] b2 = Inr (map Some (?l @ [CHR 0x0A]) @ drop 1 ?rest)"
    using q(1) n buf_store_at [of "[CHR 0x0A]" ?rest ?l] unfolding b2 by simp
  have 5: "buf_store (length ?l - 1 + 2) [CHR 0x00] (map Some (?l @ [CHR 0x0A]) @ drop 1 ?rest) =
      Inr (map Some ((?l @ [CHR 0x0A]) @ [CHR 0x00]) @ drop 1 (drop 1 ?rest))"
    using q(1) n buf_store_at [of "[CHR 0x00]" "drop 1 ?rest" "?l @ [CHR 0x0A]"] by simp
  let ?b = "map Some ((?l @ [CHR 0x0A]) @ [CHR 0x00]) @ drop 1 (drop 1 ?rest)"
  have p': "min (length tm + length msg) (4096 - 2) = p" by (simp add: p_def)
  have "log_buffer tm msg = Inr (?b, length ?l - 1 + 2)"
    unfolding log_buffer_def 1 rbind_simps 2 Let_def p' 3 4 5 using msg by simp
  moreover have "length ?b = 4096" "length ?l - 1 + 2 \<le> 4095" using n q(1) by simp_all
  moreover have "length ?l - 1 + 2 = length (?l @ [CHR 0x0A])" using q(1) by simp
  then have "take (length ?l - 1 + 2) ?b = map Some (tm @ r @ [CHR 0x0A])" by (simp only: map_append append.assoc take_append) simp
  ultimately show ?thesis unfolding r_def [symmetric] by blast
qed

lemma ToFormattedString_nonempty [simp]: "ToFormattedString True stamp \<noteq> []"
  by (simp add: ToFormattedString_def Let_def snprintf_def)

text \<open>The line that \<^verbatim>\<open>Write\<close> produces.\<close>

definition log_line :: "timestamp \<Rightarrow> byte list \<Rightarrow> byte list" where
  "log_line stamp msg =
     (let tm = ToFormattedString True stamp @ '' '' in tm @ rstrip (take (4094 - length tm) msg) @ [CHR 0x0A])"

lemma Write_line:
  assumes "length msg < 2 ^ 31"
  shows "\<exists>buffer p. log_buffer (ToFormattedString True stamp @ '' '') msg = Inr (buffer, p) \<and>
    cells_bytes (take p buffer) = Inr (log_line stamp msg)"
proof -
  have "ToFormattedString True stamp @ '' '' \<noteq> []" "last (ToFormattedString True stamp @ '' '') \<noteq> CHR 0x0A"
    "length (ToFormattedString True stamp @ '' '') \<le> 40"
    by (simp_all add: ToFormattedString_def Let_def snprintf_def)
  from log_buffer_ok [OF this assms] show ?thesis by (auto simp: log_line_def Let_def simp del: map_append)
qed

text \<open>
  A logger in order: if it has a file name, its descriptor refers to the file of that name; numbers from \<open>lg_inodes\<close> on are not in
  use.
\<close>

definition lg_ok :: "logger \<Rightarrow> bool" where
  "lg_ok s \<longleftrightarrow> (lg_filename s \<noteq> [] \<longrightarrow> lg_fd s \<noteq> None \<and> lg_dir s (lg_filename s) = lg_fd s) \<and>
     (\<forall>name i. lg_dir s name = Some i \<longrightarrow> i < lg_inodes s) \<and> (\<forall>i \<ge> lg_inodes s. lg_data s i = []) \<and> lg_last s = lg_real s"

lemma lg_ok_new: "lg_ok (Logger_new now)"
  by (simp add: lg_ok_def Logger_new_def)

lemma lg_ok_SetFileName:
  assumes "lg_ok s"
  shows "lg_ok (SetFileName opened filename s)"
  using assms by (auto simp: lg_ok_def SetFileName_def open_append_def less_Suc_eq split: option.splits if_splits)

lemma MaybeRotate_ok:
  assumes ok: "lg_ok s" and name: "lg_filename s \<noteq> []" and iv: "lg_interval s \<noteq> 0"
  shows "\<exists>s'. MaybeRotate now timezone stamp True True s = Inr s' \<and> lg_ok s' \<and> lg_filename s' = lg_filename s \<and> lg_data s' = lg_data s \<and>
    lg_interval s' = lg_interval s \<and> lg_level s' = lg_level s \<and>
    same_interval timezone s' now (lg_last s') = Inr True \<and>
    (if same_interval timezone s now (lg_last s) = Inr True then s' = s
     else lg_fd s' = Some (lg_inodes s) \<and> lg_last s' = now \<and>
       lg_dir s' = (lg_dir s)(lg_filename s @ ToFormattedString True stamp := lg_fd s, lg_filename s \<mapsto> lg_inodes s))"
proof -
  obtain same where same: "same_interval timezone s now (lg_last s) = Inr same" using iv by (simp add: same_interval_def)
  show ?thesis
  proof (cases same)
    case True
    then show ?thesis using assms same by (intro exI [of _ s]) (simp add: MaybeRotate_def)
  next
    case False
    obtain i where fd: "lg_fd s = Some i" "lg_dir s (lg_filename s) = Some i" using ok name by (auto simp: lg_ok_def)
    let ?f = "lg_filename s" and ?new = "lg_filename s @ ToFormattedString True stamp"
    let ?s' = "s\<lparr>lg_last := now, lg_real := now, lg_dir := (lg_dir s)(?new := Some i, ?f \<mapsto> lg_inodes s), lg_inodes := Suc (lg_inodes s),
        lg_fd := Some (lg_inodes s)\<rparr>"
    have last: "lg_real s = lg_last s" using ok by (simp add: lg_ok_def)
    have d: "cquot (now - timezone) (lg_interval s) \<noteq> cquot (lg_last s - timezone) (lg_interval s)"
      using same False iv by (simp add: same_interval_def)
    have "MaybeRotate now timezone stamp True True s = Inr ?s'"
      using name fd iv d last
      by (simp add: MaybeRotate_def same_interval_def rename_file_def reopen_def open_append_def Let_def fun_upd_twist)
    moreover have "lg_ok ?s'" using ok fd by (auto simp: lg_ok_def less_Suc_eq)
    ultimately show ?thesis using iv d by (simp add: same_interval_def fd)
  qed
qed

section \<open>Properties\<close>

text \<open>
  A line always fits its buffer of 4096 characters, and it is the time, a blank, the message without its trailing newlines, cut if it is too
  long, and one newline. No character outside the buffer and none that was never written is touched, whatever the message.
\<close>

theorem log_buffer_line:
  assumes "length msg < 2 ^ 31"
  shows "\<exists>buffer p. log_buffer (ToFormattedString True stamp @ '' '') msg = Inr (buffer, p) \<and> length buffer = 4096 \<and> p \<le> 4095 \<and>
    take p buffer = map Some (log_line stamp msg)"
proof -
  have "ToFormattedString True stamp @ '' '' \<noteq> []" "last (ToFormattedString True stamp @ '' '') \<noteq> CHR 0x0A"
    "length (ToFormattedString True stamp @ '' '') \<le> 40"
    by (simp_all add: ToFormattedString_def Let_def snprintf_def)
  from log_buffer_ok [OF this assms] show ?thesis by (simp add: log_line_def Let_def del: map_append)
qed

theorem log_buffer_line_witness:
  "\<exists>buffer p. log_buffer (ToFormattedString True (TimeStamp 0) @ '' '') (replicate 5000 (CHR ''a'')) = Inr (buffer, p) \<and> p \<le> 4095"
  using log_buffer_line [of "replicate 5000 (CHR ''a'')" "TimeStamp 0"] by auto

text \<open>
  C38. Writing to a log file whose renaming and opening succeed: exactly one line is added, to the file that has the logger's name after the call,
  and no other file changes. In the rotation interval of the last rotation that is the file it was before; in another interval the old file has been given the
  name with the time, with everything in it, and the line starts a new one.
\<close>

theorem Logger_Write_appends:
  assumes "lg_ok s" and "lg_filename s \<noteq> []" and "lg_interval s \<noteq> 0" and "level \<le> lg_level s" and "length msg < 2 ^ 31"
    and "length (log_line stamp msg) \<le> written"
  shows "\<exists>s' i. Logger_Write level now timezone rstamp stamp True True msg written s = Inr s' \<and> lg_ok s' \<and>
    lg_dir s' (lg_filename s) = Some i \<and> lg_data s' = (lg_data s)(i := lg_data s i @ log_line stamp msg) \<and>
    (if same_interval timezone s now (lg_last s) = Inr True then lg_dir s' = lg_dir s
     else lg_data s i = [] \<and> lg_dir s' (lg_filename s @ ToFormattedString True rstamp) = lg_dir s (lg_filename s))"
proof -
  obtain s1 where s1: "MaybeRotate now timezone rstamp True True s = Inr s1" "lg_ok s1" "lg_filename s1 = lg_filename s" "lg_data s1 = lg_data s"
    "if same_interval timezone s now (lg_last s) = Inr True then s1 = s
     else lg_fd s1 = Some (lg_inodes s) \<and> lg_last s1 = now \<and>
       lg_dir s1 = (lg_dir s)(lg_filename s @ ToFormattedString True rstamp := lg_fd s, lg_filename s \<mapsto> lg_inodes s)"
    using MaybeRotate_ok [OF assms(1-3), of now timezone rstamp] by blast
  obtain i where i: "lg_fd s1 = Some i" "lg_dir s1 (lg_filename s) = Some i" "i < lg_inodes s1"
    using s1(2,3) assms(2) by (auto simp: lg_ok_def)
  obtain buffer p where b: "log_buffer (ToFormattedString True stamp @ '' '') msg = Inr (buffer, p)"
    "cells_bytes (take p buffer) = Inr (log_line stamp msg)"
    using Write_line [OF assms(5)] by blast
  let ?data = "(lg_data s)(i := lg_data s i @ log_line stamp msg)"
  obtain s' where s': "Logger_Write level now timezone rstamp stamp True True msg written s = Inr s'" "lg_data s' = ?data" "lg_dir s' = lg_dir s1"
    "lg_filename s' = lg_filename s1" "lg_fd s' = lg_fd s1" "lg_inodes s' = lg_inodes s1" "lg_last s' = lg_last s1" "lg_real s' = lg_real s1"
  proof
    show "Logger_Write level now timezone rstamp stamp True True msg written s = Inr (emit_line level written (log_line stamp msg) s1)"
      using assms(4) s1(1) b by (simp add: Logger_Write_def)
  qed (use i(1) assms(6) s1(4) in \<open>simp_all add: emit_line_def write_out_def Let_def\<close>)
  have "lg_ok s'" using s1(2,4) i(3) s' by (auto simp: lg_ok_def)
  moreover have "lg_data s (lg_inodes s) = []" "lg_dir s (lg_filename s) = lg_fd s" using assms(1,2) by (simp_all add: lg_ok_def)
  ultimately show ?thesis
    using i(1,2) s1(5) s'(1-3) by (intro exI [of _ s'] exI [of _ i]) (auto split: if_splits)
qed

definition example_logger :: logger where
  "example_logger = SetFileName True ''app.log'' (Logger_new 1000)"

lemma example_logger_ok: "lg_ok example_logger" "lg_filename example_logger = ''app.log''" "lg_interval example_logger = 86400"
    "lg_level example_logger = LALL" "lg_last example_logger = 1000" "lg_data example_logger = (\<lambda>_. [])"
  using lg_ok_SetFileName [OF lg_ok_new, of True "''app.log''" 1000]
  by (simp_all add: example_logger_def) (simp_all add: SetFileName_def open_append_def Logger_new_def)

theorem Logger_Write_appends_witness:
  "\<exists>s' i. Logger_Write LERROR 90000 0 (TimeStamp 90000000000) (TimeStamp 90000000000) True True ''failed'' 4096 example_logger = Inr s' \<and>
    lg_dir s' ''app.log'' = Some i \<and> lg_data s' i = log_line (TimeStamp 90000000000) ''failed''"
proof -
  have n: "length (log_line (TimeStamp 90000000000) ''failed'') \<le> 4096"
    by (simp add: log_line_def Let_def rstrip_def ToFormattedString_def snprintf_def)
  have "\<exists>s' i. Logger_Write LERROR 90000 0 (TimeStamp 90000000000) (TimeStamp 90000000000) True True ''failed'' 4096 example_logger = Inr s' \<and>
      lg_dir s' (lg_filename example_logger) = Some i \<and>
      lg_data s' = (lg_data example_logger)(i := lg_data example_logger i @ log_line (TimeStamp 90000000000) ''failed'')"
    using Logger_Write_appends [OF example_logger_ok(1) _ _ _ _ n, of LERROR 90000 0 "TimeStamp 90000000000"] example_logger_ok(2-4)
    by (auto simp: less_eq_log_level_def)
  then show ?thesis using example_logger_ok(2,6) by (metis append_Nil fun_upd_same)
qed

text \<open>
  A file is rotated at most once in an interval: after a call at one time, a call at any time of the same interval changes nothing.
\<close>

theorem MaybeRotate_once:
  assumes "lg_ok s" and "lg_filename s \<noteq> []" and "lg_interval s \<noteq> 0" and "MaybeRotate now timezone stamp True True s = Inr s1"
    and "same_interval timezone s1 now' now = Inr True"
  shows "MaybeRotate now' timezone stamp' renamed opened s1 = Inr s1"
proof -
  have "lg_filename s1 = lg_filename s" "lg_interval s1 = lg_interval s" "same_interval timezone s1 now (lg_last s1) = Inr True"
    using MaybeRotate_ok [OF assms(1-3), of now timezone stamp] assms(4) by auto
  then have "same_interval timezone s1 now' (lg_last s1) = Inr True" using assms(3,5) by (simp add: same_interval_def)
  then show ?thesis by (simp add: MaybeRotate_def)
qed

theorem MaybeRotate_once_witness:
  "\<exists>s1. MaybeRotate 90000 0 (TimeStamp 90000000000) True True example_logger = Inr s1 \<and>
    MaybeRotate 100000 0 (TimeStamp 100000000000) True True s1 = Inr s1"
proof -
  obtain s1 where s1: "MaybeRotate 90000 0 (TimeStamp 90000000000) True True example_logger = Inr s1" "lg_interval s1 = 86400"
    using MaybeRotate_ok [OF example_logger_ok(1), of 90000 0 "TimeStamp 90000000000"] example_logger_ok by auto
  have "same_interval 0 s1 100000 90000 = Inr True" using s1(2) by (simp add: same_interval_def cquot_def)
  then show ?thesis using MaybeRotate_once [OF example_logger_ok(1) _ _ s1(1)] s1(1) example_logger_ok by auto
qed

lemma find_level_names:
  "find_level (zip levelStrs levels) ''fatal'' = LFATAL" "find_level (zip levelStrs levels) ''Error'' = LERROR"
  "find_level (zip levelStrs levels) ''WARN'' = LWARN" "find_level (zip levelStrs levels) ''debug'' = LDEBUG"
  "find_level (zip levelStrs levels) ''all'' = LALL" "find_level (zip levelStrs levels) ''trace'' = LINFO"
  by code_simp+

text \<open>
  The names of the levels, in any case of letters, set the levels, except for one: the table has \<^verbatim>\<open>TRAVE\<close>, so that the name of the
  trace level is unknown and means the default, the level of information.
\<close>

theorem SetLogLevel_string_names:
  "lg_level (SetLogLevel_string ''fatal'' s) = LFATAL \<and> lg_level (SetLogLevel_string ''Error'' s) = LERROR \<and>
   lg_level (SetLogLevel_string ''WARN'' s) = LWARN \<and> lg_level (SetLogLevel_string ''debug'' s) = LDEBUG \<and>
   lg_level (SetLogLevel_string ''all'' s) = LALL \<and> lg_level (SetLogLevel_string ''trace'' s) = LINFO"
  by (simp add: SetLogLevel_string_def find_level_names)

text \<open>
  Adjusting a level adds to its number; one above the last level is taken for the last, and a number outside of the bits of the
  enumeration, everything below the first level for instance, has no level: the conversion comes before the clamping.
\<close>

theorem AdjustLogLevel_result:
  "AdjustLogLevel adjust s =
    (let n = level_num (lg_level s) + adjust in
     if n < 0 \<or> 7 < n then Inl Indeterminate else Inr (s\<lparr>lg_level := (if n = 7 then LALL else levels ! nat n)\<rparr>))"
  by (auto simp: AdjustLogLevel_def SetLogLevel_def Let_def levels_def min_def max_def)

lemma find_level_own: "find_level (zip levelStrs levels) (levelStrs ! nat (level_num l)) = l"
proof -
  have "list_all (\<lambda>l. find_level (zip levelStrs levels) (levelStrs ! nat (level_num l)) = l) levels" by code_simp
  moreover have "l \<in> set levels" by (cases l) (simp_all add: levels_def)
  ultimately show ?thesis unfolding list_all_iff by blast
qed

text \<open>
  The name that a logger gives for its level sets this level again, for all seven levels.
\<close>

theorem GetLogLevelStr_roundtrip:
  "lg_level (SetLogLevel_string (GetLogLevelStr s) s') = lg_level s"
  by (simp add: SetLogLevel_string_def GetLogLevelStr_def find_level_own)

text \<open>
  The macros: the threshold is tested before the call and in it, and the second test never decides anything. A fatal condition is
  written and the program goes on, since no level lies below the fatal one; an exit condition ends the process also when the
  threshold keeps its line from being written.
\<close>

theorem log_macros_result:
  "hlog level (\<lambda>l. Logger_Write l now timezone rstamp stamp renamed opened msg written) s =
     Logger_Write level now timezone rstamp stamp renamed opened msg written s \<and>
   FATALIF b write s = (if b then write LFATAL s else Inr s) \<and>
   (lg_level s = LFATAL \<longrightarrow> EXITIF True write s = Inr (s, Some 1))"
proof -
  have "LFATAL \<le> lg_level s" "\<not> LERROR \<le> LFATAL" by (cases "lg_level s"; simp add: less_eq_log_level_def)+
  then show ?thesis by (auto simp: hlog_def FATALIF_def EXITIF_def Logger_Write_def not_le)
qed

theorem log_macros_result_witness:
  "EXITIF True (\<lambda>l s. Inl Indeterminate) (SetLogLevel_string ''fatal'' example_logger) = Inr (SetLogLevel_string ''fatal'' example_logger, Some 1)"
proof -
  have "lg_level (SetLogLevel_string ''fatal'' example_logger) = LFATAL" by (simp add: SetLogLevel_string_def find_level_names)
  then show ?thesis
    using log_macros_result [of LFATAL 0 0 "TimeStamp 0" "TimeStamp 0" True True "[]" 0 "SetLogLevel_string ''fatal'' example_logger" True "\<lambda>l s. Inl Indeterminate"]
    by blast
qed

end
