(* ===== verification/Socket.thy ===== *)
theory Socket
  imports Net TcpConn
begin

text \<open>
  Sockets (\<^verbatim>\<open>net/socket.h\<close>, \<^verbatim>\<open>net/socket.cc\<close>) and the wrappers of system calls in \<^verbatim>\<open>net/net.cc\<close> that they use. The descriptors
  of the process are a table; an entry holds what the calls set. Whether the system accepts a call is an argument. A fatal log
  message does not stop the program, so a failure is recorded and the code goes on.

  The second part is about who closes a descriptor: a connection has a channel and a socket for the same descriptor, and both
  close it.
\<close>

section \<open>Descriptors\<close>

text \<open>Option values are kept under their level and name; 0 is the initial value of each.\<close>

record ksock =
  ks_opts :: "int \<times> int \<Rightarrow> int"
  ks_bound :: "ip4addr option"
  ks_listening :: bool
  ks_wshut :: bool
  ks_peer :: "ip4addr option"
  ks_received :: "byte list"
  ks_sent :: "byte list"

definition ksock_new :: ksock where
  "ksock_new = \<lparr>ks_opts = (\<lambda>_. 0), ks_bound = None, ks_listening = False, ks_wshut = False, ks_peer = None, ks_received = [], ks_sent = []\<rparr>"

datatype net_event = FatalBind | FatalListen | ErrorAccept | FatalAccept

record kernel =
  k_fds :: "int \<Rightarrow> ksock option"
  k_log :: "net_event list"

definition logged :: "net_event \<Rightarrow> kernel \<Rightarrow> kernel" where
  "logged e k = k\<lparr>k_log := k_log k @ [e]\<rparr>"

text \<open>A call that changes an open descriptor if the system accepts it, and its result.\<close>

definition fd_call :: "bool \<Rightarrow> int \<Rightarrow> (ksock \<Rightarrow> ksock) \<Rightarrow> kernel \<Rightarrow> int \<times> kernel" where
  "fd_call ok fd f k =
     (case k_fds k fd of
        None \<Rightarrow> (- 1, k)
      | Some s \<Rightarrow> if ok then (0, k\<lparr>k_fds := (k_fds k)(fd \<mapsto> f s)\<rparr>) else (- 1, k))"

definition setsockopt :: "bool \<Rightarrow> int \<Rightarrow> int \<Rightarrow> int \<Rightarrow> int \<Rightarrow> kernel \<Rightarrow> int \<times> kernel" where
  "setsockopt ok fd level name v = fd_call ok fd (\<lambda>s. s\<lparr>ks_opts := (ks_opts s)((level, name) := v)\<rparr>)"

definition close_fd :: "int \<Rightarrow> kernel \<Rightarrow> kernel" where
  "close_fd fd k = k\<lparr>k_fds := (k_fds k)(fd := None)\<rparr>"

abbreviation SOL_SOCKET :: int where "SOL_SOCKET \<equiv> 1"
abbreviation IPPROTO_TCP :: int where "IPPROTO_TCP \<equiv> 6"
abbreviation SO_DEBUG :: int where "SO_DEBUG \<equiv> 1"
abbreviation SO_REUSEADDR :: int where "SO_REUSEADDR \<equiv> 2"
abbreviation SO_KEEPALIVE :: int where "SO_KEEPALIVE \<equiv> 9"
abbreviation SO_REUSEPORT :: int where "SO_REUSEPORT \<equiv> 15"
abbreviation TCP_NODELAY :: int where "TCP_NODELAY \<equiv> 1"

section \<open>The wrappers\<close>

definition Net_SetReuseAddr :: "bool \<Rightarrow> int \<Rightarrow> bool \<Rightarrow> kernel \<Rightarrow> int \<times> kernel" where
  "Net_SetReuseAddr ok fd val = setsockopt ok fd SOL_SOCKET SO_REUSEADDR (of_bool val)"

definition Net_SetReusePort :: "bool \<Rightarrow> int \<Rightarrow> bool \<Rightarrow> kernel \<Rightarrow> int \<times> kernel" where
  "Net_SetReusePort ok fd val = setsockopt ok fd SOL_SOCKET SO_REUSEPORT (of_bool val)"

definition Net_SetNoDelay :: "bool \<Rightarrow> int \<Rightarrow> bool \<Rightarrow> kernel \<Rightarrow> int \<times> kernel" where
  "Net_SetNoDelay ok fd val = setsockopt ok fd SOL_SOCKET TCP_NODELAY (of_bool val)"

definition Net_SetKeepAlive :: "bool \<Rightarrow> int \<Rightarrow> bool \<Rightarrow> kernel \<Rightarrow> int \<times> kernel" where
  "Net_SetKeepAlive ok fd val = setsockopt ok fd SOL_SOCKET SO_KEEPALIVE (of_bool val)"

definition Net_Bind :: "bool \<Rightarrow> int \<Rightarrow> ip4addr \<Rightarrow> kernel \<Rightarrow> kernel" where
  "Net_Bind ok fd addr k =
     (let (ret, k) = fd_call ok fd (\<lambda>s. s\<lparr>ks_bound := Some addr\<rparr>) k in if ret < 0 then logged FatalBind k else k)"

definition Net_Listen :: "bool \<Rightarrow> int \<Rightarrow> kernel \<Rightarrow> kernel" where
  "Net_Listen ok fd k =
     (let (ret, k) = fd_call ok fd (\<lambda>s. s\<lparr>ks_listening := True\<rparr>) k in if ret < 0 then logged FatalListen k else k)"

text \<open>
  The answer to \<^verbatim>\<open>accept\<close> is a new descriptor with the address of the peer, or nothing. The cases of the \<^verbatim>\<open>switch\<close> on the error
  all fall through to the last one, so that also an empty queue counts as fatal.
\<close>

definition Net_Accept :: "(int \<times> ip4addr) option \<Rightarrow> kernel \<Rightarrow> int \<times> ip4addr option \<times> kernel" where
  "Net_Accept answer k =
     (case answer of
        Some (connfd, addr) \<Rightarrow> (connfd, Some addr, k\<lparr>k_fds := (k_fds k)(connfd \<mapsto> ksock_new)\<rparr>)
      | None \<Rightarrow> (- 1, None, logged FatalAccept (logged ErrorAccept k)))"

definition Net_Connect :: "bool \<Rightarrow> int \<Rightarrow> ip4addr \<Rightarrow> kernel \<Rightarrow> int \<times> kernel" where
  "Net_Connect ok fd addr = fd_call ok fd (\<lambda>s. s\<lparr>ks_peer := Some addr\<rparr>)"

text \<open>The system takes some of the bytes, or gives some of those that have arrived; the result is their number.\<close>

definition Net_Read :: "nat option \<Rightarrow> int \<Rightarrow> nat \<Rightarrow> kernel \<Rightarrow> int \<times> byte list \<times> kernel" where
  "Net_Read n fd count k =
     (case (k_fds k fd, n) of
        (Some s, Some n) \<Rightarrow>
          let bs = take (min n count) (ks_received s)
          in (int (length bs), bs, k\<lparr>k_fds := (k_fds k)(fd \<mapsto> s\<lparr>ks_received := drop (length bs) (ks_received s)\<rparr>)\<rparr>)
      | _ \<Rightarrow> (- 1, [], k))"

definition Net_Write :: "nat option \<Rightarrow> int \<Rightarrow> byte list \<Rightarrow> kernel \<Rightarrow> int \<times> kernel" where
  "Net_Write n fd buf k =
     (case (k_fds k fd, n) of
        (Some s, Some n) \<Rightarrow>
          let bs = take n buf in (int (length bs), k\<lparr>k_fds := (k_fds k)(fd \<mapsto> s\<lparr>ks_sent := ks_sent s @ bs\<rparr>)\<rparr>)
      | _ \<Rightarrow> (- 1, k))"

definition Net_ShutdownWrite :: "int \<Rightarrow> kernel \<Rightarrow> kernel" where
  "Net_ShutdownWrite fd k = snd (fd_call True fd (\<lambda>s. s\<lparr>ks_wshut := True\<rparr>) k)"

definition Net_Close :: "int \<Rightarrow> kernel \<Rightarrow> kernel" where
  "Net_Close = close_fd"

section \<open>The socket\<close>

text \<open>A socket is its descriptor.\<close>

record socket =
  sockfd :: int

definition Socket_BindAddress :: "bool \<Rightarrow> socket \<Rightarrow> ip4addr \<Rightarrow> kernel \<Rightarrow> kernel" where
  "Socket_BindAddress ok s addr = Net_Bind ok (sockfd s) addr"

definition Socket_Listen :: "bool \<Rightarrow> socket \<Rightarrow> kernel \<Rightarrow> kernel" where
  "Socket_Listen ok s = Net_Listen ok (sockfd s)"

text \<open>The address of the peer is an argument that only a success changes.\<close>

definition Socket_Accept :: "(int \<times> ip4addr) option \<Rightarrow> socket \<Rightarrow> ip4addr \<Rightarrow> kernel \<Rightarrow> int \<times> ip4addr \<times> kernel" where
  "Socket_Accept answer s peerAddr k =
     (let (connfd, addr, k) = Net_Accept answer k in
      (connfd, if 0 \<le> connfd then (case addr of None \<Rightarrow> peerAddr | Some a \<Rightarrow> a) else peerAddr, k))"

definition Socket_ShutdownWrite :: "socket \<Rightarrow> kernel \<Rightarrow> kernel" where
  "Socket_ShutdownWrite s = Net_ShutdownWrite (sockfd s)"

definition Socket_SetTcpNodelay :: "bool \<Rightarrow> socket \<Rightarrow> bool \<Rightarrow> kernel \<Rightarrow> kernel" where
  "Socket_SetTcpNodelay ok s on k = snd (Net_SetNoDelay ok (sockfd s) on k)"

definition Socket_SetReuseAddr :: "bool \<Rightarrow> socket \<Rightarrow> bool \<Rightarrow> kernel \<Rightarrow> kernel" where
  "Socket_SetReuseAddr ok s on k = snd (Net_SetReuseAddr ok (sockfd s) on k)"

text \<open>The flag is passed as the descriptor, and the second argument has its default value.\<close>

definition Socket_SetReusePort :: "bool \<Rightarrow> socket \<Rightarrow> bool \<Rightarrow> kernel \<Rightarrow> kernel" where
  "Socket_SetReusePort ok s on k = snd (Net_SetReusePort ok (of_bool on) True k)"

definition Socket_SetKeepAlive :: "bool \<Rightarrow> socket \<Rightarrow> bool \<Rightarrow> kernel \<Rightarrow> kernel" where
  "Socket_SetKeepAlive ok s on k = snd (Net_SetKeepAlive ok (sockfd s) on k)"

definition Socket_destruct :: "socket \<Rightarrow> kernel \<Rightarrow> kernel" where
  "Socket_destruct s = close_fd (sockfd s)"

section \<open>Statistics of a connection\<close>

text \<open>The fields of \<^verbatim>\<open>tcp_info\<close> that are printed.\<close>

record tcp_info =
  tcpi_retransmits :: "8 word"
  tcpi_rto :: "32 word"
  tcpi_ato :: "32 word"
  tcpi_snd_mss :: "32 word"
  tcpi_rcv_mss :: "32 word"
  tcpi_lost :: "32 word"
  tcpi_retrans :: "32 word"
  tcpi_rtt :: "32 word"
  tcpi_rttvar :: "32 word"
  tcpi_snd_ssthresh :: "32 word"
  tcpi_snd_cwnd :: "32 word"
  tcpi_total_retrans :: "32 word"

fun print_fields :: "(byte list \<times> nat) list \<Rightarrow> byte list" where
  "print_fields [] = []"
| "print_fields [(l, n)] = l @ ''='' @ decimal n"
| "print_fields ((l, n) # x # xs) = l @ ''='' @ decimal n @ '' '' @ print_fields (x # xs)"

definition tcp_info_fields :: "tcp_info \<Rightarrow> (byte list \<times> nat) list" where
  "tcp_info_fields t =
     [(''unrecoverd'', unat (tcpi_retransmits t)), (''rto'', unat (tcpi_rto t)), (''ato'', unat (tcpi_ato t)),
      (''snd_mss'', unat (tcpi_snd_mss t)), (''rcv_mss'', unat (tcpi_rcv_mss t)), (''lost'', unat (tcpi_lost t)),
      (''retrans'', unat (tcpi_retrans t)), (''rtt'', unat (tcpi_rtt t)), (''rttvar'', unat (tcpi_rttvar t)),
      (''sshthresh'', unat (tcpi_snd_ssthresh t)), (''cwnd'', unat (tcpi_snd_cwnd t)), (''total_retrans'', unat (tcpi_total_retrans t))]"

text \<open>The answer of \<^verbatim>\<open>getsockopt\<close> is an argument; the array is written only when there is one.\<close>

definition GetTcpInfoString :: "tcp_info option \<Rightarrow> nat \<Rightarrow> byte list option" where
  "GetTcpInfoString answer len = map_option (\<lambda>t. snprintf len (print_fields (tcp_info_fields t))) answer"

text \<open>\<open>sock\<close> is the socket of the connection, which a connection has once it is attached.\<close>

definition TcpConn_GetTcpInfo :: "tcp_info option \<Rightarrow> tcp_info \<Rightarrow> socket option \<Rightarrow> conn \<Rightarrow> (bool \<times> tcp_info) res" where
  "TcpConn_GetTcpInfo answer zero sock s =
     rbind (cxx_assert (tc_state s = KConnected)) (\<lambda>_.
     case sock of
       None \<Rightarrow> Inl NullPointer
     | Some _ \<Rightarrow> Inr (True, case answer of None \<Rightarrow> zero | Some t \<Rightarrow> t))"

definition TcpConn_GetTcpinfoString :: "tcp_info option \<Rightarrow> socket option \<Rightarrow> byte list res" where
  "TcpConn_GetTcpinfoString answer sock =
     (case sock of
        None \<Rightarrow> Inl NullPointer
      | Some _ \<Rightarrow> (case GetTcpInfoString answer 1024 of None \<Rightarrow> Inl Indeterminate | Some text \<Rightarrow> Inr text))"

section \<open>The descriptor of a connection\<close>

text \<open>
  The two objects of a connection that hold its descriptor: the channel, which forgets it when it is closed, and the
  socket. Attaching creates both; destroying the connection destroys the channel and then the socket.
\<close>

record conn_fds =
  cf_channel :: int
  cf_socket :: socket

definition Attach_fds :: "int \<Rightarrow> conn_fds" where
  "Attach_fds fd = \<lparr>cf_channel = fd, cf_socket = \<lparr>sockfd = fd\<rparr>\<rparr>"

definition Channel_Close_fd :: "conn_fds \<Rightarrow> kernel \<Rightarrow> conn_fds \<times> kernel" where
  "Channel_Close_fd c k = (if 0 \<le> cf_channel c then (c\<lparr>cf_channel := - 1\<rparr>, close_fd (cf_channel c) k) else (c, k))"

definition TcpConn_destruct_fds :: "conn_fds \<Rightarrow> kernel \<Rightarrow> kernel" where
  "TcpConn_destruct_fds c k =
     (let (c, k) = (if cf_channel c \<noteq> - 1 then Channel_Close_fd c k else (c, k)) in Socket_destruct (cf_socket c) k)"

text \<open>A new descriptor is the lowest number that is not open.\<close>

definition lowest_free :: "kernel \<Rightarrow> int \<Rightarrow> bool" where
  "lowest_free k n \<longleftrightarrow> 0 \<le> n \<and> k_fds k n = None \<and> (\<forall>m \<in> {0..<n}. k_fds k m \<noteq> None)"

section \<open>Lemmas\<close>

lemma k_fds_logged [simp]: "k_fds (logged e k) = k_fds k"
  by (simp add: logged_def)

lemma setsockopt_fds:
  "k_fds (snd (setsockopt ok fd level name v k)) =
     (k_fds k)(fd := map_option (\<lambda>s. if ok then s\<lparr>ks_opts := (ks_opts s)((level, name) := v)\<rparr> else s) (k_fds k fd))"
  by (auto simp: setsockopt_def fd_call_def split: option.splits)

lemma lowest_free_unique: "lowest_free k m \<Longrightarrow> lowest_free k n \<Longrightarrow> m = n"
  unfolding lowest_free_def by (metis atLeastLessThan_iff linorder_neqE)

lemma lowest_free_close:
  assumes "0 \<le> fd" and "\<forall>m \<in> {0..<fd}. k_fds k m \<noteq> None"
  shows "lowest_free (close_fd fd k) fd"
  using assms by (auto simp: lowest_free_def close_fd_def)

lemma print_fields_length:
  assumes "\<forall>(l, n) \<in> set fs. n < 2 ^ 32"
  shows "length (print_fields fs) \<le> (\<Sum>(l, n) \<leftarrow> fs. length l + 12)"
  using assms
proof (induction fs rule: print_fields.induct)
  case (2 l n)
  then show ?case using decimal_length [of n 9] by simp
next
  case (3 l n x xs)
  then show ?case using decimal_length [of n 9] by simp
qed simp

lemma not_isdigit_space [simp]: "\<not> isdigit (CHR '' '')"
  by (simp add: isdigit_def)

lemma print_fields_inj:
  assumes "map fst fs = map fst gs" and "print_fields fs = print_fields gs"
  shows "fs = gs"
  using assms
proof (induction fs arbitrary: gs rule: print_fields.induct)
  case (2 l n)
  then show ?case by (cases gs rule: print_fields.cases) auto
next
  case (3 l n x xs)
  then obtain m y ys where gs: "gs = (l, m) # y # ys" by (cases gs rule: print_fields.cases) auto
  then have "n = m" "print_fields (x # xs) = print_fields (y # ys)" using 3(3) by (simp_all add: decimal_field_inj)
  moreover have "map fst (x # xs) = map fst (y # ys)" using 3(2) gs by simp
  ultimately show ?case using 3(1) [of "y # ys"] gs by blast
qed simp

lemma tcp_info_text_length: "length (print_fields (tcp_info_fields t)) < 1023"
proof -
  have "unat (w :: 32 word) < 2 ^ 32" for w using unsigned_less [of w, where 'a = nat] by simp
  moreover have "unat (w :: 8 word) < 2 ^ 32" for w using unsigned_less [of w, where 'a = nat] by simp
  ultimately have "\<forall>(l, n) \<in> set (tcp_info_fields t). n < 2 ^ 32" by (simp add: tcp_info_fields_def)
  from print_fields_length [OF this] show ?thesis by (simp add: tcp_info_fields_def)
qed

section \<open>Properties\<close>

text \<open>
  C34. Both the channel and the socket of a connection close its descriptor. If nothing happens between closing the channel and
  destroying the connection, exactly that descriptor is closed. If a connection is accepted in between, it gets the number
  that has just become free, and destroying the old connection closes the new one's descriptor under it.
\<close>

theorem TcpConn_closes_twice:
  assumes "0 \<le> fd" and "\<forall>m \<in> {0..<fd}. k_fds k m \<noteq> None"
  shows "\<exists>c1 k1. Channel_Close_fd (Attach_fds fd) k = (c1, k1) \<and>
    k_fds (TcpConn_destruct_fds c1 k1) = (k_fds k)(fd := None) \<and>
    (\<forall>fd2 addr k2. lowest_free k1 fd2 \<and> Net_Accept (Some (fd2, addr)) k1 = (fd2, Some addr, k2) \<longrightarrow>
      k_fds k2 fd2 \<noteq> None \<and> k_fds (TcpConn_destruct_fds c1 k2) fd2 = None)"
proof -
  let ?c = "(Attach_fds fd)\<lparr>cf_channel := - 1\<rparr>" and ?k = "close_fd fd k"
  have 1: "Channel_Close_fd (Attach_fds fd) k = (?c, ?k)" using assms(1) by (simp add: Channel_Close_fd_def Attach_fds_def)
  have d: "TcpConn_destruct_fds ?c k' = close_fd fd k'" for k'
    by (simp add: TcpConn_destruct_fds_def Attach_fds_def Socket_destruct_def)
  have same: "fd2 = fd" if "lowest_free ?k fd2" for fd2 using lowest_free_unique [OF that lowest_free_close [OF assms]] .
  show ?thesis
    by (rule exI [of _ ?c], rule exI [of _ ?k]) (use 1 same in \<open>auto simp: d close_fd_def Net_Accept_def\<close>)
qed

definition example_kernel :: kernel where
  "example_kernel = \<lparr>k_fds = [0 \<mapsto> ksock_new, 1 \<mapsto> ksock_new, 2 \<mapsto> ksock_new, 3 \<mapsto> ksock_new], k_log = []\<rparr>"

lemma example_kernel_open: "\<forall>m \<in> {0..<3}. k_fds example_kernel m \<noteq> None"
proof -
  have "{0..<3} = {0, 1, 2 :: int}" by auto
  then show ?thesis by (simp add: example_kernel_def)
qed

theorem TcpConn_closes_twice_witness:
  "\<exists>c1 k1. Channel_Close_fd (Attach_fds 3) example_kernel = (c1, k1) \<and> lowest_free k1 3 \<and>
    k_fds (snd (snd (Net_Accept (Some (3, \<lparr>sin_port = 0, sin_addr = 1\<rparr>)) k1))) 3 \<noteq> None \<and>
    k_fds (TcpConn_destruct_fds c1 (snd (snd (Net_Accept (Some (3, \<lparr>sin_port = 0, sin_addr = 1\<rparr>)) k1)))) 3 = None"
proof -
  let ?a = "\<lparr>sin_port = 0, sin_addr = 1\<rparr>"
  obtain c1 k1 where c: "Channel_Close_fd (Attach_fds 3) example_kernel = (c1, k1)"
    and two: "\<forall>fd2 addr k2. lowest_free k1 fd2 \<and> Net_Accept (Some (fd2, addr)) k1 = (fd2, Some addr, k2) \<longrightarrow>
      k_fds k2 fd2 \<noteq> None \<and> k_fds (TcpConn_destruct_fds c1 k2) fd2 = None"
    using TcpConn_closes_twice [OF _ example_kernel_open] by auto
  have "k1 = close_fd 3 example_kernel" using c by (simp add: Channel_Close_fd_def Attach_fds_def)
  then have l: "lowest_free k1 3" using lowest_free_close [OF _ example_kernel_open] by simp
  moreover have "Net_Accept (Some (3, ?a)) k1 = (3, Some ?a, snd (snd (Net_Accept (Some (3, ?a)) k1)))" by (simp add: Net_Accept_def)
  ultimately show ?thesis using c two by blast
qed

text \<open>
  What the option setters of a socket do to an open descriptor when the system accepts them. \<^verbatim>\<open>SetReuseAddr\<close> and
  \<^verbatim>\<open>SetKeepAlive\<close> set their option and nothing else. \<^verbatim>\<open>SetTcpNodelay\<close> names the wrong level: it sets \<^verbatim>\<open>SO_DEBUG\<close> and leaves the delay
  as it was. \<^verbatim>\<open>SetReusePort\<close> leaves the socket alone and switches the option on, never off, for standard input or output.
\<close>

theorem Socket_options_result:
  assumes "k_fds k (sockfd s) = Some ks" and "1 < sockfd s"
  shows "k_fds (Socket_SetReuseAddr True s on k) = (k_fds k)(sockfd s \<mapsto> ks\<lparr>ks_opts := (ks_opts ks)((SOL_SOCKET, SO_REUSEADDR) := of_bool on)\<rparr>) \<and>
    k_fds (Socket_SetKeepAlive True s on k) = (k_fds k)(sockfd s \<mapsto> ks\<lparr>ks_opts := (ks_opts ks)((SOL_SOCKET, SO_KEEPALIVE) := of_bool on)\<rparr>) \<and>
    (\<exists>ks'. k_fds (Socket_SetTcpNodelay True s on k) = (k_fds k)(sockfd s \<mapsto> ks') \<and>
      ks_opts ks' (SOL_SOCKET, SO_DEBUG) = of_bool on \<and> ks_opts ks' (IPPROTO_TCP, TCP_NODELAY) = ks_opts ks (IPPROTO_TCP, TCP_NODELAY)) \<and>
    k_fds (Socket_SetReusePort True s on k) (sockfd s) = Some ks \<and>
    (\<forall>ks'. k_fds k (of_bool on) = Some ks' \<longrightarrow>
      k_fds (Socket_SetReusePort True s on k) (of_bool on) = Some (ks'\<lparr>ks_opts := (ks_opts ks')((SOL_SOCKET, SO_REUSEPORT) := 1)\<rparr>))"
  using assms
  by (simp add: Socket_SetReuseAddr_def Socket_SetKeepAlive_def Socket_SetTcpNodelay_def Socket_SetReusePort_def
      Net_SetReuseAddr_def Net_SetKeepAlive_def Net_SetNoDelay_def Net_SetReusePort_def setsockopt_fds) fastforce

theorem Socket_options_result_witness:
  "k_fds (Socket_SetReusePort True \<lparr>sockfd = 3\<rparr> False example_kernel) 3 = Some ksock_new \<and>
   k_fds (Socket_SetReusePort True \<lparr>sockfd = 3\<rparr> False example_kernel) 0 = Some (ksock_new\<lparr>ks_opts := (ks_opts ksock_new)((SOL_SOCKET, SO_REUSEPORT) := 1)\<rparr>)"
proof -
  have "k_fds example_kernel (sockfd \<lparr>sockfd = 3\<rparr>) = Some ksock_new" "1 < sockfd \<lparr>sockfd = 3\<rparr>" "k_fds example_kernel (of_bool False) = Some ksock_new"
    by (simp_all add: example_kernel_def)
  then show ?thesis using Socket_options_result [of example_kernel "\<lparr>sockfd = 3\<rparr>" ksock_new False] by simp
qed

text \<open>
  A failure to bind is only logged: the socket is not bound, and listening goes on as if it were. The same holds for accepting:
  whatever the reason that there is no connection, an empty queue included, the error is logged as fatal, -1 is returned and
  the address of the caller is unchanged.
\<close>

theorem Socket_failures_logged:
  assumes "k_fds k (sockfd s) = Some ks"
  shows "k_fds (Socket_Listen True s (Socket_BindAddress False s addr k)) = (k_fds k)(sockfd s \<mapsto> ks\<lparr>ks_listening := True\<rparr>) \<and>
    k_log (Socket_Listen True s (Socket_BindAddress False s addr k)) = k_log k @ [FatalBind] \<and>
    Socket_Accept None s peer k = (- 1, peer, k\<lparr>k_log := k_log k @ [ErrorAccept, FatalAccept]\<rparr>)"
  using assms
  by (simp add: Socket_Listen_def Socket_BindAddress_def Net_Listen_def Net_Bind_def fd_call_def logged_def Socket_Accept_def Net_Accept_def)

theorem Socket_failures_logged_witness:
  "k_log (Socket_Listen True \<lparr>sockfd = 3\<rparr> (Socket_BindAddress False \<lparr>sockfd = 3\<rparr> \<lparr>sin_port = 0, sin_addr = 0\<rparr> example_kernel)) = [FatalBind]"
proof -
  have "k_fds example_kernel (sockfd \<lparr>sockfd = 3\<rparr>) = Some ksock_new" by (simp add: example_kernel_def)
  from Socket_failures_logged [OF this] show ?thesis by (simp add: example_kernel_def)
qed

text \<open>
  The text of the statistics always fits its array, so that the printed text is complete and determines every number. When the
  system gives no statistics the array is returned without having been written.
\<close>

theorem TcpConn_GetTcpinfoString_result:
  "TcpConn_GetTcpinfoString (Some t) (Some sock) = Inr (print_fields (tcp_info_fields t)) \<and>
   (TcpConn_GetTcpinfoString (Some t) (Some sock) = TcpConn_GetTcpinfoString (Some u) (Some sock) \<longleftrightarrow> t = u) \<and>
   TcpConn_GetTcpinfoString None (Some sock) = Inl Indeterminate"
proof -
  have pr: "TcpConn_GetTcpinfoString (Some v) (Some sock) = Inr (print_fields (tcp_info_fields v))" for v
    using tcp_info_text_length [of v] by (simp add: TcpConn_GetTcpinfoString_def GetTcpInfoString_def snprintf_def)
  have "t = u" if "print_fields (tcp_info_fields t) = print_fields (tcp_info_fields u)"
  proof -
    have "map fst (tcp_info_fields t) = map fst (tcp_info_fields u)" by (simp add: tcp_info_fields_def)
    from print_fields_inj [OF this that] have "tcp_info_fields t = tcp_info_fields u" .
    then show ?thesis by (intro tcp_info.equality) (simp_all add: tcp_info_fields_def word_unat_eq_iff)
  qed
  then show ?thesis by (auto simp: pr) (simp add: TcpConn_GetTcpinfoString_def GetTcpInfoString_def)
qed

end
