(* ===== verification/StatusObjects.thy ===== *)
theory StatusObjects
  imports Status
begin

text \<open>
  Objects of class \<^verbatim>\<open>Status\<close> and the arrays they own (\<^verbatim>\<open>net/status.h\<close>): construction, copying, moving, assignment and
  destruction. An object is a pointer to an array, null for success; arrays live on a heap and are deleted by
  the object that owns them. The abstract view of a program is the value of each object; the operations implement it
  and keep every array owned by exactly one object, except an assignment of an object to itself.
\<close>

section \<open>Operations\<close>

record status_store =
  so_heap :: "nat \<Rightarrow> cell list option"
  so_vars :: "nat \<Rightarrow> nat option option"

definition so_empty :: status_store where
  "so_empty = \<lparr>so_heap = (\<lambda>_. None), so_vars = (\<lambda>_. None)\<rparr>"

text \<open>The pointer of an object, and the array at a pointer.\<close>

definition state_ptr :: "status_store \<Rightarrow> nat \<Rightarrow> nat option res" where
  "state_ptr s v = (case so_vars s v of None \<Rightarrow> Inl UseAfterFree | Some q \<Rightarrow> Inr q)"

definition state_at :: "(nat \<Rightarrow> cell list option) \<Rightarrow> nat option \<Rightarrow> status res" where
  "state_at h q = (case q of None \<Rightarrow> Inr None | Some p \<Rightarrow> (case h p of None \<Rightarrow> Inl UseAfterFree | Some cs \<Rightarrow> Inr (Some cs)))"

text \<open>\<^verbatim>\<open>delete[]\<close> of a null pointer does nothing.\<close>

definition delete_state :: "nat option \<Rightarrow> (nat \<Rightarrow> cell list option) \<Rightarrow> (nat \<Rightarrow> cell list option) res" where
  "delete_state q h = (case q of None \<Rightarrow> Inr h | Some p \<Rightarrow> (case h p of None \<Rightarrow> Inl UseAfterFree | Some cs \<Rightarrow> Inr (h(p := None))))"

text \<open>Storing a new status: \<open>alloc\<close> chooses the address of the array.\<close>

type_synonym allocator = "(nat \<Rightarrow> cell list option) \<Rightarrow> nat"

definition new_state :: "allocator \<Rightarrow> status \<Rightarrow> (nat \<Rightarrow> cell list option) \<Rightarrow> nat option \<times> (nat \<Rightarrow> cell list option)" where
  "new_state alloc st h = (case st of None \<Rightarrow> (None, h) | Some cs \<Rightarrow> (Some (alloc h), h(alloc h \<mapsto> cs)))"

definition clone_state :: "allocator \<Rightarrow> nat option \<Rightarrow> (nat \<Rightarrow> cell list option) \<Rightarrow> (nat option \<times> (nat \<Rightarrow> cell list option)) res" where
  "clone_state alloc q h = rbind (state_at h q) (\<lambda>st. rbind (Status_Clone st) (\<lambda>st. Inr (new_state alloc st h)))"

datatype status_op =
    Construct nat status
  | CopyConstruct nat nat
  | CopyAssign nat nat
  | MoveConstruct nat nat
  | MoveAssign nat nat
  | Destroy nat

fun status_exec :: "allocator \<Rightarrow> status_op \<Rightarrow> status_store \<Rightarrow> status_store res" where
  "status_exec alloc (Construct v st) s =
     (let (q, h) = new_state alloc st (so_heap s) in Inr (s\<lparr>so_heap := h, so_vars := (so_vars s)(v \<mapsto> q)\<rparr>))"
| "status_exec alloc (CopyConstruct v w) s =
     rbind (state_ptr s w) (\<lambda>qw.
     rbind (clone_state alloc qw (so_heap s)) (\<lambda>(q, h).
     Inr (s\<lparr>so_heap := h, so_vars := (so_vars s)(v \<mapsto> q)\<rparr>)))"
| "status_exec alloc (CopyAssign v w) s =
     rbind (state_ptr s v) (\<lambda>qv.
     rbind (delete_state qv (so_heap s)) (\<lambda>h.
     rbind (state_ptr s w) (\<lambda>qw.
     rbind (clone_state alloc qw h) (\<lambda>(q, h).
     Inr (s\<lparr>so_heap := h, so_vars := (so_vars s)(v \<mapsto> q)\<rparr>)))))"
| "status_exec alloc (MoveConstruct v w) s =
     rbind (state_ptr s w) (\<lambda>qw. Inr (s\<lparr>so_vars := (so_vars s)(v \<mapsto> qw, w \<mapsto> None)\<rparr>))"
| "status_exec alloc (MoveAssign v w) s =
     rbind (state_ptr s v) (\<lambda>qv.
     rbind (delete_state qv (so_heap s)) (\<lambda>h.
     rbind (state_ptr s w) (\<lambda>qw.
     Inr (s\<lparr>so_heap := h, so_vars := (so_vars s)(v \<mapsto> qw, w \<mapsto> None)\<rparr>))))"
| "status_exec alloc (Destroy v) s =
     rbind (state_ptr s v) (\<lambda>qv.
     rbind (delete_state qv (so_heap s)) (\<lambda>h.
     Inr (s\<lparr>so_heap := h, so_vars := (so_vars s)(v := None)\<rparr>)))"

section \<open>The values of the objects\<close>

type_synonym status_values = "nat \<Rightarrow> status option"

definition status_abs :: "status_store \<Rightarrow> status_values" where
  "status_abs s v = map_option (\<lambda>q. case q of None \<Rightarrow> None | Some p \<Rightarrow> so_heap s p) (so_vars s v)"

text \<open>What each operation does to the values, and when it may be used: an object that is constructed is not alive yet, the others are.\<close>

fun status_spec :: "status_op \<Rightarrow> status_values \<Rightarrow> status_values" where
  "status_spec (Construct v st) a = a(v \<mapsto> st)"
| "status_spec (CopyConstruct v w) a = a(v := a w)"
| "status_spec (CopyAssign v w) a = a(v := a w)"
| "status_spec (MoveConstruct v w) a = a(v := a w, w \<mapsto> None)"
| "status_spec (MoveAssign v w) a = a(v := a w, w \<mapsto> None)"
| "status_spec (Destroy v) a = a(v := None)"

definition status_wf :: "status \<Rightarrow> bool" where
  "status_wf st \<longleftrightarrow> (case st of None \<Rightarrow> True | Some cs \<Rightarrow>
     (\<exists>sz code xs. cs = map Some (bytes32 sz @ bytes32 code) @ xs \<and> unat sz = 8 + length xs))"

fun status_pre :: "status_op \<Rightarrow> status_values \<Rightarrow> bool" where
  "status_pre (Construct v st) a \<longleftrightarrow> a v = None \<and> status_wf st"
| "status_pre (CopyConstruct v w) a \<longleftrightarrow> a v = None \<and> a w \<noteq> None"
| "status_pre (CopyAssign v w) a \<longleftrightarrow> a v \<noteq> None \<and> a w \<noteq> None \<and> v \<noteq> w"
| "status_pre (MoveConstruct v w) a \<longleftrightarrow> a v = None \<and> a w \<noteq> None"
| "status_pre (MoveAssign v w) a \<longleftrightarrow> a v \<noteq> None \<and> a w \<noteq> None"
| "status_pre (Destroy v) a \<longleftrightarrow> a v \<noteq> None"

section \<open>Ownership\<close>

text \<open>Every array is a well-formed status with exactly one owner.\<close>

definition owns :: "status_store \<Rightarrow> nat \<Rightarrow> nat \<Rightarrow> bool" where
  "owns s v p \<longleftrightarrow> so_vars s v = Some (Some p)"

definition store_ok :: "status_store \<Rightarrow> bool" where
  "store_ok s \<longleftrightarrow>
     (\<forall>v p. owns s v p \<longrightarrow> so_heap s p \<noteq> None \<and> status_wf (so_heap s p)) \<and>
     (\<forall>v w p. owns s v p \<and> owns s w p \<longrightarrow> v = w) \<and>
     (\<forall>p. so_heap s p \<noteq> None \<longrightarrow> (\<exists>v. owns s v p)) \<and> finite (dom (so_heap s))"

lemma store_okD:
  assumes "store_ok s"
  shows "owns s v p \<Longrightarrow> so_heap s p \<noteq> None" "owns s v p \<Longrightarrow> status_wf (so_heap s p)"
    "owns s v p \<Longrightarrow> owns s w p \<Longrightarrow> v = w" "so_heap s p \<noteq> None \<Longrightarrow> \<exists>v. owns s v p"
    "finite (dom (so_heap s))"
  using assms unfolding store_ok_def by blast+

lemma store_okI:
  assumes "\<And>v p. owns s v p \<Longrightarrow> so_heap s p \<noteq> None \<and> status_wf (so_heap s p)"
    and "\<And>v w p. owns s v p \<Longrightarrow> owns s w p \<Longrightarrow> v = w"
    and "\<And>p. so_heap s p \<noteq> None \<Longrightarrow> \<exists>v. owns s v p" and "finite (dom (so_heap s))"
  shows "store_ok s"
  using assms unfolding store_ok_def by blast

text \<open>\<^verbatim>\<open>new\<close> gives an address that is not in use.\<close>

definition alloc_fresh :: "allocator \<Rightarrow> bool" where
  "alloc_fresh alloc \<longleftrightarrow> (\<forall>h. finite (dom h) \<longrightarrow> h (alloc h) = None)"

lemma Clone_wf: "status_wf st \<Longrightarrow> Status_Clone st = Inr st"
proof (cases st)
  case None
  then show ?thesis by (simp add: Status_Clone_def)
next
  case (Some cs)
  assume "status_wf st"
  then show ?thesis using Some status_reads(3) [of st] by (auto simp: status_wf_def)
qed

lemma abs_value: "store_ok s \<Longrightarrow> so_vars s v = Some q \<Longrightarrow> state_at (so_heap s) q = Inr (the (status_abs s v)) \<and> status_wf (the (status_abs s v))"
proof (cases q)
  case None
  assume "so_vars s v = Some q"
  then show ?thesis using None by (simp add: state_at_def status_abs_def status_wf_def)
next
  case (Some p)
  assume ok: "store_ok s" and v: "so_vars s v = Some q"
  then have "owns s v p" using Some by (simp add: owns_def)
  then obtain cs where "so_heap s p = Some cs" "status_wf (Some cs)" using store_okD(1,2) [OF ok] by fastforce
  then show ?thesis using v Some by (simp add: state_at_def status_abs_def)
qed

lemma delete_ok:
  assumes ok: "store_ok s" and v: "so_vars s v = Some q"
  shows "\<exists>h. delete_state q (so_heap s) = Inr h \<and> store_ok (s\<lparr>so_heap := h, so_vars := (so_vars s)(v \<mapsto> None)\<rparr>) \<and>
    status_abs (s\<lparr>so_heap := h, so_vars := (so_vars s)(v \<mapsto> None)\<rparr>) = (status_abs s)(v \<mapsto> None) \<and>
    (\<forall>p. h p = (if owns s v p then None else so_heap s p))"
proof (cases q)
  case None
  then have "(so_vars s)(v \<mapsto> None) = so_vars s" using v by auto
  moreover have "status_abs s v = Some None" using None v by (simp add: status_abs_def)
  then have "(status_abs s)(v \<mapsto> None) = status_abs s" by auto
  ultimately show ?thesis using None ok v by (simp add: delete_state_def owns_def)
next
  case (Some p)
  then have o: "owns s v p" using v by (simp add: owns_def)
  then obtain cs where cs: "so_heap s p = Some cs" using store_okD(1) [OF ok] by blast
  let ?s = "s\<lparr>so_heap := (so_heap s)(p := None), so_vars := (so_vars s)(v \<mapsto> None)\<rparr>"
  have own: "owns ?s w r \<longleftrightarrow> owns s w r \<and> w \<noteq> v" for w r by (simp add: owns_def)
  have only: "owns s v r \<longleftrightarrow> r = p" for r using v Some by (auto simp: owns_def)
  have other: "r \<noteq> p" if "owns s w r" "w \<noteq> v" for w r using that o store_okD(3) [OF ok] by blast
  have "store_ok ?s"
  proof (rule store_okI)
    show "so_heap ?s r \<noteq> None \<and> status_wf (so_heap ?s r)" if "owns ?s w r" for w r
      using that other [of w r] store_okD(1,2) [OF ok, of w r] by (simp add: own)
    show "u = w" if "owns ?s u r" "owns ?s w r" for u w r using that store_okD(3) [OF ok] unfolding own by blast
    show "\<exists>w. owns ?s w r" if "so_heap ?s r \<noteq> None" for r
      using that store_okD(4) [OF ok, of r] only [of r] unfolding own by (auto split: if_splits)
  qed (use store_okD(5) [OF ok] in simp)
  moreover have "status_abs ?s w = ((status_abs s)(v \<mapsto> None)) w" for w
    using other [of w] by (cases "so_vars s w") (auto simp: status_abs_def owns_def split: option.splits)
  then have "status_abs ?s = (status_abs s)(v \<mapsto> None)" by blast
  moreover have "\<forall>r. ((so_heap s)(p := None)) r = (if owns s v r then None else so_heap s r)" using only by simp
  ultimately show ?thesis using cs Some by (simp add: delete_state_def)
qed

lemma put_ok:
  assumes ok: "store_ok s" and v: "\<forall>r. \<not> owns s v r" and fr: "alloc_fresh alloc" and wf: "status_wf st" and n: "new_state alloc st (so_heap s) = (q, h)"
  shows "store_ok (s\<lparr>so_heap := h, so_vars := (so_vars s)(v \<mapsto> q)\<rparr>) \<and>
    status_abs (s\<lparr>so_heap := h, so_vars := (so_vars s)(v \<mapsto> q)\<rparr>) = (status_abs s)(v \<mapsto> st)"
proof -
  let ?s = "s\<lparr>so_heap := h, so_vars := (so_vars s)(v \<mapsto> q)\<rparr>"
  define p where "p = alloc (so_heap s)"
  have p: "so_heap s p = None" using fr store_okD(5) [OF ok] by (simp add: alloc_fresh_def p_def)
  have np: "\<not> owns s w p" for w using store_okD(1) [OF ok, of w p] p by blast
  have q: "q = (if st = None then None else Some p)" "h = (if st = None then so_heap s else (so_heap s)(p := st))"
    using n by (auto simp: new_state_def p_def split: option.splits)
  have own: "owns ?s w r \<longleftrightarrow> (w = v \<and> st \<noteq> None \<and> r = p) \<or> (w \<noteq> v \<and> owns s w r)" for w r
    using v by (auto simp: owns_def q)
  have "store_ok ?s"
  proof (rule store_okI)
    show "so_heap ?s r \<noteq> None \<and> status_wf (so_heap ?s r)" if "owns ?s w r" for w r
      using that [unfolded own] wf store_okD(1,2) [OF ok, of w r] np [of w] by (auto simp: q)
    show "u = w" if "owns ?s u r" "owns ?s w r" for u w r using that store_okD(3) [OF ok] np unfolding own by blast
    show "\<exists>w. owns ?s w r" if r: "so_heap ?s r \<noteq> None" for r
    proof (cases "r = p \<and> st \<noteq> None")
      case False
      then have "so_heap s r \<noteq> None" using r p by (auto simp: q split: if_splits)
      then obtain w where "owns s w r" using store_okD(4) [OF ok] by blast
      then show ?thesis using v unfolding own by blast
    qed (auto simp: own)
  qed (use store_okD(5) [OF ok] in \<open>simp add: q\<close>)
  moreover have "status_abs ?s w = ((status_abs s)(v \<mapsto> st)) w" for w
    using np [of w] by (cases "so_vars s w") (auto simp: status_abs_def owns_def q split: option.splits)
  ultimately show ?thesis by blast
qed

lemma move_ok:
  assumes ok: "store_ok s" and v: "\<forall>r. \<not> owns s v r" and w: "so_vars s w = Some q"
  shows "store_ok (s\<lparr>so_vars := (so_vars s)(v \<mapsto> q, w \<mapsto> None)\<rparr>) \<and>
    status_abs (s\<lparr>so_vars := (so_vars s)(v \<mapsto> q, w \<mapsto> None)\<rparr>) = (status_abs s)(v := status_abs s w, w \<mapsto> None)"
proof (cases "v = w")
  case True
  then have "q = None" using v w by (cases q) (auto simp: owns_def)
  then have "(so_vars s)(v \<mapsto> q, w \<mapsto> None) = so_vars s" "(status_abs s)(v := status_abs s w, w \<mapsto> None) = status_abs s"
    using True w by (auto simp: status_abs_def)
  then show ?thesis using ok by simp
next
  case False
  let ?s = "s\<lparr>so_vars := (so_vars s)(v \<mapsto> q, w \<mapsto> None)\<rparr>"
  have own: "owns ?s u r \<longleftrightarrow> (u = v \<and> owns s w r) \<or> (u \<noteq> v \<and> u \<noteq> w \<and> owns s u r)" for u r
    using False w by (auto simp: owns_def)
  have "store_ok ?s"
  proof (rule store_okI)
    show "so_heap ?s r \<noteq> None \<and> status_wf (so_heap ?s r)" if "owns ?s u r" for u r
      using that store_okD(1,2) [OF ok] unfolding own by auto
    show "t = u" if "owns ?s t r" "owns ?s u r" for t u r using that store_okD(3) [OF ok] unfolding own by blast
    show "\<exists>u. owns ?s u r" if "so_heap ?s r \<noteq> None" for r using that store_okD(4) [OF ok, of r] v unfolding own by (cases "owns s w r") auto
  qed (use store_okD(5) [OF ok] in simp)
  moreover have "status_abs ?s u = ((status_abs s)(v := status_abs s w, w \<mapsto> None)) u" for u
    using False w by (simp add: status_abs_def)
  ultimately show ?thesis by blast
qed

lemma status_abs_iff: "status_abs s v = None \<longleftrightarrow> so_vars s v = None"
  by (simp add: status_abs_def)

lemma clone_ok:
  assumes ok: "store_ok s" and w: "so_vars s w = Some q" and v: "\<forall>r. \<not> owns s v r" and fr: "alloc_fresh alloc"
  shows "\<exists>q' h. clone_state alloc q (so_heap s) = Inr (q', h) \<and> store_ok (s\<lparr>so_heap := h, so_vars := (so_vars s)(v \<mapsto> q')\<rparr>) \<and>
    status_abs (s\<lparr>so_heap := h, so_vars := (so_vars s)(v \<mapsto> q')\<rparr>) = (status_abs s)(v := status_abs s w)"
proof -
  let ?st = "the (status_abs s w)"
  have st: "state_at (so_heap s) q = Inr ?st" "status_wf ?st" using abs_value [OF ok w] by simp_all
  obtain q' h where n: "new_state alloc ?st (so_heap s) = (q', h)" by (cases "new_state alloc ?st (so_heap s)")
  have "clone_state alloc q (so_heap s) = Inr (q', h)" using st n Clone_wf [OF st(2)] by (simp add: clone_state_def)
  moreover have "Some ?st = status_abs s w" using w by (simp add: status_abs_def)
  ultimately show ?thesis using put_ok [OF ok v fr st(2) n] by metis
qed

text \<open>The end of an object: its state is deleted and the variable is gone.\<close>

lemma destroy_ok:
  assumes ok: "store_ok s" and v: "so_vars s v = Some qv"
  shows "\<exists>h. delete_state qv (so_heap s) = Inr h \<and> store_ok (s\<lparr>so_heap := h, so_vars := (so_vars s)(v := None)\<rparr>) \<and>
    status_abs (s\<lparr>so_heap := h, so_vars := (so_vars s)(v := None)\<rparr>) = (status_abs s)(v := None)"
proof -
  obtain h where h: "delete_state qv (so_heap s) = Inr h" "store_ok (s\<lparr>so_heap := h, so_vars := (so_vars s)(v \<mapsto> None)\<rparr>)"
    "status_abs (s\<lparr>so_heap := h, so_vars := (so_vars s)(v \<mapsto> None)\<rparr>) = (status_abs s)(v \<mapsto> None)"
    using delete_ok [OF ok v] by blast
  let ?s = "s\<lparr>so_heap := h, so_vars := (so_vars s)(v \<mapsto> None)\<rparr>" and ?s' = "s\<lparr>so_heap := h, so_vars := (so_vars s)(v := None)\<rparr>"
  have own: "owns ?s' u r \<longleftrightarrow> owns ?s u r" for u r by (auto simp: owns_def)
  have "store_ok ?s'" using h(2) unfolding store_ok_def own by simp
  moreover have "status_abs ?s' u = ((status_abs s)(v := None)) u" for u
    using fun_cong [OF h(3), of u] by (cases "u = v") (simp_all add: status_abs_def cong: option.case_cong)
  ultimately show ?thesis using h(1) by blast
qed

lemma status_exec_ok:
  assumes ok: "store_ok s" and pre: "status_pre x (status_abs s)" and fr: "alloc_fresh alloc"
  shows "\<exists>s'. status_exec alloc x s = Inr s' \<and> store_ok s' \<and> status_abs s' = status_spec x (status_abs s)"
proof (cases x)
  case (Construct v st)
  obtain q h where n: "new_state alloc st (so_heap s) = (q, h)" by (cases "new_state alloc st (so_heap s)")
  have "\<forall>r. \<not> owns s v r" "status_wf st" using pre Construct by (auto simp: status_abs_iff owns_def)
  from put_ok [OF ok this(1) fr this(2) n] show ?thesis using n Construct by simp
next
  case (CopyConstruct v w)
  obtain q where w: "so_vars s w = Some q" using pre CopyConstruct by (auto simp: status_abs_iff)
  have "\<forall>r. \<not> owns s v r" using pre CopyConstruct by (auto simp: status_abs_iff owns_def)
  from clone_ok [OF ok w this fr] show ?thesis using w CopyConstruct by (auto simp: state_ptr_def)
next
  case (CopyAssign v w)
  obtain qv qw where v: "so_vars s v = Some qv" and w: "so_vars s w = Some qw" and ne: "v \<noteq> w" using pre CopyAssign by (auto simp: status_abs_iff)
  obtain h where h: "delete_state qv (so_heap s) = Inr h" "store_ok (s\<lparr>so_heap := h, so_vars := (so_vars s)(v \<mapsto> None)\<rparr>)"
    "status_abs (s\<lparr>so_heap := h, so_vars := (so_vars s)(v \<mapsto> None)\<rparr>) = (status_abs s)(v \<mapsto> None)"
    using delete_ok [OF ok v] by blast
  let ?s = "s\<lparr>so_heap := h, so_vars := (so_vars s)(v \<mapsto> None)\<rparr>"
  have w': "so_vars ?s w = Some qw" and free: "\<forall>r. \<not> owns ?s v r" using w ne by (auto simp: owns_def)
  show ?thesis using clone_ok [OF h(2) w' free fr] h v w ne CopyAssign by (auto simp: state_ptr_def)
next
  case (MoveConstruct v w)
  obtain q where w: "so_vars s w = Some q" using pre MoveConstruct by (auto simp: status_abs_iff)
  have "\<forall>r. \<not> owns s v r" using pre MoveConstruct by (auto simp: status_abs_iff owns_def)
  from move_ok [OF ok this w] show ?thesis using w MoveConstruct by (simp add: state_ptr_def)
next
  case (MoveAssign v w)
  obtain qv qw where v: "so_vars s v = Some qv" and w: "so_vars s w = Some qw" using pre MoveAssign by (auto simp: status_abs_iff)
  obtain h where h: "delete_state qv (so_heap s) = Inr h" "store_ok (s\<lparr>so_heap := h, so_vars := (so_vars s)(v \<mapsto> None)\<rparr>)"
    "status_abs (s\<lparr>so_heap := h, so_vars := (so_vars s)(v \<mapsto> None)\<rparr>) = (status_abs s)(v \<mapsto> None)"
    using delete_ok [OF ok v] by blast
  let ?s = "s\<lparr>so_heap := h, so_vars := (so_vars s)(v \<mapsto> None)\<rparr>"
  show ?thesis
  proof (cases "v = w")
    case True
    then show ?thesis using h v w MoveAssign by (auto simp: state_ptr_def)
  next
    case False
    then have w': "so_vars ?s w = Some qw" and free: "\<forall>r. \<not> owns ?s v r" using w by (auto simp: owns_def)
    show ?thesis using move_ok [OF h(2) free w'] h v w False MoveAssign by (simp add: state_ptr_def)
  qed
next
  case (Destroy v)
  then obtain qv where v: "so_vars s v = Some qv" using pre by (auto simp: status_abs_iff)
  show ?thesis using destroy_ok [OF ok v] v Destroy by (auto simp: state_ptr_def)
qed

fun status_pres :: "status_op list \<Rightarrow> status_values \<Rightarrow> bool" where
  "status_pres [] a \<longleftrightarrow> True"
| "status_pres (x # xs) a \<longleftrightarrow> status_pre x a \<and> status_pres xs (status_spec x a)"

section \<open>Properties\<close>

text \<open>
  C21. Any sequence of constructions, copies, moves, assignments and destructions in which objects are used while they are alive, and
  none is copied onto itself, runs without a double deletion and without touching a deleted array; every object then has
  the value it should have, and when all objects are destroyed, so are all arrays. An object may be moved onto itself.
\<close>

theorem Status_objects_refine:
  assumes "alloc_fresh alloc" and "status_pres xs (\<lambda>_. None)"
  shows "\<exists>s. rfold (status_exec alloc) xs so_empty = Inr s \<and> status_abs s = fold status_spec xs (\<lambda>_. None) \<and>
    ((\<forall>v. status_abs s v = None) \<longrightarrow> so_heap s = (\<lambda>_. None))"
proof -
  have run: "\<exists>s'. rfold (status_exec alloc) xs s = Inr s' \<and> store_ok s' \<and> status_abs s' = fold status_spec xs (status_abs s)"
    if "store_ok s" "status_pres xs (status_abs s)" for s
    using that
  proof (induction xs arbitrary: s)
    case (Cons x xs)
    then obtain s1 where "status_exec alloc x s = Inr s1" "store_ok s1" "status_abs s1 = status_spec x (status_abs s)"
      using status_exec_ok [OF Cons.prems(1) _ assms(1)] by auto
    then show ?case using Cons.IH [of s1] Cons.prems(2) by simp
  qed simp
  have "store_ok so_empty" "status_abs so_empty = (\<lambda>_. None)" by (auto simp: so_empty_def store_ok_def owns_def status_abs_def)
  then obtain s where s: "rfold (status_exec alloc) xs so_empty = Inr s" "store_ok s" "status_abs s = fold status_spec xs (\<lambda>_. None)"
    using run [of so_empty] assms(2) by auto
  have "so_heap s p = None" if "\<forall>v. status_abs s v = None" for p
    using store_okD(4) [OF s(2), of p] that unfolding status_abs_iff owns_def by fastforce
  then show ?thesis using s(1,3) by blast
qed

definition example_alloc :: allocator where
  "example_alloc h = (if dom h = {} then 0 else Suc (Max (dom h)))"

lemma example_alloc_fresh: "alloc_fresh example_alloc"
  unfolding alloc_fresh_def
proof (intro allI impI)
  fix h :: "nat \<Rightarrow> cell list option"
  assume fin: "finite (dom h)"
  show "h (example_alloc h) = None"
  proof (rule ccontr)
    assume "h (example_alloc h) \<noteq> None"
    then have "example_alloc h \<in> dom h" by blast
    moreover from this have "example_alloc h \<le> Max (dom h)" by (rule Max_ge [OF fin])
    ultimately show False by (auto simp: example_alloc_def simp del: dom_eq_empty_conv split: if_splits)
  qed
qed

definition example_status :: status where
  "example_status = Some (map Some (bytes32 8 @ bytes32 2))"

lemma example_status_wf: "status_wf example_status"
  unfolding status_wf_def example_status_def option.case
  by (rule exI [of _ 8], rule exI [of _ 2], rule exI [of _ "[]"]) simp

theorem Status_objects_refine_witness:
  "\<exists>s. rfold (status_exec example_alloc) [Construct 0 example_status, CopyConstruct 1 0, MoveAssign 0 1, Destroy 1] so_empty = Inr s \<and>
    status_abs s 0 = Some example_status \<and> status_abs s 1 = None"
proof -
  let ?xs = "[Construct 0 example_status, CopyConstruct 1 0, MoveAssign 0 1, Destroy 1]"
  have "status_pres ?xs (\<lambda>_. None)" using example_status_wf by simp
  from Status_objects_refine [OF example_alloc_fresh this] show ?thesis by auto
qed

text \<open>
  Copying an error onto itself deletes its array and then reads it: the program uses freed memory.
\<close>

theorem Status_self_assignment:
  assumes "store_ok s" and "owns s v p"
  shows "status_exec alloc (CopyAssign v v) s = Inl UseAfterFree"
proof -
  have v: "so_vars s v = Some (Some p)" using assms(2) by (simp add: owns_def)
  obtain h where h: "delete_state (Some p) (so_heap s) = Inr h" "\<forall>r. h r = (if owns s v r then None else so_heap s r)"
    using delete_ok [OF assms(1) v] by blast
  then have "h p = None" using assms(2) by simp
  then show ?thesis using v h(1) by (simp add: state_ptr_def clone_state_def state_at_def)
qed

definition example_store :: status_store where
  "example_store = \<lparr>so_heap = (\<lambda>p. if p = 7 then example_status else None), so_vars = [0 \<mapsto> Some 7]\<rparr>"

lemma example_store_owns: "owns example_store v p \<longleftrightarrow> v = 0 \<and> p = 7"
  by (auto simp: owns_def example_store_def)

lemma example_store_ok: "store_ok example_store"
proof (rule store_okI)
  have "dom (so_heap example_store) \<subseteq> {7}" by (auto simp: example_store_def split: if_splits)
  then show "finite (dom (so_heap example_store))" by (rule finite_subset) simp
qed (auto simp: example_store_owns, auto simp: example_store_def example_status_wf, simp add: example_status_def, auto split: if_splits)

theorem Status_self_assignment_witness:
  "status_exec example_alloc (CopyAssign 0 0) example_store = Inl UseAfterFree"
  using Status_self_assignment [OF example_store_ok] by (simp add: example_store_owns)

end
