(* ===== verification/ThreadExit.thy ===== *)
theory ThreadExit
  imports Threads Loop
begin

text \<open>
  The end of a loop thread: the destructor of \<^verbatim>\<open>EventLoopThread\<close> (\<^verbatim>\<open>net/eventloop_thread.cc\<close>) interleaved with the thread that runs the
  loop. The loop object lives on the stack of that thread, and the destructor reaches it through a pointer that the thread
  clears when the loop has returned; leaving \<^verbatim>\<open>RunInThread\<close> destroys the loop. \<^verbatim>\<open>EventLoop::Quit\<close> sets the flag and then wakes the
  loop, two accesses to the loop object with a point between them at which the other thread may run. A failed assertion in
  either thread ends the program. The starting handshake is in \<open>Threads\<close>; here the loop runs.
\<close>

section \<open>State\<close>

text \<open>
  Where the loop thread is: in the poll, handling events, behind the return of \<^verbatim>\<open>Loop\<close>, behind clearing the pointer, behind the
  destruction of the loop.
\<close>

datatype looper_pc = Polling | Busy | LoopLeft | Nulled | Finished

text \<open>Where the destructor is: before it, with the pointer read, between the two halves of \<^verbatim>\<open>Quit\<close>, before \<^verbatim>\<open>join\<close>, behind it.\<close>

datatype dtor_pc = DIdle | DRead | DQuitSet | DJoin | DDone

record exiting =
  xt_looper :: looper_pc
  xt_ptr :: bool
  xt_quit :: bool
  xt_wake :: bool
  xt_dtor :: dtor_pc
  xt_abort :: "cxx_error option"

definition xt_running :: exiting where
  "xt_running = \<lparr>xt_looper = Polling, xt_ptr = True, xt_quit = False, xt_wake = False, xt_dtor = DIdle, xt_abort = None\<rparr>"

section \<open>Steps\<close>

text \<open>The destructor of a started thread.\<close>

definition dtor_test :: "exiting \<Rightarrow> exiting" where
  "dtor_test s = s\<lparr>xt_dtor := (if xt_ptr s then DRead else DJoin)\<rparr>"

text \<open>The two halves of \<^verbatim>\<open>Quit\<close>, called in another thread than the loop's. A loop that was destroyed cannot be used any more.\<close>

definition quit_set :: "exiting \<Rightarrow> exiting" where
  "quit_set s =
     (if xt_looper s = Finished then s\<lparr>xt_abort := Some UseAfterFree\<rparr>
      else if xt_quit s then s\<lparr>xt_abort := Some AssertFailed\<rparr>
      else s\<lparr>xt_quit := True, xt_dtor := DQuitSet\<rparr>)"

definition quit_wake :: "exiting \<Rightarrow> exiting" where
  "quit_wake s =
     (if xt_looper s = Finished then s\<lparr>xt_abort := Some UseAfterFree\<rparr> else s\<lparr>xt_wake := True, xt_dtor := DJoin\<rparr>)"

text \<open>
  The loop tests the flag after every round; the poll also ends by itself after its timeout. The last step is the destruction of
  the loop \<open>l\<close>, in its own thread \<open>tid\<close>.
\<close>

definition looper_next :: "int \<Rightarrow> loop \<Rightarrow> exiting \<Rightarrow> exiting" where
  "looper_next tid l s =
     (case xt_looper s of
        Polling \<Rightarrow> s\<lparr>xt_looper := Busy, xt_wake := False\<rparr>
      | Busy \<Rightarrow> s\<lparr>xt_looper := (if xt_quit s then LoopLeft else Polling)\<rparr>
      | LoopLeft \<Rightarrow> s\<lparr>xt_looper := Nulled, xt_ptr := False\<rparr>
      | Nulled \<Rightarrow>
          (case EventLoop_destruct tid l of
             Inl e \<Rightarrow> s\<lparr>xt_abort := Some e\<rparr>
           | Inr _ \<Rightarrow> s\<lparr>xt_looper := Finished\<rparr>)
      | Finished \<Rightarrow> s)"

text \<open>
  Whatever its callbacks have done to the poller, a loop still has its wake-up channel, which only the constructor and the destructor
  touch.
\<close>

definition loop_intact :: "int \<Rightarrow> loop \<Rightarrow> bool" where
  "loop_intact tid l \<longleftrightarrow> lo_tid l = tid \<and> ep_wf (lo_poller l) \<and> ep_tid (lo_poller l) = tid \<and>
     lo_wake_channel l \<in> ep_registered (lo_poller l)"

text \<open>\<open>self\<close> tells whether callbacks of the loop may call \<^verbatim>\<open>Quit\<close> themselves. Nothing happens after the program has been aborted.\<close>

inductive xt_step :: "int \<Rightarrow> bool \<Rightarrow> exiting \<Rightarrow> exiting \<Rightarrow> bool" for tid self where
  looper: "xt_abort s = None \<Longrightarrow> xt_looper s \<noteq> Finished \<Longrightarrow> loop_intact tid l \<Longrightarrow> xt_step tid self s (looper_next tid l s)"
| callback_quit: "xt_abort s = None \<Longrightarrow> self \<Longrightarrow> xt_looper s = Busy \<Longrightarrow> \<not> xt_quit s \<Longrightarrow> xt_step tid self s (s\<lparr>xt_quit := True\<rparr>)"
| test: "xt_abort s = None \<Longrightarrow> xt_dtor s = DIdle \<Longrightarrow> xt_step tid self s (dtor_test s)"
| quit: "xt_abort s = None \<Longrightarrow> xt_dtor s = DRead \<Longrightarrow> xt_step tid self s (quit_set s)"
| wake: "xt_abort s = None \<Longrightarrow> xt_dtor s = DQuitSet \<Longrightarrow> xt_step tid self s (quit_wake s)"
| join: "xt_abort s = None \<Longrightarrow> xt_dtor s = DJoin \<Longrightarrow> xt_looper s = Finished \<Longrightarrow> xt_step tid self s (s\<lparr>xt_dtor := DDone\<rparr>)"

inductive_cases xt_stepE: "xt_step tid self s s'"

inductive xt_reach :: "int \<Rightarrow> bool \<Rightarrow> exiting \<Rightarrow> bool" for tid self where
  start: "xt_reach tid self xt_running"
| step: "xt_reach tid self s \<Longrightarrow> xt_step tid self s s' \<Longrightarrow> xt_reach tid self s'"

section \<open>Invariant\<close>

text \<open>Destroying an intact loop fails: its wake-up channel is taken off the poller twice.\<close>

lemma destruct_intact: "loop_intact tid l \<Longrightarrow> EventLoop_destruct tid l = Inl AssertFailed"
  unfolding loop_intact_def by (blast intro: destruct_fails)

lemma intact_loop: "\<exists>l. loop_intact tid l"
  using EventLoop_construct_ok [of 3 4 1 2 tid 0] unfolding loop_intact_def by fastforce

fun looper_rank :: "looper_pc \<Rightarrow> nat" where
  "looper_rank Polling = 4" | "looper_rank Busy = 3" | "looper_rank LoopLeft = 2" | "looper_rank Nulled = 1" | "looper_rank Finished = 0"

fun dtor_rank :: "dtor_pc \<Rightarrow> nat" where
  "dtor_rank DIdle = 4" | "dtor_rank DRead = 3" | "dtor_rank DQuitSet = 2" | "dtor_rank DJoin = 1" | "dtor_rank DDone = 0"

definition xt_rank :: "exiting \<Rightarrow> nat" where
  "xt_rank s = (if xt_abort s = None then 1 + looper_rank (xt_looper s) + dtor_rank (xt_dtor s) else 0)"

definition xt_inv :: "exiting \<Rightarrow> bool" where
  "xt_inv s \<longleftrightarrow>
     (xt_ptr s \<longleftrightarrow> xt_looper s \<in> {Polling, Busy, LoopLeft}) \<and> xt_looper s \<noteq> Finished \<and> xt_dtor s \<noteq> DDone \<and>
     (xt_looper s \<in> {LoopLeft, Nulled} \<longrightarrow> xt_quit s) \<and> (xt_dtor s \<in> {DQuitSet, DJoin} \<longrightarrow> xt_quit s) \<and>
     xt_abort s \<in> {None, Some AssertFailed}"

lemma xt_step_inv: "xt_step tid self s s' \<Longrightarrow> xt_inv s \<Longrightarrow> xt_inv s'"
proof (induction rule: xt_step.induct)
  case (looper s l)
  then show ?case by (cases "xt_looper s") (auto simp: xt_inv_def looper_next_def destruct_intact)
next
  case (test s)
  then show ?case by (cases "xt_looper s") (auto simp: xt_inv_def dtor_test_def)
qed (auto simp: xt_inv_def quit_set_def quit_wake_def)

lemma xt_reach_inv: "xt_reach tid self s \<Longrightarrow> xt_inv s"
proof (induction rule: xt_reach.induct)
  case start
  then show ?case by (simp add: xt_inv_def xt_running_def)
next
  case (step s s')
  then show ?case using xt_step_inv by blast
qed

lemma xt_step_quit: "xt_step tid self s s' \<Longrightarrow> xt_quit s \<Longrightarrow> xt_quit s' \<and> xt_rank s' < xt_rank s"
proof (induction rule: xt_step.induct)
  case (looper s l)
  then show ?case by (cases "xt_looper s") (auto simp: xt_rank_def looper_next_def split: sum.splits)
qed (auto simp: xt_rank_def dtor_test_def quit_set_def quit_wake_def)

lemma xt_step_enabled:
  assumes "xt_inv s" and "xt_abort s = None"
  shows "\<exists>s'. xt_step tid self s s'"
proof -
  obtain l where "loop_intact tid l" using intact_loop by blast
  then show ?thesis using xt_step.looper [OF assms(2)] assms(1) unfolding xt_inv_def by blast
qed

section \<open>Properties\<close>

text \<open>
  C29. A loop thread cannot be destroyed: the program is aborted first. In no interleaving does the destructor return; the two
  accesses to the loop before \<^verbatim>\<open>join\<close> set the flag, from then on every step of either thread brings the end nearer, and some step is
  possible until the end, which is a failed assertion, at the latest the one in the destructor of the loop, which the thread runs when
  the loop has returned. Nothing ever uses a destroyed loop.
\<close>

theorem EventLoopThread_destruct_aborts:
  assumes "xt_reach tid self s"
  shows "xt_dtor s \<noteq> DDone \<and> (xt_dtor s \<in> {DQuitSet, DJoin} \<longrightarrow> xt_quit s) \<and>
    (xt_quit s \<longrightarrow> (\<forall>s'. xt_step tid self s s' \<longrightarrow> xt_quit s' \<and> xt_rank s' < xt_rank s)) \<and>
    (if xt_abort s = None then \<exists>s'. xt_step tid self s s' else xt_abort s = Some AssertFailed \<and> (\<forall>s'. \<not> xt_step tid self s s'))"
proof -
  have inv: "xt_inv s" using xt_reach_inv [OF assms] .
  have "\<not> xt_step tid self s s'" if "xt_abort s \<noteq> None" for s' using that by (auto elim: xt_stepE)
  then show ?thesis using inv xt_step_enabled [OF inv] xt_step_quit by (auto simp: xt_inv_def)
qed

text \<open>The loop has returned while the destructor waits for the thread.\<close>

definition loop_returned :: exiting where
  "loop_returned = \<lparr>xt_looper = Nulled, xt_ptr = False, xt_quit = True, xt_wake = True, xt_dtor = DJoin, xt_abort = None\<rparr>"

lemma loop_returned_reach: "xt_reach 9 False loop_returned"
proof -
  obtain l where l: "loop_intact 9 l" using intact_loop by blast
  note looper = xt_reach.step [OF _ xt_step.looper [OF _ _ l]]
  let ?r = "\<lambda>pc q w d. xt_running\<lparr>xt_looper := pc, xt_quit := q, xt_wake := w, xt_dtor := d\<rparr>"
  have 1: "xt_reach 9 False (?r Busy False False DIdle)"
    using looper [OF xt_reach.start] by (simp add: looper_next_def xt_running_def)
  have 2: "xt_reach 9 False (?r Busy False False DRead)"
    using xt_reach.step [OF 1 xt_step.test] by (simp add: dtor_test_def xt_running_def)
  have 3: "xt_reach 9 False (?r Busy True False DQuitSet)"
    using xt_reach.step [OF 2 xt_step.quit] by (simp add: quit_set_def xt_running_def)
  have 4: "xt_reach 9 False (?r Busy True True DJoin)"
    using xt_reach.step [OF 3 xt_step.wake] by (simp add: quit_wake_def xt_running_def)
  have 5: "xt_reach 9 False (?r LoopLeft True True DJoin)"
    using looper [OF 4] by (simp add: looper_next_def xt_running_def)
  show ?thesis using looper [OF 5] by (simp add: looper_next_def xt_running_def loop_returned_def)
qed

theorem EventLoopThread_destruct_aborts_witness:
  "\<exists>s'. xt_step 9 False loop_returned s' \<and> xt_rank s' < xt_rank loop_returned"
  using EventLoopThread_destruct_aborts [OF loop_returned_reach] by (auto simp: loop_returned_def)

text \<open>
  If a callback has ended the loop before, the destructor may also fail the assertion in \<^verbatim>\<open>Quit\<close>: it finds the pointer still set and
  the flag set already.
\<close>

theorem EventLoopThread_quit_races: "\<exists>s. xt_reach 9 True s \<and> xt_dtor s = DRead \<and> xt_abort s = Some AssertFailed"
proof -
  obtain l where l: "loop_intact 9 l" using intact_loop by blast
  let ?r = "\<lambda>q d a. xt_running\<lparr>xt_looper := Busy, xt_quit := q, xt_dtor := d, xt_abort := a\<rparr>"
  have 1: "xt_reach 9 True (?r False DIdle None)"
    using xt_reach.step [OF xt_reach.start xt_step.looper [OF _ _ l]] by (simp add: looper_next_def xt_running_def)
  have 2: "xt_reach 9 True (?r True DIdle None)"
    using xt_reach.step [OF 1 xt_step.callback_quit] by (simp add: xt_running_def)
  have 3: "xt_reach 9 True (?r True DRead None)"
    using xt_reach.step [OF 2 xt_step.test] by (simp add: dtor_test_def xt_running_def)
  have "xt_reach 9 True (?r True DRead (Some AssertFailed))"
    using xt_reach.step [OF 3 xt_step.quit] by (simp add: quit_set_def xt_running_def)
  then show ?thesis by (intro exI [of _ "?r True DRead (Some AssertFailed)"]) simp
qed

end
