(* ===== verification/ProcessSelf.thy ===== *)
theory ProcessSelf
  imports Process Calendar
begin

text \<open>
  What a process reports about itself (\<^verbatim>\<open>net/processinfo.cc\<close>) beyond its name and threads, and the helpers of \<^verbatim>\<open>net/util.cc\<close> on local time
  and descriptor flags. The answers of the system calls are arguments: \<open>None\<close> is a failed call.
\<close>

section \<open>Operations\<close>

text \<open>The files of \<^verbatim>\<open>/proc\<close> are read into a fresh string; the status of the reading is ignored.\<close>

definition proc_file :: "byte list \<Rightarrow> sys_error option \<Rightarrow> (sys_error + byte list) list \<Rightarrow> byte list res" where
  "proc_file name opening rs = rbind (File_GetContent name opening rs []) (\<lambda>(st, result). Inr result)"

definition procStat :: "sys_error option \<Rightarrow> (sys_error + byte list) list \<Rightarrow> byte list res" where
  "procStat opening rs = proc_file ''/proc/self/stat'' opening rs"

definition procStatus :: "sys_error option \<Rightarrow> (sys_error + byte list) list \<Rightarrow> byte list res" where
  "procStatus opening rs = proc_file ''/proc/self/status'' opening rs"

definition thread_stat_name :: "int \<Rightarrow> byte list" where
  "thread_stat_name tid = snprintf 64 (''/proc/self/task/'' @ signed_decimal tid @ ''/stat'')"

definition threadStat :: "int \<Rightarrow> sys_error option \<Rightarrow> (sys_error + byte list) list \<Rightarrow> byte list res" where
  "threadStat tid opening rs = proc_file (thread_stat_name tid) opening rs"

definition pidString :: "int \<Rightarrow> byte list res" where
  "pidString pid = Util_Format (signed_decimal pid)"

definition userName :: "byte list option \<Rightarrow> byte list" where
  "userName entry = (case entry of Some pw_name \<Rightarrow> cstr pw_name | None \<Rightarrow> ''unknowuser'')"

text \<open>
  \<^verbatim>\<open>gethostname\<close> writes the name and a NUL if they fit into the 256 bytes of the array, and otherwise the first 256 bytes; the last byte of
  the array is then overwritten by a NUL.
\<close>

definition hostName :: "byte list option \<Rightarrow> byte list" where
  "hostName name = (case name of Some n \<Rightarrow> cstr (take 255 (n @ [CHR 0x00])) | None \<Rightarrow> ''unknowhost'')"

text \<open>\<^verbatim>\<open>readlink\<close> cuts the path to the size of the array.\<close>

definition exePath :: "byte list option \<Rightarrow> byte list" where
  "exePath target = (case target of Some path \<Rightarrow> take 1024 path | None \<Rightarrow> [])"

text \<open>Seconds are ticks divided by the ticks of a second, in doubles; the quotient by zero is not a number.\<close>

definition double_div :: "(rat \<Rightarrow> rat) \<Rightarrow> int \<Rightarrow> int \<Rightarrow> rat option" where
  "double_div rnd a b = (if b = 0 then None else Some (rnd (of_int a / of_int b)))"

definition cpuTime :: "(rat \<Rightarrow> rat) \<Rightarrow> int \<Rightarrow> (int \<times> int) option \<Rightarrow> rat option \<times> rat option" where
  "cpuTime rnd clockTicks tms =
     (case tms of
        Some (utime, stime) \<Rightarrow> (double_div rnd utime clockTicks, double_div rnd stime clockTicks)
      | None \<Rightarrow> (Some 0, Some 0))"

text \<open>The broken-down local time is the system's.\<close>

definition ReadableTime :: "(int \<Rightarrow> tm) \<Rightarrow> int \<Rightarrow> byte list res" where
  "ReadableTime localtime t = Util_Format (date_text (localtime t))"

text \<open>\<^verbatim>\<open>Fcntl\<close> asks for the flags and returns no value.\<close>

definition Util_Fcntl :: "int \<Rightarrow> int \<Rightarrow> int res" where
  "Util_Fcntl fd flag = Inl Indeterminate"

section \<open>Lemmas\<close>

text \<open>Local times as the system gives them: every field an \<^verbatim>\<open>int\<close>.\<close>

definition tm_range :: "tm \<Rightarrow> bool" where
  "tm_range t \<longleftrightarrow> (\<forall>i \<in> {tm_year t, tm_mon t, tm_mday t, tm_hour t, tm_min t, tm_sec t}. - (2 ^ 31) \<le> i \<and> i < 2 ^ 31)"

lemma pad_signed_int: "- (2 ^ 31) \<le> i \<Longrightarrow> i < 2 ^ 31 + 2000 \<Longrightarrow> w \<le> 10 \<Longrightarrow> length (pad_signed w i) \<le> 11"
  by (rule order_trans [OF pad_signed_length_le [of i 9 w]]) auto

lemma date_text_int: "tm_range t \<Longrightarrow> length (date_text t) \<le> 71"
  using pad_signed_int [of "tm_year t + 1900" 4] pad_signed_int [of "tm_mon t + 1" 2] pad_signed_int [of "tm_mday t" 2]
    pad_signed_int [of "tm_hour t" 2] pad_signed_int [of "tm_min t" 2] pad_signed_int [of "tm_sec t" 2]
  by (simp add: tm_range_def date_text_def)

section \<open>Properties\<close>

text \<open>
  The text of a local time is never cut and determines every field of the time, year to second.
\<close>

theorem ReadableTime_inj:
  assumes "tm_range (localtime t)" and "tm_range (localtime u)"
  shows "(\<exists>s. ReadableTime localtime t = Inr s) \<and> (ReadableTime localtime t = ReadableTime localtime u \<longleftrightarrow> localtime t = localtime u)"
proof -
  have r: "ReadableTime localtime v = Inr (date_text (localtime v))" if "tm_range (localtime v)" for v
    using date_text_int [OF that] by (simp add: ReadableTime_def Util_Format_def)
  have "localtime t = localtime u" if "date_text (localtime t) = date_text (localtime u)"
    using date_text_inj [of "localtime t" "[]" "localtime u" "[]"] that by simp
  then show ?thesis using r [OF assms(1)] r [OF assms(2)] by auto
qed

theorem ReadableTime_inj_witness: "ReadableTime gmtime 0 \<noteq> ReadableTime gmtime 1"
proof -
  have "tm_range (gmtime 0)" "tm_range (gmtime 1)" "gmtime 0 \<noteq> gmtime 1" by code_simp+
  then show ?thesis using ReadableTime_inj [of gmtime 0 1] by blast
qed

text \<open>
  Every thread has a statistics file of its own name, which is never cut: the names for two thread numbers are different.
\<close>

theorem thread_stat_name_inj:
  assumes "\<bar>i\<bar> < 2 ^ 63" and "\<bar>j\<bar> < 2 ^ 63"
  shows "thread_stat_name i = ''/proc/self/task/'' @ signed_decimal i @ ''/stat'' \<and> (thread_stat_name i = thread_stat_name j \<longleftrightarrow> i = j)"
proof -
  have n: "thread_stat_name k = ''/proc/self/task/'' @ signed_decimal k @ ''/stat''" if "\<bar>k\<bar> < 2 ^ 63" for k
    using signed_decimal_length [of k 18] that by (simp add: thread_stat_name_def snprintf_def)
  show ?thesis using n [OF assms(1)] n [OF assms(2)] signed_decimal_field_inj [of "CHR ''/''" i "''stat''" j "''stat''"] by auto
qed

theorem thread_stat_name_inj_witness: "thread_stat_name 7 \<noteq> thread_stat_name (- 7)"
proof -
  have "\<bar>7 :: int\<bar> < 2 ^ 63" "\<bar>- 7 :: int\<bar> < 2 ^ 63" "(7 :: int) \<noteq> - 7" by simp_all
  then show ?thesis using thread_stat_name_inj [of 7 "- 7"] by blast
qed

text \<open>
  A host name of up to 254 bytes and a path of up to 1024 bytes are reported as they are, longer ones cut.
\<close>

theorem hostName_exePath_result:
  assumes "CHR 0x00 \<notin> set name"
  shows "hostName (Some name) = take 255 name \<and> exePath (Some path) = take 1024 path"
proof -
  have "cstr (take 255 (name @ [CHR 0x00])) = take 255 name"
  proof (cases "length name < 255")
    case True
    then have "take 255 (name @ [CHR 0x00]) = name @ [CHR 0x00]" by simp
    then show ?thesis using True cstr_terminated [OF assms, of "[]"] by simp
  next
    case False
    then have "CHR 0x00 \<notin> set (take 255 name)" using assms by (meson in_set_takeD)
    then show ?thesis using False by (auto simp: cstr_def takeWhile_eq_all_conv)
  qed
  then show ?thesis by (simp add: hostName_def exePath_def)
qed

theorem hostName_exePath_result_witness: "hostName (Some ''node1'') = ''node1''"
  using hostName_exePath_result [of "''node1''" "[]"] by simp

end
