(* ===== verification/ChannelText.thy ===== *)
theory ChannelText
  imports Channel Util
begin

text \<open>
  The descriptions of channels and poller operations in the log (\<^verbatim>\<open>net/channel.cc\<close>, \<^verbatim>\<open>net/epollpoller.cc\<close>).
\<close>

section \<open>Operations\<close>

text \<open>A list of words, each with the flag that includes it.\<close>

fun flag_text :: "(bool \<times> byte list) list \<Rightarrow> byte list" where
  "flag_text [] = []"
| "flag_text ((b, w) # xs) = (if b then w else []) @ flag_text xs"

definition event_flags :: "16 word \<Rightarrow> bool list" where
  "event_flags ev =
     [has_event ev POLLIN, has_event ev POLLPRI, has_event ev POLLOUT, has_event ev POLLHUP, has_event ev POLLRDHUP,
      has_event ev POLLERR, has_event ev POLLNVAL]"

definition event_words :: "byte list list" where
  "event_words = [''IN '', ''PRI '', ''OUT '', ''HUP'', ''RDHUP'', ''ERR'', ''NVAL'']"

text \<open>The 64-bit number of the channel is printed as an \<^verbatim>\<open>int\<close>.\<close>

definition events_text :: "channel \<Rightarrow> int \<Rightarrow> 16 word \<Rightarrow> byte list res" where
  "events_text c fd ev =
     rbind (Util_Format (''channel id = '' @ signed_decimal (to_int32 (ch_id c)) @ '', fd = '' @ signed_decimal fd)) (\<lambda>result.
     Inr (result @ flag_text (zip (event_flags ev) event_words)))"

definition Channel_REventsToString :: "channel \<Rightarrow> byte list res" where
  "Channel_REventsToString c = events_text c (ch_fd c) (ch_revents c)"

definition Channel_EventsToString :: "channel \<Rightarrow> byte list res" where
  "Channel_EventsToString c = events_text c (ch_fd c) (ch_events c)"

definition OperationToString :: "int \<Rightarrow> byte list res" where
  "OperationToString x =
     (if x = 1 then Inr ''ADD'' else if x = 2 then Inr ''DEL'' else if x = 3 then Inr ''MOD'' else Inl AssertFailed)"

section \<open>Lemmas\<close>

text \<open>Words with different first letters can be told apart.\<close>

lemma flag_text_hd:
  assumes "[] \<notin> set ws" and "length bs = length ws"
  shows "flag_text (zip bs ws) = [] \<or> hd (flag_text (zip bs ws)) \<in> hd ` set ws"
  using assms(2,1) by (induction bs ws rule: list_induct2) auto

lemma flag_text_inj:
  assumes "[] \<notin> set ws" and "distinct (map hd ws)" and "length bs = length ws" and "length cs = length ws"
    and "flag_text (zip bs ws) = flag_text (zip cs ws)"
  shows "bs = cs"
  using assms
proof (induction ws arbitrary: bs cs)
  case (Cons w ws)
  obtain b bs' c cs' where bc: "bs = b # bs'" "cs = c # cs'" "length bs' = length ws" "length cs' = length ws"
    using Cons.prems(3,4) by (cases bs; cases cs) auto
  obtain x v where w: "w = x # v" using Cons.prems(1) by (cases w) auto
  have hd: "flag_text (zip ds ws) \<noteq> w @ r" if "length ds = length ws" for ds r
    using flag_text_hd [of ws ds] that Cons.prems(1,2) w by auto
  have "b = c" using Cons.prems(5) hd [OF bc(3)] not_sym [OF hd [OF bc(4)]] bc(1,2) by (cases b; cases c) auto
  then have "flag_text (zip bs' ws) = flag_text (zip cs' ws)" using Cons.prems(5) bc(1,2) by simp
  then have "bs' = cs'" using Cons.IH [OF _ _ bc(3,4)] Cons.prems(1,2) by simp
  then show ?case using bc \<open>b = c\<close> by simp
qed simp

lemma event_words: "[] \<notin> set event_words" "distinct (map hd event_words)" "length (event_flags ev) = length event_words"
  "\<forall>x \<in> hd ` set event_words. \<not> isdigit x"
  by (simp_all add: event_words_def event_flags_def isdigit_def)

lemma not_isdigit_comma [simp]: "\<not> isdigit (CHR '','')"
  by (simp add: isdigit_def)

section \<open>Properties\<close>

text \<open>
  The description of a channel in the log is always complete and determines the number of the channel (its low 32 bits), its
  descriptor and every event of the mask, although some words are not separated.
\<close>

theorem Channel_text_inj:
  assumes "\<bar>ch_fd c\<bar> < 2 ^ 31" and "\<bar>ch_fd d\<bar> < 2 ^ 31"
  shows "(\<exists>s. Channel_REventsToString c = Inr s) \<and>
    (Channel_REventsToString c = Channel_REventsToString d \<longleftrightarrow>
      to_int32 (ch_id c) = to_int32 (ch_id d) \<and> ch_fd c = ch_fd d \<and> event_flags (ch_revents c) = event_flags (ch_revents d))"
proof -
  let ?t = "\<lambda>c. flag_text (zip (event_flags (ch_revents c)) event_words)"
  have s32: "\<bar>to_int32 i\<bar> < 10 ^ Suc 9" for i
    using sint_range_size [of "word_of_int i :: int32"] by (auto simp: to_int32_def word_size)
  have text_eq: "Channel_REventsToString c = Inr ((''channel id = '' @ signed_decimal (to_int32 (ch_id c)) @ CHR '','' # '' fd = '' @ signed_decimal (ch_fd c)) @ ?t c)"
    if "\<bar>ch_fd c\<bar> < 2 ^ 31" for c
    using signed_decimal_length [OF s32, of "ch_id c"] signed_decimal_length [of "ch_fd c" 9] that
    by (simp add: Channel_REventsToString_def events_text_def Util_Format_def)
  have tail: "?t c = [] \<or> \<not> isdigit (hd (?t c))" for c
    using flag_text_hd [OF event_words(1,3), of "ch_revents c"] event_words(4) by blast
  have flags: "?t c = ?t d \<longleftrightarrow> event_flags (ch_revents c) = event_flags (ch_revents d)"
    using flag_text_inj [OF event_words(1,2,3,3), of "ch_revents c" "ch_revents d"] by auto
  show ?thesis
    unfolding text_eq [OF assms(1)] text_eq [OF assms(2)]
    using signed_decimal_tail_inj [OF tail tail, of "ch_fd c" c "ch_fd d" d] flags
    by (auto simp: signed_decimal_field_inj)
qed

theorem Channel_text_inj_witness:
  "Channel_REventsToString (SetREvents 0x10 (Channel_new 5 0 0)) \<noteq> Channel_REventsToString (SetREvents 0x2000 (Channel_new 5 0 0))"
proof -
  have "event_flags 0x10 \<noteq> event_flags 0x2000" by code_simp
  then show ?thesis
    using Channel_text_inj [of "SetREvents 0x10 (Channel_new 5 0 0)" "SetREvents 0x2000 (Channel_new 5 0 0)"]
    by (simp add: SetREvents_def Channel_new_def)
qed

end
