(* ===== verification/RaftNode.thy ===== *)
theory RaftNode
  imports Raft Rpc
begin

text \<open>
  Raft nodes over RPC (\<^verbatim>\<open>raft/node.cc\<close>, \<^verbatim>\<open>raft/raft_service.cc\<close>, \<^verbatim>\<open>raft/raft_peer.h\<close>, \<^verbatim>\<open>raft/raft_peer.cc\<close>): a node registers its handlers as
  an RPC service and calls the other nodes through stubs. Connections of a node are served by its own loop, so the handler of
  a vote runs before the closure that sends its response.

  The generated code for the messages of \<^verbatim>\<open>raft.proto\<close> is an argument: serialising a message, and parsing, which may fail.
\<close>

section \<open>Operations\<close>

definition raft_service_name :: "byte list" where
  "raft_service_name = ''jraft.RaftService''"

text \<open>The handlers of the node for the other two calls are empty: they leave the node and the response alone.\<close>

definition Node_PreVote :: "vote_request \<Rightarrow> vote_response \<Rightarrow> raft \<Rightarrow> raft \<times> vote_response" where
  "Node_PreVote request response r = (r, response)"

definition Node_AppendEntries :: "append_request \<Rightarrow> append_response \<Rightarrow> raft \<Rightarrow> raft \<times> append_response" where
  "Node_AppendEntries request response r = (r, response)"

definition Node_OnAppendEntries ::
    "(log_entry \<Rightarrow> byte list) \<Rightarrow> (nat \<Rightarrow> 32 word) \<Rightarrow> append_request \<Rightarrow> append_response \<Rightarrow> raft \<Rightarrow> raft res" where
  "Node_OnAppendEntries serialize pads request reply r = Raft_OnAppendEntries serialize pads request reply r"

text \<open>New messages have the default value in every field.\<close>

definition vote_response_new :: vote_response where
  "vote_response_new = \<lparr>rs_term = 0, rs_votegranted = False, rs_peerid = 0\<rparr>"

definition append_response_new :: append_response where
  "append_response_new = \<lparr>as_term = 0, as_success = None, as_peerid = 0\<rparr>"

text \<open>The service runs the node's handler and then the closure of the call, which takes the response as it is then.\<close>

definition RaftServiceImpl_PreVote :: "(vote_response \<Rightarrow> raft \<Rightarrow> 'a) \<Rightarrow> vote_request \<Rightarrow> raft \<Rightarrow> 'a" where
  "RaftServiceImpl_PreVote closure request r = (case Node_PreVote request vote_response_new r of (r, response) \<Rightarrow> closure response r)"

definition RaftServiceImpl_RequestVote :: "(vote_response \<Rightarrow> raft \<Rightarrow> 'a) \<Rightarrow> vote_request \<Rightarrow> raft \<Rightarrow> 'a res" where
  "RaftServiceImpl_RequestVote closure request r =
     rbind (Node_RequestVote request r) (\<lambda>(r, response). Inr (closure response r))"

definition RaftServiceImpl_AppendEntries :: "(append_response \<Rightarrow> raft \<Rightarrow> 'a) \<Rightarrow> append_request \<Rightarrow> raft \<Rightarrow> 'a" where
  "RaftServiceImpl_AppendEntries closure request r = (case Node_AppendEntries request append_response_new r of (r, response) \<Rightarrow> closure response r)"

text \<open>
  A call of a method of the service that arrives at node \<open>r\<close> with the serialised request \<open>rq\<close>: the node afterwards, and the serialised response that
  the closure sends. A request that cannot be parsed is dropped.
\<close>

definition RaftService_CallMethod :: "(vote_response \<Rightarrow> byte list) \<Rightarrow> (byte list \<Rightarrow> vote_request option) \<Rightarrow> (append_response \<Rightarrow> byte list) \<Rightarrow>
    (byte list \<Rightarrow> append_request option) \<Rightarrow> byte list \<Rightarrow> byte list \<Rightarrow> raft \<Rightarrow> (raft \<times> byte list option) res" where
  "RaftService_CallMethod serR parseQ serA parseA method rq r =
     (if method = ''PreVote'' then
        (case parseQ rq of
           None \<Rightarrow> Inr (r, None)
         | Some request \<Rightarrow> Inr (RaftServiceImpl_PreVote (\<lambda>response r. (r, Some (serR response))) request r))
      else if method = ''RequestVote'' then
        (case parseQ rq of
           None \<Rightarrow> Inr (r, None)
         | Some request \<Rightarrow> RaftServiceImpl_RequestVote (\<lambda>response r. (r, Some (serR response))) request r)
      else if method = ''AppendEntries'' then
        (case parseA rq of
           None \<Rightarrow> Inr (r, None)
         | Some request \<Rightarrow> Inr (RaftServiceImpl_AppendEntries (\<lambda>response r. (r, Some (serA response))) request r))
      else Inr (r, None))"

text \<open>
  What the RPC channel of node \<open>r\<close> sees of it: the methods, each with the response it gives. The channel does not know the node, whose state
  after the call is the first part of the result above. A handler that goes wrong gives no answer.
\<close>

definition raft_service :: "(vote_response \<Rightarrow> byte list) \<Rightarrow> (byte list \<Rightarrow> vote_request option) \<Rightarrow> (append_response \<Rightarrow> byte list) \<Rightarrow>
    (byte list \<Rightarrow> append_request option) \<Rightarrow> raft \<Rightarrow> service" where
  "raft_service serR parseQ serA parseA r method =
     (if method \<in> {''PreVote'', ''RequestVote'', ''AppendEntries''}
      then Some (\<lambda>rq. case RaftService_CallMethod serR parseQ serA parseA method rq r of Inl e \<Rightarrow> None | Inr (r', response) \<Rightarrow> response)
      else None)"

text \<open>The constructor of a node registers the service; every peer gets a connection with a channel that hands over what it reads.\<close>

definition Node_server :: "service \<Rightarrow> rpc_server" where
  "Node_server service = RegisterService raft_service_name service \<lparr>sv_services = Map.empty\<rparr>"

definition RaftPeer_new :: "int64 \<Rightarrow> conn \<Rightarrow> rpc_channel" where
  "RaftPeer_new garbage conn = RpcChannel_new garbage (conn\<lparr>tc_readcb := True\<rparr>)"

text \<open>\<open>done\<close> is the label of the closure that the call allocates.\<close>

definition RaftPeer_RequestVote :: "(vote_request \<Rightarrow> byte list) \<Rightarrow> (rpc_message \<Rightarrow> byte list) \<Rightarrow> wres list \<Rightarrow> nat \<Rightarrow> vote_request \<Rightarrow>
    rpc_channel \<Rightarrow> (rpc_channel \<times> wres list) res" where
  "RaftPeer_RequestVote serQ ser ws closure request c =
     RpcChannel_CallMethod ser ws raft_service_name ''RequestVote'' (serQ request) \<lparr>oc_response = True, oc_done = closure\<rparr> c"

text \<open>
  The closure gets the response object that the channel has parsed into, whether or not the bytes could be parsed: \<open>parseR\<close> is what the
  object holds then. It also dereferences the pointer to the request that the call was made with, before it hands both to the node; \<open>None\<close> is a request
  that is gone.
\<close>

definition RaftPeer_OnRequestVote :: "(byte list \<Rightarrow> vote_response) \<Rightarrow> vote_request option \<Rightarrow> byte list \<Rightarrow> raft \<Rightarrow> raft res" where
  "RaftPeer_OnRequestVote parseR request response r =
     (case request of None \<Rightarrow> Inl UseAfterFree | Some _ \<Rightarrow> Node_OnRequestVote (parseR response) r)"

section \<open>Properties\<close>

text \<open>
  The way of a vote. A candidate's request travels as one frame to the channel of another node; that channel runs the node's handler, which
  leaves the voter in the state \<open>r'\<close>, and sends its reply back; the candidate's channel then runs the closure of the call. If the
  request of the candidate still exists, the closure counts exactly this vote. It does not: \<^verbatim>\<open>Raft::StartRequestVote\<close> has returned by
  then and the request was its local variable, so the closure dereferences a dangling pointer.
\<close>

theorem Raft_vote_over_rpc:
  assumes law: "\<forall>m. parse (ser m) = m" "\<forall>q. parseQ (serQ q) = Some q" "\<forall>v. parseR (serR v) = v"
    and conns: "ready (rc_conn c)" "ready conn"
    and vote: "Node_RequestVote request r = Inr (r', reply)"
    and fit: "length (ser (request_message (rc_id c) raft_service_name ''RequestVote'' (serQ request))) \<le> 4092"
      "length (ser (response_message (rc_id c) (serR reply))) \<le> 4092" "4096 \<le> n"
  shows "RaftService_CallMethod serR parseQ serA parseA ''RequestVote'' (serQ request) r = Inr (r', Some (serR reply)) \<and>
    (\<exists>c1 q. RaftPeer_RequestVote serQ ser [Wrote n] closure request c = Inr (c1, []) \<and> tc_wire (rc_conn c1) = tc_wire (rc_conn c) @ q \<and>
    (\<forall>b. buffer_wf b \<and> content b = map Some q \<longrightarrow>
      (\<exists>d1 a. RpcChannel_OnMessage ser parse [Wrote n]
          (RpcServer_OnConnection garbage (conn\<lparr>tc_input := b\<rparr>) (Node_server (raft_service serR parseQ serA parseA r))) = Inr (d1, []) \<and>
        tc_wire (rc_conn d1) = tc_wire conn @ a \<and>
        (\<forall>b'. buffer_wf b' \<and> content b' = map Some a \<longrightarrow>
          (\<exists>c2 response. RpcChannel_OnMessage ser parse [] (c1\<lparr>rc_conn := (rc_conn c1)\<lparr>tc_input := b'\<rparr>\<rparr>) = Inr (c2, []) \<and>
            rc_ran c2 = rc_ran c @ [(closure, response)] \<and>
            (\<forall>cand. RaftPeer_OnRequestVote parseR (Some request) response cand = Raft_OnRequestVote reply cand \<and>
              RaftPeer_OnRequestVote parseR None response cand = Inl UseAfterFree))))))"
proof -
  let ?call = "\<lparr>oc_response = True, oc_done = closure\<rparr>" and ?svc = "raft_service serR parseQ serA parseA r"
  let ?d = "RpcServer_OnConnection garbage conn (Node_server ?svc)"
  have d: "ready (rc_conn ?d)" "rc_services ?d = Some [raft_service_name \<mapsto> ?svc]"
    "?d\<lparr>rc_conn := (rc_conn ?d)\<lparr>tc_input := b\<rparr>\<rparr> = RpcServer_OnConnection garbage (conn\<lparr>tc_input := b\<rparr>) (Node_server ?svc)" for b
    using conns(2) by (simp_all add: RpcServer_OnConnection_def SetServices_def RpcChannel_new_def Node_server_def RegisterService_def
        ready_def conn_channel_def cong: option.case_cong)
  have w: "tc_wire (rc_conn ?d) = tc_wire conn" by (simp add: RpcServer_OnConnection_def SetServices_def RpcChannel_new_def)
  obtain run where run: "?svc ''RequestVote'' = Some run" "run (serQ request) = Some (serR reply)"
    using law(2) vote by (simp add: raft_service_def RaftService_CallMethod_def RaftServiceImpl_RequestVote_def)
  have svs: "[raft_service_name \<mapsto> ?svc] raft_service_name = Some ?svc" and call: "oc_response ?call" by simp_all
  have handler: "RaftService_CallMethod serR parseQ serA parseA ''RequestVote'' (serQ request) r = Inr (r', Some (serR reply))"
    using law(2) vote by (simp add: RaftService_CallMethod_def RaftServiceImpl_RequestVote_def)
  have "RaftPeer_OnRequestVote parseR (Some request) (serR reply) cand = Raft_OnRequestVote reply cand \<and>
      RaftPeer_OnRequestVote parseR None (serR reply) cand = Inl UseAfterFree" for cand
    using law(3) by (simp add: RaftPeer_OnRequestVote_def Node_OnRequestVote_def)
  then show ?thesis
    using handler Rpc_exchange [where ser = ser and parse = parse, OF law(1) conns(1) d(1) call d(2) svs run fit] unfolding d(3) w RaftPeer_RequestVote_def
    by (simp only: outstanding_call.select_convs) metis
qed

text \<open>A layout of the two messages that parsing undoes, for the witness: the fields one after another.\<close>

definition example_serQ :: "vote_request \<Rightarrow> byte list" where
  "example_serQ q = bytes64 (rq_term q) @ bytes64 (rq_peerid q) @ bytes64 (rq_candidateid q) @ bytes64 (rq_lastlogindex q) @ bytes64 (rq_lastlogterm q)"

definition example_parseQ :: "byte list \<Rightarrow> vote_request option" where
  "example_parseQ bs = Some \<lparr>rq_term = word64 (take 8 bs), rq_peerid = word64 (take 8 (drop 8 bs)), rq_candidateid = word64 (take 8 (drop 16 bs)),
     rq_lastlogindex = word64 (take 8 (drop 24 bs)), rq_lastlogterm = word64 (drop 32 bs)\<rparr>"

definition example_serR :: "vote_response \<Rightarrow> byte list" where
  "example_serR v = bytes64 (rs_term v) @ bytes64 (rs_peerid v) @ [if rs_votegranted v then CHR 0x01 else CHR 0x00]"

definition example_parseR :: "byte list \<Rightarrow> vote_response" where
  "example_parseR bs = \<lparr>rs_term = word64 (take 8 bs), rs_votegranted = (bs ! 16 = CHR 0x01), rs_peerid = word64 (take 8 (drop 8 bs))\<rparr>"

lemma example_messages:
  "example_parseQ (example_serQ q) = Some q" "example_parseR (example_serR v) = v"
  by (simp_all add: example_parseQ_def example_serQ_def example_parseR_def example_serR_def nth_append)

definition old_request :: vote_request where
  "old_request = \<lparr>rq_term = 0, rq_peerid = 1, rq_candidateid = 1, rq_lastlogindex = 0, rq_lastlogterm = 0\<rparr>"

definition refusal :: vote_response where
  "refusal = \<lparr>rs_term = 0, rs_votegranted = False, rs_peerid = 0\<rparr>"

theorem Raft_vote_over_rpc_witness:
  "\<exists>c1. RaftPeer_RequestVote example_serQ example_ser [Wrote 4096] 5 old_request (RaftPeer_new 41 example_conn) = Inr (c1, [])"
proof -
  let ?c = "RaftPeer_new 41 example_conn"
  have law: "\<forall>m. example_parse (example_ser m) = m" "\<forall>q. example_parseQ (example_serQ q) = Some q" "\<forall>v. example_parseR (example_serR v) = v"
    using example_parse_ser example_messages by simp_all
  have c: "rc_id ?c = 41" "ready (rc_conn ?c)" using example_ready(2) by (simp_all add: RaftPeer_new_def RpcChannel_new_def)
  have vote: "Node_RequestVote old_request example_node = Inr (example_node, refusal)"
    by (simp add: Node_RequestVote_def Raft_RequestVote_def old_request_def example_node_def Raft_new_def refusal_def)
  have esc: "length (esc bs) = Suc (2 * length bs)" for bs by (induction bs) simp_all
  have "length (example_ser (request_message (rc_id ?c) raft_service_name ''RequestVote'' (example_serQ old_request))) \<le> 4092"
    "length (example_ser (response_message (rc_id ?c) (example_serR refusal))) \<le> 4092"
    by (simp_all add: example_ser_def request_message_def response_message_def esc example_serQ_def example_serR_def raft_service_name_def)
  from Raft_vote_over_rpc [where ser = example_ser and parse = example_parse and serQ = example_serQ and parseQ = example_parseQ and
      serR = example_serR and parseR = example_parseR, OF law c(2) example_ready(1) vote this order_refl]
  show ?thesis by blast
qed

end
