(* ===== verification/HttpServe.thy ===== *)
theory HttpServe
  imports Http
begin

text \<open>
  The HTTP server at work (\<^verbatim>\<open>net/http.h\<close>, \<^verbatim>\<open>net/http.cc\<close>): sending requests and responses over the connection, installing
  the read callback, and a request on its way from the input buffer through the table of callbacks to the
  bytes of the response.
\<close>

section \<open>Operations\<close>

definition SendRequest :: "wres list \<Rightarrow> http_request \<Rightarrow> http_conn \<Rightarrow> http_conn res" where
  "SendRequest ws req s =
     rbind (HttpRequest_Encode req (tc_output (hc_tcp s))) (\<lambda>(n, b).
     rbind (ClearData (s\<lparr>hc_tcp := (hc_tcp s)\<lparr>tc_output := b\<rparr>\<rparr>)) (\<lambda>s.
     rbind (TcpConn_SendOutput ws (hc_tcp s)) (\<lambda>(t, _). Inr (s\<lparr>hc_tcp := t\<rparr>))))"

text \<open>The overloads without an argument send the message of the context.\<close>

definition SendRequest_own :: "wres list \<Rightarrow> http_conn \<Rightarrow> http_conn res" where
  "SendRequest_own ws s = rbind (GetRequest s) (\<lambda>req. SendRequest ws req s)"

definition SendResponse_own :: "wres list \<Rightarrow> http_conn \<Rightarrow> http_conn res" where
  "SendResponse_own ws s = rbind (GetResponse s) (\<lambda>rep. SendResponse ws rep s)"

definition SetBody :: "byte list \<Rightarrow> http_response \<Rightarrow> http_response" where
  "SetBody body rep = rep\<lparr>hp_msg := (hp_msg rep)\<lparr>hm_body := body\<rparr>\<rparr>"

text \<open>
  \<^verbatim>\<open>OnHttpMsg\<close> installs a read callback on the connection; \<open>HttpConn_HandleRead\<close> is what it runs. The constructor of the server
  does this for every new connection, with the dispatch over its table.
\<close>

definition OnHttpMsg :: "http_conn \<Rightarrow> http_conn" where
  "OnHttpMsg s = s\<lparr>hc_tcp := (hc_tcp s)\<lparr>tc_readcb := True\<rparr>\<rparr>"

definition HttpServer_read :: "(http_conn \<Rightarrow> http_conn res) http_table \<Rightarrow> wres list \<Rightarrow> http_conn \<Rightarrow> http_conn run" where
  "HttpServer_read cbs ws s =
     (if tc_readcb (hc_tcp s) \<and> Buffer_GetSize (tc_input (hc_tcp s)) \<noteq> 0
      then HttpConn_HandleRead (HttpServer_OnMsg cbs ws) ws s else Some (Inr s))"

text \<open>
  The server with its table and its default, which \<^verbatim>\<open>OnDefault\<close> replaces. A program registers callbacks in some order; the
  constructor's default answers 404.
\<close>

record 'h http_server =
  hs_defcb :: 'h
  hs_cbs :: "'h http_table"

definition HttpServer_construct :: "wres list \<Rightarrow> (http_conn \<Rightarrow> http_conn res) http_server" where
  "HttpServer_construct ws = \<lparr>hs_defcb = HttpServer_default ws, hs_cbs = Map.empty\<rparr>"

definition OnDefault :: "'h \<Rightarrow> 'h http_server \<Rightarrow> 'h http_server" where
  "OnDefault cb srv = srv\<lparr>hs_defcb := cb\<rparr>"

datatype 'h http_reg = Reg "byte list" "byte list" 'h | RegDefault 'h

fun http_register :: "'h http_reg \<Rightarrow> 'h http_server \<Rightarrow> 'h http_server" where
  "http_register (Reg method uri cb) srv = srv\<lparr>hs_cbs := OnRequest method uri cb (hs_cbs srv)\<rparr>"
| "http_register (RegDefault cb) srv = OnDefault cb srv"

definition HttpServer_dispatch :: "(http_conn \<Rightarrow> http_conn res) http_server \<Rightarrow> http_conn \<Rightarrow> http_conn res" where
  "HttpServer_dispatch srv s = rbind (GetRequest s) (\<lambda>req. HttpServer_lookup (hs_cbs srv) (hs_defcb srv) req s)"

section \<open>Encoding into a buffer whose content starts at the front\<close>

text \<open>Such a buffer never needs to move its content, and its array grows to at most twice what it has to hold.\<close>

lemma Append_front:
  assumes wf: "buffer_wf b" and b0: "buf_b b = 0" and M: "unat (buf_e b) + length p \<le> M" "unat (buf_cap b) \<le> 2 * M"
    "unat (buf_exp b) \<le> M" "5 * M < 2 ^ 64"
  shows "\<exists>b'. Buffer_Append b p = Inr b' \<and> buffer_wf b' \<and> buf_b b' = 0 \<and> unat (buf_e b') = unat (buf_e b) + length p \<and>
    unat (buf_cap b') \<le> 2 * M \<and> buf_exp b' = buf_exp b"
proof -
  have small: "buffer_small b (length p)" and nm: "\<not> needs_move b (length p)"
    using M b0 by (simp_all add: buffer_small_def needs_move_def)
  obtain b' where b': "Buffer_Append b p = Inr b'" using Append_room [OF wf small nm] by blast
  have len: "length p < 2 ^ 64" and n: "unat (of_nat (length p) :: size_t) = length p" using M by (simp_all add: unat_of_nat_nowrap)
  note i = Append_Inr [OF wf len b']
  obtain q b1 m where mk: "Buffer_MakeRoom b (of_nat (length p)) = Inr (q, b1)"
    and b1: "b' = b1\<lparr>buf_e := buf_e b1 + of_nat (length p), buf_mem := m\<rparr>"
    using b' by (auto simp: Buffer_Append_def Buffer_AllocRoom_def Buffer_AddSize_def elim!: rbind_InrE)
  have e: "unat (buf_e b + of_nat (length p)) = unat (buf_e b) + length p" "Buffer_GetSize b = buf_e b"
    using M n b0 by (simp_all add: unat_plus_nowrap Buffer_GetSize_def)
  have cap: "buf_b b1 = 0 \<and> unat (buf_cap b1) \<le> 2 * M"
  proof (cases "buf_e b + of_nat (length p) \<le> buf_cap b")
    case True
    then have "b1 = b" using mk by (simp add: Buffer_MakeRoom_def)
    then show ?thesis using b0 M by simp
  next
    case False
    then have "unat (buf_cap b) < M" using e M by (simp add: word_le_nat_alt)
    then have "unat (buf_cap b + buf_cap b) = unat (buf_cap b) + unat (buf_cap b)" using M(4) by (intro unat_plus_nowrap) simp
    then have "unat (2 * buf_cap b) = 2 * unat (buf_cap b)" by (simp only: mult_2)
    moreover have "\<not> Buffer_GetSize b + of_nat (length p) < buf_cap b" using False e by simp
    then have "Buffer_Expand b (of_nat (length p)) = Inr b1"
      using False mk by (auto simp: Buffer_MakeRoom_def elim!: rbind_InrE)
    from Expand_Inr [OF wf this] have "buf_b b1 = 0" "buf_cap b1 = max (buf_exp b) (max (2 * buf_cap b) (buf_e b + of_nat (length p)))"
      using e by simp_all
    ultimately show ?thesis using M e \<open>unat (buf_cap b) < M\<close> by (simp add: unat_max_word)
  qed
  have "length (content b') = unat (buf_e b) + length p"
    using i length_content [OF wf] e by simp
  then have "unat (buf_e b') = unat (buf_e b) + length p"
    using i length_content [of b'] b1 cap by (simp add: unat_GetSize)
  then show ?thesis using b' i b1 cap by simp
qed

lemma append_front_pieces:
  assumes "buffer_wf b" and "buf_b b = 0" and "unat (buf_e b) + length (concat ps) \<le> M" and "unat (buf_cap b) \<le> 2 * M"
    and "unat (buf_exp b) \<le> M" and "5 * M < 2 ^ 64"
  shows "\<exists>b'. rfold (\<lambda>p b. Buffer_Append b p) ps b = Inr b'"
  using assms(1-5)
proof (induction ps arbitrary: b)
  case (Cons p ps)
  obtain b1 where "Buffer_Append b p = Inr b1" "buffer_wf b1" "buf_b b1 = 0" "unat (buf_e b1) = unat (buf_e b) + length p"
    "unat (buf_cap b1) \<le> 2 * M" "buf_exp b1 = buf_exp b"
    using Append_front [OF Cons.prems(1,2) _ Cons.prems(4,5) assms(6), of p] Cons.prems(3) by auto
  then show ?case using Cons.IH [of b1] Cons.prems(3,5) by simp
qed simp

text \<open>Room in the output buffer: its content starts at the front, and the sizes stay far below the limit of the machine.\<close>

definition output_room :: "buffer \<Rightarrow> nat \<Rightarrow> bool" where
  "output_room b n \<longleftrightarrow> buffer_wf b \<and> buf_b b = 0 \<and> 5 * (unat (buf_cap b) + unat (buf_exp b) + n) < 2 ^ 64"

lemma append_pieces_room:
  assumes "output_room b (length (concat ps))"
  shows "\<exists>n b'. append_pieces ps b = Inr (n, b') \<and> buffer_wf b' \<and> content b' = content b @ map Some (concat ps)"
proof -
  let ?M = "unat (buf_cap b) + unat (buf_exp b) + length (concat ps)"
  have wf: "buffer_wf b" and b0: "buf_b b = 0" and M: "5 * ?M < 2 ^ 64" using assms by (simp_all add: output_room_def)
  have le: "unat (buf_e b) + length (concat ps) \<le> ?M" using wf by (simp add: buffer_wf_def)
  obtain b' where b': "rfold (\<lambda>p b. Buffer_Append b p) ps b = Inr b'" using append_front_pieces [OF wf b0 le _ _ M] by auto
  have small: "\<forall>p \<in> set ps. length p < 2 ^ 64"
  proof
    fix p assume "p \<in> set ps"
    then have "length p \<le> length (concat ps)" by (induction ps) auto
    then show "length p < 2 ^ 64" using M by simp
  qed
  have "append_pieces ps b = Inr (Buffer_GetSize b' - Buffer_GetSize b, b')" using b' by (simp add: append_pieces_def)
  then show ?thesis using append_pieces_Inr [OF wf small] by blast
qed

section \<open>Flushing the output buffer\<close>

lemma ISend_input:
  assumes "TcpConn_ISend ws buf s = Inr (n, s', ws')"
  shows "tc_input s' = tc_input s \<and> tc_readcb s' = tc_readcb s"
  using assms
  by (cases "write_loop ws buf") (auto simp: TcpConn_ISend_def conn_switch_def Let_def rbind_Inr_iff split: if_splits)

text \<open>\<^verbatim>\<open>SendOutput\<close> returns; it neither adds to the stream nor loses any of it, and bytes that stay wait for a writable event.\<close>

lemma SendOutput_ok:
  assumes ok: "conn_ok s" and ch: "tc_channel s \<noteq> None" and ne: "no_error ws"
  shows "\<exists>s' ws'. TcpConn_SendOutput ws s = Inr (s', ws') \<and> streams s s' [] \<and> flowing s' \<and> tc_input s' = tc_input s \<and> tc_readcb s' = tc_readcb s"
proof -
  obtain c chn where c: "conn_channel s = Inr (c, chn)" "writing s \<longleftrightarrow> IsWriting chn"
    using conn_channelE [OF ok ch] by metis
  have wf: "buffer_wf (tc_output s)" and bs: "content (tc_output s) = map Some (out s)"
    using ok conn_ok_content [OF ok] by (simp_all add: conn_ok_def)
  have refl: "streams s s []" using ok by (simp add: streams_def)
  show ?thesis
  proof (cases "writing s \<or> out s = []")
    case True
    then have "TcpConn_SendOutput ws s = Inr (s, ws)"
      using c ch GetSize_message [OF wf bs] by (auto simp: TcpConn_SendOutput_def Buffer_Absorb_self_def)
    then show ?thesis using True refl by (auto simp: flowing_def)
  next
    case False
    obtain acc rest s1 ws1 where send: "TcpConn_ISend ws (out s) s = Inr (length acc, s1, ws1)" "out s = acc @ rest" "sent s s1 acc"
      "rest \<noteq> [] \<longrightarrow> writing s1"
      using ISend_ok [OF ok ch, of ws "out s"] ne by blast
    define b where "b = Buffer_Consume (tc_output s) (of_nat (length acc))"
    have n: "unat (of_nat (length acc) :: size_t) = length acc"
      using content_length_less [OF wf] bs send(2) by (intro unat_of_nat_nowrap) simp
    have b: "buffer_wf b" "content b = map Some rest"
      using Consume_ok [OF wf, of "of_nat (length acc)"] n bs send(2) by (simp_all add: b_def)
    let ?s = "s1\<lparr>tc_output := b\<rparr>"
    have ok1: "conn_ok ?s" "out ?s = rest" using conn_ok_output [OF _ b, of s1] send(3) by (simp_all add: sent_def)
    have o1: "tc_output s1 = tc_output s" using send(3) by (simp add: sent_def)
    have "\<exists>d dh. conn_channel ?s = Inr (d, dh) \<and> IsWriting dh" if "rest \<noteq> []"
    proof -
      have "writing ?s" using that send(4) by simp
      then show ?thesis by (auto simp: writing_def split: sum.splits)
    qed
    then have "TcpConn_SendOutput ws s = Inr (?s, ws1)"
      using c ch False GetSize_message [OF wf bs] buffer_bytes_ok [OF wf bs] send(1) GetSize_message [OF b] o1
      by (cases "rest = []") (auto simp: TcpConn_SendOutput_def Let_def Buffer_Absorb_self_def b_def)
    moreover have "streams s ?s []" using ok1 send(2,3) by (simp add: streams_def sent_def)
    moreover have "flowing ?s" using ok1(2) send(4) by (simp add: flowing_def)
    ultimately show ?thesis using ISend_input [OF send(1)] by simp
  qed
qed

section \<open>Serving a request\<close>

text \<open>A callback that changes the response of the context and sends it; the default callback is one of these.\<close>

definition respond :: "wres list \<Rightarrow> (http_response \<Rightarrow> http_response) \<Rightarrow> http_conn \<Rightarrow> http_conn res" where
  "respond ws f s = rbind (GetResponse s) (\<lambda>rep. SendResponse_own ws (put_response (f rep) s))"

definition not_found :: "http_response \<Rightarrow> http_response" where
  "not_found rep = SetBody ''Not Found'' (SetStatus 404 ''Not Found'' rep)"

definition answers :: "wres list \<Rightarrow> (http_response \<Rightarrow> http_response) http_table \<Rightarrow> (http_conn \<Rightarrow> http_conn res) http_table" where
  "answers ws cbs = (\<lambda>m. map_option (\<lambda>t u. map_option (respond ws) (t u)) (cbs m))"

lemma GetResponse_ctx: "hc_ctx s = Any_of ''HttpContext'' (req, rep) \<Longrightarrow> GetResponse s = Inr rep"
  by (simp add: GetResponse_def AnyCast_def Any_Is_def Any_of_def)

lemma GetRequest_ctx: "hc_ctx s = Any_of ''HttpContext'' (req, rep) \<Longrightarrow> GetRequest s = Inr req"
  by (simp add: GetRequest_def AnyCast_def Any_Is_def Any_of_def)

lemma put_ctx:
  "hc_ctx s = Any_of ''HttpContext'' (req, rep) \<Longrightarrow> hc_ctx (put_request req' s) = Any_of ''HttpContext'' (req', rep)"
  "hc_ctx s = Any_of ''HttpContext'' (req, rep) \<Longrightarrow> hc_ctx (put_response rep' s) = Any_of ''HttpContext'' (req, rep')"
  by (simp_all add: put_request_def put_response_def Any_of_def)

lemma put_fields [simp]:
  "hc_tcp (put_request req s) = hc_tcp s" "hc_peer (put_request req s) = hc_peer s"
  "hc_tcp (put_response rep s) = hc_tcp s" "hc_peer (put_response rep s) = hc_peer s"
  by (simp_all add: put_request_def put_response_def)

lemma HttpServer_default_respond:
  assumes "hc_ctx s = Any_of ''HttpContext'' (req, rep)"
  shows "HttpServer_default ws s = respond ws not_found s"
  using GetResponse_ctx [OF assms] GetResponse_ctx [OF put_ctx(2) [OF assms]]
  by (simp add: HttpServer_default_def respond_def SendResponse_own_def not_found_def SetBody_def Let_def)

lemma lookup_answers:
  assumes "hc_ctx s = Any_of ''HttpContext'' (req', rep)"
  shows "HttpServer_lookup (answers ws cbs) (HttpServer_default ws) req s = respond ws (HttpServer_lookup cbs not_found req) s"
  using HttpServer_default_respond [OF assms]
  by (auto simp: HttpServer_lookup_def answers_def split: option.splits)

text \<open>What a connection is before and after a request is served: alive, with its context and its input.\<close>

definition serving :: "http_conn \<Rightarrow> http_request \<Rightarrow> http_response \<Rightarrow> byte list \<Rightarrow> bool" where
  "serving s req rep bytes \<longleftrightarrow> conn_live (hc_tcp s) \<and> tc_readcb (hc_tcp s) \<and> \<not> IsClient s \<and> hc_ctx s = Any_of ''HttpContext'' (req, rep) \<and>
     buffer_wf (tc_input (hc_tcp s)) \<and> content (tc_input (hc_tcp s)) = map Some bytes"

lemma ClearData_serving:
  assumes s: "serving s req rep (msg @ rest)" and n: "hm_scanned (hr_msg req) = length msg"
    and s': "hc_tcp s' = (hc_tcp s)\<lparr>tc_output := b\<rparr>" "hc_peer s' = hc_peer s" "hc_ctx s' = Any_of ''HttpContext'' (req, rep')"
  shows "\<exists>i. ClearData s' = Inr (put_request HttpRequest_Clear (s'\<lparr>hc_tcp := (hc_tcp s')\<lparr>tc_input := i\<rparr>\<rparr>)) \<and>
    buffer_wf i \<and> content i = map Some rest"
proof -
  let ?i = "Buffer_Consume (tc_input (hc_tcp s)) (of_nat (length msg))"
  have i: "buffer_wf (tc_input (hc_tcp s))" "content (tc_input (hc_tcp s)) = map Some (msg @ rest)"
    using s by (simp_all add: serving_def)
  have "unat (of_nat (length msg) :: size_t) = length msg"
    using content_length_less [OF i(1)] i(2) by (intro unat_of_nat_nowrap) simp
  then have "buffer_wf ?i \<and> content ?i = map Some rest"
    using Consume_ok [OF i(1), of "of_nat (length msg)"] i(2) by simp
  moreover have "\<not> IsClient s'" using s s'(2) by (simp add: serving_def IsClient_def)
  ultimately show ?thesis
    using GetRequest_ctx [OF s'(3)] n s'(1) by (intro exI [of _ ?i]) (simp add: ClearData_def)
qed

text \<open>Sending a response, the one of the context or another.\<close>

lemma SendResponse_serving:
  assumes s: "serving s req rep (msg @ rest)" and n: "hm_scanned (hr_msg req) = length msg"
    and ne: "no_error ws" and room: "output_room (tc_output (hc_tcp s)) (length (response_bytes r))"
  shows "\<exists>s'. SendResponse ws r s = Inr s' \<and> serving s' HttpRequest_Clear rep rest \<and>
    tc_wire (hc_tcp s') @ out (hc_tcp s') = tc_wire (hc_tcp s) @ out (hc_tcp s) @ response_bytes r"
proof -
  have live: "conn_ok (hc_tcp s)" "tc_channel (hc_tcp s) \<noteq> None" "tc_state (hc_tcp s) = KConnected"
    and ctx: "hc_ctx s = Any_of ''HttpContext'' (req, rep)" and cl: "\<not> IsClient s" and cb: "tc_readcb (hc_tcp s)"
    using s by (simp_all add: serving_def conn_live_def)
  obtain k b where b: "HttpResponse_Encode r (tc_output (hc_tcp s)) = Inr (k, b)" "buffer_wf b"
    "content b = map Some (out (hc_tcp s) @ response_bytes r)"
    using append_pieces_room [of "tc_output (hc_tcp s)"] room conn_ok_content [OF live(1)]
    unfolding HttpResponse_Encode_def response_bytes_def by fastforce
  let ?s2 = "s\<lparr>hc_tcp := (hc_tcp s)\<lparr>tc_output := b\<rparr>\<rparr>"
  obtain i where i: "ClearData ?s2 = Inr (put_request HttpRequest_Clear (?s2\<lparr>hc_tcp := (hc_tcp ?s2)\<lparr>tc_input := i\<rparr>\<rparr>))"
    "buffer_wf i" "content i = map Some rest"
    using ClearData_serving [OF s n, of ?s2 b rep] ctx by auto
  define t where "t = (hc_tcp s)\<lparr>tc_output := b, tc_input := i\<rparr>"
  have t: "conn_ok t" "out t = out (hc_tcp s) @ response_bytes r" "tc_channel t \<noteq> None" "tc_wire t = tc_wire (hc_tcp s)"
    using conn_ok_output [OF live(1) b(2,3)] live(2) by (simp_all add: t_def conn_ok_def out_def)
  obtain u ws' where u: "TcpConn_SendOutput ws t = Inr (u, ws')" "streams t u []" "flowing u" "tc_input u = i" "tc_readcb u"
    using SendOutput_ok [OF t(1,3) ne] cb by (auto simp: t_def)
  let ?s' = "(put_request HttpRequest_Clear (?s2\<lparr>hc_tcp := t\<rparr>))\<lparr>hc_tcp := u\<rparr>"
  have "SendResponse ws r s = Inr ?s'" using b(1) i(1) u(1) by (simp add: SendResponse_def t_def)
  moreover have "hc_ctx ?s' = Any_of ''HttpContext'' (HttpRequest_Clear, rep)"
    using put_ctx(1) [of "?s2\<lparr>hc_tcp := t\<rparr>" req rep HttpRequest_Clear] ctx by simp
  then have "serving ?s' HttpRequest_Clear rep rest"
    using u(2-5) i(2,3) cl t(3) live(3) by (auto simp: serving_def conn_live_def streams_def IsClient_def t_def)
  moreover have "tc_wire u @ out u = tc_wire (hc_tcp s) @ out (hc_tcp s) @ response_bytes r"
    using u(2) t(2,4) by (simp add: streams_def)
  ultimately show ?thesis by (intro exI [of _ ?s']) simp
qed

lemma respond_serving:
  assumes s: "serving s req rep (msg @ rest)" and "hm_scanned (hr_msg req) = length msg"
    and "no_error ws" and "output_room (tc_output (hc_tcp s)) (length (response_bytes (f rep)))"
  shows "\<exists>s'. respond ws f s = Inr s' \<and> serving s' HttpRequest_Clear (f rep) rest \<and>
    tc_wire (hc_tcp s') @ out (hc_tcp s') = tc_wire (hc_tcp s) @ out (hc_tcp s) @ response_bytes (f rep)"
proof -
  have ctx: "hc_ctx s = Any_of ''HttpContext'' (req, rep)" using s by (simp add: serving_def)
  then have "serving (put_response (f rep) s) req (f rep) (msg @ rest)"
    using s put_ctx(2) [OF ctx, of "f rep"] by (simp add: serving_def IsClient_def)
  from SendResponse_serving [OF this assms(2,3), of "f rep"] show ?thesis
    using assms(4) GetResponse_ctx [OF ctx] GetResponse_ctx [OF put_ctx(2) [OF ctx]] by (simp add: respond_def SendResponse_own_def)
qed

text \<open>The path of a request is what comes before the first question mark.\<close>

lemma DecodeArgs_uri:
  "hr_uri (DecodeArgs r) = takeWhile (\<lambda>c. c \<noteq> CHR ''?'') (hr_query_uri r) \<and> hr_method (DecodeArgs r) = hr_method r \<and>
   hr_msg (DecodeArgs r) = hr_msg r"
proof (cases "CHR ''?'' \<in> set (hr_query_uri r)")
  case True
  then obtain path rest where p: "hr_query_uri r = path @ CHR ''?'' # rest" "CHR ''?'' \<notin> set path" by (meson split_list_first)
  then show ?thesis using DecodeArgs_from_scan [OF p, of 0] by (simp add: DecodeArgs_def takeWhile_append)
next
  case False
  then have "takeWhile (\<lambda>c. c \<noteq> CHR ''?'') (hr_query_uri r) = hr_query_uri r" by (auto simp: takeWhile_eq_all_conv)
  moreover have "DecodeArgs r = r\<lparr>hr_uri := hr_query_uri r\<rparr>"
    using DecodeArgs_from_plain [OF False, of 0] by (simp add: DecodeArgs_def)
  ultimately show ?thesis by (simp del: takeWhile_eq_all_conv)
qed

text \<open>A whole request without headers at the front of the input.\<close>

lemma read_serving:
  assumes s: "serving s HttpRequest_Clear rep (plain_request m q v rest)"
    and q: "CHR 0x0D \<notin> set m \<union> set q \<union> set v" "CHR '' '' \<notin> set m \<union> set q" "q = CHR ''/'' # q'"
  shows "\<exists>req. hr_method req = m \<and> hr_uri req = takeWhile (\<lambda>c. c \<noteq> CHR ''?'') q \<and>
    hm_scanned (hr_msg req) = length m + length q + length v + 6 \<and>
    HttpServer_read (answers ws cbs) ws s = Some (respond ws (HttpServer_lookup cbs not_found req) (put_request req s))"
proof -
  let ?buf = "plain_request m q v rest"
  define req where "req = DecodeArgs (HttpRequest_Clear\<lparr>hr_method := m, hr_query_uri := q,
      hr_msg := HttpMsg_Clear\<lparr>hm_version := v, hm_contentLen := 0, hm_scanned := length m + length q + length v + 6,
        hm_body := [], hm_complete := True\<rparr>\<rparr>)"
  have dec: "HttpRequest_TryDecode ?buf HttpRequest_Clear = Some (Inr (HComplete, req))"
    unfolding req_def by (rule plain_request_decode [OF q])
  have f: "hr_method req = m" "hr_uri req = takeWhile (\<lambda>c. c \<noteq> CHR ''?'') q" "hm_scanned (hr_msg req) = length m + length q + length v + 6"
    unfolding req_def using DecodeArgs_uri by simp_all
  have i: "buffer_wf (tc_input (hc_tcp s))" "content (tc_input (hc_tcp s)) = map Some ?buf"
    and ctx: "hc_ctx s = Any_of ''HttpContext'' (HttpRequest_Clear, rep)" and cl: "\<not> IsClient s" "tc_readcb (hc_tcp s)"
    using s by (simp_all add: serving_def)
  have "Buffer_GetSize (tc_input (hc_tcp s)) \<noteq> 0" using GetSize_message [OF i] by (simp add: plain_request_def)
  then have "HttpServer_read (answers ws cbs) ws s = Some (HttpServer_OnMsg (answers ws cbs) ws (put_request req s))"
    using cl GetRequest_ctx [OF ctx] buffer_bytes_ok [OF i] dec by (simp add: HttpServer_read_def HttpConn_HandleRead_def Let_def)
  also have "HttpServer_OnMsg (answers ws cbs) ws (put_request req s) = respond ws (HttpServer_lookup cbs not_found req) (put_request req s)"
    using GetRequest_ctx [OF put_ctx(1) [OF ctx]] lookup_answers [OF put_ctx(1) [OF ctx]] by (simp add: HttpServer_OnMsg_def)
  finally show ?thesis using f by blast
qed

section \<open>Properties\<close>

text \<open>
  What the server would do if its connections had a context. Nothing in the sources gives them one, and no other code can: the type of the context is private to
  \<^verbatim>\<open>HttpConnPtr\<close>, so in the program as it is every read ends in \<open>HttpConn_HandleRead_bad_cast\<close>. With a context, on a connection that counts as the server's
  side (the peer's port is zero, or reads as negative), a request without headers is served: the callback registered for its method and path, or the one that answers
  404, puts exactly the encoding of its response behind everything sent before. The request leaves the input, what follows it stays there
  unread, even a second whole request, and the connection can serve the next one; the response of the context keeps what the callback has set.
\<close>

theorem HttpServer_serves:
  assumes "serving s HttpRequest_Clear rep (plain_request m q v rest)"
    and "CHR 0x0D \<notin> set m \<union> set q \<union> set v" and "CHR '' '' \<notin> set m \<union> set q" and "q = CHR ''/'' # q'"
    and "cb = (case cbs m of None \<Rightarrow> not_found
      | Some t \<Rightarrow> (case t (takeWhile (\<lambda>c. c \<noteq> CHR ''?'') q) of None \<Rightarrow> not_found | Some f \<Rightarrow> f))"
    and "no_error ws" and "output_room (tc_output (hc_tcp s)) (length (response_bytes (cb rep)))"
  shows "\<exists>s'. HttpServer_read (answers ws cbs) ws s = Some (Inr s') \<and> serving s' HttpRequest_Clear (cb rep) rest \<and>
    tc_wire (hc_tcp s') @ out (hc_tcp s') = tc_wire (hc_tcp s) @ out (hc_tcp s) @ response_bytes (cb rep)"
proof -
  obtain req where req: "hr_method req = m" "hr_uri req = takeWhile (\<lambda>c. c \<noteq> CHR ''?'') q"
    "hm_scanned (hr_msg req) = length m + length q + length v + 6"
    and r: "HttpServer_read (answers ws cbs) ws s = Some (respond ws (HttpServer_lookup cbs not_found req) (put_request req s))"
    using read_serving [OF assms(1-4)] by blast
  let ?msg = "m @ '' '' @ q @ '' '' @ v @ CRLF @ CRLF"
  have "serving (put_request req s) req rep (?msg @ rest)"
    using assms(1) put_ctx(1) [of s HttpRequest_Clear rep req] by (simp add: serving_def IsClient_def plain_request_def)
  moreover have "hm_scanned (hr_msg req) = length ?msg" using req(3) by (simp add: CRLF_def)
  moreover have "cb = HttpServer_lookup cbs not_found req" using assms(5) unfolding HttpServer_lookup_def req(1,2) .
  ultimately show ?thesis using respond_serving [of "put_request req s" req rep ?msg rest ws cb] assms(6,7) r by simp
qed

text \<open>Two requests have arrived at once on a connection whose context was set.\<close>

definition two_requests :: "byte list" where
  "two_requests = plain_request ''GET'' ''/a?x=1'' ''HTTP/1.1'' (plain_request ''GET'' ''/b'' ''HTTP/1.1'' [])"

definition example_http :: http_conn where
  "example_http =
     OnHttpMsg \<lparr>hc_tcp = example_conn\<lparr>tc_input := \<lparr>buf_mem = Some (map Some two_requests), buf_b = 0, buf_e = of_nat (length two_requests),
         buf_cap = of_nat (length two_requests), buf_exp = 512, buf_extra = 0\<rparr>\<rparr>,
       hc_peer = Ip4Addr_new (\<lambda>_. None) [] 40000, hc_ctx = Any_of ''HttpContext'' (HttpRequest_Clear, HttpResponse_Clear)\<rparr>"

lemma example_http_serving: "serving example_http HttpRequest_Clear HttpResponse_Clear two_requests"
proof -
  have n: "length two_requests = 42" by (simp add: two_requests_def plain_request_def CRLF_def)
  have c: "\<not> IsClient example_http" by code_simp
  have "conn_live (hc_tcp example_http)"
    using example_conn_live
    by (simp add: example_http_def OnHttpMsg_def conn_live_def conn_ok_def flowing_def out_def)
      (simp add: example_conn_def)
  then show ?thesis using c n
    by (simp add: serving_def example_http_def OnHttpMsg_def buffer_wf_def content_def)
qed

theorem HttpServer_serves_witness:
  "\<exists>s'. HttpServer_read (answers [Wrote 5, WAgain] (OnGet ''/a'' (SetBody ''ok'') Map.empty)) [Wrote 5, WAgain] example_http = Some (Inr s') \<and>
    tc_wire (hc_tcp s') @ out (hc_tcp s') = response_bytes (SetBody ''ok'' HttpResponse_Clear) \<and>
    content (tc_input (hc_tcp s')) = map Some (plain_request ''GET'' ''/b'' ''HTTP/1.1'' [])"
proof -
  let ?cbs = "OnGet ''/a'' (SetBody ''ok'') Map.empty"
  have s: "serving example_http HttpRequest_Clear HttpResponse_Clear
      (plain_request ''GET'' ''/a?x=1'' ''HTTP/1.1'' (plain_request ''GET'' ''/b'' ''HTTP/1.1'' []))"
    using example_http_serving by (simp add: two_requests_def)
  have len: "length (response_bytes (SetBody ''ok'' HttpResponse_Clear)) < 100" by code_simp
  have room: "output_room (tc_output (hc_tcp example_http)) (length (response_bytes (SetBody ''ok'' HttpResponse_Clear)))"
    using len by (simp add: output_room_def example_http_def OnHttpMsg_def example_conn_def)
      (simp add: Buffer_SetSuggestSize_def Buffer_new_def)
  have h: "CHR 0x0D \<notin> set ''GET'' \<union> set ''/a?x=1'' \<union> set ''HTTP/1.1''" "CHR '' '' \<notin> set ''GET'' \<union> set ''/a?x=1''"
    "''/a?x=1'' = CHR ''/'' # ''a?x=1''" by simp_all
  have cb: "SetBody ''ok'' = (case ?cbs ''GET'' of None \<Rightarrow> not_found
      | Some t \<Rightarrow> (case t (takeWhile (\<lambda>c. c \<noteq> CHR ''?'') ''/a?x=1'') of None \<Rightarrow> not_found | Some f \<Rightarrow> f))"
    by (simp add: OnGet_def OnRequest_def)
  have w: "tc_wire (hc_tcp example_http) = []" "out (hc_tcp example_http) = []"
    by (simp_all add: example_http_def OnHttpMsg_def example_conn_def out_def)
  show ?thesis
    using HttpServer_serves [where cbs = ?cbs and ws = "[Wrote 5, WAgain]", OF s h cb _ room] w by (auto simp: no_error_def serving_def)
qed

text \<open>The callback for a request after registrations: the last one for its method and path, else the last default.\<close>

fun reg_for :: "http_request \<Rightarrow> 'h http_reg \<Rightarrow> 'h option" where
  "reg_for req (Reg method uri cb) = (if hr_method req = method \<and> hr_uri req = uri then Some cb else None)"
| "reg_for req (RegDefault cb) = None"

fun reg_default :: "'h http_reg \<Rightarrow> 'h option" where
  "reg_default (Reg method uri cb) = None"
| "reg_default (RegDefault cb) = Some cb"

definition last_of :: "('r \<Rightarrow> 'h option) \<Rightarrow> 'r list \<Rightarrow> 'h \<Rightarrow> 'h" where
  "last_of f rs d = fold (\<lambda>r h. case f r of None \<Rightarrow> h | Some cb \<Rightarrow> cb) rs d"

lemma registered_default: "hs_defcb (fold http_register rs srv) = last_of reg_default rs (hs_defcb srv)"
  unfolding last_of_def
proof (induction rs arbitrary: srv)
  case (Cons r rs)
  then show ?case by (cases r) (simp_all add: OnDefault_def)
qed simp

lemma registered_lookup:
  "HttpServer_lookup (hs_cbs (fold http_register rs srv)) d req = last_of (reg_for req) rs (HttpServer_lookup (hs_cbs srv) d req)"
  unfolding last_of_def
proof (induction rs arbitrary: srv)
  case (Cons r rs)
  have "HttpServer_lookup (hs_cbs (http_register r srv)) d req =
      (case reg_for req r of None \<Rightarrow> HttpServer_lookup (hs_cbs srv) d req | Some cb \<Rightarrow> cb)"
    by (cases r) (auto simp: HttpServer_lookup_def OnRequest_def OnDefault_def split: option.splits)
  then show ?case using Cons.IH by simp
qed simp

text \<open>
  Whatever a program has registered with a new server, in any order and as often as it likes: a request is handed to the callback
  that was registered last for its method and path, if there is none to the last default, and if there is none either it is
  answered with 404.
\<close>

theorem HttpServer_last_registration:
  assumes "GetRequest s = Inr req"
  shows "HttpServer_dispatch (fold http_register rs (HttpServer_construct ws)) s =
    last_of (reg_for req) rs (last_of reg_default rs (HttpServer_default ws)) s"
proof -
  have "HttpServer_lookup (hs_cbs (HttpServer_construct ws)) d req = d" for d
    by (simp add: HttpServer_construct_def HttpServer_lookup_def)
  then show ?thesis
    using assms by (simp add: HttpServer_dispatch_def registered_lookup registered_default) (simp add: HttpServer_construct_def)
qed

theorem HttpServer_last_registration_witness:
  "HttpServer_dispatch (fold http_register [Reg ''GET'' ''/a'' (\<lambda>s. Inl BadAlloc), RegDefault Inr] (HttpServer_construct []))
     \<lparr>hc_tcp = example_conn, hc_peer = Ip4Addr_new (\<lambda>_. None) [] 0, hc_ctx = Any_of ''HttpContext'' (HttpRequest_Clear, HttpResponse_Clear)\<rparr> =
   Inr \<lparr>hc_tcp = example_conn, hc_peer = Ip4Addr_new (\<lambda>_. None) [] 0, hc_ctx = Any_of ''HttpContext'' (HttpRequest_Clear, HttpResponse_Clear)\<rparr>"
  by (subst HttpServer_last_registration [of _ HttpRequest_Clear])
    (simp_all add: GetRequest_def AnyCast_def Any_Is_def Any_of_def last_of_def HttpRequest_Clear_def)

end
