(* ===== verification/RpcMemory.thy ===== *)
theory RpcMemory
  imports Rpc "HOL-Library.AList"
begin

text \<open>
  Who deletes the response objects and the closures of remote calls (\<^verbatim>\<open>rpc/protorpc/rpc_channel.cc\<close>): the caller allocates both, the answer to the call
  deletes the response and runs the closure, and the destructor of the channel deletes what was never
  answered. A closure is code of the protobuf library: those of \<^verbatim>\<open>NewCallback\<close> delete themselves when they have run, those of
  \<^verbatim>\<open>NewPermanentCallback\<close> do not; \<open>self\<close> says which ones do.
\<close>

section \<open>Operations\<close>

text \<open>The table of calls with the pointers it holds (a null response is \<open>None\<close>), the objects that are alive and the closures that have run.\<close>

type_synonym call_entry = "int32 \<times> nat option \<times> nat"

record rpc_heap =
  rh_out :: "call_entry list"
  rh_responses :: "nat set"
  rh_closures :: "nat set"
  rh_ran :: "nat list"

definition delete_object :: "nat \<Rightarrow> nat set \<Rightarrow> nat set res" where
  "delete_object p live = (if p \<in> live then Inr (live - {p}) else Inl UseAfterFree)"

definition register_call :: "int32 \<Rightarrow> nat option \<Rightarrow> nat \<Rightarrow> rpc_heap \<Rightarrow> rpc_heap" where
  "register_call k response closure h = h\<lparr>rh_out := AList.update k (response, closure) (rh_out h)\<rparr>"

definition run_closure :: "(nat \<Rightarrow> bool) \<Rightarrow> nat \<Rightarrow> rpc_heap \<Rightarrow> rpc_heap res" where
  "run_closure self c h =
     (if c \<in> rh_closures h
      then Inr (h\<lparr>rh_closures := (if self c then rh_closures h - {c} else rh_closures h), rh_ran := rh_ran h @ [c]\<rparr>)
      else Inl UseAfterFree)"

definition answer_call :: "(nat \<Rightarrow> bool) \<Rightarrow> int32 \<Rightarrow> rpc_heap \<Rightarrow> rpc_heap res" where
  "answer_call self k h =
     (case map_of (rh_out h) k of
        None \<Rightarrow> Inl AssertFailed
      | Some (response, closure) \<Rightarrow>
          let h = h\<lparr>rh_out := AList.delete k (rh_out h)\<rparr> in
          (case response of
             None \<Rightarrow> Inr h
           | Some r \<Rightarrow>
               if r \<in> rh_responses h then
                 rbind (run_closure self closure h) (\<lambda>h.
                 rbind (delete_object r (rh_responses h)) (\<lambda>live. Inr (h\<lparr>rh_responses := live\<rparr>)))
               else Inl UseAfterFree))"

text \<open>The destructor. Deleting a null response does nothing; the entries keep their pointers, but the table dies with the channel.\<close>

definition delete_entry :: "call_entry \<Rightarrow> rpc_heap \<Rightarrow> rpc_heap res" where
  "delete_entry = (\<lambda>(k, response, closure) h.
     rbind (case response of None \<Rightarrow> Inr (rh_responses h) | Some r \<Rightarrow> delete_object r (rh_responses h)) (\<lambda>rs.
     rbind (delete_object closure (rh_closures h)) (\<lambda>cs.
     Inr (h\<lparr>rh_responses := rs, rh_closures := cs\<rparr>))))"

definition RpcChannel_destruct :: "rpc_heap \<Rightarrow> rpc_heap res" where
  "RpcChannel_destruct h = rfold delete_entry (rh_out h) h"

section \<open>Programs of calls and answers\<close>

datatype rpc_mem_op = MCall int32 "nat option" nat | MAnswer int32

fun rpc_mem_exec :: "(nat \<Rightarrow> bool) \<Rightarrow> rpc_mem_op \<Rightarrow> rpc_heap \<Rightarrow> rpc_heap res" where
  "rpc_mem_exec self (MCall k r c) h = Inr (register_call k r c h)"
| "rpc_mem_exec self (MAnswer k) h = answer_call self k h"

fun op_calls :: "rpc_mem_op list \<Rightarrow> call_entry list" where
  "op_calls [] = []"
| "op_calls (MCall k r c # ops) = (k, r, c) # op_calls ops"
| "op_calls (MAnswer k # ops) = op_calls ops"

definition entry_responses :: "call_entry list \<Rightarrow> nat list" where
  "entry_responses es = concat (map (\<lambda>(k, r, c). case r of None \<Rightarrow> [] | Some x \<Rightarrow> [x]) es)"

definition entry_closures :: "call_entry list \<Rightarrow> nat list" where
  "entry_closures es = map (snd \<circ> snd) es"

lemma entry_simps [simp]:
  "entry_responses [] = []" "entry_responses (xs @ ys) = entry_responses xs @ entry_responses ys"
  "entry_responses ((k, r, c) # es) = (case r of None \<Rightarrow> [] | Some x \<Rightarrow> [x]) @ entry_responses es"
  "entry_closures [] = []" "entry_closures (xs @ ys) = entry_closures xs @ entry_closures ys"
  "entry_closures ((k, r, c) # es) = c # entry_closures es"
  by (simp_all add: entry_responses_def entry_closures_def)

text \<open>All objects of the calls of a program, allocated and not yet used.\<close>

definition rpc_mem_start :: "rpc_mem_op list \<Rightarrow> rpc_heap" where
  "rpc_mem_start ops =
     \<lparr>rh_out = [], rh_responses = set (entry_responses (op_calls ops)), rh_closures = set (entry_closures (op_calls ops)), rh_ran = []\<rparr>"

section \<open>Ownership\<close>

text \<open>
  \<open>es\<close> are the calls that are outstanding or still to come: exactly their responses are alive, and exactly their closures and those of \<open>N\<close>; no closure
  that is alive has run.
\<close>

definition owned :: "nat set \<Rightarrow> call_entry list \<Rightarrow> rpc_heap \<Rightarrow> bool" where
  "owned N es h \<longleftrightarrow> distinct (map fst es) \<and> distinct (entry_closures es) \<and> distinct (entry_responses es) \<and>
     rh_responses h = set (entry_responses es) \<and> rh_closures h = set (entry_closures es) \<union> N \<and> N \<inter> set (entry_closures es) = {} \<and>
     distinct (rh_ran h) \<and> set (rh_ran h) \<inter> rh_closures h = {}"

text \<open>The closures of the calls of \<open>es\<close> that \<open>ops\<close> answers and that have or do not have a response.\<close>

definition answered :: "(nat option \<Rightarrow> bool) \<Rightarrow> call_entry list \<Rightarrow> rpc_mem_op list \<Rightarrow> nat set" where
  "answered P es ops = {c. \<exists>k r. (k, r, c) \<in> set es \<and> P r \<and> MAnswer k \<in> set ops}"

lemma answered_call: "answered P es (MCall k r c # ops) = answered P es ops"
  by (auto simp: answered_def)

lemma answered_answer:
  assumes "distinct (map fst (xs @ (k, r, c) # ys))"
  shows "answered P (xs @ (k, r, c) # ys) (MAnswer k # ops) = (if P r then {c} else {}) \<union> answered P (xs @ ys) ops"
  using assms by (auto simp: answered_def) force+

lemma update_new: "k \<notin> fst ` set al \<Longrightarrow> AList.update k v al = al @ [(k, v)]"
  by (induction al) auto

lemma delete_append: "AList.delete k (xs @ ys) = AList.delete k xs @ AList.delete k ys"
  by (simp add: AList.delete_eq)

lemma delete_notin: "k \<notin> fst ` set xs \<Longrightarrow> AList.delete k xs = xs"
  by (induction xs) auto

lemma delete_once:
  assumes "distinct (map fst (xs @ (k, v) # ys))"
  shows "AList.delete k (xs @ (k, v) # ys) = xs @ ys"
proof -
  have "k \<notin> fst ` set xs" "k \<notin> fst ` set ys" using assms by auto
  then show ?thesis by (simp add: delete_append delete_notin)
qed

lemma answer_owned:
  assumes o: "owned N (xs @ (k, r, c) # ys @ rest) h" and tab: "rh_out h = xs @ (k, r, c) # ys" and self: "self c"
  shows "\<exists>h'. answer_call self k h = Inr h' \<and> owned (N \<union> (if r = None then {c} else {})) (xs @ ys @ rest) h' \<and> rh_out h' = xs @ ys \<and>
    set (rh_ran h') = set (rh_ran h) \<union> (if r \<noteq> None then {c} else {})"
proof -
  have "distinct (map fst (xs @ (k, r, c) # ys @ rest))" using o unfolding owned_def by blast
  then have dist: "distinct (map fst (xs @ (k, r, c) # ys))" by auto
  then have d: "AList.delete k (rh_out h) = xs @ ys" using delete_once [of xs k "(r, c)" ys] tab by simp
  have e: "map_of (rh_out h) k = Some (r, c)" using dist tab by (simp add: map_of_eq_None_iff [THEN iffD2] map_add_def)
  have c: "c \<in> rh_closures h" using o by (auto simp: owned_def)
  show ?thesis
  proof (cases r)
    case None
    then have "answer_call self k h = Inr (h\<lparr>rh_out := xs @ ys\<rparr>)" using e d by (simp add: answer_call_def)
    moreover have "owned (insert c N) (xs @ ys @ rest) (h\<lparr>rh_out := xs @ ys\<rparr>)" using o None unfolding owned_def by auto
    ultimately show ?thesis using None by simp
  next
    case (Some x)
    have x: "x \<in> rh_responses h" using o Some by (auto simp: owned_def)
    let ?h = "h\<lparr>rh_out := xs @ ys, rh_closures := rh_closures h - {c}, rh_ran := rh_ran h @ [c], rh_responses := rh_responses h - {x}\<rparr>"
    have "answer_call self k h = Inr ?h"
      using e d Some x c self by (simp add: answer_call_def run_closure_def delete_object_def)
    moreover have "owned N (xs @ ys @ rest) ?h" using o Some c unfolding owned_def by auto
    ultimately show ?thesis using Some by simp
  qed
qed

lemma run_owned:
  assumes "owned N (rh_out h @ op_calls ops) h" and "\<forall>(k, r, c) \<in> set (rh_out h @ op_calls ops). self c"
  shows "rfold (rpc_mem_exec self) ops h = Inl AssertFailed \<or>
    (\<exists>h'. rfold (rpc_mem_exec self) ops h = Inr h' \<and> owned (N \<union> answered (\<lambda>r. r = None) (rh_out h @ op_calls ops) ops) (rh_out h') h' \<and>
      set (rh_ran h') = set (rh_ran h) \<union> answered (\<lambda>r. r \<noteq> None) (rh_out h @ op_calls ops) ops)"
  using assms
proof (induction ops arbitrary: N h)
  case Nil
  then show ?case by (simp add: answered_def)
next
  case (Cons op ops)
  show ?case
  proof (cases op)
    case (MCall k r c)
    let ?h = "h\<lparr>rh_out := rh_out h @ [(k, r, c)]\<rparr>"
    have "k \<notin> fst ` set (rh_out h)" using Cons.prems(1) MCall by (auto simp: owned_def)
    then have "register_call k r c h = ?h" by (simp add: register_call_def update_new)
    moreover have "owned N (rh_out ?h @ op_calls ops) ?h" using Cons.prems(1) MCall by (simp add: owned_def) blast
    ultimately show ?thesis using Cons.IH [of N ?h] Cons.prems(2) MCall by (simp add: answered_call)
  next
    case (MAnswer k)
    show ?thesis
    proof (cases "map_of (rh_out h) k")
      case None
      then show ?thesis using MAnswer by (simp add: answer_call_def)
    next
      case (Some e)
      then obtain xs r c ys where sp: "rh_out h = xs @ (k, r, c) # ys" by (cases e) (metis map_of_SomeD split_list)
      let ?T = "xs @ ys @ op_calls ops"
      have o: "owned N (xs @ (k, r, c) # ys @ op_calls ops) h" using Cons.prems(1) MAnswer sp by simp
      obtain h1 where h1: "answer_call self k h = Inr h1" "owned (N \<union> (if r = None then {c} else {})) ?T h1" "rh_out h1 = xs @ ys"
        "set (rh_ran h1) = set (rh_ran h) \<union> (if r \<noteq> None then {c} else {})"
        using answer_owned [OF o sp, of self] Cons.prems(2) sp by auto
      have "distinct (map fst (xs @ (k, r, c) # ys @ op_calls ops))" using o unfolding owned_def by blast
      note a = answered_answer [OF this, where ops = ops]
      have eq: "rh_out h @ op_calls (op # ops) = xs @ (k, r, c) # ys @ op_calls ops" "rh_out h1 @ op_calls ops = ?T"
        using sp h1(3) MAnswer by simp_all
      have "\<forall>(k, r, c) \<in> set (rh_out h1 @ op_calls ops). self c" using Cons.prems(2) unfolding eq by auto
      from Cons.IH [OF h1(2) [folded eq(2)] this] show ?thesis
        using h1(1,4) MAnswer unfolding eq(1) by (auto simp: eq(2) a Un_assoc)
    qed
  qed
qed

lemma destruct_owned:
  assumes "owned N es h"
  shows "\<exists>h'. rfold delete_entry es h = Inr h' \<and> owned N [] h' \<and> rh_ran h' = rh_ran h"
  using assms
proof (induction es arbitrary: h)
  case (Cons e es)
  obtain k r c where e: "e = (k, r, c)" by (cases e) auto
  let ?rs = "case r of None \<Rightarrow> rh_responses h | Some x \<Rightarrow> rh_responses h - {x}"
  let ?h = "h\<lparr>rh_responses := ?rs, rh_closures := rh_closures h - {c}\<rparr>"
  have "delete_entry e h = Inr ?h"
    using Cons.prems e by (cases r) (auto simp: delete_entry_def delete_object_def owned_def)
  moreover have "owned N es ?h"
    using Cons.prems e unfolding owned_def by (cases r) auto
  ultimately show ?case using Cons.IH [of ?h] by simp
qed auto

section \<open>Properties\<close>

text \<open>
  C20. Every object of a call is deleted once. Take calls with pairwise different numbers, responses and closures, all of closures that delete
  themselves when they have run, in any order with answers, and then the destruction of the channel. Either an answer has a number that is not
  outstanding and fails the assertion, or nothing is used after it was deleted and no response is left. The closures that have run are exactly those of the calls with
  a response that were answered, once each. The closures that are left are exactly those of the calls without a response that were answered: they are
  neither run nor deleted.
\<close>

theorem RpcChannel_frees:
  assumes "distinct (map fst (op_calls ops))" and "distinct (entry_responses (op_calls ops))" and "distinct (entry_closures (op_calls ops))"
    and "\<forall>c \<in> set (entry_closures (op_calls ops)). self c"
  shows "rfold (rpc_mem_exec self) ops (rpc_mem_start ops) = Inl AssertFailed \<or>
    (\<exists>h h'. rfold (rpc_mem_exec self) ops (rpc_mem_start ops) = Inr h \<and> RpcChannel_destruct h = Inr h' \<and> rh_responses h' = {} \<and>
      rh_closures h' = {c. \<exists>k. (k, None, c) \<in> set (op_calls ops) \<and> MAnswer k \<in> set ops} \<and>
      set (rh_ran h') = {c. \<exists>k r. (k, Some r, c) \<in> set (op_calls ops) \<and> MAnswer k \<in> set ops} \<and> distinct (rh_ran h'))"
proof -
  let ?h = "rpc_mem_start ops" and ?A = "\<lambda>P. answered P (op_calls ops) ops"
  have o: "owned {} (rh_out ?h @ op_calls ops) ?h" using assms(1-3) by (simp add: owned_def rpc_mem_start_def)
  have a: "\<forall>(k, r, c) \<in> set (rh_out ?h @ op_calls ops). self c"
    using assms(4) by (force simp: rpc_mem_start_def entry_closures_def)
  have sets: "?A (\<lambda>r. r = None) = {c. \<exists>k. (k, None, c) \<in> set (op_calls ops) \<and> MAnswer k \<in> set ops}"
    "?A (\<lambda>r. r \<noteq> None) = {c. \<exists>k r. (k, Some r, c) \<in> set (op_calls ops) \<and> MAnswer k \<in> set ops}"
    by (auto simp: answered_def)
  consider "rfold (rpc_mem_exec self) ops ?h = Inl AssertFailed"
    | h where "rfold (rpc_mem_exec self) ops ?h = Inr h" "owned (?A (\<lambda>r. r = None)) (rh_out h) h" "set (rh_ran h) = ?A (\<lambda>r. r \<noteq> None)"
    using run_owned [OF o a] by (auto simp: rpc_mem_start_def)
  then show ?thesis
  proof cases
    case 2
    obtain h' where h': "rfold delete_entry (rh_out h) h = Inr h'" "owned (?A (\<lambda>r. r = None)) [] h'" "rh_ran h' = rh_ran h"
      using destruct_owned [OF 2(2)] by blast
    have "rh_responses h' = {}" "rh_closures h' = ?A (\<lambda>r. r = None)" "distinct (rh_ran h')" using h'(2) unfolding owned_def by simp_all
    then show ?thesis unfolding RpcChannel_destruct_def sets using 2(1,3) h'(1,3) unfolding sets by (metis (no_types, lifting))
  qed simp
qed

theorem RpcChannel_frees_witness:
  "\<exists>h h'. rfold (rpc_mem_exec (\<lambda>_. True)) [MCall 0 (Some 10) 20, MCall 1 None 21, MCall 2 None 22, MAnswer 0, MAnswer 1]
      (rpc_mem_start [MCall 0 (Some 10) 20, MCall 1 None 21, MCall 2 None 22, MAnswer 0, MAnswer 1]) = Inr h \<and>
    RpcChannel_destruct h = Inr h' \<and> rh_responses h' = {} \<and> rh_closures h' = {21} \<and> set (rh_ran h') = {20}"
proof -
  let ?ops = "[MCall 0 (Some 10) 20, MCall 1 None 21, MCall 2 None 22, MAnswer 0, MAnswer 1]"
  have d: "distinct (map fst (op_calls ?ops))" "distinct (entry_responses (op_calls ?ops))" "distinct (entry_closures (op_calls ?ops))" by simp_all
  have run: "rfold (rpc_mem_exec (\<lambda>_. True)) ?ops (rpc_mem_start ?ops) \<noteq> Inl AssertFailed"
    by (simp add: rpc_mem_start_def register_call_def answer_call_def run_closure_def delete_object_def)
  have sets: "{c. \<exists>k. (k, None, c) \<in> set (op_calls ?ops) \<and> MAnswer k \<in> set ?ops} = {21}"
    "{c. \<exists>k r. (k, Some r, c) \<in> set (op_calls ?ops) \<and> MAnswer k \<in> set ?ops} = {20}"
    by auto
  show ?thesis using RpcChannel_frees [OF d, of "\<lambda>_. True"] run unfolding sets by blast
qed

text \<open>
  The destructor deletes closures that are not its own: two calls that share a closure made to be run many times are both
  answered without harm, but if the channel is destroyed before that, the closure is deleted twice.
\<close>

theorem RpcChannel_permanent_closure:
  assumes "\<not> self c" and "j \<noteq> k" and "r \<noteq> s"
  shows "\<exists>h. rfold (rpc_mem_exec self) [MCall j (Some r) c, MCall k (Some s) c] (rpc_mem_start [MCall j (Some r) c, MCall k (Some s) c]) = Inr h \<and>
      RpcChannel_destruct h = Inl UseAfterFree \<and>
      (\<exists>h'. rfold (rpc_mem_exec self) [MAnswer j, MAnswer k] h = Inr h' \<and> rh_ran h' = [c, c] \<and> rh_closures h' = {c})"
  using assms
  by (simp add: rpc_mem_start_def register_call_def answer_call_def run_closure_def delete_object_def RpcChannel_destruct_def delete_entry_def)

theorem RpcChannel_permanent_closure_witness:
  "\<exists>h. rfold (rpc_mem_exec (\<lambda>_. False)) [MCall 0 (Some 1) 7, MCall 1 (Some 2) 7] (rpc_mem_start [MCall 0 (Some 1) 7, MCall 1 (Some 2) 7]) = Inr h \<and>
    RpcChannel_destruct h = Inl UseAfterFree"
  using RpcChannel_permanent_closure [of "\<lambda>_. False" 7 0 1 1 2] by auto

end
