(* ===== verification/LogThreads.thy ===== *)
theory LogThreads
  imports Logger
begin

text \<open>
  Several threads in \<^verbatim>\<open>Logger::MaybeRotate\<close> at once (\<^verbatim>\<open>net/log.cc\<close>). The function reads and writes \<^verbatim>\<open>lastRotate_\<close> without protection, exchanges
  \<^verbatim>\<open>realRotate_\<close> atomically, renames the file and opens a new one; these are the steps of a thread, and the steps of
  different threads may come in any order. The system calls succeed.
\<close>

section \<open>Steps of a thread\<close>

datatype rotate_pc = RTest | RStore | RExchange | RCheck int | RRename | RReopen | ROut

fun rotate_next :: "int \<Rightarrow> int \<Rightarrow> timestamp \<Rightarrow> rotate_pc \<Rightarrow> logger \<Rightarrow> (rotate_pc \<times> logger) res" where
  "rotate_next timezone now stamp RTest s =
     (if lg_filename s = [] then Inr (ROut, s)
      else rbind (same_interval timezone s now (lg_last s)) (\<lambda>same. Inr (if same then ROut else RStore, s)))"
| "rotate_next timezone now stamp RStore s = Inr (RExchange, s\<lparr>lg_last := now\<rparr>)"
| "rotate_next timezone now stamp RExchange s = Inr (RCheck (lg_real s), s\<lparr>lg_real := now\<rparr>)"
| "rotate_next timezone now stamp (RCheck old) s =
     rbind (same_interval timezone s old (lg_last s)) (\<lambda>same. Inr (if same then ROut else RRename, s))"
| "rotate_next timezone now stamp RRename s =
     Inr (if lg_dir s (lg_filename s) = None then (ROut, s)
          else (RReopen, rename_file (lg_filename s) (lg_filename s @ ToFormattedString True stamp) s))"
| "rotate_next timezone now stamp RReopen s = Inr (ROut, reopen s)"
| "rotate_next timezone now stamp ROut s = Inr (ROut, s)"

fun rotate_steps :: "nat \<Rightarrow> int \<Rightarrow> int \<Rightarrow> timestamp \<Rightarrow> rotate_pc \<times> logger \<Rightarrow> (rotate_pc \<times> logger) res" where
  "rotate_steps 0 timezone now stamp x = Inr x"
| "rotate_steps (Suc n) timezone now stamp (pc, s) = rbind (rotate_next timezone now stamp pc s) (rotate_steps n timezone now stamp)"

section \<open>Threads\<close>

text \<open>The logger, the position of every thread, and the threads that have renamed the file, in order.\<close>

record log_threads =
  lt_log :: logger
  lt_pc :: "nat \<Rightarrow> rotate_pc"
  lt_renamed :: "nat list"

text \<open>The first \<open>n\<close> threads are about to write.\<close>

definition lt_start :: "nat \<Rightarrow> logger \<Rightarrow> log_threads" where
  "lt_start n s = \<lparr>lt_log = s, lt_pc = (\<lambda>t. if t < n then RTest else ROut), lt_renamed = []\<rparr>"

definition lt_next :: "int \<Rightarrow> (nat \<Rightarrow> int) \<Rightarrow> (nat \<Rightarrow> timestamp) \<Rightarrow> nat \<Rightarrow> log_threads \<Rightarrow> log_threads res" where
  "lt_next timezone now stamp t l =
     rbind (rotate_next timezone (now t) (stamp t) (lt_pc l t) (lt_log l)) (\<lambda>(pc, s).
     Inr (l\<lparr>lt_log := s, lt_pc := (lt_pc l)(t := pc), lt_renamed := lt_renamed l @ (if pc = RReopen then [t] else [])\<rparr>))"

inductive lt_reach :: "int \<Rightarrow> (nat \<Rightarrow> int) \<Rightarrow> (nat \<Rightarrow> timestamp) \<Rightarrow> log_threads \<Rightarrow> log_threads \<Rightarrow> bool"
  for timezone now stamp where
  lt_refl: "lt_reach timezone now stamp l l"
| lt_more: "lt_reach timezone now stamp l l1 \<Longrightarrow> lt_next timezone now stamp t l1 = Inr l2 \<Longrightarrow> lt_reach timezone now stamp l l2"

section \<open>One rotation in an interval\<close>

definition interval_of :: "int \<Rightarrow> int \<Rightarrow> int \<Rightarrow> int" where
  "interval_of timezone d x = cquot (x - timezone) d"

text \<open>The threads that have seen the old interval in the exchange: they will rename the file, or have.\<close>

definition winners :: "int \<Rightarrow> int \<Rightarrow> int \<Rightarrow> log_threads \<Rightarrow> nat set" where
  "winners timezone d D l = {t. t \<in> set (lt_renamed l) \<or> lt_pc l t = RRename \<or>
     (\<exists>old. lt_pc l t = RCheck old \<and> interval_of timezone d old \<noteq> D)}"

definition last_in :: "int \<Rightarrow> int \<Rightarrow> int \<Rightarrow> log_threads \<Rightarrow> bool" where
  "last_in timezone d D l \<longleftrightarrow> interval_of timezone d (lg_last (lt_log l)) = D"

definition real_in :: "int \<Rightarrow> int \<Rightarrow> int \<Rightarrow> log_threads \<Rightarrow> bool" where
  "real_in timezone d D l \<longleftrightarrow> interval_of timezone d (lg_real (lt_log l)) = D"

text \<open>
  The invariant: a thread behind the first test has put \<^verbatim>\<open>lastRotate_\<close> into the interval or found it there; then \<^verbatim>\<open>realRotate_\<close> is in it or
  some thread is about to exchange it; there is one winner exactly if \<^verbatim>\<open>realRotate_\<close> is in the interval; and the file is there
  until it is renamed.
\<close>

definition rotate_conf :: "int \<Rightarrow> nat \<Rightarrow> log_threads \<Rightarrow> bool" where
  "rotate_conf d n l \<longleftrightarrow> lg_interval (lt_log l) = d \<and> lg_filename (lt_log l) \<noteq> [] \<and> (\<forall>t. n \<le> t \<longrightarrow> lt_pc l t = ROut)"

definition rotate_last :: "int \<Rightarrow> int \<Rightarrow> int \<Rightarrow> nat \<Rightarrow> log_threads \<Rightarrow> bool" where
  "rotate_last timezone d D n l \<longleftrightarrow>
     (\<forall>t < n. lt_pc l t \<noteq> RTest \<and> lt_pc l t \<noteq> RStore \<longrightarrow> last_in timezone d D l) \<and>
     (last_in timezone d D l \<longrightarrow> real_in timezone d D l \<or> (\<exists>t. lt_pc l t = RExchange))"

definition rotate_file :: "log_threads \<Rightarrow> bool" where
  "rotate_file l \<longleftrightarrow> (\<forall>t \<in> set (lt_renamed l). lt_pc l t = RReopen \<or> lt_pc l t = ROut) \<and>
     (lt_renamed l = [] \<longrightarrow> lg_dir (lt_log l) (lg_filename (lt_log l)) \<noteq> None) \<and> distinct (lt_renamed l)"

definition rotate_won :: "int \<Rightarrow> int \<Rightarrow> int \<Rightarrow> log_threads \<Rightarrow> bool" where
  "rotate_won timezone d D l \<longleftrightarrow> (if real_in timezone d D l then \<exists>w. winners timezone d D l = {w} else winners timezone d D l = {})"

text \<open>A single thread: the steps are the function.\<close>

lemma MaybeRotate_steps:
  "rotate_steps 6 timezone now stamp (RTest, s) = rbind (MaybeRotate now timezone stamp True True s) (\<lambda>s. Inr (ROut, s))"
proof -
  have out: "rotate_steps k timezone now stamp (ROut, s) = Inr (ROut, s)" for k s by (induction k) simp_all
  have six: "6 = Suc (Suc (Suc (Suc (Suc (Suc 0)))))" by simp
  show ?thesis
    unfolding six by (simp add: MaybeRotate_def same_interval_def out Let_def rename_file_def)
qed

lemma same_interval_of:
  "d \<noteq> 0 \<Longrightarrow> lg_interval s = d \<Longrightarrow> same_interval timezone s a b = Inr (interval_of timezone d a = interval_of timezone d b)"
  by (simp add: same_interval_def interval_of_def)

lemma lt_next_out: "lt_pc l t = ROut \<Longrightarrow> lt_next timezone now stamp t l = Inr l"
  by (cases l) (simp add: lt_next_def fun_upd_idem)

lemma reopen_fields [simp]:
  "lg_filename (reopen s) = lg_filename s" "lg_interval (reopen s) = lg_interval s" "lg_real (reopen s) = lg_real s"
  "lg_last (reopen s) = lg_last s"
  by (auto simp: reopen_def open_append_def split: option.splits)

text \<open>The steps of the first \<open>n\<close> threads, whose times are in the interval \<open>D\<close>, written out.\<close>

text \<open>A thread that is about to rename is the only one, and the file is there.\<close>

lemma rename_first:
  assumes "rotate_file l" and "rotate_won timezone d D l" and "lt_pc l t = RRename"
  shows "lt_renamed l = [] \<and> lg_dir (lt_log l) (lg_filename (lt_log l)) \<noteq> None"
proof -
  have t: "t \<in> winners timezone d D l" using assms(3) by (simp add: winners_def)
  have "u = t" if "u \<in> set (lt_renamed l)" for u
  proof -
    have "u \<in> winners timezone d D l" using that by (simp add: winners_def)
    then show ?thesis using assms(2) t by (auto simp: rotate_won_def split: if_splits)
  qed
  moreover have "t \<notin> set (lt_renamed l)" using assms(1,3) by (auto simp: rotate_file_def)
  ultimately have "lt_renamed l = []" by (cases "lt_renamed l") auto
  then show ?thesis using assms(1) by (simp add: rotate_file_def)
qed

lemma lt_next_cases:
  assumes "rotate_conf d n l" and "rotate_last timezone d D n l" and "rotate_file l" and "rotate_won timezone d D l" and "d \<noteq> 0"
    and "\<forall>t < n. interval_of timezone d (now t) = D" and "lt_next timezone now stamp t l = Inr l'"
  obtains (stay) "l' = l"
  | (test) "t < n" "lt_pc l t = RTest" "l' = l\<lparr>lt_pc := (lt_pc l)(t := if last_in timezone d D l then ROut else RStore)\<rparr>"
  | (store) "t < n" "lt_pc l t = RStore" "l' = l\<lparr>lt_log := (lt_log l)\<lparr>lg_last := now t\<rparr>, lt_pc := (lt_pc l)(t := RExchange)\<rparr>"
  | (exchange) "t < n" "lt_pc l t = RExchange"
      "l' = l\<lparr>lt_log := (lt_log l)\<lparr>lg_real := now t\<rparr>, lt_pc := (lt_pc l)(t := RCheck (lg_real (lt_log l)))\<rparr>"
  | (check) old where "t < n" "lt_pc l t = RCheck old"
      "l' = l\<lparr>lt_pc := (lt_pc l)(t := if interval_of timezone d old = D then ROut else RRename)\<rparr>"
  | (rename) "t < n" "lt_pc l t = RRename" "lt_renamed l = []"
      "l' = l\<lparr>lt_log := rename_file (lg_filename (lt_log l)) (lg_filename (lt_log l) @ ToFormattedString True (stamp t)) (lt_log l),
        lt_pc := (lt_pc l)(t := RReopen), lt_renamed := [t]\<rparr>"
  | (reopen) "t < n" "lt_pc l t = RReopen" "l' = l\<lparr>lt_log := reopen (lt_log l), lt_pc := (lt_pc l)(t := ROut)\<rparr>"
proof (cases "t < n")
  case False
  then have "lt_pc l t = ROut" using assms(1) by (simp add: rotate_conf_def)
  then show ?thesis using stay assms(7) lt_next_out by simp
next
  case t: True
  have c: "lg_interval (lt_log l) = d" "lg_filename (lt_log l) \<noteq> []" using assms(1) by (simp_all add: rotate_conf_def)
  note same = same_interval_of [OF assms(5) c(1)]
  have now: "interval_of timezone d (now t) = D" using assms(6) t by simp
  show ?thesis
  proof (cases "lt_pc l t")
    case RTest
    then have "l' = l\<lparr>lt_pc := (lt_pc l)(t := if last_in timezone d D l then ROut else RStore)\<rparr>"
      using assms(7) c(2) same now by (auto simp: lt_next_def last_in_def split: if_splits)
    then show ?thesis using test t RTest by simp
  next
    case RStore
    then show ?thesis using store t assms(7) by (simp add: lt_next_def)
  next
    case RExchange
    then show ?thesis using exchange t assms(7) by (simp add: lt_next_def)
  next
    case (RCheck old)
    have "interval_of timezone d (lg_last (lt_log l)) = D" using assms(2) t RCheck by (auto simp: rotate_last_def last_in_def)
    then have "l' = l\<lparr>lt_pc := (lt_pc l)(t := if interval_of timezone d old = D then ROut else RRename)\<rparr>"
      using assms(7) same RCheck by (auto simp: lt_next_def split: if_splits)
    then show ?thesis using check t RCheck by simp
  next
    case RRename
    then show ?thesis using rename t assms(7) rename_first [OF assms(3,4)] by (auto simp: lt_next_def)
  next
    case RReopen
    then show ?thesis using reopen t assms(7) by (simp add: lt_next_def)
  next
    case ROut
    then show ?thesis using stay assms(7) lt_next_out by simp
  qed
qed

text \<open>Who wins is decided in the exchange alone.\<close>

lemma winners_pc:
  "lt_pc l t = pc \<Longrightarrow> pc = RTest \<or> pc = RStore \<or> pc = RExchange \<Longrightarrow> rotate_file l \<Longrightarrow> t \<notin> winners timezone d D l"
  by (auto simp: winners_def rotate_file_def)

text \<open>A step that leaves the winners and the times alone.\<close>

lemma rotate_keep:
  assumes "rotate_last timezone d D n l" and "rotate_won timezone d D l" and "winners timezone d D l' = winners timezone d D l"
    and "lg_real (lt_log l') = lg_real (lt_log l)" and "lg_last (lt_log l') = lg_last (lt_log l)"
    and "\<And>t. lt_pc l t = RExchange \<Longrightarrow> lt_pc l' t = RExchange"
    and "\<And>t. t < n \<Longrightarrow> lt_pc l' t \<noteq> RTest \<Longrightarrow> lt_pc l' t \<noteq> RStore \<Longrightarrow> last_in timezone d D l"
  shows "rotate_last timezone d D n l' \<and> rotate_won timezone d D l'"
proof -
  have "real_in timezone d D l' = real_in timezone d D l" "last_in timezone d D l' = last_in timezone d D l"
    using assms(4,5) by (simp_all add: real_in_def last_in_def)
  then show ?thesis using assms(1-3,6,7) unfolding rotate_won_def rotate_last_def by fastforce
qed

lemma rotate_inv_store:
  assumes "rotate_conf d n l" and "rotate_file l" and "rotate_won timezone d D l" and "interval_of timezone d (now t) = D"
    and "lt_pc l t = RStore"
  defines "l' \<equiv> l\<lparr>lt_log := (lt_log l)\<lparr>lg_last := now t\<rparr>, lt_pc := (lt_pc l)(t := RExchange)\<rparr>"
  shows "rotate_conf d n l' \<and> rotate_file l' \<and> rotate_last timezone d D n l' \<and> rotate_won timezone d D l'"
proof -
  have "winners timezone d D l' = winners timezone d D l" using assms(5) unfolding l'_def winners_def by auto
  moreover have "real_in timezone d D l' = real_in timezone d D l" "last_in timezone d D l'" "lt_pc l' t = RExchange"
    using assms(4) unfolding l'_def by (simp_all add: real_in_def last_in_def)
  ultimately have "rotate_last timezone d D n l' \<and> rotate_won timezone d D l'"
    using assms(3) unfolding rotate_won_def rotate_last_def by auto
  then show ?thesis using assms(1,2,5) by (auto simp: l'_def rotate_conf_def rotate_file_def)
qed

lemma rotate_inv_exchange:
  assumes "rotate_conf d n l" and "rotate_file l" and "rotate_won timezone d D l" and "interval_of timezone d (now t) = D"
    and "lt_pc l t = RExchange" and "last_in timezone d D l"
  defines "l' \<equiv> l\<lparr>lt_log := (lt_log l)\<lparr>lg_real := now t\<rparr>, lt_pc := (lt_pc l)(t := RCheck (lg_real (lt_log l)))\<rparr>"
  shows "rotate_conf d n l' \<and> rotate_file l' \<and> rotate_last timezone d D n l' \<and> rotate_won timezone d D l'"
proof -
  have nw: "t \<notin> winners timezone d D l" by (rule winners_pc [OF assms(5) _ assms(2)]) simp
  have "winners timezone d D l' = (if real_in timezone d D l then winners timezone d D l else insert t (winners timezone d D l))"
    using nw assms(5) unfolding l'_def winners_def by (auto simp: real_in_def)
  moreover have "real_in timezone d D l'" "last_in timezone d D l' = last_in timezone d D l"
    using assms(4) unfolding l'_def by (simp_all add: real_in_def last_in_def)
  ultimately have "rotate_last timezone d D n l' \<and> rotate_won timezone d D l'"
    using assms(3,6) unfolding rotate_won_def rotate_last_def by auto
  then show ?thesis using assms(1,2,5) by (auto simp: l'_def rotate_conf_def rotate_file_def)
qed

lemma rotate_inv_next:
  assumes "rotate_conf d n l" and "rotate_last timezone d D n l" and "rotate_file l" and "rotate_won timezone d D l" and "d \<noteq> 0"
    and "\<forall>t < n. interval_of timezone d (now t) = D" and "lt_next timezone now stamp t l = Inr l'"
  shows "rotate_conf d n l' \<and> rotate_file l' \<and> rotate_last timezone d D n l' \<and> rotate_won timezone d D l'"
proof -
  have past: "last_in timezone d D l" if "u < n" "lt_pc l u \<noteq> RTest" "lt_pc l u \<noteq> RStore" for u
    using assms(2) that by (simp add: rotate_last_def)
  have D: "interval_of timezone d (now u) = D" if "u < n" for u using assms(6) that by simp
  show ?thesis
    using assms
  proof (cases rule: lt_next_cases)
    case stay
    then show ?thesis using assms(1-4) by simp
  next
    case test
    have "winners timezone d D l' = winners timezone d D l" using test(2) unfolding test(3) winners_def by auto
    then have "rotate_last timezone d D n l' \<and> rotate_won timezone d D l'"
      by (rule rotate_keep [OF assms(2,4)]) (use test past in \<open>auto split: if_splits\<close>)
    then show ?thesis using assms(1,3) test by (auto simp: rotate_conf_def rotate_file_def)
  next
    case store
    then show ?thesis using rotate_inv_store [OF assms(1,3,4) D] by simp
  next
    case exchange
    then show ?thesis using rotate_inv_exchange [OF assms(1,3,4) D] past by simp
  next
    case (check old)
    have "winners timezone d D l' = winners timezone d D l" using check(2) unfolding check(3) winners_def by auto
    then have "rotate_last timezone d D n l' \<and> rotate_won timezone d D l'"
      by (rule rotate_keep [OF assms(2,4)]) (use check past [OF check(1)] in auto)
    then show ?thesis using assms(1,3) check by (auto simp: rotate_conf_def rotate_file_def)
  next
    case rename
    have "winners timezone d D l' = winners timezone d D l" using rename(2,3) unfolding rename(4) winners_def by auto
    then have "rotate_last timezone d D n l' \<and> rotate_won timezone d D l'"
      by (rule rotate_keep [OF assms(2,4)]) (use rename past [OF rename(1)] in \<open>auto simp: rename_file_def\<close>)
    then show ?thesis using assms(1,3) rename by (auto simp: rotate_conf_def rotate_file_def rename_file_def)
  next
    case reopen
    have "winners timezone d D l' = winners timezone d D l" using reopen(2) unfolding reopen(3) winners_def by auto
    then have "rotate_last timezone d D n l' \<and> rotate_won timezone d D l'"
      by (rule rotate_keep [OF assms(2,4)]) (use reopen past [OF reopen(1)] in auto)
    moreover have "lg_dir (reopen s) (lg_filename s) \<noteq> None" for s
      by (auto simp: reopen_def open_append_def split: option.splits)
    then have "rotate_file l'" using assms(3) reopen by (auto simp: rotate_file_def)
    ultimately show ?thesis using assms(1) reopen by (auto simp: rotate_conf_def)
  qed
qed

lemma rotate_inv_reach:
  assumes "lt_reach timezone now stamp l l'" and "d \<noteq> 0" and "\<forall>t < n. interval_of timezone d (now t) = D"
    and "rotate_conf d n l \<and> rotate_file l \<and> rotate_last timezone d D n l \<and> rotate_won timezone d D l"
  shows "rotate_conf d n l' \<and> rotate_file l' \<and> rotate_last timezone d D n l' \<and> rotate_won timezone d D l'"
  using assms(1,4)
proof (induction rule: lt_reach.induct)
  case (lt_more l l1 t l2)
  then show ?case using rotate_inv_next [OF _ _ _ _ assms(2,3)] by blast
qed

section \<open>Properties\<close>

text \<open>
  C28. However many threads write when a new interval has begun, and however their steps are interleaved, the file is renamed at
  most once; and when every thread has left the function, it has been renamed once. The times that the threads have read
  are all in the new interval, and both recorded times are in an earlier one.
\<close>

theorem Logger_rotates_once:
  assumes "lg_interval s \<noteq> 0" and "lg_filename s \<noteq> []" and "lg_dir s (lg_filename s) \<noteq> None"
    and "\<forall>t < n. interval_of timezone (lg_interval s) (now t) = D"
    and "interval_of timezone (lg_interval s) (lg_last s) \<noteq> D" and "interval_of timezone (lg_interval s) (lg_real s) \<noteq> D"
    and "lt_reach timezone now stamp (lt_start n s) l"
  shows "length (lt_renamed l) \<le> 1 \<and> (0 < n \<and> (\<forall>t. lt_pc l t = ROut) \<longrightarrow> length (lt_renamed l) = 1)"
proof -
  let ?d = "lg_interval s" and ?l = "lt_start n s"
  have "rotate_conf ?d n ?l \<and> rotate_file ?l \<and> rotate_last timezone ?d D n ?l \<and> rotate_won timezone ?d D ?l"
    using assms(2,3,5,6)
    by (simp add: lt_start_def rotate_conf_def rotate_file_def rotate_last_def rotate_won_def last_in_def real_in_def winners_def)
  from rotate_inv_reach [OF assms(7,1,4) this]
  have rf: "rotate_file l" and last: "rotate_last timezone ?d D n l" and won: "rotate_won timezone ?d D l" by blast+
  have sub: "set (lt_renamed l) \<subseteq> winners timezone ?d D l" by (auto simp: winners_def)
  have d: "distinct (lt_renamed l)" using rf by (simp add: rotate_file_def)
  then have card: "length (lt_renamed l) = card (set (lt_renamed l))" by (simp add: distinct_card)
  obtain w where "winners timezone ?d D l \<subseteq> {w}" using won by (auto simp: rotate_won_def split: if_splits)
  then have le: "length (lt_renamed l) \<le> 1" using sub card card_mono [of "{w}" "set (lt_renamed l)"] by force
  have "length (lt_renamed l) = 1" if "0 < n" "\<forall>t. lt_pc l t = ROut"
  proof -
    have "last_in timezone ?d D l" using last that by (auto simp: rotate_last_def)
    then have "real_in timezone ?d D l" using last that by (auto simp: rotate_last_def)
    then obtain v where "winners timezone ?d D l = {v}" using won by (auto simp: rotate_won_def)
    then have "v \<in> set (lt_renamed l)" using that by (auto simp: winners_def)
    then show ?thesis using le by (cases "lt_renamed l") auto
  qed
  then show ?thesis using le by blast
qed

text \<open>A run along a schedule of threads.\<close>

fun lt_run :: "int \<Rightarrow> (nat \<Rightarrow> int) \<Rightarrow> (nat \<Rightarrow> timestamp) \<Rightarrow> nat list \<Rightarrow> log_threads \<Rightarrow> log_threads res" where
  "lt_run timezone now stamp [] l = Inr l"
| "lt_run timezone now stamp (t # ts) l = rbind (lt_next timezone now stamp t l) (lt_run timezone now stamp ts)"

lemma lt_run_reach: "lt_run timezone now stamp ts l1 = Inr l2 \<Longrightarrow> lt_reach timezone now stamp l l1 \<Longrightarrow> lt_reach timezone now stamp l l2"
proof (induction ts arbitrary: l1)
  case (Cons t ts)
  then obtain l3 where l3: "lt_next timezone now stamp t l1 = Inr l3" "lt_run timezone now stamp ts l3 = Inr l2" by (auto elim: rbind_InrE)
  show ?case by (rule Cons.IH [OF l3(2) lt_more [OF Cons.prems(2) l3(1)]])
qed simp

lemma lt_run_start: "lt_run timezone now stamp ts (lt_start n s) = Inr l \<Longrightarrow> lt_reach timezone now stamp (lt_start n s) l"
  using lt_run_reach lt_refl by blast

lemma example_logger_file: "lg_dir example_logger = [''app.log'' \<mapsto> 0]" "lg_real example_logger = 1000"
  by (simp_all add: example_logger_def SetFileName_def open_append_def Logger_new_def)

lemma reopen_new: "lg_dir s (lg_filename s) = None \<Longrightarrow>
  reopen s = s\<lparr>lg_dir := (lg_dir s)(lg_filename s \<mapsto> lg_inodes s), lg_inodes := Suc (lg_inodes s), lg_fd := map_option (\<lambda>_. lg_inodes s) (lg_fd s)\<rparr>"
  by (simp add: reopen_def open_append_def)

lemmas rotate_eval = lt_next_def lt_start_def same_interval_def rename_file_def example_logger_ok example_logger_file cquot_def

lemma race_run:
  "\<exists>l. lt_run 0 (\<lambda>t. 90000) (\<lambda>t. TimeStamp 90000000000) [0, 1, 0, 1, 1, 0, 0, 1, 1, 1] (lt_start 2 example_logger) = Inr l \<and>
    lt_renamed l = [1] \<and> (\<forall>t. lt_pc l t = ROut)"
  by (simp add: rotate_eval)

theorem Logger_rotates_once_witness:
  "\<exists>l. lt_reach 0 (\<lambda>t. 90000) (\<lambda>t. TimeStamp 90000000000) (lt_start 2 example_logger) l \<and> (\<forall>t. lt_pc l t = ROut) \<and> length (lt_renamed l) = 1"
proof -
  obtain l where l: "lt_run 0 (\<lambda>t. 90000) (\<lambda>t. TimeStamp 90000000000) [0, 1, 0, 1, 1, 0, 0, 1, 1, 1] (lt_start 2 example_logger) = Inr l"
    "\<forall>t. lt_pc l t = ROut" using race_run by blast
  have h: "lg_interval example_logger \<noteq> 0" "lg_filename example_logger \<noteq> []" "lg_dir example_logger (lg_filename example_logger) \<noteq> None"
    "\<forall>t < 2. interval_of 0 (lg_interval example_logger) 90000 = 1" "interval_of 0 (lg_interval example_logger) (lg_last example_logger) \<noteq> 1"
    "interval_of 0 (lg_interval example_logger) (lg_real example_logger) \<noteq> 1"
    by (simp_all add: example_logger_ok example_logger_file interval_of_def cquot_def)
  show ?thesis using Logger_rotates_once [OF h lt_run_start [OF l(1)]] lt_run_start [OF l(1)] l(2) by auto
qed

text \<open>
  Threads that have read their times in different intervals rotate more than once: a thread that read the time before the
  interval changed renames the file that a faster thread has just opened, and puts the recorded times back, so that the next
  writer rotates again.
\<close>

theorem Logger_rotates_back:
  "\<exists>l. lt_reach 0 (\<lambda>t. if t = 0 then 90000 else 180000) (\<lambda>t. if t = 0 then TimeStamp 180000000001 else TimeStamp 180000000000) (lt_start 2 example_logger) l \<and>
    (\<forall>t. lt_pc l t = ROut) \<and> lt_renamed l = [1, 0] \<and> interval_of 0 86400 (lg_last (lt_log l)) = 1 \<and> interval_of 0 86400 (lg_real (lt_log l)) = 1 \<and>
    interval_of 0 86400 180000 = 2"
proof -
  let ?now = "\<lambda>t :: nat. if t = 0 then 90000 else 180000 :: int" and ?stamp = "\<lambda>t :: nat. if t = 0 then TimeStamp 180000000001 else TimeStamp 180000000000"
  obtain l where l: "lt_run 0 ?now ?stamp [0, 1, 1, 1, 1, 1, 1, 0, 0, 0, 0, 0] (lt_start 2 example_logger) = Inr l"
    "\<forall>t. lt_pc l t = ROut" "lt_renamed l = [1, 0]" "lg_last (lt_log l) = 90000" "lg_real (lt_log l) = 90000"
    by (simp add: rotate_eval reopen_new ToFormattedString_nonempty [symmetric])
  have r: "lt_reach 0 ?now ?stamp (lt_start 2 example_logger) l" by (rule lt_run_start [OF l(1)])
  show ?thesis by (rule exI [of _ l]) (use r l(2-5) in \<open>simp add: interval_of_def cquot_def\<close>)
qed

end
