(* ===== verification/TcpClient.thy ===== *)
theory TcpClient
  imports Net TcpConn
begin

text \<open>
  The client class of \<^verbatim>\<open>net/tcpclient.cc\<close> and the constructor of \<^verbatim>\<open>TcpConn\<close> that only it uses. The constructor sets the addresses, the
  timeout and the descriptor and leaves the other scalar members without a value (\<open>None\<close>). Connecting and disconnecting are
  empty in the source, and the callbacks are stored in the client only.
\<close>

section \<open>Operations\<close>

record conn_members =
  cm_local :: ip4addr
  cm_peer :: ip4addr
  cm_state :: "conn_state option"
  cm_connectTimeout :: "int option"
  cm_connectedTimeout :: "int option"
  cm_fd :: "int option"
  cm_readcb :: bool
  cm_writecb :: bool
  cm_statecb :: bool

definition TcpConn_new :: "ip4addr \<Rightarrow> ip4addr \<Rightarrow> int \<Rightarrow> conn_members" where
  "TcpConn_new local peer timeout =
     \<lparr>cm_local = local, cm_peer = peer, cm_state = None, cm_connectTimeout = Some timeout, cm_connectedTimeout = None, cm_fd = Some 0,
      cm_readcb = False, cm_writecb = False, cm_statecb = False\<rparr>"

text \<open>The callback that \<^verbatim>\<open>OnWrite\<close> sets is cleared with the others when a connection ends, and never called.\<close>

definition OnRead :: "conn_members \<Rightarrow> conn_members" where
  "OnRead c = c\<lparr>cm_readcb := True\<rparr>"

definition OnWrite :: "conn_members \<Rightarrow> conn_members" where
  "OnWrite c = c\<lparr>cm_writecb := True\<rparr>"

definition OnState :: "conn_members \<Rightarrow> conn_members" where
  "OnState c = c\<lparr>cm_statecb := True\<rparr>"

definition IsConnected :: "conn_members \<Rightarrow> bool res" where
  "IsConnected c = (case cm_state c of None \<Rightarrow> Inl Indeterminate | Some st \<Rightarrow> Inr (st = KConnected))"

record tcp_client =
  cl_conn :: conn_members
  cl_readCb :: bool
  cl_writeCb :: bool
  cl_stateCb :: bool

definition TcpClient_new :: "ip4addr \<Rightarrow> ip4addr \<Rightarrow> tcp_client" where
  "TcpClient_new local peer = \<lparr>cl_conn = TcpConn_new local peer 0, cl_readCb = False, cl_writeCb = False, cl_stateCb = False\<rparr>"

datatype client_op = ClientConnect | ClientDisconnect | SetReadCallback | SetWriteCallback | SetStateCallback

fun client_exec :: "client_op \<Rightarrow> tcp_client \<Rightarrow> tcp_client" where
  "client_exec ClientConnect c = c"
| "client_exec ClientDisconnect c = c"
| "client_exec SetReadCallback c = c\<lparr>cl_readCb := True\<rparr>"
| "client_exec SetWriteCallback c = c\<lparr>cl_writeCb := True\<rparr>"
| "client_exec SetStateCallback c = c\<lparr>cl_stateCb := True\<rparr>"

section \<open>Properties\<close>

text \<open>
  A client never gets connected: whatever its user calls, the connection has no state that could be read, and none of the
  callbacks given to the client is installed in it.
\<close>

theorem TcpClient_never_connects:
  "cl_conn (fold client_exec ops (TcpClient_new local peer)) = TcpConn_new local peer 0 \<and>
   IsConnected (cl_conn (fold client_exec ops (TcpClient_new local peer))) = Inl Indeterminate"
proof -
  have "cl_conn (client_exec op c) = cl_conn c" for op c by (cases op) simp_all
  then have "cl_conn (fold client_exec ops c) = cl_conn c" for c by (induction ops arbitrary: c) simp_all
  then show ?thesis by (simp add: TcpClient_new_def IsConnected_def TcpConn_new_def)
qed

end
