(* ===== verification/NodeLife.thy ===== *)
theory NodeLife
  imports RaftNode TcpClient
begin

text \<open>
  The life of a Raft node (\<^verbatim>\<open>raft/node.cc\<close>): which objects its constructor allocates, what starting it does, and what its destructor deletes.
  Objects are known by numbers; the set of those that are alive belongs to the program. The event loop is handed to the
  constructor by its owner.
\<close>

section \<open>Operations\<close>

text \<open>
  A peer as its constructor leaves it: a connection that has no state yet, a channel without services, and no callbacks for
  replies. The constructor of the node sets the three callbacks.
\<close>

record peer =
  pe_conn :: conn_members
  pe_connecting :: bool
  pe_onPreVote :: bool
  pe_onRequestVote :: bool
  pe_onAppendEntries :: bool

record node =
  nd_raft :: nat
  nd_loop :: nat
  nd_server :: rpc_server
  nd_listening :: bool
  nd_peers :: "(nat \<times> peer) list"

record program =
  pg_live :: "nat set"
  pg_next :: nat

definition new_object :: "program \<Rightarrow> nat \<times> program" where
  "new_object g = (pg_next g, g\<lparr>pg_live := insert (pg_next g) (pg_live g), pg_next := Suc (pg_next g)\<rparr>)"

definition delete_pointer :: "nat \<Rightarrow> program \<Rightarrow> program res" where
  "delete_pointer p g = (if p \<in> pg_live g then Inr (g\<lparr>pg_live := pg_live g - {p}\<rparr>) else Inl UseAfterFree)"

definition RaftPeer_construct :: "ip4addr \<Rightarrow> ip4addr \<Rightarrow> peer" where
  "RaftPeer_construct local addr = 
     \<lparr>pe_conn = OnRead (TcpConn_new local addr 0), pe_connecting = False,
      pe_onPreVote = False, pe_onRequestVote = False, pe_onAppendEntries = False\<rparr>"

definition SetOnPreVote :: "peer \<Rightarrow> peer" where
  "SetOnPreVote x = x\<lparr>pe_onPreVote := True\<rparr>"

definition SetOnRequestVote :: "peer \<Rightarrow> peer" where
  "SetOnRequestVote x = x\<lparr>pe_onRequestVote := True\<rparr>"

definition SetOnAppendEntries :: "peer \<Rightarrow> peer" where
  "SetOnAppendEntries x = x\<lparr>pe_onAppendEntries := True\<rparr>"

definition RaftPeer_Connect :: "peer \<Rightarrow> peer" where
  "RaftPeer_Connect x = x\<lparr>pe_connecting := True\<rparr>"

fun new_peers :: "ip4addr \<Rightarrow> ip4addr list \<Rightarrow> program \<Rightarrow> (nat \<times> peer) list \<times> program" where
  "new_peers local [] g = ([], g)"
| "new_peers local (a # as) g =
     (let (p, g) = new_object g; (ps, g) = new_peers local as g 
      in ((p, SetOnAppendEntries (SetOnRequestVote (SetOnPreVote (RaftPeer_construct local a)))) # ps, g))"

definition Node_new :: "service \<Rightarrow> ip4addr \<Rightarrow> ip4addr list \<Rightarrow> nat \<Rightarrow> program \<Rightarrow> node \<times> program" where
  "Node_new service local addrs loop g =
     (let (ps, g) = new_peers local addrs g; (r, g) = new_object g
      in (\<lparr>nd_raft = r, nd_loop = loop, nd_server = Node_server service, nd_listening = False, nd_peers = ps\<rparr>, g))"

definition Node_StartServer :: "node \<Rightarrow> node" where
  "Node_StartServer nd = nd\<lparr>nd_listening := True\<rparr>"

definition Node_Start :: "node \<Rightarrow> node" where
  "Node_Start nd = nd\<lparr>nd_peers := map (\<lambda>(p, x). (p, RaftPeer_Connect x)) (nd_peers nd)\<rparr>"

definition Node_destruct :: "node \<Rightarrow> program \<Rightarrow> program res" where
  "Node_destruct nd g = rbind (delete_pointer (nd_raft nd) g) (delete_pointer (nd_loop nd))"

section \<open>Properties\<close>

text \<open>Numbers from the counter on are free.\<close>

definition fresh_from :: "program \<Rightarrow> bool" where
  "fresh_from g \<longleftrightarrow> (\<forall>p \<in> pg_live g. p < pg_next g)"

lemma new_peers_result:
  assumes "fresh_from g" and "new_peers local as g = (ps, g')"
  shows "fresh_from g' \<and> pg_next g' = pg_next g + length as \<and> map fst ps = [pg_next g..<pg_next g + length as] \<and>
    pg_live g' = pg_live g \<union> fst ` set ps"
  using assms
proof (induction "as" arbitrary: g ps)
  case (Cons a "as")
  obtain p g1 where p: "new_object g = (p, g1)" by (cases "new_object g")
  obtain qs where qs: "new_peers local as g1 = (qs, g')" "ps = (p, SetOnAppendEntries (SetOnRequestVote (SetOnPreVote (RaftPeer_construct local a)))) # qs"
    using Cons.prems(2) p by (auto split: prod.splits)
  have g1: "p = pg_next g" "pg_next g1 = Suc (pg_next g)" "pg_live g1 = insert p (pg_live g)" "fresh_from g1"
    using p Cons.prems(1) by (auto simp: new_object_def fresh_from_def less_Suc_eq)
  note ih = Cons.IH [OF g1(4) qs(1)]
  have "[pg_next g..<pg_next g + length (a # as)] = pg_next g # [Suc (pg_next g)..<Suc (pg_next g) + length as]"
    by (simp add: upt_conv_Cons del: upt_Suc)
  then show ?case using ih qs(2) g1 by (simp del: upt_Suc)
qed simp

text \<open>
  Every peer of a node is connecting after the start, to the address it was configured with and under the address of the node; its
  channel reads from the connection, and each of the three closures for replies has a callback to call.
\<close>

lemma new_peers_wired:
  assumes "new_peers local addrs g = (ps, g')"
  shows "map (\<lambda>(p, x). cm_peer (pe_conn x)) ps = addrs \<and>
    (\<forall>(p, x) \<in> set ps. cm_local (pe_conn x) = local \<and> cm_readcb (pe_conn x) \<and> pe_onPreVote x \<and> pe_onRequestVote x \<and> pe_onAppendEntries x)"
  using assms
  by (induction addrs arbitrary: g ps)
    (fastforce simp: RaftPeer_construct_def SetOnPreVote_def SetOnRequestVote_def SetOnAppendEntries_def OnRead_def TcpConn_new_def
      split: prod.splits)+

theorem Node_peers_wired:
  assumes "Node_new service local addrs loop g = (nd, g1)"
  shows "map (\<lambda>(p, x). cm_peer (pe_conn x)) (nd_peers (Node_Start nd)) = addrs \<and>
    (\<forall>(p, x) \<in> set (nd_peers (Node_Start nd)). pe_connecting x \<and> cm_local (pe_conn x) = local \<and> cm_readcb (pe_conn x) \<and>
      pe_onPreVote x \<and> pe_onRequestVote x \<and> pe_onAppendEntries x)"
proof -
  obtain ps g0 where ps: "new_peers local addrs g = (ps, g0)" by (cases "new_peers local addrs g")
  then have "nd_peers (Node_Start nd) = map (\<lambda>(p, x). (p, RaftPeer_Connect x)) ps"
    using assms by (auto simp: Node_new_def Node_Start_def Let_def split: prod.splits)
  moreover have "(\<lambda>(p, x). cm_peer (pe_conn x)) \<circ> (\<lambda>(p, x). (p, RaftPeer_Connect x)) = (\<lambda>(p :: nat, x). cm_peer (pe_conn x))"
    by (auto simp: RaftPeer_Connect_def)
  ultimately show ?thesis using new_peers_wired [OF ps] by (auto simp: RaftPeer_Connect_def)
qed

text \<open>
  A node deletes what it was lent and keeps what it has allocated: its destructor returns, the event loop of the caller is gone
  afterwards, so that the caller's own deletion of it fails, and every peer is still alive, with nobody left who knows it.
\<close>

theorem Node_destruct_result:
  assumes "fresh_from g" and "loop \<in> pg_live g" and "Node_new service local addrs loop g = (nd, g1)"
  shows "\<exists>g2. Node_destruct (Node_Start (Node_StartServer nd)) g1 = Inr g2 \<and> delete_pointer loop g2 = Inl UseAfterFree \<and>
    length (nd_peers nd) = length addrs \<and> set (map fst (nd_peers nd)) \<subseteq> pg_live g2 - pg_live g \<and>
    pg_live g2 = (pg_live g - {loop}) \<union> set (map fst (nd_peers nd))"
proof -
  obtain ps g0 where ps: "new_peers local addrs g = (ps, g0)" by (cases "new_peers local addrs g")
  note r = new_peers_result [OF assms(1) ps]
  have nd: "nd_peers nd = ps" "nd_raft nd = pg_next g0" "nd_loop nd = loop" "pg_live g1 = insert (pg_next g0) (pg_live g0)"
    using assms(3) ps by (auto simp: Node_new_def new_object_def Let_def)
  have len: "length ps = length addrs" using r by (metis length_map length_upt diff_add_inverse)
  let ?S = "fst ` set ps" and ?r = "pg_next g0"
  have "?S = set (map fst ps)" by simp
  then have S: "?S = {pg_next g..<pg_next g + length addrs}" using r by (simp del: set_map)
  have f: "p < pg_next g" if "p \<in> pg_live g" for p using assms(1) that by (simp add: fresh_from_def)
  have "p \<notin> pg_live g \<inter> ?S" for p using f [of p] unfolding S by auto
  then have dis: "pg_live g \<inter> ?S = {}" by blast
  then have nl: "loop \<notin> ?S" using assms(2) by blast
  have live: "pg_live g1 = insert ?r (pg_live g \<union> ?S)" "?r \<notin> pg_live g \<union> ?S" "loop \<noteq> ?r"
    using nd(4) r f [OF assms(2)] unfolding fresh_from_def by (blast, blast, force)
  have "Node_destruct (Node_Start (Node_StartServer nd)) g1 = Inr (g1\<lparr>pg_live := (pg_live g - {loop}) \<union> ?S\<rparr>)"
    using nd(2,3) live assms(2) nl by (auto simp: Node_destruct_def delete_pointer_def Node_Start_def Node_StartServer_def intro!: arg_cong [of _ _ "\<lambda>x. g1\<lparr>pg_live := x\<rparr>"])
  moreover have "delete_pointer loop (g1\<lparr>pg_live := (pg_live g - {loop}) \<union> ?S\<rparr>) = Inl UseAfterFree" using nl by (simp add: delete_pointer_def)
  ultimately show ?thesis using nd(1) len dis by auto
qed

theorem Node_destruct_result_witness:
  "\<exists>nd g1 g2. Node_new Map.empty \<lparr>sin_port = 0, sin_addr = 0\<rparr> [\<lparr>sin_port = 1, sin_addr = 0\<rparr>] 0 \<lparr>pg_live = {0}, pg_next = 1\<rparr> = (nd, g1) \<and>
    Node_destruct (Node_Start (Node_StartServer nd)) g1 = Inr g2 \<and> delete_pointer 0 g2 = Inl UseAfterFree \<and> length (nd_peers nd) = 1"
proof -
  obtain nd g1 where n: "Node_new Map.empty \<lparr>sin_port = 0, sin_addr = 0\<rparr> [\<lparr>sin_port = 1, sin_addr = 0\<rparr>] 0 \<lparr>pg_live = {0}, pg_next = 1\<rparr> = (nd, g1)"
    by (metis surj_pair)
  have "fresh_from \<lparr>pg_live = {0}, pg_next = 1\<rparr>" "0 \<in> pg_live \<lparr>pg_live = {0}, pg_next = 1\<rparr>" by (simp_all add: fresh_from_def)
  from Node_destruct_result [OF this n] n show ?thesis by auto
qed

end
