(* ===== verification/Round.thy ===== *)
theory Round
  imports Poller
begin

text \<open>
  The body of \<^verbatim>\<open>EventLoop::Loop\<close> (\<^verbatim>\<open>net/eventloop.cc\<close>) over the channels on the heap: a poll fills the
  list of active channels, \<^verbatim>\<open>HandleEvent\<close> is called through every pointer of that list, and then the
  pending functors run. Callbacks and functors are parameters that may change the whole state, so a
  callback can delete a channel that is still on the list of the round.

  The loop also stores the pointer it handles in \<^verbatim>\<open>currentActiveChannel_\<close>, which nothing reads.
\<close>

section \<open>State and operations\<close>

record 'f lstate =
  ls_poller :: epoll_poller
  ls_pending :: "'f list"
  ls_doing :: bool
  ls_quit :: bool

definition EventLoop_handle :: "(cptr \<Rightarrow> cb_kind \<Rightarrow> 'f lstate \<Rightarrow> 'f lstate res) \<Rightarrow> cptr \<Rightarrow> 'f lstate \<Rightarrow> 'f lstate res" where
  "EventLoop_handle run c = Channel_HandleEvent (\<lambda>s. ep_heap (ls_poller s) c) (run c)"

definition EventLoop_DoPendingFunctors :: "int \<Rightarrow> ('f \<Rightarrow> 'f lstate \<Rightarrow> 'f lstate res) \<Rightarrow> 'f lstate \<Rightarrow> 'f lstate res" where
  "EventLoop_DoPendingFunctors tid runf s =
     rbind (cxx_assert (tid = ep_tid (ls_poller s))) (\<lambda>_.
     rbind (rfold runf (ls_pending s) (s\<lparr>ls_pending := [], ls_doing := True\<rparr>)) (\<lambda>s.
     Inr (s\<lparr>ls_doing := False\<rparr>)))"

definition EventLoop_round :: "int \<Rightarrow> (cptr \<Rightarrow> cb_kind \<Rightarrow> 'f lstate \<Rightarrow> 'f lstate res) \<Rightarrow> ('f \<Rightarrow> 'f lstate \<Rightarrow> 'f lstate res)
    \<Rightarrow> (32 word \<times> cptr) list option \<Rightarrow> 'f lstate \<Rightarrow> 'f lstate res" where
  "EventLoop_round tid run runf ready s =
     rbind (EpollPoller_Poll ready (ls_poller s)) (\<lambda>(cs, p).
     rbind (rfold (EventLoop_handle run) cs (s\<lparr>ls_poller := p\<rparr>)) (EventLoop_DoPendingFunctors tid runf))"

text \<open>
  The first \<open>n\<close> rounds of the loop; what the kernel reports in a round depends on the round and on the
  interest list. The loop leaves early only when it sees \<^verbatim>\<open>quit_\<close>.
\<close>

fun EventLoop_Loop :: "int \<Rightarrow> (cptr \<Rightarrow> cb_kind \<Rightarrow> 'f lstate \<Rightarrow> 'f lstate res) \<Rightarrow> ('f \<Rightarrow> 'f lstate \<Rightarrow> 'f lstate res)
    \<Rightarrow> (nat \<Rightarrow> epoll_poller \<Rightarrow> (32 word \<times> cptr) list option) \<Rightarrow> nat \<Rightarrow> 'f lstate \<Rightarrow> 'f lstate res" where
  "EventLoop_Loop tid run runf reports 0 s = Inr s"
| "EventLoop_Loop tid run runf reports (Suc n) s =
     (if ls_quit s then Inr s
      else rbind (EventLoop_round tid run runf (reports n (ls_poller s)) s) (EventLoop_Loop tid run runf reports n))"

section \<open>Handling a list of active channels\<close>

text \<open>Dispatch reads only what a channel received and which callbacks it has.\<close>

definition received :: "channel \<Rightarrow> 16 word \<times> cb_kind set" where
  "received ch = (ch_revents ch, ch_callbacks ch)"

definition received_view :: "channel \<Rightarrow> channel" where
  "received_view ch = (Channel_new 0 0 0)\<lparr>ch_revents := ch_revents ch, ch_callbacks := ch_callbacks ch\<rparr>"

lemma received_view_eq: "received_view ch = received_view ch' \<longleftrightarrow> received ch = received ch'"
  by (auto simp: received_view_def received_def Channel_new_def)

lemma dispatch_view: "dispatch_if (\<lambda>s. map_option received_view (get s)) run test k = dispatch_if get run test k"
  by (rule ext) (auto simp: dispatch_if_def live_channel_def received_view_def split: option.splits)

lemma HandleEvent_view: "Channel_HandleEvent (\<lambda>s. map_option received_view (get s)) run = Channel_HandleEvent get run"
  by (rule ext) (simp add: Channel_HandleEvent_def dispatch_view)

lemma HandleEvent_received:
  assumes "get s = Some c"
    and keep: "\<And>k s s'. run k s = Inr s' \<Longrightarrow> map_option received (get s') = map_option received (get s)"
  shows "Channel_HandleEvent get run s = rfold run (filter (\<lambda>k. k \<in> ch_callbacks c) (due (ch_revents c))) s"
proof -
  have "Channel_HandleEvent (\<lambda>s. map_option received_view (get s)) run s =
      rfold run (filter (\<lambda>k. k \<in> ch_callbacks (received_view c)) (due (ch_revents (received_view c)))) s"
  proof (rule Channel_HandleEvent_due)
    show "map_option received_view (get s) = Some (received_view c)" using assms(1) by simp
  next
    fix k t t'
    assume t: "map_option received_view (get t) = Some (received_view c)" and "run k t = Inr t'"
    then have "map_option received (get t') = map_option received (get t)" using keep by blast
    with t show "map_option received_view (get t') = Some (received_view c)"
      by (auto simp: received_view_eq map_option_case split: option.splits)
  qed
  then show ?thesis unfolding HandleEvent_view by (simp add: received_view_def)
qed

text \<open>A freed channel on the list: the first read of its mask is already undefined.\<close>

lemma EventLoop_handle_gone: "ep_heap (ls_poller s) c = None \<Longrightarrow> EventLoop_handle run c s = Inl UseAfterFree"
  by (simp add: EventLoop_handle_def Channel_HandleEvent_def dispatch_if_gone)

text \<open>The callbacks of a list of active channels, with the channel each belongs to.\<close>

definition calls_of :: "(cptr \<Rightarrow> (16 word \<times> cb_kind set) option) \<Rightarrow> cptr \<Rightarrow> (cptr \<times> cb_kind) list" where
  "calls_of rec c = (case rec c of None \<Rightarrow> [] | Some (r, cbs) \<Rightarrow> map (Pair c) (filter (\<lambda>k. k \<in> cbs) (due r)))"

definition received_in :: "'f lstate \<Rightarrow> cptr \<Rightarrow> (16 word \<times> cb_kind set) option" where
  "received_in s c = map_option received (ep_heap (ls_poller s) c)"

lemma rfold_map: "rfold f (map g xs) s = rfold (\<lambda>x. f (g x)) xs s"
  by (induction xs arbitrary: s) (auto simp: rbind_def split: sum.splits)

lemma handle_calls:
  assumes "received_in s c = Some (r, cbs)"
    and keep: "\<And>k s s'. run c k s = Inr s' \<Longrightarrow> received_in s' c = received_in s c"
  shows "EventLoop_handle run c s = rfold (\<lambda>(c, k). run c k) (calls_of (received_in s) c) s"
proof -
  obtain ch where ch: "ep_heap (ls_poller s) c = Some ch" "received ch = (r, cbs)"
    using assms(1) by (auto simp: received_in_def)
  have "EventLoop_handle run c s = rfold (run c) (filter (\<lambda>k. k \<in> ch_callbacks ch) (due (ch_revents ch))) s"
    unfolding EventLoop_handle_def using ch(1) keep by (intro HandleEvent_received) (auto simp: received_in_def)
  then show ?thesis using ch assms(1) by (simp add: calls_of_def rfold_map received_def)
qed

lemma active_calls:
  assumes "\<forall>c \<in> set cs. rec c \<noteq> None \<and> received_in s c = rec c"
    and keep: "\<And>c d k s s'. c \<in> set cs \<Longrightarrow> d \<in> set cs \<Longrightarrow> run c k s = Inr s' \<Longrightarrow> received_in s' d = received_in s d"
  shows "rfold (EventLoop_handle run) cs s = rfold (\<lambda>(c, k). run c k) (concat (map (calls_of rec) cs)) s"
  using assms
proof (induction cs arbitrary: s)
  case (Cons c cs)
  let ?ks = "calls_of rec c"
  obtain r cbs where r: "received_in s c = Some (r, cbs)" using Cons.prems(1) by (cases "received_in s c") auto
  have eq: "calls_of (received_in s) c = ?ks" using Cons.prems(1) by (simp add: calls_of_def)
  have h: "EventLoop_handle run c s = rfold (\<lambda>(c, k). run c k) ?ks s"
    using handle_calls [OF r, of run] Cons.prems(2) [of c c] eq by simp
  show ?case
  proof (cases "rfold (\<lambda>(c, k). run c k) ?ks s")
    case (Inl e)
    then show ?thesis using h by (simp add: rfold_append)
  next
    case (Inr t)
    have "\<forall>d \<in> set cs. received_in t d = rec d"
      using Inr
    proof (rule rfold_invariant)
      show "\<forall>d \<in> set cs. received_in s d = rec d" using Cons.prems(1) by simp
    next
      fix x u u'
      assume x: "x \<in> set ?ks" and u: "\<forall>d \<in> set cs. received_in u d = rec d" and run: "(case x of (c, k) \<Rightarrow> run c k) u = Inr u'"
      obtain k where "x = (c, k)" using x by (auto simp: calls_of_def split: option.splits prod.splits)
      then show "\<forall>d \<in> set cs. received_in u' d = rec d"
        using run u Cons.prems(2) [of c _ k u u'] by simp
    qed
    then have "rfold (EventLoop_handle run) cs t = rfold (\<lambda>(c, k). run c k) (concat (map (calls_of rec) cs)) t"
    proof (intro Cons.IH)
      show "\<forall>c \<in> set cs. rec c \<noteq> None \<and> received_in t c = rec c"
        using \<open>\<forall>d \<in> set cs. received_in t d = rec d\<close> Cons.prems(1) by auto
      show "received_in u' d = received_in u d" if "x \<in> set cs" "d \<in> set cs" "run x k u = Inr u'" for x d k u u'
        using Cons.prems(2) [of x d k u u'] that by simp
    qed
    then show ?thesis using h Inr by (simp add: rfold_append)
  qed
qed simp

section \<open>Clients that free channels only in functors\<close>

text \<open>
  The discipline a client of the loop has to follow: a callback may switch, close and create channels and
  queue functors, but it frees none; functors may free channels too.
\<close>

locale loop_client =
  fixes tid :: int
    and run :: "cptr \<Rightarrow> cb_kind \<Rightarrow> 'f lstate \<Rightarrow> 'f lstate res"
    and runf :: "'f \<Rightarrow> 'f lstate \<Rightarrow> 'f lstate res"
  assumes run_ok: "ep_reach tid (ls_poller s) \<Longrightarrow> \<exists>s'. run c k s = Inr s' \<and>
      ep_reach tid (ls_poller s') \<and> dom (ep_heap (ls_poller s)) \<subseteq> dom (ep_heap (ls_poller s'))"
    and runf_ok: "ep_reach tid (ls_poller s) \<Longrightarrow> \<exists>s'. runf f s = Inr s' \<and> ep_reach tid (ls_poller s')"
begin

definition alive :: "cptr set \<Rightarrow> 'f lstate \<Rightarrow> bool" where
  "alive C s \<longleftrightarrow> ep_reach tid (ls_poller s) \<and> C \<subseteq> dom (ep_heap (ls_poller s))"

lemma dispatch_alive:
  assumes "alive C s" and "c \<in> C"
  shows "\<exists>t. dispatch_if (\<lambda>s. ep_heap (ls_poller s) c) (run c) test k s = Inr t \<and> alive C t"
proof -
  obtain ch where "ep_heap (ls_poller s) c = Some ch" using assms by (auto simp: alive_def)
  then have "dispatch_if (\<lambda>s. ep_heap (ls_poller s) c) (run c) test k s =
      (if test (ch_revents ch) \<and> k \<in> ch_callbacks ch then run c k s else Inr s)"
    by (rule dispatch_if_eq)
  moreover have "\<exists>t. run c k s = Inr t \<and> alive C t"
    using run_ok [of s c k] assms(1) unfolding alive_def by blast
  ultimately show ?thesis using assms(1) by simp
qed

lemma handle_alive:
  assumes "alive C s" and "c \<in> C"
  shows "\<exists>t. EventLoop_handle run c s = Inr t \<and> alive C t"
proof -
  have bind: "\<exists>t. rbind m f = Inr t \<and> alive C t"
    if "\<exists>t. m = Inr t \<and> alive C t" "\<And>t. alive C t \<Longrightarrow> \<exists>u. f t = Inr u \<and> alive C u" for m f
    using that by auto
  show ?thesis
    unfolding EventLoop_handle_def Channel_HandleEvent_def by (intro bind dispatch_alive assms) assumption
qed

lemma active_alive:
  assumes "alive C s" and "set cs \<subseteq> C"
  shows "\<exists>t. rfold (EventLoop_handle run) cs s = Inr t \<and> alive C t"
  using assms
proof (induction cs arbitrary: s)
  case (Cons c cs)
  then show ?case using handle_alive [of C s c] by fastforce
qed simp

lemma functors_run: "ep_reach tid (ls_poller s) \<Longrightarrow> \<exists>t. rfold runf fs s = Inr t \<and> ep_reach tid (ls_poller t)"
proof (induction fs arbitrary: s)
  case (Cons f fs)
  then show ?case using runf_ok [of s f] by fastforce
qed simp

lemma pending_run:
  assumes "ep_reach tid (ls_poller s)"
  shows "\<exists>t. EventLoop_DoPendingFunctors tid runf s = Inr t \<and> ep_reach tid (ls_poller t) \<and> \<not> ls_doing t"
proof -
  have "ep_tid (ls_poller s) = tid" using ep_reach_wf assms by blast
  then show ?thesis
    using functors_run [of "s\<lparr>ls_pending := [], ls_doing := True\<rparr>" "ls_pending s"] assms
    by (auto simp: EventLoop_DoPendingFunctors_def)
qed

lemma poll_alive:
  assumes reach: "ep_reach tid p" and rep: "\<And>evs. ready = Some evs \<Longrightarrow> reported p evs"
  shows "\<exists>cs q. EpollPoller_Poll ready p = Inr (cs, q) \<and> ep_reach tid q \<and> set cs \<subseteq> dom (ep_heap q)"
proof (cases ready)
  case None
  then show ?thesis using reach by (simp add: EpollPoller_Poll_def)
next
  case (Some evs)
  then obtain q where q: "EpollPoller_Poll (Some evs) p = Inr (map snd evs, q)" "ep_wf q"
    "ep_registered q = ep_registered p" "set (map snd evs) \<subseteq> ep_registered p"
    using EpollPoller_Poll_ok [OF _ rep [OF Some]] ep_reach_wf [OF reach] by blast
  have "ep_reach tid q" using ep_reach.poll [OF reach rep [OF Some] q(1)] .
  moreover have "ep_registered q \<subseteq> dom (ep_heap q)" using ep_registeredE [OF q(2)] by blast
  ultimately show ?thesis using Some q by auto
qed

lemma round_run:
  assumes "ep_reach tid (ls_poller s)" and "\<And>evs. ready = Some evs \<Longrightarrow> reported (ls_poller s) evs"
  shows "\<exists>t. EventLoop_round tid run runf ready s = Inr t \<and> ep_reach tid (ls_poller t) \<and> \<not> ls_doing t"
proof -
  obtain cs p where p: "EpollPoller_Poll ready (ls_poller s) = Inr (cs, p)" "ep_reach tid p" "set cs \<subseteq> dom (ep_heap p)"
    using poll_alive [OF assms] by blast
  then have "alive (set cs) (s\<lparr>ls_poller := p\<rparr>)" by (simp add: alive_def)
  from active_alive [OF this order_refl] obtain t where
    "rfold (EventLoop_handle run) cs (s\<lparr>ls_poller := p\<rparr>) = Inr t" "ep_reach tid (ls_poller t)"
    unfolding alive_def by blast
  then show ?thesis using p pending_run [of t] by (simp add: EventLoop_round_def)
qed

lemma loop_run:
  assumes "ep_reach tid (ls_poller s)" and rep: "\<And>n p evs. reports n p = Some evs \<Longrightarrow> reported p evs"
  shows "\<exists>t. EventLoop_Loop tid run runf reports n s = Inr t \<and> ep_reach tid (ls_poller t)"
  using assms(1)
proof (induction n arbitrary: s)
  case (Suc n)
  have "\<exists>t. EventLoop_round tid run runf (reports n (ls_poller s)) s = Inr t \<and> ep_reach tid (ls_poller t) \<and> \<not> ls_doing t"
    using Suc.prems rep by (intro round_run)
  then show ?case using Suc by auto
qed simp

end

section \<open>Clients made of the channel operations\<close>

text \<open>
  What a callback does, as a list of operations of the program: the switches and \<^verbatim>\<open>Close\<close> of a channel, a
  new channel with a descriptor no live channel has and its registration, the setting of a callback,
  \<^verbatim>\<open>QueueInLoop\<close> and \<^verbatim>\<open>Quit\<close>.
  A functor is such a list or the deletion of a channel. The client knows which of its channels are alive
  and registered, and quits once.
\<close>

datatype mask_op = OpEnableRead | OpEnableWrite | OpDisableRead | OpDisableWrite

datatype loop_act =
    ASwitch mask_op cptr
  | AOpen cptr int int
  | ASetCallback cb_kind cptr
  | AClose cptr
  | AQueue loop_fun
  | AQuit
  and loop_fun = FActs "loop_act list" | FDelete cptr

fun mask_fun :: "mask_op \<Rightarrow> int \<Rightarrow> cptr \<Rightarrow> epoll_poller \<Rightarrow> epoll_poller res" where
  "mask_fun OpEnableRead = Channel_EnableRead"
| "mask_fun OpEnableWrite = Channel_EnableWrite"
| "mask_fun OpDisableRead = Channel_DisableRead"
| "mask_fun OpDisableWrite = Channel_DisableWrite"

definition on_poller :: "(epoll_poller \<Rightarrow> epoll_poller res) \<Rightarrow> 'f lstate \<Rightarrow> 'f lstate res" where
  "on_poller f s = rbind (f (ls_poller s)) (\<lambda>p. Inr (s\<lparr>ls_poller := p\<rparr>))"

definition fresh_channel :: "cptr \<Rightarrow> int \<Rightarrow> epoll_poller \<Rightarrow> bool" where
  "fresh_channel c fd p \<longleftrightarrow> ep_heap p c = None \<and> 0 \<le> fd \<and> (\<forall>d \<in> dom (ep_heap p). ch_fd (the (ep_heap p d)) \<noteq> fd)"

fun act :: "int \<Rightarrow> loop_act \<Rightarrow> loop_fun lstate \<Rightarrow> loop_fun lstate res" where
  "act tid (ASwitch m c) s = (if ep_heap (ls_poller s) c = None then Inr s else on_poller (mask_fun m tid c) s)"
| "act tid (AOpen c fd ids) s =
     (if fresh_channel c fd (ls_poller s)
      then on_poller (\<lambda>p. EpollPoller_AddChannel tid c (p\<lparr>ep_heap := (ep_heap p)(c \<mapsto> Channel_new fd 0 ids)\<rparr>)) s
      else Inr s)"
| "act tid (ASetCallback k c) s =
     (case ep_heap (ls_poller s) c of
        None \<Rightarrow> Inr s
      | Some ch \<Rightarrow> Inr (s\<lparr>ls_poller := (ls_poller s)\<lparr>ep_heap := (ep_heap (ls_poller s))(c \<mapsto> Channel_SetCallback k ch)\<rparr>\<rparr>))"
| "act tid (AClose c) s =
     (if c \<in> ep_registered (ls_poller s) then on_poller (Channel_Close tid c) s else Inr s)"
| "act tid (AQueue f) s = Inr (s\<lparr>ls_pending := ls_pending s @ [f]\<rparr>)"
| "act tid AQuit s = (if ls_quit s then Inr s else Inr (s\<lparr>ls_quit := True\<rparr>))"

fun act_functor :: "int \<Rightarrow> loop_fun \<Rightarrow> loop_fun lstate \<Rightarrow> loop_fun lstate res" where
  "act_functor tid (FActs as) s = rfold (act tid) as s"
| "act_functor tid (FDelete c) s =
     (if c \<in> ep_registered (ls_poller s) then on_poller (Channel_delete tid c) s else Inr s)"

lemma mask_fun_switch: "\<exists>f \<in> set mask_switches. mask_fun m = Channel_switch f"
  by (cases m) (simp_all add: mask_switches_def Channel_EnableRead_def Channel_EnableWrite_def Channel_DisableRead_def
      Channel_DisableWrite_def)

text \<open>Each operation runs, keeps the poller reachable and frees nothing.\<close>

definition keeps :: "int \<Rightarrow> 'f lstate \<Rightarrow> 'f lstate res \<Rightarrow> bool" where
  "keeps tid s r \<longleftrightarrow> (\<exists>s'. r = Inr s' \<and> ep_reach tid (ls_poller s') \<and>
     dom (ep_heap (ls_poller s)) \<subseteq> dom (ep_heap (ls_poller s')))"

lemma keeps_on_poller:
  assumes "f (ls_poller s) = Inr p" and "ep_reach tid p" and "dom (ep_heap (ls_poller s)) \<subseteq> dom (ep_heap p)"
  shows "keeps tid s (on_poller f s)"
  using assms by (simp add: keeps_def on_poller_def)

lemma switch_keeps:
  assumes reach: "ep_reach tid (ls_poller s)" and ch: "ep_heap (ls_poller s) c = Some ch" and f: "f \<in> set mask_switches"
  shows "keeps tid s (on_poller (Channel_switch f tid c) s)"
proof -
  obtain p where p: "Channel_switch f tid c (ls_poller s) = Inr p" "ep_heap p = (ep_heap (ls_poller s))(c \<mapsto> f ch)"
    using Channel_switch_ok [OF _ _ ch, of tid f] ep_reach_wf [OF reach] mask_switch_fd [OF f] by blast
  show ?thesis using p ep_reach.switch [OF reach f p(1)] by (intro keeps_on_poller) auto
qed

lemma close_keeps:
  assumes reach: "ep_reach tid (ls_poller s)" and c: "c \<in> ep_registered (ls_poller s)"
  shows "keeps tid s (on_poller (Channel_Close tid c) s)"
proof -
  obtain p where p: "Channel_Close tid c (ls_poller s) = Inr p"
    using Channel_Close_ok [OF _ _ c] ep_reach_wf [OF reach] by blast
  then have "dom (ep_heap (ls_poller s)) \<subseteq> dom (ep_heap p)"
    by (auto simp: Channel_Close_def EpollPoller_RemoveChannel_def rbind_Inr_iff split: if_splits)
  then show ?thesis using p ep_reach.close [OF reach c p] by (intro keeps_on_poller)
qed

lemma open_keeps:
  assumes reach: "ep_reach tid (ls_poller s)" and fresh: "fresh_channel c fd (ls_poller s)"
  shows "keeps tid s (on_poller (\<lambda>p. EpollPoller_AddChannel tid c (p\<lparr>ep_heap := (ep_heap p)(c \<mapsto> Channel_new fd 0 ids)\<rparr>)) s)"
proof -
  let ?p = "ls_poller s"
  let ?q = "?p\<lparr>ep_heap := (ep_heap ?p)(c \<mapsto> Channel_new fd 0 ids)\<rparr>"
  have q: "ep_reach tid ?q"
    using fresh by (intro ep_reach.create [OF reach]) (force simp: fresh_channel_def)+
  have "c \<notin> ep_registered ?p"
    using fresh ep_registeredE ep_reach_wf [OF reach] by (metis fresh_channel_def option.distinct(1))
  then have add: "c \<in> ep_addable ?q"
    using fresh by (simp add: ep_addable_def ep_registered_def fresh_channel_def Channel_new_def)
  obtain p' where p': "EpollPoller_AddChannel tid c ?q = Inr p'"
    using EpollPoller_AddChannel_ok [OF _ _ add] ep_reach_wf [OF q] by blast
  then have "ep_heap p' = ep_heap ?q"
    by (auto simp: EpollPoller_AddChannel_def EpollPoller_Update_def rbind_Inr_iff)
  then show ?thesis using p' ep_reach.add [OF q add p'] by (intro keeps_on_poller) auto
qed

lemma act_keeps:
  assumes "ep_reach tid (ls_poller s)"
  shows "keeps tid s (act tid a s)"
proof (cases a)
  case (ASwitch m c)
  obtain f where "f \<in> set mask_switches" "mask_fun m = Channel_switch f" using mask_fun_switch by blast
  then show ?thesis
    using ASwitch assms switch_keeps [OF assms, of c _ f] by (cases "ep_heap (ls_poller s) c") (simp_all add: keeps_def)
next
  case (AOpen c fd ids)
  then show ?thesis using open_keeps [OF assms, of c fd ids] assms by (simp add: keeps_def [of _ _ "Inr s"])
next
  case (ASetCallback k c)
  then show ?thesis
    using assms ep_reach.callback [OF assms, of c _ k]
    by (cases "ep_heap (ls_poller s) c") (auto simp: keeps_def)
next
  case (AClose c)
  then show ?thesis using close_keeps [OF assms, of c] assms by (simp add: keeps_def [of _ _ "Inr s"])
qed (use assms in \<open>simp_all add: keeps_def\<close>)

lemma acts_keep: "ep_reach tid (ls_poller s) \<Longrightarrow> keeps tid s (rfold (act tid) as s)"
proof (induction as arbitrary: s)
  case (Cons a as)
  obtain t where t: "act tid a s = Inr t" "ep_reach tid (ls_poller t)" "dom (ep_heap (ls_poller s)) \<subseteq> dom (ep_heap (ls_poller t))"
    using act_keeps [OF Cons.prems, of a] unfolding keeps_def by blast
  then show ?case using Cons.IH [OF t(2)] by (fastforce simp: keeps_def)
qed (simp add: keeps_def)

lemma delete_runs:
  assumes reach: "ep_reach tid p" and c: "c \<in> ep_registered p"
  shows "\<exists>q. Channel_delete tid c p = Inr q \<and> ep_reach tid q"
proof -
  note wf = ep_reach_wf [OF reach, THEN conjunct1]
  obtain ch where ch: "ep_heap p c = Some ch" "0 \<le> ch_fd ch" using ep_registeredE [OF wf c] .
  obtain q where "Channel_Close tid c p = Inr q" using Channel_Close_ok [OF wf _ c] ep_reach_wf [OF reach] by blast
  then have "Channel_delete tid c p = Inr (q\<lparr>ep_heap := (ep_heap q)(c := None)\<rparr>)"
    using ch by (simp add: Channel_delete_def)
  then show ?thesis using ep_reach.delete [OF reach] by blast
qed

lemma functor_runs:
  assumes "ep_reach tid (ls_poller s)"
  shows "\<exists>t. act_functor tid f s = Inr t \<and> ep_reach tid (ls_poller t)"
proof (cases f)
  case (FActs as)
  then show ?thesis using acts_keep [OF assms, of as] by (auto simp: keeps_def)
next
  case (FDelete c)
  then show ?thesis using delete_runs [OF assms, of c] assms by (auto simp: on_poller_def)
qed

interpretation lc: loop_client tid "\<lambda>c k. rfold (act tid) (prog c k)" "act_functor tid" for tid prog
  by unfold_locales (use acts_keep functor_runs in \<open>auto simp: keeps_def\<close>)

section \<open>Two active channels\<close>

text \<open>Two registered channels with a read callback, at addresses 1 and 2.\<close>

definition two_active :: epoll_poller where
  "two_active =
     (EpollPoller_new 9 Map.empty)\<lparr>
       ep_heap := [1 \<mapsto> Channel_SetCallback ReadCallback (Channel_new 5 kReadEvent 0),
                   2 \<mapsto> Channel_SetCallback ReadCallback (Channel_new 6 kReadEvent 1)],
       ep_channels := [5 \<mapsto> 1, 6 \<mapsto> 2], ep_interest := [5 \<mapsto> (scast kReadEvent, 1), 6 \<mapsto> (scast kReadEvent, 2)]\<rparr>"

lemmas act_simps = EpollPoller_new_def EpollPoller_AddChannel_def EpollPoller_Update_def EpollPoller_UpdateChannel_def
  epoll_ctl_def Channel_EnableRead_def Channel_switch_def Channel_new_def Channel_SetCallback_def enable_read_def
  EpollPoller_RemoveChannel_def Channel_Close_def Channel_delete_def

lemma two_active_reach: "ep_reach 9 two_active"
proof -
  define p0 where "p0 = EpollPoller_new 9 Map.empty"
  let ?s = "\<lparr>ls_poller = p0, ls_pending = [] :: loop_fun list, ls_doing = False, ls_quit = False\<rparr>"
  let ?as = "[AOpen 1 5 0, ASwitch OpEnableRead 1, ASetCallback ReadCallback 1,
      AOpen 2 6 1, ASwitch OpEnableRead 2, ASetCallback ReadCallback 2]"
  have "ep_reach 9 (ls_poller ?s)" by (simp add: p0_def ep_reach.start)
  then have "keeps 9 ?s (rfold (act 9) ?as ?s)" by (rule acts_keep)
  moreover have "rfold (act 9) ?as ?s = Inr (?s\<lparr>ls_poller := two_active\<rparr>)"
    by (simp add: p0_def two_active_def fresh_channel_def on_poller_def act_simps)
  ultimately show ?thesis by (simp add: keeps_def)
qed

section \<open>Properties\<close>

text \<open>
  C3. A loop whose event callbacks never free a channel, while its pending functors may, runs any number of
  rounds without an error, whatever descriptors of the interest list the kernel reports in each round and
  whatever the callbacks switch, open, close and queue: no pointer on the list of active channels is ever
  dangling when it is handled.
\<close>

theorem EventLoop_Loop_safe:
  assumes "ep_reach tid (ls_poller s)" and "\<And>n p evs. reports n p = Some evs \<Longrightarrow> reported p evs"
  shows "\<exists>t. EventLoop_Loop tid (\<lambda>c k. rfold (act tid) (prog c k)) (act_functor tid) reports n s = Inr t \<and>
    ep_reach tid (ls_poller t)"
  using lc.loop_run [OF assms] .

definition two_loop :: "loop_fun lstate" where
  "two_loop = \<lparr>ls_poller = two_active, ls_pending = [], ls_doing = False, ls_quit = False\<rparr>"

text \<open>The client that deletes both channels in a functor when one of them is readable; the kernel reports both.\<close>

definition delete_both :: "cptr \<Rightarrow> cb_kind \<Rightarrow> loop_act list" where
  "delete_both c k = [AQueue (FDelete 1), AQueue (FDelete 2), AOpen 3 7 2, AQuit]"

definition both_ready :: "nat \<Rightarrow> epoll_poller \<Rightarrow> (32 word \<times> cptr) list option" where
  "both_ready n p =
     (if map_option snd (ep_interest p 5) = Some 1 \<and> map_option snd (ep_interest p 6) = Some 2 \<and> 2 \<le> ep_size p
      then Some [(1, 1), (1, 2)] else None)"

lemma both_ready_reported: "both_ready n p = Some evs \<Longrightarrow> reported p evs"
  by (force simp: both_ready_def reported_def ran_def split: if_splits)

theorem EventLoop_Loop_safe_witness:
  "\<exists>t. EventLoop_Loop 9 (\<lambda>c k. rfold (act 9) (delete_both c k)) (act_functor 9) both_ready 4 two_loop = Inr t"
  using EventLoop_Loop_safe [of 9 two_loop both_ready delete_both 4] two_active_reach both_ready_reported
  by (auto simp: two_loop_def)

text \<open>
  C10. As long as callbacks keep what the reported channels received, and so delete none of them: a round handles the reported
  channels in the order of the report and runs for each of them the registered callbacks that are due for the mask reported for it.
  It then takes all the functors that are pending, those that the callbacks queued included, and runs each of them once, in order, in the
  thread of the loop, with the flag for running functors set; what they queue stays for the next round. The first error of a callback or a
  functor ends the round. Without the condition \<open>EventLoop_round_deleted\<close> below shows what can happen.
\<close>

theorem EventLoop_round_order:
  assumes "ep_reach tid (ls_poller s)" and "reported (ls_poller s) evs"
    and "\<And>c d k s s'. c \<in> set (map snd evs) \<Longrightarrow> d \<in> set (map snd evs) \<Longrightarrow> run c k s = Inr s' \<Longrightarrow>
      received_in s' d = received_in s d"
  shows "\<exists>p. EpollPoller_Poll (Some evs) (ls_poller s) = Inr (map snd evs, p) \<and>
    EventLoop_round tid run runf (Some evs) s =
      rbind (rfold (\<lambda>(c, k). run c k)
          (concat (map (\<lambda>(ev, c). map (Pair c) (filter (\<lambda>k. k \<in> ch_callbacks (the (ep_heap (ls_poller s) c))) (due (ucast ev)))) evs))
          (s\<lparr>ls_poller := p\<rparr>))
        (\<lambda>t. rbind (cxx_assert (tid = ep_tid (ls_poller t))) (\<lambda>_.
          rbind (rfold runf (ls_pending t) (t\<lparr>ls_pending := [], ls_doing := True\<rparr>)) (\<lambda>u. Inr (u\<lparr>ls_doing := False\<rparr>))))"
proof -
  obtain p where p: "EpollPoller_Poll (Some evs) (ls_poller s) = Inr (map snd evs, p)"
    "\<forall>(ev, c) \<in> set evs. \<exists>ch. ep_heap (ls_poller s) c = Some ch \<and> ep_heap p c = Some (SetREvents (ucast ev) ch)"
    using EpollPoller_Poll_ok [of "ls_poller s" evs] ep_reach_wf [OF assms(1)] assms(2) by blast
  let ?t = "s\<lparr>ls_poller := p\<rparr>"
  have "rfold (EventLoop_handle run) (map snd evs) ?t =
      rfold (\<lambda>(c, k). run c k) (concat (map (calls_of (received_in ?t)) (map snd evs))) ?t"
    using p(2) assms(3) by (intro active_calls) (fastforce simp: received_in_def)+
  moreover have "calls_of (received_in ?t) (snd x) =
      (\<lambda>(ev, c). map (Pair c) (filter (\<lambda>k. k \<in> ch_callbacks (the (ep_heap (ls_poller s) c))) (due (ucast ev)))) x"
    if "x \<in> set evs" for x
    using p(2) that by (fastforce simp: calls_of_def received_in_def received_def SetREvents_def)
  ultimately show ?thesis using p(1) by (auto simp: EventLoop_round_def comp_def EventLoop_DoPendingFunctors_def [abs_def] cong: map_cong)
qed

text \<open>
  A callback that deletes a channel which a poll reported in the same round, after its own, leaves a
  dangling pointer on the list: the round ends in a use of the freed channel.
\<close>

theorem EventLoop_round_deleted:
  assumes "EpollPoller_Poll (Some evs) (ls_poller s) = Inr (pre @ d # post, p)"
    and "rfold (EventLoop_handle run) pre (s\<lparr>ls_poller := p\<rparr>) = Inr t" and "ep_heap (ls_poller t) d = None"
  shows "EventLoop_round tid run runf (Some evs) s = Inl UseAfterFree"
  using assms by (simp add: EventLoop_round_def rfold_append EventLoop_handle_gone)

theorem EventLoop_round_order_witness:
  "\<exists>p. EpollPoller_Poll (Some [(1, 2), (1, 1)]) two_active = Inr ([2, 1], p) \<and>
    EventLoop_round 9 (\<lambda>c k s. Inr (s\<lparr>ls_pending := ls_pending s @ [FDelete c]\<rparr>)) (act_functor 9) (Some [(1, 2), (1, 1)]) two_loop
      = rbind (cxx_assert (9 = ep_tid p)) (\<lambda>_.
        rbind (rfold (act_functor 9) [FDelete 2, FDelete 1] (two_loop\<lparr>ls_poller := p, ls_doing := True\<rparr>)) (\<lambda>u. Inr (u\<lparr>ls_doing := False\<rparr>)))"
proof -
  have "ran (ep_interest two_active) = {(scast kReadEvent, 1), (scast kReadEvent, 2)}"
    by (auto simp: two_active_def ran_map_upd)
  then have rep: "reported (ls_poller two_loop) [(1, 2), (1, 1)]"
    by (simp add: reported_def two_loop_def two_active_def EpollPoller_new_def kInitEventListSize_def)
  have reach: "ep_reach 9 (ls_poller two_loop)" using two_active_reach by (simp add: two_loop_def)
  let ?run = "\<lambda>c k s. Inr (s\<lparr>ls_pending := ls_pending s @ [FDelete c]\<rparr>)"
  let ?evs = "[(1 :: 32 word, 2), (1, 1)] :: (32 word \<times> cptr) list"
  have "\<exists>p. EpollPoller_Poll (Some ?evs) (ls_poller two_loop) = Inr (map snd ?evs, p) \<and>
    EventLoop_round 9 ?run (act_functor 9) (Some ?evs) two_loop =
      rbind (rfold (\<lambda>(c, k). ?run c k)
          (concat (map (\<lambda>(ev, c). map (Pair c)
              (filter (\<lambda>k. k \<in> ch_callbacks (the (ep_heap (ls_poller two_loop) c))) (due (ucast ev)))) ?evs))
          (two_loop\<lparr>ls_poller := p\<rparr>))
        (\<lambda>t. rbind (cxx_assert (9 = ep_tid (ls_poller t))) (\<lambda>_.
          rbind (rfold (act_functor 9) (ls_pending t) (t\<lparr>ls_pending := [], ls_doing := True\<rparr>)) (\<lambda>u. Inr (u\<lparr>ls_doing := False\<rparr>))))"
    using reach rep by (rule EventLoop_round_order) (auto simp: received_in_def)
  then obtain p where p: "EpollPoller_Poll (Some ?evs) two_active = Inr ([2, 1], p)"
    "EventLoop_round 9 ?run (act_functor 9) (Some ?evs) two_loop =
      rbind (rfold (\<lambda>(c, k). ?run c k)
          (concat (map (\<lambda>(ev, c). map (Pair c) (filter (\<lambda>k. k \<in> ch_callbacks (the (ep_heap two_active c))) (due (ucast ev)))) ?evs))
          (two_loop\<lparr>ls_poller := p\<rparr>))
        (\<lambda>t. rbind (cxx_assert (9 = ep_tid (ls_poller t))) (\<lambda>_.
          rbind (rfold (act_functor 9) (ls_pending t) (t\<lparr>ls_pending := [], ls_doing := True\<rparr>)) (\<lambda>u. Inr (u\<lparr>ls_doing := False\<rparr>))))"
    by (auto simp: two_loop_def)
  have "due 1 = [ReadCallback]" by code_simp
  moreover have "ReadCallback \<in> ch_callbacks (the (ep_heap two_active 1))" "ReadCallback \<in> ch_callbacks (the (ep_heap two_active 2))"
    by (simp_all add: two_active_def Channel_SetCallback_def)
  ultimately show ?thesis using p by (simp add: two_loop_def)
qed

theorem EventLoop_round_deleted_witness:
  "EventLoop_round 9 (\<lambda>c k. on_poller (Channel_delete 9 2)) (act_functor 9) (Some [(1, 1), (1, 2)]) two_loop = Inl UseAfterFree"
proof -
  define q where "q = two_active\<lparr>ep_heap := (ep_heap two_active)(
      1 \<mapsto> SetREvents 1 (the (ep_heap two_active 1)), 2 \<mapsto> SetREvents 1 (the (ep_heap two_active 2)))\<rparr>"
  define q' where "q' = q\<lparr>ep_heap := (ep_heap q)(2 := None), ep_channels := (ep_channels q)(6 := None),
      ep_interest := (ep_interest q)(6 := None)\<rparr>"
  have "EpollPoller_Poll (Some [(1, 1), (1, 2)]) (ls_poller two_loop) = Inr ([1] @ 2 # [], q)"
    by (simp add: two_loop_def q_def two_active_def EpollPoller_Poll_def EpollPoller_new_def kInitEventListSize_def
        fun_upd_twist)
  moreover have "rfold (EventLoop_handle (\<lambda>c k. on_poller (Channel_delete 9 2))) [1] (two_loop\<lparr>ls_poller := q\<rparr>) =
      Inr (two_loop\<lparr>ls_poller := q'\<rparr>)"
    by (simp add: EventLoop_handle_def Channel_HandleEvent_def dispatch_if_def live_channel_def two_loop_def q_def q'_def two_active_def
        SetREvents_def on_poller_def act_simps has_event_def [of POLLIN 8195])
  moreover have "ep_heap (ls_poller (two_loop\<lparr>ls_poller := q'\<rparr>)) 2 = None" by (simp add: q'_def)
  ultimately show ?thesis by (rule EventLoop_round_deleted)
qed

end
