(* ===== verification/Pollers.thy ===== *)
theory Pollers
  imports Round
begin

text \<open>
  The two implementations of \<^verbatim>\<open>Poller\<close> side by side. \<^verbatim>\<open>Poller::NewDefaultPoller\<close> always picks the epoll
  poller; the poll poller (\<^verbatim>\<open>net/pollpoller.cc\<close>) is the reference it can be compared with. Both are driven
  by the same calls of channels and the loop, and by the same readiness of the descriptors, which
  \<^verbatim>\<open>poll\<close> reports in the order of its entries and \<^verbatim>\<open>epoll_wait\<close> in any order. Removal is left out: there
  the poll poller goes wrong on its own (\<open>PollPoller_RemoveChannel_result\<close>).
\<close>

section \<open>The same calls on both pollers\<close>

datatype po_op =
    POOpen cptr int int
  | POSetCallback cb_kind cptr
  | POAdd cptr
  | POSwitch mask_op cptr
  | POPoll "int \<Rightarrow> 16 word" "(32 word \<times> cptr) list"

fun mask_of :: "mask_op \<Rightarrow> channel \<Rightarrow> channel" where
  "mask_of OpEnableRead = enable_read"
| "mask_of OpEnableWrite = enable_write"
| "mask_of OpDisableRead = disable_read"
| "mask_of OpDisableWrite = disable_write"

text \<open>A switch of a channel whose loop has a poll poller.\<close>

definition PollPoller_switch :: "(channel \<Rightarrow> channel) \<Rightarrow> int \<Rightarrow> cptr \<Rightarrow> poll_poller \<Rightarrow> poll_poller res" where
  "PollPoller_switch f tid c p =
     rbind (channel_at (pp_heap p) c) (\<lambda>ch.
     PollPoller_UpdateChannel tid c (p\<lparr>pp_heap := (pp_heap p)(c \<mapsto> f ch)\<rparr>))"

definition quiet :: "'p res \<Rightarrow> (cptr list \<times> 'p) res" where
  "quiet m = rbind m (\<lambda>p. Inr ([], p))"

fun pp_step :: "int \<Rightarrow> po_op \<Rightarrow> poll_poller \<Rightarrow> (cptr list \<times> poll_poller) res" where
  "pp_step tid (POOpen c fd ids) p = Inr ([], p\<lparr>pp_heap := (pp_heap p)(c \<mapsto> Channel_new fd 0 ids)\<rparr>)"
| "pp_step tid (POSetCallback k c) p =
     quiet (rbind (channel_at (pp_heap p) c) (\<lambda>ch. Inr (p\<lparr>pp_heap := (pp_heap p)(c \<mapsto> Channel_SetCallback k ch)\<rparr>)))"
| "pp_step tid (POAdd c) p = quiet (PollPoller_AddChannel tid c p)"
| "pp_step tid (POSwitch m c) p = quiet (PollPoller_switch (mask_of m) tid c p)"
| "pp_step tid (POPoll m evs) p =
     (let rs = map (\<lambda>pfd. m (pfd_fd pfd)) (pp_pollfds p) in PollPoller_Poll (int (length (filter (\<lambda>r. r \<noteq> 0) rs))) rs p)"

fun epo_step :: "int \<Rightarrow> po_op \<Rightarrow> epoll_poller \<Rightarrow> (cptr list \<times> epoll_poller) res" where
  "epo_step tid (POOpen c fd ids) p = Inr ([], p\<lparr>ep_heap := (ep_heap p)(c \<mapsto> Channel_new fd 0 ids)\<rparr>)"
| "epo_step tid (POSetCallback k c) p =
     quiet (rbind (channel_at (ep_heap p) c) (\<lambda>ch. Inr (p\<lparr>ep_heap := (ep_heap p)(c \<mapsto> Channel_SetCallback k ch)\<rparr>)))"
| "epo_step tid (POAdd c) p = quiet (EpollPoller_AddChannel tid c p)"
| "epo_step tid (POSwitch m c) p = quiet (mask_fun m tid c p)"
| "epo_step tid (POPoll m evs) p = EpollPoller_Poll (Some evs) p"

text \<open>
  The calls a client may make: fresh channels, additions of live unregistered channels, switches of
  registered ones. A poll reports every registered descriptor that is ready, with a mask that is not
  negative as a \<^verbatim>\<open>short\<close>, and no more than the event vector of the epoll poller holds.
\<close>

fun po_legal :: "po_op \<Rightarrow> epoll_poller \<Rightarrow> bool" where
  "po_legal (POOpen c fd ids) e \<longleftrightarrow> fresh_channel c fd e"
| "po_legal (POSetCallback k c) e \<longleftrightarrow> ep_heap e c \<noteq> None"
| "po_legal (POAdd c) e \<longleftrightarrow> c \<in> ep_addable e"
| "po_legal (POSwitch m c) e \<longleftrightarrow> c \<in> ep_registered e"
| "po_legal (POPoll m evs) e \<longleftrightarrow> distinct (map snd evs) \<and> length evs \<le> ep_size e \<and> (\<forall>fd. 0 \<le> sint (m fd)) \<and>
     set evs = {(ucast (m fd), c) | fd c. ep_channels e fd = Some c \<and> m fd \<noteq> 0}"

section \<open>The relation\<close>

definition unindexed :: "channel \<Rightarrow> channel" where
  "unindexed ch = ch\<lparr>ch_index := None\<rparr>"

definition same_heap :: "cheap \<Rightarrow> cheap \<Rightarrow> bool" where
  "same_heap h g \<longleftrightarrow> (\<forall>c. map_option unindexed (h c) = map_option unindexed (g c))"

definition same_watch :: "poll_poller \<Rightarrow> epoll_poller \<Rightarrow> bool" where
  "same_watch p e \<longleftrightarrow> (\<forall>pfd \<in> set (pp_pollfds p). \<forall>c. ep_channels e (pfd_fd pfd) = Some c \<longrightarrow>
     ep_interest e (pfd_fd pfd) = Some (scast (pfd_events pfd), c))"

definition pollers_rel :: "int \<Rightarrow> poll_poller \<Rightarrow> epoll_poller \<Rightarrow> bool" where
  "pollers_rel tid p e \<longleftrightarrow> pp_wf p \<and> pp_tid p = tid \<and> ep_reach tid e \<and> same_heap (pp_heap p) (ep_heap e) \<and>
     pp_channels p = (\<lambda>fd. map_option Some (ep_channels e fd)) \<and> same_watch p e"

lemma same_heap_Some:
  assumes "same_heap h g" and "g c = Some ch"
  shows "\<exists>i. h c = Some (ch\<lparr>ch_index := i\<rparr>)"
proof -
  have "map_option unindexed (h c) = Some (unindexed ch)" using assms by (simp add: same_heap_def)
  then obtain dh where dh: "h c = Some dh" "unindexed dh = unindexed ch" by auto
  have "dh = (unindexed dh)\<lparr>ch_index := ch_index dh\<rparr>" by (simp add: unindexed_def)
  then have "dh = ch\<lparr>ch_index := ch_index dh\<rparr>" unfolding dh(2) by (simp add: unindexed_def)
  then show ?thesis using dh(1) by metis
qed

lemma same_heap_upd:
  assumes "same_heap h g" and "unindexed ch = unindexed dh"
  shows "same_heap (h(c \<mapsto> ch)) (g(c \<mapsto> dh))"
  using assms by (simp add: same_heap_def)

lemma unindexed_switch: "unindexed (mask_of m (ch\<lparr>ch_index := i\<rparr>)) = unindexed (mask_of m ch)"
  by (cases m) (simp_all add: unindexed_def enable_read_def enable_write_def disable_read_def disable_write_def)

lemma mask_fun_of: "mask_fun m = Channel_switch (mask_of m)"
  by (cases m) (simp_all add: Channel_EnableRead_def Channel_EnableWrite_def Channel_DisableRead_def Channel_DisableWrite_def)

lemma mask_of_switch: "mask_of m \<in> set mask_switches"
  by (cases m) (simp_all add: mask_switches_def)

lemma mask_of_fields [simp]: "ch_fd (mask_of m ch) = ch_fd ch" "ch_index (mask_of m ch) = ch_index ch"
  by (cases m; simp add: enable_read_def enable_write_def disable_read_def disable_write_def)+

text \<open>A change of the heap that keeps the descriptor and index of every registered channel keeps the invariant.\<close>

lemma pp_wf_heap:
  assumes "pp_wf p" and "\<And>fd c ch. pp_channels p fd = Some (Some c) \<Longrightarrow> pp_heap p c = Some ch \<Longrightarrow>
    \<exists>ch'. h c = Some ch' \<and> ch_fd ch' = ch_fd ch \<and> ch_index ch' = ch_index ch"
  shows "pp_wf (p\<lparr>pp_heap := h\<rparr>)"
proof -
  have "\<exists>c ch. pp_channels p (pfd_fd (pp_pollfds p ! i)) = Some (Some c) \<and> h c = Some ch \<and>
      ch_fd ch = pfd_fd (pp_pollfds p ! i) \<and> ch_index ch = Some i" if i: "i < length (pp_pollfds p)" for i
  proof -
    obtain c ch where "pp_channels p (pfd_fd (pp_pollfds p ! i)) = Some (Some c)" "pp_heap p c = Some ch"
      "ch_fd ch = pfd_fd (pp_pollfds p ! i)" "ch_index ch = Some i"
      using assms(1) i by (auto simp: pp_wf_def)
    then show ?thesis using assms(2) by metis
  qed
  then show ?thesis using assms(1) by (simp add: pp_wf_def)
qed

lemma pp_wf_revents:
  assumes "pp_wf p" and "map pfd_fd pfds = map pfd_fd (pp_pollfds p)"
  shows "pp_wf (p\<lparr>pp_pollfds := pfds\<rparr>)"
proof -
  have len: "length pfds = length (pp_pollfds p)" using assms(2) by (metis length_map)
  then have "pfd_fd (pfds ! i) = pfd_fd (pp_pollfds p ! i)" if "i < length pfds" for i
    using that assms(2) by (metis nth_map)
  moreover have "pfd_fd ` set pfds = pfd_fd ` set (pp_pollfds p)" using assms(2) by (metis list.set_map)
  ultimately show ?thesis using assms len by (simp add: pp_wf_def)
qed

section \<open>One call\<close>

text \<open>Related results: both pollers go on, related again, and hand the loop the same channels.\<close>

definition same_results :: "int \<Rightarrow> (cptr list \<times> poll_poller) res \<Rightarrow> (cptr list \<times> epoll_poller) res \<Rightarrow> bool" where
  "same_results tid r s \<longleftrightarrow> (\<exists>cs p ds e. r = Inr (cs, p) \<and> s = Inr (ds, e) \<and> pollers_rel tid p e \<and>
     distinct cs \<and> distinct ds \<and> set cs = set ds)"

lemma same_results_quiet:
  "r = Inr p \<Longrightarrow> s = Inr e \<Longrightarrow> pollers_rel tid p e \<Longrightarrow> same_results tid (quiet r) (quiet s)"
  by (simp add: same_results_def quiet_def)

lemma rel_heap: "pollers_rel tid p e \<Longrightarrow> ep_heap e c = Some ch \<Longrightarrow> \<exists>i. pp_heap p c = Some (ch\<lparr>ch_index := i\<rparr>)"
  using same_heap_Some unfolding pollers_rel_def by blast

lemma rel_registered:
  assumes "pollers_rel tid p e" and "c \<in> ep_registered e"
  obtains ch i where "ep_heap e c = Some ch" "pp_heap p c = Some (ch\<lparr>ch_index := Some i\<rparr>)" "i < length (pp_pollfds p)"
    "pfd_fd (pp_pollfds p ! i) = ch_fd ch" "ep_channels e (ch_fd ch) = Some c" "ep_interest e (ch_fd ch) = Some (scast (ch_events ch), c)"
    "0 \<le> ch_fd ch"
proof -
  obtain ch where ch: "ep_heap e c = Some ch" "ep_channels e (ch_fd ch) = Some c"
    "ep_interest e (ch_fd ch) = Some (scast (ch_events ch), c)" "0 \<le> ch_fd ch"
    using ep_registeredE assms ep_reach_wf unfolding pollers_rel_def by metis
  obtain i where i: "pp_heap p c = Some (ch\<lparr>ch_index := i\<rparr>)"
    using rel_heap [OF assms(1) ch(1)] by blast
  have "pp_channels p (ch_fd ch) = Some (Some c)" using assms(1) ch(2) by (simp add: pollers_rel_def)
  then obtain j where j: "j < length (pp_pollfds p)" "pfd_fd (pp_pollfds p ! j) = ch_fd ch" "i = Some j"
    using pp_wf_entry [of p "ch_fd ch" "Some c"] assms(1) i unfolding pollers_rel_def by (metis channel.select_convs(5) channel.surjective channel.update_convs(5) option.inject)
  then show ?thesis using that ch i by auto
qed

lemma open_same:
  assumes rel: "pollers_rel tid p e" and legal: "fresh_channel c fd e"
  shows "same_results tid (pp_step tid (POOpen c fd ids) p) (epo_step tid (POOpen c fd ids) e)"
proof -
  let ?h = "(pp_heap p)(c \<mapsto> Channel_new fd 0 ids)"
  have "ep_reach tid (e\<lparr>ep_heap := (ep_heap e)(c \<mapsto> Channel_new fd 0 ids)\<rparr>)"
    using rel legal by (intro ep_reach.create) (force simp: pollers_rel_def fresh_channel_def)+
  moreover have "d \<noteq> c" if "pp_channels p x = Some (Some d)" for x d
    using rel that legal ep_registeredE [of e d] ep_reach_wf [of tid e]
    by (fastforce simp: pollers_rel_def fresh_channel_def ep_registered_def ran_def)
  then have "pp_wf (p\<lparr>pp_heap := ?h\<rparr>)"
    using rel by (intro pp_wf_heap) (auto simp: pollers_rel_def)
  ultimately have "pollers_rel tid (p\<lparr>pp_heap := ?h\<rparr>) (e\<lparr>ep_heap := (ep_heap e)(c \<mapsto> Channel_new fd 0 ids)\<rparr>)"
    using rel by (simp add: pollers_rel_def same_heap_upd same_watch_def)
  then show ?thesis by (simp add: same_results_def)
qed

lemma callback_same:
  assumes rel: "pollers_rel tid p e" and legal: "ep_heap e c \<noteq> None"
  shows "same_results tid (pp_step tid (POSetCallback k c) p) (epo_step tid (POSetCallback k c) e)"
proof -
  obtain ch where ch: "ep_heap e c = Some ch" using legal by blast
  then obtain i where i: "pp_heap p c = Some (ch\<lparr>ch_index := i\<rparr>)"
    using rel_heap [OF rel] by blast
  let ?h = "(pp_heap p)(c \<mapsto> Channel_SetCallback k (ch\<lparr>ch_index := i\<rparr>))"
  let ?e = "e\<lparr>ep_heap := (ep_heap e)(c \<mapsto> Channel_SetCallback k ch)\<rparr>"
  have "ep_reach tid ?e" using rel ch by (intro ep_reach.callback) (simp_all add: pollers_rel_def)
  moreover have "pp_wf (p\<lparr>pp_heap := ?h\<rparr>)"
    using rel i by (intro pp_wf_heap) (auto simp: pollers_rel_def Channel_SetCallback_def)
  moreover have "same_heap ?h (ep_heap ?e)"
    using rel by (auto simp: pollers_rel_def Channel_SetCallback_def unindexed_def intro!: same_heap_upd)
  ultimately have "pollers_rel tid (p\<lparr>pp_heap := ?h\<rparr>) ?e" using rel by (simp add: pollers_rel_def same_watch_def)
  then show ?thesis using ch i by (auto intro!: same_results_quiet)
qed

lemma add_same:
  assumes rel: "pollers_rel tid p e" and legal: "c \<in> ep_addable e"
  shows "same_results tid (pp_step tid (POAdd c) p) (epo_step tid (POAdd c) e)"
proof -
  obtain ch where ch: "ep_heap e c = Some ch" "0 \<le> ch_fd ch" "c \<notin> ep_registered e" using legal by (auto simp: ep_addable_def)
  obtain i where i: "pp_heap p c = Some (ch\<lparr>ch_index := i\<rparr>)"
    using rel_heap [OF rel ch(1)] by blast
  have wf: "ep_wf e" "ep_tid e = tid" using rel ep_reach_wf unfolding pollers_rel_def by blast+
  note none = ep_unregistered_fd [OF wf(1) ch(1,3,2)]
  let ?e = "e\<lparr>ep_interest := (ep_interest e)(ch_fd ch \<mapsto> (scast (ch_events ch), c)), ep_channels := (ep_channels e)(ch_fd ch \<mapsto> c)\<rparr>"
  let ?pfd = "\<lparr>pfd_fd = ch_fd ch, pfd_events = ch_events ch, pfd_revents = 0\<rparr>"
  let ?p = "p\<lparr>pp_pollfds := pp_pollfds p @ [?pfd], pp_channels := (pp_channels p)(ch_fd ch \<mapsto> Some c),
      pp_heap := (pp_heap p)(c \<mapsto> ch\<lparr>ch_index := Some (length (pp_pollfds p))\<rparr>)\<rparr>"
  have e: "EpollPoller_AddChannel tid c e = Inr ?e"
    using ch wf none by (simp add: EpollPoller_AddChannel_def EpollPoller_Update_def epoll_ctl_def)
  have p: "PollPoller_AddChannel tid c p = Inr ?p"
    using i rel by (simp add: PollPoller_AddChannel_def pollers_rel_def Let_def)
  have "\<forall>fd. pp_channels p fd \<noteq> Some (Some c)" using rel ch(3) by (auto simp: pollers_rel_def ep_registered_def ran_def)
  then have "pp_wf ?p"
    using PollPoller_AddChannel_ok [of p c "ch\<lparr>ch_index := i\<rparr>" tid] p i none rel by (auto simp: pollers_rel_def)
  moreover have "ep_reach tid ?e" using ep_reach.add [OF _ legal e] rel by (simp add: pollers_rel_def)
  moreover have "same_heap (pp_heap ?p) (ep_heap ?e)"
    using rel ch(1) by (auto simp: pollers_rel_def same_heap_def unindexed_def)
  moreover have "pfd_fd x \<noteq> ch_fd ch" if "x \<in> set (pp_pollfds p)" for x
    using pp_wf_entries [of p x] that rel none by (auto simp: pollers_rel_def)
  then have "same_watch ?p ?e" using rel by (auto simp: pollers_rel_def same_watch_def)
  ultimately have "pollers_rel tid ?p ?e" using rel by (auto simp: pollers_rel_def)
  then show ?thesis using e p by (auto intro!: same_results_quiet)
qed

text \<open>The entry of a channel and its line of the interest list change together.\<close>

lemma same_watch_entry:
  assumes rel: "pollers_rel tid p e" and i: "i < length (pp_pollfds p)" "pfd_fd (pp_pollfds p ! i) = fd"
    and c: "ep_channels e fd = Some c" and pfd: "pfd_fd pfd = fd"
  shows "same_watch (p\<lparr>pp_pollfds := (pp_pollfds p)[i := pfd]\<rparr>) (e\<lparr>ep_interest := (ep_interest e)(fd \<mapsto> (scast (pfd_events pfd), c))\<rparr>)"
    (is "same_watch ?p ?e")
proof -
  have "ep_interest ?e (pfd_fd x) = Some (scast (pfd_events x), d)"
    if x: "x \<in> set (pp_pollfds ?p)" "ep_channels ?e (pfd_fd x) = Some d" for x d
  proof -
    obtain j where j: "j < length (pp_pollfds p)" "x = (pp_pollfds p)[i := pfd] ! j"
      using x(1) by (auto simp: in_set_conv_nth)
    show ?thesis
    proof (cases "j = i")
      case True
      then show ?thesis using j x(2) c pfd by simp
    next
      case False
      then have x': "x = pp_pollfds p ! j" using j by simp
      have "distinct (map pfd_fd (pp_pollfds p))" using rel by (simp add: pollers_rel_def pp_wf_def)
      then have "pfd_fd x \<noteq> fd" using False j(1) x' i by (metis distinct_conv_nth length_map nth_map)
      then show ?thesis using rel x(2) x' j(1) by (simp add: pollers_rel_def same_watch_def)
    qed
  qed
  then show ?thesis unfolding same_watch_def by blast
qed

lemma switch_same:
  assumes rel: "pollers_rel tid p e" and legal: "c \<in> ep_registered e"
  shows "same_results tid (pp_step tid (POSwitch m c) p) (epo_step tid (POSwitch m c) e)"
proof -
  obtain ch i where ch: "ep_heap e c = Some ch" "pp_heap p c = Some (ch\<lparr>ch_index := Some i\<rparr>)" "i < length (pp_pollfds p)"
    "pfd_fd (pp_pollfds p ! i) = ch_fd ch" "ep_channels e (ch_fd ch) = Some c" "ep_interest e (ch_fd ch) = Some (scast (ch_events ch), c)"
    "0 \<le> ch_fd ch"
    using rel_registered [OF rel legal] .
  let ?ch = "mask_of m ch" and ?dh = "mask_of m (ch\<lparr>ch_index := Some i\<rparr>)"
  let ?e = "e\<lparr>ep_heap := (ep_heap e)(c \<mapsto> ?ch), ep_interest := (ep_interest e)(ch_fd ch \<mapsto> (scast (ch_events ?ch), c))\<rparr>"
  let ?pfd = "\<lparr>pfd_fd = ch_fd ch, pfd_events = ch_events ?dh, pfd_revents = 0\<rparr>"
  let ?q = "p\<lparr>pp_heap := (pp_heap p)(c \<mapsto> ?dh)\<rparr>"
  let ?p = "?q\<lparr>pp_pollfds := (pp_pollfds p)[i := ?pfd]\<rparr>"
  have tid: "ep_tid e = tid" "pp_tid p = tid" using rel ep_reach_wf unfolding pollers_rel_def by blast+
  have e: "mask_fun m tid c e = Inr ?e"
    using ch tid by (simp add: mask_fun_of Channel_switch_def EpollPoller_UpdateChannel_def EpollPoller_Update_def epoll_ctl_def)
  have p: "PollPoller_switch (mask_of m) tid c p = Inr ?p"
    using ch tid rel by (simp add: PollPoller_switch_def PollPoller_UpdateChannel_def pollers_rel_def)
  have "pp_wf ?q" using rel ch(2) by (intro pp_wf_heap) (auto simp: pollers_rel_def)
  then have "pp_wf ?p"
    using ch(3,4) by (intro pp_wf_revents) (simp_all add: map_update list_update_same_conv)
  moreover have "ep_reach tid ?e"
    using ep_reach.switch [OF _ mask_of_switch, of tid e m c] e rel by (simp add: pollers_rel_def mask_fun_of)
  moreover have "same_heap (pp_heap ?p) (ep_heap ?e)"
    using rel unindexed_switch [where m = m and ch = ch and i = "Some i"] by (auto simp: pollers_rel_def intro!: same_heap_upd)
  moreover have "ch_events ?dh = ch_events ?ch"
    using arg_cong [OF unindexed_switch, of ch_events] by (simp add: unindexed_def)
  then have "same_watch ?p ?e" using same_watch_entry [OF rel ch(3-5), of ?pfd] by (simp add: same_watch_def)
  ultimately have "pollers_rel tid ?p ?e" using rel by (simp add: pollers_rel_def)
  then show ?thesis using e p by (auto intro!: same_results_quiet)
qed

lemma same_heap_received:
  assumes "same_heap h g"
  shows "same_heap (set_received evs h) (set_received evs g)"
proof -
  have "map_option unindexed (map_option (SetREvents r) x) = map_option (SetREvents r) (map_option unindexed x)" for r x
    by (cases x) (simp_all add: unindexed_def SetREvents_def)
  then show ?thesis using assms by (simp add: same_heap_def set_received_def split: option.splits)
qed

lemma pp_wf_poll:
  assumes "pp_wf p" and "length rs = length (pp_pollfds p)"
  shows "pp_wf (p\<lparr>pp_pollfds := map2 (\<lambda>pfd r. pfd\<lparr>pfd_revents := r\<rparr>) (pp_pollfds p) rs, pp_heap := set_received evs (pp_heap p)\<rparr>)"
proof -
  let ?pfds = "map2 (\<lambda>pfd r. pfd\<lparr>pfd_revents := r\<rparr>) (pp_pollfds p) rs"
  have "pp_wf (p\<lparr>pp_pollfds := ?pfds\<rparr>)"
    using assms by (intro pp_wf_revents nth_equalityI) auto
  then have "pp_wf (p\<lparr>pp_pollfds := ?pfds\<rparr>\<lparr>pp_heap := set_received evs (pp_heap p)\<rparr>)"
    by (rule pp_wf_heap) (auto simp: set_received_def SetREvents_def split: option.splits)
  then show ?thesis by simp
qed

text \<open>The events that both pollers find: the ready descriptors with their masks and channels.\<close>

definition ready_events :: "(int \<Rightarrow> 16 word) \<Rightarrow> epoll_poller \<Rightarrow> (16 word \<times> cptr) set" where
  "ready_events m e = {(m fd, c) | fd c. ep_channels e fd = Some c \<and> m fd \<noteq> 0}"

lemma legal_mask: "po_legal (POPoll m evs) e \<Longrightarrow> m fd \<noteq> 0 \<longleftrightarrow> 0 < sint (m fd)"
proof -
  assume "po_legal (POPoll m evs) e"
  then have "0 \<le> sint (m fd)" by simp
  moreover have "sint (m fd) = 0 \<longleftrightarrow> m fd = 0" using signed_word_eqI [of "m fd" 0] by auto
  ultimately show ?thesis by linarith
qed

lemma legal_reported:
  assumes wf: "ep_wf e" and legal: "po_legal (POPoll m evs) e"
  shows "reported e evs"
proof -
  have "snd x \<in> snd ` ran (ep_interest e)" if "x \<in> set evs" for x
    using that legal wf by (fastforce simp: ep_wf_def ep_reg_def ran_def image_iff)
  then have "snd ` set evs \<subseteq> snd ` ran (ep_interest e)" by (rule image_subsetI)
  then show ?thesis using legal unfolding reported_def po_legal.simps by blast
qed

lemma epoll_events_set:
  assumes "po_legal (POPoll m evs) e"
  shows "set (map (map_prod ucast (\<lambda>c. c)) evs) = ready_events m e"
proof -
  have "ucast (ucast r :: 32 word) = r" for r :: "16 word" by (rule bit_word_eqI) (auto simp: bit_simps)
  moreover have "set evs = {(ucast (m fd), c) | fd c. ep_channels e fd = Some c \<and> m fd \<noteq> 0}" using assms by simp
  ultimately show ?thesis by (force simp: image_def ready_events_def)
qed

lemma poll_events_set:
  assumes rel: "pollers_rel tid p e" and legal: "po_legal (POPoll m evs) e"
  shows "set (poll_events p (map (\<lambda>pfd. m (pfd_fd pfd)) (pp_pollfds p))) = ready_events m e"
proof -
  let ?rs = "map (\<lambda>pfd. m (pfd_fd pfd)) (pp_pollfds p)"
  have wf: "pp_wf p" using rel by (simp add: pollers_rel_def)
  have zip: "zip (pp_pollfds p) ?rs = map (\<lambda>pfd. (pfd, m (pfd_fd pfd))) (pp_pollfds p)"
    by (simp add: zip_map2 zip_same_conv_map)
  have "dom (pp_channels p) = dom (ep_channels e)" using rel by (auto simp: pollers_rel_def)
  then have dom: "pfd_fd ` set (pp_pollfds p) = dom (ep_channels e)" using wf by (simp add: pp_wf_def)
  have same: "the (the (pp_channels p (pfd_fd x))) = the (ep_channels e (pfd_fd x))" if "x \<in> set (pp_pollfds p)" for x
    using pp_wf_entries [OF wf that] rel by (auto simp: pollers_rel_def)
  have "set (poll_events p ?rs) =
      (\<lambda>x. (m (pfd_fd x), the (the (pp_channels p (pfd_fd x))))) ` {x \<in> set (pp_pollfds p). m (pfd_fd x) \<noteq> 0}"
    by (simp add: poll_events_def zip filter_map legal_mask [OF legal] comp_def)
  also have "\<dots> = (\<lambda>fd. (m fd, the (ep_channels e fd))) ` {fd \<in> pfd_fd ` set (pp_pollfds p). m fd \<noteq> 0}"
    using same by (force simp: image_iff)
  finally show ?thesis unfolding dom ready_events_def by force
qed

lemma poll_same:
  assumes rel: "pollers_rel tid p e" and legal: "po_legal (POPoll m evs) e"
  shows "same_results tid (pp_step tid (POPoll m evs) p) (epo_step tid (POPoll m evs) e)"
proof -
  let ?rs = "map (\<lambda>pfd. m (pfd_fd pfd)) (pp_pollfds p)"
  let ?xs = "map (map_prod ucast (\<lambda>c. c)) evs :: (16 word \<times> cptr) list"
  let ?ys = "poll_events p ?rs"
  have wf: "pp_wf p" "ep_wf e" using rel ep_reach_wf unfolding pollers_rel_def by blast+
  note rep = legal_reported [OF wf(2) legal]
  have eq: "set ?ys = set ?xs" using epoll_events_set [OF legal] poll_events_set [OF rel legal] by simp
  have rs: "filter (\<lambda>r. r \<noteq> 0) ?rs = filter (\<lambda>r. sint r > 0) ?rs" using legal_mask [OF legal] by (intro filter_cong) auto
  let ?pfds = "map2 (\<lambda>pfd r. pfd\<lparr>pfd_revents := r\<rparr>) (pp_pollfds p) ?rs"
  let ?p = "p\<lparr>pp_pollfds := ?pfds, pp_heap := set_received ?ys (pp_heap p)\<rparr>"
  obtain n where e: "EpollPoller_Poll (Some evs) e = Inr (map snd evs, e\<lparr>ep_heap := set_received ?xs (ep_heap e), ep_size := n\<rparr>)"
    using EpollPoller_Poll_eq [OF wf(2) rep] by blast
  let ?e = "e\<lparr>ep_heap := set_received ?xs (ep_heap e), ep_size := n\<rparr>"
  have p: "pp_step tid (POPoll m evs) p = Inr (map snd ?ys, ?p)"
    using PollPoller_Poll_eq [OF wf(1), of ?rs] rs by (simp add: Let_def)
  have dist: "distinct (map snd ?ys)" "distinct (map snd ?xs)"
    using poll_events_distinct [OF wf(1)] legal by (auto simp: comp_def)
  have "same_heap (pp_heap ?p) (ep_heap ?e)"
    using same_heap_received [of "pp_heap p" "ep_heap e" ?ys] set_received_order [OF eq dist, of "ep_heap e"] rel
    by (simp add: pollers_rel_def)
  moreover have "ep_reach tid ?e" using ep_reach.poll [OF _ rep e] rel by (simp add: pollers_rel_def)
  moreover have "same_watch ?p ?e"
    using rel by (fastforce simp: pollers_rel_def same_watch_def dest: set_zip_leftD)
  ultimately have "pollers_rel tid ?p ?e"
    using rel pp_wf_poll [OF wf(1), of ?rs ?ys] by (simp add: pollers_rel_def)
  moreover have "set (map snd ?ys) = set (map snd ?xs)" using eq by (simp only: set_map)
  then have "set (map snd ?ys) = set (map snd evs)" by (simp add: image_image)
  moreover have "distinct (map snd evs)" using legal by simp
  ultimately show ?thesis unfolding same_results_def p epo_step.simps(5) e using dist(1) by blast
qed

lemma step_same:
  assumes "pollers_rel tid p e" and "po_legal x e"
  shows "same_results tid (pp_step tid x p) (epo_step tid x e)"
  using assms open_same callback_same add_same switch_same poll_same by (cases x) (auto simp del: pp_step.simps epo_step.simps po_legal.simps(5))

section \<open>Sequences of calls\<close>

fun po_run :: "(po_op \<Rightarrow> 'p \<Rightarrow> (cptr list \<times> 'p) res) \<Rightarrow> po_op list \<Rightarrow> 'p \<Rightarrow> (cptr list list \<times> 'p) res" where
  "po_run step [] p = Inr ([], p)"
| "po_run step (x # xs) p =
     rbind (step x p) (\<lambda>(cs, p).
     rbind (po_run step xs p) (\<lambda>(css, p).
     Inr (cs # css, p)))"

fun po_legals :: "int \<Rightarrow> po_op list \<Rightarrow> epoll_poller \<Rightarrow> bool" where
  "po_legals tid [] e \<longleftrightarrow> True"
| "po_legals tid (x # xs) e \<longleftrightarrow> po_legal x e \<and> (\<forall>cs e'. epo_step tid x e = Inr (cs, e') \<longrightarrow> po_legals tid xs e')"

lemma run_same:
  assumes "pollers_rel tid p e" and "po_legals tid xs e"
  shows "\<exists>css p' dss e'. po_run (pp_step tid) xs p = Inr (css, p') \<and> po_run (epo_step tid) xs e = Inr (dss, e') \<and>
    pollers_rel tid p' e' \<and> list_all2 (\<lambda>cs ds. distinct cs \<and> distinct ds \<and> set cs = set ds) css dss"
  using assms
proof (induction xs arbitrary: p e)
  case (Cons x xs)
  have "same_results tid (pp_step tid x p) (epo_step tid x e)" using Cons.prems by (intro step_same) simp_all
  then obtain cs p1 ds e1 where s: "pp_step tid x p = Inr (cs, p1)" "epo_step tid x e = Inr (ds, e1)" "pollers_rel tid p1 e1"
    "distinct cs" "distinct ds" "set cs = set ds" unfolding same_results_def by blast
  have "po_legals tid xs e1" using Cons.prems(2) s(2) by simp
  from Cons.IH [OF s(3) this] show ?case using s by auto
qed simp

lemma new_rel: "pollers_rel tid (PollPoller_new tid Map.empty) (EpollPoller_new tid Map.empty)"
  using ep_reach.start [of tid] pp_wf_new [of tid Map.empty]
  by (simp add: pollers_rel_def same_heap_def same_watch_def PollPoller_new_def EpollPoller_new_def)

section \<open>Properties\<close>

text \<open>
  C9. As long as no channel is removed, the two pollers cannot be told apart: driven by the same legal calls
  and the same readiness of the descriptors, both go through without an error, every poll hands the loop
  the same channels, each once, and in the end the channels on the heap agree in everything but the
  index that only the poll poller uses, and the same descriptors are registered for the same
  channels, the entries of the poll poller with the masks of the kernel's interest list.
\<close>

theorem pollers_equivalent:
  assumes "po_legals tid xs (EpollPoller_new tid Map.empty)"
  shows "\<exists>css p dss e. po_run (pp_step tid) xs (PollPoller_new tid Map.empty) = Inr (css, p) \<and>
    po_run (epo_step tid) xs (EpollPoller_new tid Map.empty) = Inr (dss, e) \<and>
    list_all2 (\<lambda>cs ds. distinct cs \<and> distinct ds \<and> set cs = set ds) css dss \<and>
    (\<forall>c. map_option unindexed (pp_heap p c) = map_option unindexed (ep_heap e c)) \<and>
    (\<forall>fd. pp_channels p fd = map_option Some (ep_channels e fd)) \<and>
    (\<forall>pfd \<in> set (pp_pollfds p). \<exists>c. ep_interest e (pfd_fd pfd) = Some (scast (pfd_events pfd), c)) \<and>
    dom (ep_interest e) = pfd_fd ` set (pp_pollfds p)"
proof -
  obtain css p dss e where r: "po_run (pp_step tid) xs (PollPoller_new tid Map.empty) = Inr (css, p)"
    "po_run (epo_step tid) xs (EpollPoller_new tid Map.empty) = Inr (dss, e)" "pollers_rel tid p e"
    "list_all2 (\<lambda>cs ds. distinct cs \<and> distinct ds \<and> set cs = set ds) css dss"
    using run_same [OF new_rel assms] by blast
  have ch: "pp_channels p = (\<lambda>fd. map_option Some (ep_channels e fd))" and wf: "pp_wf p" "ep_wf e"
    using r(3) ep_reach_wf unfolding pollers_rel_def by blast+
  have "\<exists>c. ep_interest e (pfd_fd pfd) = Some (scast (pfd_events pfd), c)" if "pfd \<in> set (pp_pollfds p)" for pfd
    using pp_wf_entries [OF wf(1) that] that r(3) ch by (auto simp: pollers_rel_def same_watch_def)
  moreover have "dom (ep_interest e) = pfd_fd ` set (pp_pollfds p)"
  proof -
    have "dom (pp_channels p) = dom (ep_channels e)" using ch by auto
    then show ?thesis using wf by (simp add: pp_wf_def ep_wf_def)
  qed
  moreover have "\<forall>c. map_option unindexed (pp_heap p c) = map_option unindexed (ep_heap e c)"
    using r(3) by (simp add: pollers_rel_def same_heap_def)
  ultimately show ?thesis using r(1,2,4) ch by (intro exI conjI) auto
qed

text \<open>Two channels, one of them switched to writing, and a poll that finds both ready and reports the second one first.\<close>

definition two_calls :: "po_op list" where
  "two_calls =
     [POOpen 1 5 0, POAdd 1, POSwitch OpEnableRead 1, POOpen 2 6 1, POAdd 2, POSwitch OpEnableWrite 2,
      POPoll (\<lambda>fd. if fd = 5 then POLLIN else if fd = 6 then POLLOUT else 0) [(4, 2), (1, 1)]]"

lemma ex_5_6: "(\<exists>fd :: int. (fd = 5 \<longrightarrow> P) \<and> (fd \<noteq> 5 \<longrightarrow> (fd = 6 \<longrightarrow> Q) \<and> fd = 6)) \<longleftrightarrow> Q \<or> P"
proof
  assume "Q \<or> P"
  then show "\<exists>fd :: int. (fd = 5 \<longrightarrow> P) \<and> (fd \<noteq> 5 \<longrightarrow> (fd = 6 \<longrightarrow> Q) \<and> fd = 6)"
  proof
    assume Q
    then show ?thesis by (intro exI [of _ 6]) simp
  next
    assume P
    then show ?thesis by (intro exI [of _ 5]) simp
  qed
qed blast

lemma two_calls_legal: "po_legals 9 two_calls (EpollPoller_new 9 Map.empty)"
  by (simp add: two_calls_def fresh_channel_def act_simps ep_addable_def ep_registered_def quiet_def Channel_EnableWrite_def
      enable_write_def kInitEventListSize_def ran_map_upd set_eq_iff ex_5_6 eq_commute [of "Suc 0"])

theorem pollers_equivalent_witness:
  "\<exists>css p. po_run (pp_step 9) two_calls (PollPoller_new 9 Map.empty) = Inr (css, p)"
  using pollers_equivalent [OF two_calls_legal] by blast

end
