(* ===== verification/Multiplex.thy ===== *)
theory Multiplex
  imports TcpConn
begin

text \<open>
  Many connections on one loop. Every connection (\<^verbatim>\<open>net/tcpconn.cc\<close>) has buffers and a state of its own; the
  poller and the queue of timers belong to the loop and are shared. An operation of a connection works on its
  record with the shared parts put in, and leaves them changed for the others. An event reaches a connection through its channel
  (\<^verbatim>\<open>net/channel.cc\<close>), as the loop dispatches it; the end of the stream is found there and nowhere else.
\<close>

section \<open>State and operations\<close>

record mux =
  mx_poller :: epoll_poller
  mx_timers :: "callback tqueue"
  mx_conns :: "nat \<rightharpoonup> conn"

definition mx_view :: "mux \<Rightarrow> conn \<Rightarrow> conn" where
  "mx_view M s = s\<lparr>tc_poller := mx_poller M, tc_timers := mx_timers M\<rparr>"

definition on_conn :: "nat \<Rightarrow> (conn \<Rightarrow> conn res) \<Rightarrow> mux \<Rightarrow> mux res" where
  "on_conn k f M =
     (case mx_conns M k of
        None \<Rightarrow> Inl UseAfterFree
      | Some s \<Rightarrow>
          rbind (f (mx_view M s)) (\<lambda>s'.
          Inr (M\<lparr>mx_poller := tc_poller s', mx_timers := tc_timers s', mx_conns := (mx_conns M)(k \<mapsto> s')\<rparr>)))"

text \<open>
  What the loop does with the mask \<open>r\<close> that the poller has reported for a connection: the mask is stored in the channel, whose
  dispatch runs the handlers of the connection. The user's callbacks leave the connection alone; what they send are
  operations of their own.
\<close>

definition conn_dispatch :: "16 word \<Rightarrow> rres list \<Rightarrow> wres list \<Rightarrow> conn \<Rightarrow> conn res" where
  "conn_dispatch r rs ws s =
     rbind (conn_channel s) (\<lambda>(c, ch).
     Channel_HandleEvent (\<lambda>s. ep_heap (tc_poller s) c) (conn_event Inr Inr True rs ws)
       (s\<lparr>tc_poller := (tc_poller s)\<lparr>ep_heap := (ep_heap (tc_poller s))(c \<mapsto> SetREvents r ch)\<rparr>\<rparr>))"

text \<open>Sends and writable events of a connection, and the dispatch of a reported mask with what the kernel answers to its reads and writes.\<close>

datatype mx_op = MOp nat conn_op | MEvent nat "16 word" "rres list" "wres list"

fun mx_exec :: "mx_op \<Rightarrow> mux \<Rightarrow> mux res" where
  "mx_exec (MOp k x) = on_conn k (conn_exec x)"
| "mx_exec (MEvent k r rs ws) = on_conn k (conn_dispatch r rs ws)"

text \<open>The bytes that an operation sends on a connection, and those that it receives: what there is to read up to the answer that nothing more is there.\<close>

definition readable :: "16 word \<Rightarrow> bool" where
  "readable r \<longleftrightarrow> has_event r (POLLIN OR POLLPRI OR POLLRDHUP)"

fun mx_bytes :: "nat \<Rightarrow> mx_op \<Rightarrow> byte list" where
  "mx_bytes k (MOp j x) = (if j = k then op_bytes x else [])"
| "mx_bytes k (MEvent j r rs ws) = []"

fun mx_got :: "nat \<Rightarrow> mx_op \<Rightarrow> byte list" where
  "mx_got k (MOp j x) = []"
| "mx_got k (MEvent j r rs ws) = (if j = k \<and> readable r then avail (takeWhile (\<lambda>a. a \<noteq> RAgain) rs) else [])"

fun mx_ok :: "mux \<Rightarrow> mx_op \<Rightarrow> bool" where
  "mx_ok M (MOp k x) \<longleftrightarrow> mx_conns M k \<noteq> None \<and> no_error (op_answers x) \<and> length (op_bytes x) < 2 ^ 64"
| "mx_ok M (MEvent k r rs ws) \<longleftrightarrow> mx_conns M k \<noteq> None \<and> no_error ws"

text \<open>An event at which a connection finds the end of its stream or an error, and a run that comes to such an event.\<close>

definition conn_ends :: "rres list \<Rightarrow> conn \<Rightarrow> bool" where
  "conn_ends rs s \<longleftrightarrow> (case read_loop rs (tc_input s) of Inl _ \<Rightarrow> False | Inr (b, e, rs') \<Rightarrow> e = EndClose)"

fun mx_ends :: "mux \<Rightarrow> mx_op \<Rightarrow> bool" where
  "mx_ends M (MOp k x) \<longleftrightarrow> False"
| "mx_ends M (MEvent k r rs ws) \<longleftrightarrow> readable r \<and> (case mx_conns M k of None \<Rightarrow> False | Some s \<Rightarrow> conn_ends rs s)"

fun mx_ended :: "mx_op list \<Rightarrow> mux \<Rightarrow> bool" where
  "mx_ended [] M \<longleftrightarrow> False"
| "mx_ended (x # xs) M \<longleftrightarrow> mx_ends M x \<or> (case mx_exec x M of Inl _ \<Rightarrow> False | Inr M1 \<Rightarrow> mx_ended xs M1)"

section \<open>Invariant\<close>

text \<open>
  Every connection works; its channel is registered in the shared poller with the two callbacks of \<^verbatim>\<open>Attach\<close>; its timer has not been
  deleted; no two connections have the same channel.
\<close>

definition conn_kept :: "conn \<Rightarrow> bool" where
  "conn_kept s \<longleftrightarrow> set_option (tc_channel s) \<subseteq> ep_registered (tc_poller s) \<and> tq_tid (tc_timers s) = tc_tid s \<and>
     set_option (fst (tc_timer s)) \<subseteq> dom (tq_heap (tc_timers s)) \<and> buffer_wf (tc_input s) \<and>
     (\<forall>c ch. tc_channel s = Some c \<and> ep_heap (tc_poller s) c = Some ch \<longrightarrow> ch_callbacks ch = {ReadCallback, WriteCallback})"

definition mx_inv :: "mux \<Rightarrow> bool" where
  "mx_inv M \<longleftrightarrow> ep_wf (mx_poller M) \<and>
     (\<forall>k s. mx_conns M k = Some s \<longrightarrow> conn_live (mx_view M s) \<and> conn_kept (mx_view M s) \<and> tc_tid s = ep_tid (mx_poller M)) \<and>
     (\<forall>j k s t c. mx_conns M j = Some s \<and> mx_conns M k = Some t \<and> tc_channel s = Some c \<and> tc_channel t = Some c \<longrightarrow> j = k)"

lemma mx_invI:
  assumes "ep_wf (mx_poller M)" and "\<And>k s. mx_conns M k = Some s \<Longrightarrow> conn_live (mx_view M s) \<and> conn_kept (mx_view M s)"
    and "\<And>k s. mx_conns M k = Some s \<Longrightarrow> tc_tid s = ep_tid (mx_poller M)"
    and "\<And>j k s t c. mx_conns M j = Some s \<Longrightarrow> mx_conns M k = Some t \<Longrightarrow> tc_channel s = Some c \<Longrightarrow> tc_channel t = Some c \<Longrightarrow> j = k"
  shows "mx_inv M"
  using assms unfolding mx_inv_def by blast

lemma mx_view_fields [simp]:
  "tc_channel (mx_view M s) = tc_channel s" "tc_state (mx_view M s) = tc_state s" "tc_wire (mx_view M s) = tc_wire s"
  "tc_output (mx_view M s) = tc_output s" "tc_input (mx_view M s) = tc_input s" "tc_tid (mx_view M s) = tc_tid s"
  "tc_poller (mx_view M s) = mx_poller M" "tc_timers (mx_view M s) = mx_timers M" "tc_timer (mx_view M s) = tc_timer s"
  by (simp_all add: mx_view_def)

lemma out_view [simp]: "out (mx_view M s) = out s"
  by (simp add: out_def)

section \<open>What an operation leaves alone\<close>

text \<open>A connection that sends changes no other channel on the heap, and nothing of the loop but the mask of its own.\<close>

definition only_mask :: "conn \<Rightarrow> conn \<Rightarrow> bool" where
  "only_mask s s' \<longleftrightarrow> (\<forall>d. tc_channel s \<noteq> Some d \<longrightarrow> ep_heap (tc_poller s') d = ep_heap (tc_poller s) d) \<and>
     (\<forall>d. map_option ch_callbacks (ep_heap (tc_poller s') d) = map_option ch_callbacks (ep_heap (tc_poller s) d)) \<and>
     ep_tid (tc_poller s') = ep_tid (tc_poller s) \<and> ep_channels (tc_poller s') = ep_channels (tc_poller s) \<and>
     tc_timers s' = tc_timers s \<and> tc_timer s' = tc_timer s \<and> tc_input s' = tc_input s"

lemma leaves_refl [simp]: "only_mask s s"
  by (simp add: only_mask_def)

lemma conn_switch_leaves:
  assumes "conn_switch (Channel_switch f) s = Inr s'" and "\<And>ch. ch_callbacks (f ch) = ch_callbacks ch"
  shows "only_mask s s' \<and> tc_channel s' = tc_channel s"
proof -
  obtain c where c: "tc_channel s = Some c" using assms by (cases "tc_channel s") (auto simp: conn_switch_def conn_channel_def)
  then show ?thesis
    using assms by (auto simp: conn_switch_def conn_channel_def Channel_switch_def EpollPoller_UpdateChannel_def EpollPoller_Update_def
        only_mask_def rbind_Inr_iff channel_at_def split: option.splits)
qed

lemma switch_callbacks: "ch_callbacks (enable_write ch) = ch_callbacks ch" "ch_callbacks (disable_write ch) = ch_callbacks ch"
  by (simp_all add: enable_write_def disable_write_def)

lemmas write_switch_leaves =
  conn_switch_leaves [of enable_write, folded Channel_EnableWrite_def, OF _ switch_callbacks(1)]
  conn_switch_leaves [of disable_write, folded Channel_DisableWrite_def, OF _ switch_callbacks(2)]

lemma ISend_leaves:
  assumes "TcpConn_ISend ws bs s = Inr (n, s', ws')"
  shows "only_mask s s' \<and> tc_channel s' = tc_channel s"
proof -
  obtain acc again ws1 where w: "write_loop ws bs = (acc, again, ws1)" by (cases "write_loop ws bs")
  let ?s = "s\<lparr>tc_wire := tc_wire s @ acc\<rparr>"
  have "s' = s \<or> s' = ?s \<or> conn_switch Channel_EnableWrite ?s = Inr s'"
    using assms w by (auto simp: TcpConn_ISend_def rbind_Inr_iff Let_def split: if_splits)
  then show ?thesis using write_switch_leaves(1) [of ?s s'] by (auto simp: only_mask_def)
qed

lemma SendInLoop_leaves:
  assumes "TcpConn_SendInLoop tid ws m s = Inr (s', ws')"
  shows "only_mask s s'"
  using assms by (auto simp: TcpConn_SendInLoop_def rbind_Inr_iff Let_def only_mask_def dest!: ISend_leaves split: if_splits)

lemma Send_buffer_leaves:
  assumes "TcpConn_Send_buffer ws b s = Inr (b', s', ws')"
  shows "only_mask s s'"
proof -
  have "only_mask s u" if "TcpConn_ISend ws bs s = Inr (n, t, ws1)" "conn_switch Channel_EnableWrite (t\<lparr>tc_output := o1\<rparr>) = Inr u"
    for bs n t ws1 o1 u
    using ISend_leaves [OF that(1)] write_switch_leaves(1) [OF that(2)] by (simp add: only_mask_def)
  moreover have "only_mask s (t\<lparr>tc_output := o1\<rparr>)" if "TcpConn_ISend ws bs s = Inr (n, t, ws1)" for bs n t ws1 o1
    using ISend_leaves [OF that] by (simp add: only_mask_def)
  moreover have "only_mask s (s\<lparr>tc_output := o1\<rparr>)" for o1 by (simp add: only_mask_def)
  ultimately show ?thesis
    using assms ISend_leaves by (auto simp: TcpConn_Send_buffer_def rbind_Inr_iff Let_def split: if_splits)
qed

lemma HandleWrite_leaves:
  assumes "TcpConn_HandleWrite Inr Inr True ws s = Inr (s', ws')" and "tc_state s \<noteq> KHandShakeing"
  shows "only_mask s s'"
proof -
  have "only_mask s u" if "TcpConn_ISend ws bs s = Inr (n, t, ws1)" "conn_switch Channel_DisableWrite (t\<lparr>tc_output := o1\<rparr>) = Inr u"
    for bs n t ws1 o1 u
    using ISend_leaves [OF that(1)] write_switch_leaves(2) [OF that(2)] by (simp add: only_mask_def)
  moreover have "only_mask s (t\<lparr>tc_output := o1\<rparr>)" if "TcpConn_ISend ws bs s = Inr (n, t, ws1)" for bs n t ws1 o1
    using ISend_leaves [OF that] by (simp add: only_mask_def)
  ultimately show ?thesis
    using assms by (auto simp: TcpConn_HandleWrite_def rbind_Inr_iff Let_def split: if_splits)
qed

lemma conn_exec_leaves:
  assumes "conn_exec x s = Inr s'" and "tc_state s \<noteq> KHandShakeing"
  shows "only_mask s s'"
  using assms SendInLoop_leaves Send_buffer_leaves HandleWrite_leaves
  by (cases x) (auto simp: TcpConn_Send_def rbind_Inr_iff split: if_splits)

text \<open>What any operation of a connection leaves of the parts it shares with the others.\<close>

definition leaves_others :: "conn \<Rightarrow> conn \<Rightarrow> bool" where
  "leaves_others s s' \<longleftrightarrow> (\<forall>d. tc_channel s \<noteq> Some d \<longrightarrow> ep_heap (tc_poller s') d = ep_heap (tc_poller s) d) \<and>
     ep_tid (tc_poller s') = ep_tid (tc_poller s) \<and> ep_registered (tc_poller s') = ep_registered (tc_poller s) \<and>
     tc_timers s' = tc_timers s"

text \<open>An operation on a working connection: what it adds to the two streams, and that it goes on working.\<close>

definition conn_goes :: "conn \<Rightarrow> conn \<Rightarrow> byte list \<Rightarrow> byte list \<Rightarrow> bool" where
  "conn_goes s s' bs got \<longleftrightarrow> streams s s' bs \<and> content (tc_input s') = content (tc_input s) @ map Some got \<and>
     conn_live s' \<and> conn_kept s' \<and> leaves_others s s'"

lemma conn_goes_trans: "conn_goes s t xs got \<Longrightarrow> conn_goes t u ys [] \<Longrightarrow> conn_goes s u (xs @ ys) got"
  by (simp add: conn_goes_def streams_def leaves_others_def)

lemma conn_exec_goes:
  assumes live: "conn_live s" and kept: "conn_kept s" and ok: "no_error (op_answers x)" "length (op_bytes x) < 2 ^ 64"
  shows "conn_exec x s = Inl OutOfBounds \<or> (\<exists>s'. conn_exec x s = Inr s' \<and> conn_goes s s' (op_bytes x) [])"
proof (cases "conn_exec x s")
  case (Inl e)
  then show ?thesis using conn_exec_total [OF live ok] by simp
next
  case (Inr s')
  have st: "streams s s' (op_bytes x)" "conn_live s'" using conn_exec_streams [OF live ok Inr] by simp_all
  have m: "only_mask s s'" using conn_exec_leaves [OF Inr] live by (simp add: conn_live_def)
  have cb: "map_option ch_callbacks (ep_heap (tc_poller s') d) = map_option ch_callbacks (ep_heap (tc_poller s) d)" for d
    using m by (simp add: only_mask_def)
  have "ch_callbacks ch = {ReadCallback, WriteCallback}" if d: "tc_channel s' = Some c" "ep_heap (tc_poller s') c = Some ch" for c ch
  proof -
    obtain ch0 where "ep_heap (tc_poller s) c = Some ch0" "ch_callbacks ch0 = ch_callbacks ch" using d(2) cb [of c] by (cases "ep_heap (tc_poller s) c") auto
    then show ?thesis using kept d(1) st(1) unfolding conn_kept_def streams_def by metis
  qed
  moreover have "ep_registered (tc_poller s') = ep_registered (tc_poller s)" "leaves_others s s'"
    using m by (simp_all add: only_mask_def leaves_others_def ep_registered_def)
  ultimately have "conn_kept s'" "leaves_others s s'" using kept m st(1) by (simp_all add: conn_kept_def only_mask_def streams_def)
  then show ?thesis using Inr st m by (simp add: conn_goes_def only_mask_def)
qed

section \<open>Dispatch\<close>

text \<open>Storing the reported mask changes nothing that matters.\<close>

definition with_mask :: "16 word \<Rightarrow> cptr \<Rightarrow> channel \<Rightarrow> conn \<Rightarrow> conn" where
  "with_mask r c ch s = s\<lparr>tc_poller := (tc_poller s)\<lparr>ep_heap := (ep_heap (tc_poller s))(c \<mapsto> SetREvents r ch)\<rparr>\<rparr>"

lemma with_mask_goes:
  assumes live: "conn_live s" and kept: "conn_kept s" and c: "tc_channel s = Some c" "ep_heap (tc_poller s) c = Some ch"
    and b: "buffer_wf b" "content b = content (tc_input s) @ map Some got"
  shows "conn_goes s (with_mask r c ch s\<lparr>tc_input := b\<rparr>) [] got"
proof -
  let ?h = "(ep_heap (tc_poller s))(c \<mapsto> SetREvents r ch)" and ?s = "with_mask r c ch s\<lparr>tc_input := b\<rparr>"
  have ok: "conn_ok s" using live by (simp add: conn_live_def)
  then have "ep_wf ((tc_poller s)\<lparr>ep_heap := ?h, ep_size := ep_size (tc_poller s)\<rparr>)"
    using c by (intro ep_wf_revents) (auto simp: conn_ok_def SetREvents_def ep_wf_def split: if_splits)
  then have "conn_ok ?s" using ok c by (simp add: conn_ok_def with_mask_def)
  moreover have "conn_channel ?s = Inr (c, SetREvents r ch)" "conn_channel s = Inr (c, ch)"
    using c by (simp_all add: conn_channel_def with_mask_def)
  then have "writing ?s = writing s" by (simp add: writing_def IsWriting_def SetREvents_def)
  moreover have "out ?s = out s" by (simp add: out_def with_mask_def)
  ultimately have "conn_live ?s" "streams s ?s []" using live by (simp_all add: conn_live_def flowing_def streams_def with_mask_def)
  moreover have "conn_kept ?s" using kept c b(1) by (auto simp: conn_kept_def with_mask_def ep_registered_def SetREvents_def)
  moreover have "leaves_others s ?s" using c by (simp add: leaves_others_def with_mask_def ep_registered_def)
  ultimately show ?thesis using b(2) by (simp add: conn_goes_def)
qed

text \<open>A read loop that stops because nothing more is there has taken what was there before that answer.\<close>

lemma read_loop_taken:
  "read_loop rs b = Inr (b', EndAgain, rs') \<Longrightarrow> avail rs = avail (takeWhile (\<lambda>a. a \<noteq> RAgain) rs) @ avail rs'"
proof (induction rs b rule: read_loop.induct)
  case (1 rs b)
  obtain b1 where b1: "Buffer_MakeRoom0 b = Inr b1" using 1(3) by (subst (asm) read_loop.simps) (auto split: sum.splits)
  show ?case
  proof (cases rs)
    case Nil
    then show ?thesis using 1(3) b1 by (subst (asm) read_loop.simps) simp
  next
    case (Cons r rs1)
    show ?thesis
    proof (cases r)
      case (Got bs)
      let ?n = "unat (Buffer_GetSpace b1)"
      have ne: "take ?n bs \<noteq> []" using 1(3) b1 Cons Got by (subst (asm) read_loop.simps) (auto simp: Let_def split: if_splits)
      obtain m where m: "mem_write (buf_mem b1) (Buffer_End b1) (map Some (take ?n bs)) = Inr m"
        using 1(3) b1 Cons Got ne by (subst (asm) read_loop.simps) (auto simp: Let_def split: if_splits sum.splits)
      let ?rs2 = "if length bs \<le> ?n then rs1 else Got (drop ?n bs) # rs1"
      have "read_loop ?rs2 (Buffer_AddSize (b1\<lparr>buf_mem := m\<rparr>) (of_nat (length (take ?n bs)))) = Inr (b', EndAgain, rs')"
        using 1(3) b1 Cons Got ne m by (subst (asm) read_loop.simps) (simp add: Let_def)
      from 1(1) [OF b1 Cons Got refl refl ne m this] show ?thesis
        using Cons Got append_take_drop_id [of ?n bs] by (auto split: if_splits)
    next
      case RIntr
      then have "read_loop rs1 b1 = Inr (b', EndAgain, rs')" using 1(3) b1 Cons by (subst (asm) read_loop.simps) simp
      then show ?thesis using 1(2) [OF b1 Cons RIntr] Cons RIntr by simp
    qed (use 1(3) b1 Cons in \<open>subst (asm) read_loop.simps, simp\<close>)+
  qed
qed

text \<open>The end of a stream deletes the channel.\<close>

lemma CleanUp_deletes:
  assumes live: "conn_live s" and kept: "conn_kept s" and c: "tc_channel s = Some c"
  shows "\<exists>s'. TcpConn_CleanUp Inr Inr s = Inr s' \<and> ep_heap (tc_poller s') c = None"
proof -
  have wf: "ep_wf (tc_poller s)" "ep_tid (tc_poller s) = tc_tid s" using live by (simp_all add: conn_live_def conn_ok_def)
  have reg: "c \<in> ep_registered (tc_poller s)" using kept c by (simp add: conn_kept_def)
  obtain p where p: "Channel_Close (tc_tid s) c (tc_poller s) = Inr p" using Channel_Close_ok [OF wf reg] by blast
  obtain ch where ch: "ep_heap (tc_poller s) c = Some ch" "0 \<le> ch_fd ch" using ep_registeredE [OF wf(1) reg] by metis
  have "\<exists>q. CancelTimerIdInLoop (tc_tid s) (tc_timer s) (tc_timers s) = Inr q"
    using kept by (auto simp: conn_kept_def CancelTimerIdInLoop_def AssertInLoopThread_def deref_def split: option.splits)
  then obtain q where "CancelTimerIdInLoop (tc_tid s) (tc_timer s) (tc_timers s) = Inr q" by blast
  then show ?thesis
    using p ch c by (intro exI [of _ "s\<lparr>tc_state := KClosed, tc_timers := q, tc_readcb := False, tc_statecb := False, tc_channel := None,
        tc_poller := p\<lparr>ep_heap := (ep_heap p)(c := None)\<rparr>\<rparr>"])
      (use live in \<open>simp add: TcpConn_CleanUp_def Channel_delete_def conn_live_def Let_def\<close>)
qed

text \<open>The read handler of a working connection.\<close>

lemma HandleRead_live:
  assumes live: "conn_live s" and kept: "conn_kept s" and c: "tc_channel s = Some c"
    and r: "read_loop rs (tc_input s) = Inr (b, e, rs')"
  shows "if e = EndClose then \<exists>s'. TcpConn_HandleRead Inr Inr True rs s = Inr (s', rs') \<and> ep_heap (tc_poller s') c = None
    else TcpConn_HandleRead Inr Inr True rs s = Inr (s\<lparr>tc_input := b\<rparr>, rs')"
proof -
  have "ep_wf (tc_poller s)" "c \<in> ep_registered (tc_poller s)" using live kept c by (simp_all add: conn_live_def conn_ok_def conn_kept_def)
  then obtain ch where ch: "ep_heap (tc_poller s) c = Some ch" "0 \<le> ch_fd ch" by (metis ep_registeredE)
  then have chan: "conn_channel s = Inr (c, ch)" using c by (simp add: conn_channel_def)
  have wf: "buffer_wf b" using read_loop_ok [of "tc_input s" rs] kept r by (auto simp: conn_kept_def)
  have "conn_kept (s\<lparr>tc_input := b\<rparr>)" using kept wf unfolding conn_kept_def by (simp, blast)
  moreover have "conn_live (s\<lparr>tc_input := b\<rparr>)"
    using live c by (simp add: conn_live_def conn_ok_def flowing_def out_def writing_def conn_channel_def)
  ultimately obtain s' where "TcpConn_CleanUp Inr Inr (s\<lparr>tc_input := b\<rparr>) = Inr s'" "ep_heap (tc_poller s') c = None"
    using CleanUp_deletes c by fastforce
  then show ?thesis
    using live chan ch(2) r by (cases e) (simp_all add: TcpConn_HandleRead_def conn_live_def Let_def)
qed

lemma dispatch_read:
  assumes "get s = Some ch" and "ch_callbacks ch = {ReadCallback, WriteCallback}"
  shows "Channel_HandleEvent get run s =
    rbind (if readable (ch_revents ch) then run ReadCallback s else Inr s) (dispatch_if get run (\<lambda>r. has_event r POLLOUT) WriteCallback)"
proof -
  have "dispatch_if get run (\<lambda>r. has_event r POLLHUP \<and> \<not> has_event r POLLIN) CloseCallback s = Inr s"
    "dispatch_if get run (\<lambda>r. has_event r (POLLERR OR POLLNVAL)) ErrorCallback s = Inr s"
    "dispatch_if get run readable ReadCallback s = (if readable (ch_revents ch) then run ReadCallback s else Inr s)"
    using assms by (simp_all add: dispatch_if_def live_channel_def)
  then show ?thesis unfolding Channel_HandleEvent_def readable_def [symmetric, abs_def] by simp
qed

lemma dispatch_write:
  fixes rs :: "rres list"
  assumes t: "conn_goes s t [] got" and c: "tc_channel s = Some c" and ok: "no_error ws"
  defines "w \<equiv> dispatch_if (\<lambda>s. ep_heap (tc_poller s) c) (conn_event Inr Inr True rs ws) (\<lambda>r. has_event r POLLOUT) WriteCallback"
  shows "w t = Inl OutOfBounds \<or> (\<exists>s'. w t = Inr s' \<and> conn_goes s s' [] got)"
proof -
  obtain ch where ch: "ep_heap (tc_poller t) c = Some ch" using conn_channelE [of t] t c by (auto simp: conn_goes_def conn_live_def streams_def)
  then have "w t = conn_exec (Writable ws) t \<or> w t = Inr t" by (auto simp: w_def dispatch_if_def live_channel_def conn_event_def)
  moreover have "conn_exec (Writable ws) t = Inl OutOfBounds \<or> (\<exists>s'. conn_exec (Writable ws) t = Inr s' \<and> conn_goes t s' [] [])"
    using conn_exec_goes [of t "Writable ws"] t ok by (simp add: conn_goes_def)
  ultimately show ?thesis using t conn_goes_trans [OF t] by force
qed

lemma conn_dispatch_goes:
  assumes live: "conn_live s" and kept: "conn_kept s" and ok: "no_error ws"
  shows "if readable r \<and> conn_ends rs s then conn_dispatch r rs ws s = Inl UseAfterFree
    else conn_dispatch r rs ws s = Inl OutOfBounds \<or>
      (\<exists>s'. conn_dispatch r rs ws s = Inr s' \<and> conn_goes s s' [] (mx_got k (MEvent k r rs ws)))"
proof -
  obtain c ch where c: "tc_channel s = Some c" "ep_heap (tc_poller s) c = Some ch" "conn_channel s = Inr (c, ch)"
    using live unfolding conn_live_def by (blast elim: conn_channelE)
  let ?get = "\<lambda>s. ep_heap (tc_poller s) c" and ?s = "with_mask r c ch s" and ?run = "conn_event Inr Inr True rs ws"
  let ?rest = "dispatch_if ?get ?run (\<lambda>r. has_event r POLLOUT) WriteCallback"
  have mask: "conn_goes s (?s\<lparr>tc_input := b\<rparr>) [] got" if "buffer_wf b" "content b = content (tc_input s) @ map Some got" for b got
    using with_mask_goes [OF live kept c(1,2) that] .
  have wf: "buffer_wf (tc_input s)" using kept by (simp add: conn_kept_def)
  have same: "?s\<lparr>tc_input := tc_input s\<rparr> = ?s" by (simp add: with_mask_def)
  have s: "conn_live ?s" "conn_kept ?s" "tc_channel ?s = Some c" "tc_input ?s = tc_input s"
    using mask [OF wf, of "[]"] c(1) unfolding same conn_goes_def by (simp_all add: with_mask_def)
  have get: "?get ?s = Some (SetREvents r ch)" by (simp add: with_mask_def)
  have cb: "ch_callbacks (SetREvents r ch) = {ReadCallback, WriteCallback}" using kept c by (simp add: conn_kept_def SetREvents_def)
  have run: "conn_dispatch r rs ws s = rbind (if readable r then ?run ReadCallback ?s else Inr ?s) ?rest"
    using dispatch_read [of ?get ?s "SetREvents r ch" ?run, OF get cb] c(3) by (simp add: conn_dispatch_def with_mask_def SetREvents_def)
  note rest = dispatch_write [OF _ c(1) ok]
  show ?thesis
  proof (cases "readable r")
    case False
    then show ?thesis using run rest mask [OF wf, of "[]"] unfolding same by simp
  next
    case True
    obtain b e rs' bytes lost where rl: "read_loop rs (tc_input s) = Inr (b, e, rs')" "buffer_wf b"
      "content b = content (tc_input s) @ map Some bytes" "avail rs = bytes @ lost" "e = EndAgain \<longrightarrow> lost = avail rs'"
      using read_loop_ok [OF wf, of rs] by blast
    have rl': "read_loop rs (tc_input ?s) = Inr (b, e, rs')" using rl(1) s(4) by simp
    show ?thesis
    proof (cases e)
      case EndClose
      obtain s' where "TcpConn_HandleRead Inr Inr True rs ?s = Inr (s', rs')" "?get s' = None"
        using HandleRead_live [OF s(1-3) rl'] EndClose by auto
      then have "conn_dispatch r rs ws s = Inl UseAfterFree" using run True dispatch_if_gone [of ?get s'] by (simp add: conn_event_def)
      then show ?thesis using True rl(1) EndClose by (simp add: conn_ends_def)
    next
      case EndAgain
      then have "bytes = avail (takeWhile (\<lambda>a. a \<noteq> RAgain) rs)" using read_loop_taken rl by fastforce
      then have got: "bytes = mx_got k (MEvent k r rs ws)" using True by simp
      have "conn_dispatch r rs ws s = ?rest (?s\<lparr>tc_input := b\<rparr>)"
        using run True HandleRead_live [OF s(1-3) rl'] EndAgain by (simp add: conn_event_def)
      then show ?thesis using rest [OF mask [OF rl(2,3)]] rl(1) EndAgain got by (simp add: conn_ends_def)
    qed
  qed
qed

section \<open>One operation\<close>

text \<open>What an operation on one connection means for any other one.\<close>

lemma live_other:
  assumes t: "conn_live t" "conn_kept t" and l: "leaves_others s s'" and same: "tc_poller s = tc_poller t" "tc_timers s = tc_timers t"
    and ne: "\<And>c. tc_channel t = Some c \<Longrightarrow> tc_channel s \<noteq> Some c" and wf: "ep_wf (tc_poller s')"
  shows "conn_live (t\<lparr>tc_poller := tc_poller s', tc_timers := tc_timers s'\<rparr>) \<and> conn_kept (t\<lparr>tc_poller := tc_poller s', tc_timers := tc_timers s'\<rparr>)"
proof -
  let ?t = "t\<lparr>tc_poller := tc_poller s', tc_timers := tc_timers s'\<rparr>"
  obtain c where c: "tc_channel t = Some c" using t(1) by (auto simp: conn_live_def)
  have heap: "ep_heap (tc_poller s') c = ep_heap (tc_poller t) c" "ep_tid (tc_poller s') = ep_tid (tc_poller t)"
    "ep_registered (tc_poller s') = ep_registered (tc_poller t)" "tc_timers s' = tc_timers t"
    using l same ne [OF c] by (auto simp: leaves_others_def)
  have "conn_channel ?t = conn_channel t" using c heap(1) by (simp add: conn_channel_def channel_at_def)
  then have "writing ?t = writing t" by (simp add: writing_def)
  moreover have "conn_ok ?t" using t(1) wf c heap by (simp add: conn_live_def conn_ok_def)
  moreover have "out ?t = out t" by (simp add: out_def)
  ultimately have "conn_live ?t" using t(1) by (simp add: conn_live_def flowing_def)
  moreover have "conn_kept ?t" using t(2) c heap by (simp add: conn_kept_def)
  ultimately show ?thesis by blast
qed

lemma on_conn_inv:
  assumes inv: "mx_inv M" and s: "mx_conns M k = Some s" and g: "conn_goes (mx_view M s) s' bs got"
  shows "mx_inv (M\<lparr>mx_poller := tc_poller s', mx_timers := tc_timers s', mx_conns := (mx_conns M)(k \<mapsto> s')\<rparr>)"
proof -
  let ?M = "M\<lparr>mx_poller := tc_poller s', mx_timers := tc_timers s', mx_conns := (mx_conns M)(k \<mapsto> s')\<rparr>"
  have own: "conn_live s'" "conn_kept s'" "tc_channel s' = tc_channel s" "tc_tid s' = tc_tid s" "ep_wf (tc_poller s')"
    and l: "leaves_others (mx_view M s) s'"
    using g by (simp_all add: conn_goes_def streams_def conn_ok_def)
  have "conn_live (mx_view ?M t) \<and> conn_kept (mx_view ?M t)" if t: "mx_conns ?M j = Some t" for j t
  proof (cases "j = k")
    case True
    then have "mx_view ?M t = s'" using t by (simp add: mx_view_def)
    then show ?thesis using own(1,2) by simp
  next
    case False
    then have t': "mx_conns M j = Some t" using t by simp
    have kl: "conn_live (mx_view M t)" "conn_kept (mx_view M t)" using inv t' by (simp_all add: mx_inv_def)
    have "tc_channel s \<noteq> Some c" if "tc_channel t = Some c" for c
      using inv t' s False that unfolding mx_inv_def by blast
    then show ?thesis using live_other [OF kl l _ _ _ own(5)] by (simp add: mx_view_def)
  qed
  moreover have "i = j" if "mx_conns ?M i = Some t" "mx_conns ?M j = Some u" "tc_channel t = Some c" "tc_channel u = Some c" for i j t u c
  proof -
    have before: "\<exists>t0. mx_conns M i = Some t0 \<and> tc_channel t0 = Some c" if "mx_conns ?M i = Some t" "tc_channel t = Some c" for i t
      using that s own(3) by (auto split: if_splits)
    show ?thesis using before [OF that(1,3)] before [OF that(2,4)] inv unfolding mx_inv_def by blast
  qed
  moreover have "tc_tid t = ep_tid (mx_poller ?M)" if "mx_conns ?M j = Some t" for j t
    using that inv s own(4) l by (auto simp: mx_inv_def leaves_others_def split: if_splits)
  moreover have "ep_wf (mx_poller ?M)" using own(5) by simp
  ultimately show ?thesis by (intro mx_invI) blast+
qed

text \<open>The two streams of a connection, from one state of the loop to another.\<close>

definition mx_streams :: "nat \<Rightarrow> byte list \<Rightarrow> byte list \<Rightarrow> mux \<Rightarrow> mux \<Rightarrow> bool" where
  "mx_streams k bs got M M' \<longleftrightarrow> (\<forall>s. mx_conns M k = Some s \<longrightarrow> (\<exists>s'. mx_conns M' k = Some s' \<and>
     tc_wire s' @ out s' = tc_wire s @ out s @ bs \<and> content (tc_input s') = content (tc_input s) @ map Some got))"

lemma mx_streams_trans:
  assumes "mx_streams k xs as M1 M2" and "mx_streams k ys bs M2 M3"
  shows "mx_streams k (xs @ ys) (as @ bs) M1 M3"
  using assms unfolding mx_streams_def by (metis append_assoc map_append)

definition mx_goes :: "nat \<Rightarrow> byte list \<Rightarrow> byte list \<Rightarrow> mux \<Rightarrow> mux res \<Rightarrow> bool" where
  "mx_goes j bs got M r \<longleftrightarrow> r = Inl OutOfBounds \<or>
     (\<exists>M'. r = Inr M' \<and> mx_inv M' \<and> mx_streams j bs got M M' \<and> dom (mx_conns M') = dom (mx_conns M))"

lemma on_conn_goes:
  assumes inv: "mx_inv M" and s: "mx_conns M k = Some s"
    and f: "f (mx_view M s) = Inl OutOfBounds \<or> (\<exists>s'. f (mx_view M s) = Inr s' \<and> conn_goes (mx_view M s) s' bs got)"
  shows "mx_goes j (if j = k then bs else []) (if j = k then got else []) M (on_conn k f M)"
proof (cases "f (mx_view M s) = Inl OutOfBounds")
  case True
  then show ?thesis using s by (simp add: on_conn_def mx_goes_def)
next
  case False
  then obtain s' where s': "f (mx_view M s) = Inr s'" "conn_goes (mx_view M s) s' bs got" using f by blast
  let ?M = "M\<lparr>mx_poller := tc_poller s', mx_timers := tc_timers s', mx_conns := (mx_conns M)(k \<mapsto> s')\<rparr>"
  have "on_conn k f M = Inr ?M" using s s'(1) by (simp add: on_conn_def)
  moreover have "mx_streams j (if j = k then bs else []) (if j = k then got else []) M ?M"
    using s s'(2) by (simp add: mx_streams_def conn_goes_def streams_def)
  moreover have "dom (mx_conns ?M) = dom (mx_conns M)" using s by auto
  ultimately show ?thesis using on_conn_inv [OF inv s s'(2)] by (auto simp: mx_goes_def)
qed

lemma mx_step:
  assumes inv: "mx_inv M" and ok: "mx_ok M x"
  shows "if mx_ends M x then mx_exec x M = Inl UseAfterFree else mx_goes j (mx_bytes j x) (mx_got j x) M (mx_exec x M)"
proof (cases x)
  case (MOp k y)
  then obtain s where s: "mx_conns M k = Some s" "no_error (op_answers y)" "length (op_bytes y) < 2 ^ 64" using ok by auto
  have "conn_live (mx_view M s)" "conn_kept (mx_view M s)" using inv s(1) by (simp_all add: mx_inv_def)
  from on_conn_goes [of M k s "conn_exec y", OF inv s(1) conn_exec_goes [OF this s(2,3)], of j] show ?thesis using MOp by (simp split: if_splits)
next
  case (MEvent k r rs ws)
  then obtain s where s: "mx_conns M k = Some s" "no_error ws" using ok by auto
  have "conn_live (mx_view M s)" "conn_kept (mx_view M s)" using inv s(1) by (simp_all add: mx_inv_def)
  note d = conn_dispatch_goes [OF this s(2), of r rs k]
  have e: "conn_ends rs (mx_view M s) = conn_ends rs s" by (simp add: conn_ends_def)
  show ?thesis
  proof (cases "readable r \<and> conn_ends rs s")
    case True
    then show ?thesis using d e s(1) MEvent by (simp add: on_conn_def)
  next
    case False
    have got: "mx_got j x = (if j = k then mx_got k (MEvent k r rs ws) else [])" "mx_bytes j x = (if j = k then [] else [])"
      using MEvent by simp_all
    have "\<not> mx_ends M x" using False s(1) MEvent by simp
    moreover have "conn_dispatch r rs ws (mx_view M s) = Inl OutOfBounds \<or>
        (\<exists>s'. conn_dispatch r rs ws (mx_view M s) = Inr s' \<and> conn_goes (mx_view M s) s' [] (mx_got k (MEvent k r rs ws)))"
      using d unfolding e if_not_P [OF False] .
    then have "mx_goes j (mx_bytes j x) (mx_got j x) M (on_conn k (conn_dispatch r rs ws) M)"
      unfolding got by (rule on_conn_goes [of M k s "conn_dispatch r rs ws", OF inv s(1)])
    ultimately show ?thesis using MEvent mx_exec.simps(2) [of k r rs ws] by (simp del: mx_ends.simps mx_got.simps mx_bytes.simps)
  qed
qed

lemma mx_exec_goes:
  assumes "mx_inv M" and "\<forall>x \<in> set xs. mx_ok M x"
  shows "if mx_ended xs M then rfold mx_exec xs M = Inl UseAfterFree
    else mx_goes k (concat (map (mx_bytes k) xs)) (concat (map (mx_got k) xs)) M (rfold mx_exec xs M)"
  using assms
proof (induction xs arbitrary: M)
  case Nil
  then show ?case by (simp add: mx_streams_def mx_goes_def)
next
  case (Cons x xs)
  have ok: "mx_ok M x" using Cons.prems(2) by simp
  note step = mx_step [OF Cons.prems(1) ok, of k]
  show ?case
  proof (cases "mx_ends M x \<or> mx_exec x M = Inl OutOfBounds")
    case True
    then show ?thesis using step by (auto simp: mx_goes_def)
  next
    case False
    then obtain M1 where M1: "mx_exec x M = Inr M1" "mx_inv M1" "mx_streams k (mx_bytes k x) (mx_got k x) M M1"
      "dom (mx_conns M1) = dom (mx_conns M)"
      using step by (auto simp: mx_goes_def)
    have "mx_ok M1 y = mx_ok M y" for y using M1(4) by (cases y) (auto simp: dom_def)
    then have "if mx_ended xs M1 then rfold mx_exec xs M1 = Inl UseAfterFree
        else mx_goes k (concat (map (mx_bytes k) xs)) (concat (map (mx_got k) xs)) M1 (rfold mx_exec xs M1)"
      using Cons.IH [OF M1(2)] Cons.prems(2) by simp
    then show ?thesis using False M1(1,4) mx_streams_trans [OF M1(3)] by (auto simp: mx_goes_def split: if_splits)
  qed
qed

section \<open>Properties\<close>

text \<open>
  C5. Connections on one loop do not disturb each other. Whatever is sent on any of them and whatever events are dispatched to them, in any
  order, as long as no write fails: the bytes that the kernel has taken from a connection, followed by those in its output buffer, are
  the bytes that were there before and those sent on this very connection, in order; its input buffer holds what it held and what has
  arrived on this very connection; and it waits for output if it has bytes left. Two things can go wrong: the overrun of
  \<^verbatim>\<open>Buffer::Append\<close>, and the end of the stream of any of the connections, at which the whole loop ends in a use after free.
\<close>

theorem connections_independent:
  assumes "mx_inv M" and "\<forall>x \<in> set xs. mx_ok M x" and "mx_conns M k = Some s"
  shows "if mx_ended xs M then rfold mx_exec xs M = Inl UseAfterFree
    else rfold mx_exec xs M = Inl OutOfBounds \<or>
      (\<exists>M' s'. rfold mx_exec xs M = Inr M' \<and> mx_conns M' k = Some s' \<and>
        tc_wire s' @ out s' = tc_wire s @ out s @ concat (map (mx_bytes k) xs) \<and>
        content (tc_input s') = content (tc_input s) @ map Some (concat (map (mx_got k) xs)) \<and>
        (out s' \<noteq> [] \<longrightarrow> writing (mx_view M' s')))"
proof -
  have "writing (mx_view M' s')" if "mx_inv M'" "mx_conns M' k = Some s'" "out s' \<noteq> []" for M' s'
  proof -
    have "flowing (mx_view M' s')" using that(1,2) by (simp add: mx_inv_def conn_live_def)
    then show ?thesis using that(3) by (simp add: flowing_def)
  qed
  then show ?thesis using mx_exec_goes [OF assms(1,2), of k] assms(3) unfolding mx_goes_def mx_streams_def by (simp split: if_splits) blast
qed

text \<open>Two connections, with their channels at the addresses 1 and 2.\<close>

definition pair_poller :: epoll_poller where
  "pair_poller = (EpollPoller_new 9 Map.empty)\<lparr>
     ep_heap := [1 \<mapsto> (Channel_new 5 kReadEvent 0)\<lparr>ch_callbacks := {ReadCallback, WriteCallback}\<rparr>,
       2 \<mapsto> (Channel_new 6 kReadEvent 1)\<lparr>ch_callbacks := {ReadCallback, WriteCallback}\<rparr>],
     ep_channels := [5 \<mapsto> 1, 6 \<mapsto> 2], ep_interest := [5 \<mapsto> (scast kReadEvent, 1), 6 \<mapsto> (scast kReadEvent, 2)]\<rparr>"

definition pair_conn :: "cptr \<Rightarrow> conn" where
  "pair_conn c = example_conn\<lparr>tc_channel := Some c, tc_input := Buffer_SetSuggestSize Buffer_new 8\<rparr>"

definition pair :: mux where
  "pair = \<lparr>mx_poller = pair_poller, mx_timers = TimerQueue_new 9, mx_conns = [0 \<mapsto> pair_conn 1, 1 \<mapsto> pair_conn 2]\<rparr>"

definition pair_ops :: "mx_op list" where
  "pair_ops = [MOp 0 (SendBytes ''ab'' [Wrote 1]), MOp 1 (SendBytes ''xy'' []), MEvent 1 POLLIN [Got ''q'', RAgain] [],
     MOp 0 (SendBytes ''c'' []), MEvent 0 (POLLIN OR POLLOUT) [Got ''r'', RIntr, Got ''s''] [Wrote 2]]"

lemma pair_inv: "mx_inv pair"
proof -
  have wf: "ep_wf pair_poller"
    by (auto simp: pair_poller_def EpollPoller_new_def ep_wf_def ep_fds_def ep_reg_def Channel_new_def kInitEventListSize_def split: if_splits)
  have two: "s = pair_conn 1 \<and> k = 0 \<or> s = pair_conn 2 \<and> k = 1" if "mx_conns pair k = Some s" for k s
    using that by (auto simp: pair_def split: if_splits)
  have reg: "ep_registered pair_poller = {1, 2}" by (auto simp: pair_poller_def EpollPoller_new_def ep_registered_def split: if_splits)
  have "conn_ok (mx_view pair (pair_conn c))" if "c \<in> {1, 2}" for c
    using wf that by (auto simp: pair_def mx_view_def conn_ok_def pair_conn_def example_conn_def)
      (auto simp: pair_poller_def EpollPoller_new_def)
  then have live: "conn_live (mx_view pair (pair_conn c))" if "c \<in> {1, 2}" for c
    using that by (simp add: conn_live_def flowing_def pair_conn_def example_conn_def out_def)
  have kept: "conn_kept (mx_view pair (pair_conn c))" if "c \<in> {1, 2}" for c
    using that reg by (auto simp: conn_kept_def pair_def mx_view_def pair_conn_def example_conn_def TimerQueue_new_def)
      (auto simp: pair_poller_def EpollPoller_new_def split: if_splits)
  have tid: "ep_tid (mx_poller pair) = 9" "mx_poller pair = pair_poller" by (simp_all add: pair_def pair_poller_def EpollPoller_new_def)
  show ?thesis
  proof (rule mx_invI)
    show "conn_live (mx_view pair s) \<and> conn_kept (mx_view pair s)" if "mx_conns pair k = Some s" for k s
      using two [OF that] live [of 1] live [of 2] kept [of 1] kept [of 2] by auto
    show "tc_tid s = ep_tid (mx_poller pair)" if "mx_conns pair k = Some s" for k s
      using two [OF that] tid by (auto simp: pair_conn_def example_conn_def)
    show "j = k" if "mx_conns pair j = Some s" "mx_conns pair k = Some t" "tc_channel s = Some c" "tc_channel t = Some c" for j k s t c
      using two [OF that(1)] two [OF that(2)] that(3,4) by (auto simp: pair_conn_def)
  qed (use wf tid in simp)
qed

lemma pair_run: "\<not> mx_ended pair_ops pair" "\<not> isl (rfold mx_exec pair_ops pair)"
  by code_simp+

theorem connections_independent_witness:
  "\<exists>M' s'. rfold mx_exec pair_ops pair = Inr M' \<and> mx_conns M' 0 = Some s' \<and> tc_wire s' @ out s' = ''abc'' \<and>
    content (tc_input s') = map Some ''rs''"
proof -
  have "\<forall>x \<in> set pair_ops. mx_ok pair x" "mx_conns pair 0 = Some (pair_conn 1)"
    by (simp_all add: pair_ops_def pair_def no_error_def)
  note run = connections_independent [OF pair_inv this]
  have "tc_wire (pair_conn 1) @ out (pair_conn 1) @ concat (map (mx_bytes 0) pair_ops) = ''abc''"
    "content (tc_input (pair_conn 1)) @ map Some (concat (map (mx_got 0) pair_ops)) = map Some ''rs''"
    by (simp_all add: pair_ops_def pair_conn_def example_conn_def out_def readable_def has_event_def)
  then show ?thesis using run pair_run by auto
qed

end
