(* ===== verification/RpcServe.thy ===== *)
theory RpcServe
  imports Rpc TcpServer
begin

text \<open>
  The layers around an RPC channel: the typed codec \<^verbatim>\<open>ProtobufCodecT\<close> (\<^verbatim>\<open>rpc/protobuf/protobuf_codec.h\<close>,
  \<^verbatim>\<open>rpc/protorpc/rpc_codec.h\<close>), which casts the message that the untyped codec made of its prototype back to its type,
  and the server (\<^verbatim>\<open>rpc/protorpc/rpc_server.h\<close>, \<^verbatim>\<open>rpc/protorpc/rpc_server.cc\<close>), a TCP server whose creation callback gives
  every connection a channel. The channel has a pointer to the server's table of services, so what is
  registered later is found too.
\<close>

section \<open>The typed codec\<close>

text \<open>
  A pointer to a message: the dynamic type and the value. The codec is generic in the state its callback
  works on; \<open>get\<close> and \<open>put\<close> reach the connection's input in it.
\<close>

type_synonym 'm message_ptr = "string \<times> 'm"

definition ProtobufCodec_OnMessage :: "('s \<Rightarrow> buffer) \<Rightarrow> (buffer \<Rightarrow> 's \<Rightarrow> 's) \<Rightarrow> (byte list \<Rightarrow> 'm) \<Rightarrow> string
    \<Rightarrow> ('m message_ptr \<Rightarrow> 's \<Rightarrow> 's res) \<Rightarrow> 's \<Rightarrow> 's res" where
  "ProtobufCodec_OnMessage get put parse prototype messageCallback s =
     (let b = get s in
      rbind (Buffer_PeekInt32 b) (\<lambda>len.
      if (scast len :: size_t) \<le> Buffer_GetSize b then
        rbind (ParseFromBuffer parse b (Buffer_Begin b + of_nat kHeaderLen) (scast len)) (\<lambda>message.
        rbind (messageCallback (prototype, message) s) (\<lambda>s.
        Inr (put (Buffer_Consume (get s) (scast (len + of_nat kHeaderLen))) s)))
      else Inr s))"

definition dynamic_pointer_cast :: "string \<Rightarrow> 'm message_ptr \<Rightarrow> 'm option" where
  "dynamic_pointer_cast MSG p = (if fst p = MSG then Some (snd p) else None)"

definition ProtobufCodecT_OnRpcMessage :: "string \<Rightarrow> ('m option \<Rightarrow> 's \<Rightarrow> 's res) \<Rightarrow> 'm message_ptr \<Rightarrow> 's \<Rightarrow> 's res" where
  "ProtobufCodecT_OnRpcMessage MSG messageCallback message = messageCallback (dynamic_pointer_cast MSG message)"

definition ProtobufCodecT_OnMessage :: "('s \<Rightarrow> buffer) \<Rightarrow> (buffer \<Rightarrow> 's \<Rightarrow> 's) \<Rightarrow> (byte list \<Rightarrow> 'm) \<Rightarrow> string
    \<Rightarrow> ('m option \<Rightarrow> 's \<Rightarrow> 's res) \<Rightarrow> 's \<Rightarrow> 's res" where
  "ProtobufCodecT_OnMessage get put parse MSG messageCallback =
     ProtobufCodec_OnMessage get put parse MSG (ProtobufCodecT_OnRpcMessage MSG messageCallback)"

text \<open>The two functions for checksums are stubs.\<close>

definition Checksum :: "byte list \<Rightarrow> int32" where
  "Checksum buf = 0"

definition ValidateChecksum :: "byte list \<Rightarrow> bool" where
  "ValidateChecksum buf \<longleftrightarrow> False"

text \<open>\<^verbatim>\<open>RpcChannel::OnMessage\<close> over the typed codec; the handler dereferences the pointer it is given.\<close>

definition OnRpcMessage_ptr :: "(rpc_message \<Rightarrow> byte list) \<Rightarrow> rpc_message option \<Rightarrow> rpc_channel \<times> wres list \<Rightarrow> (rpc_channel \<times> wres list) res" where
  "OnRpcMessage_ptr ser messagePtr s =
     (case messagePtr of
        None \<Rightarrow> Inl NullPointer
      | Some message \<Rightarrow> RpcChannel_OnRpcMessage ser (snd s) message (fst s))"

definition RpcChannel_OnMessage_codec :: "(rpc_message \<Rightarrow> byte list) \<Rightarrow> (byte list \<Rightarrow> rpc_message) \<Rightarrow> rpc_channel \<times> wres list \<Rightarrow> (rpc_channel \<times> wres list) res" where
  "RpcChannel_OnMessage_codec ser parse =
     ProtobufCodecT_OnMessage (\<lambda>s. tc_input (rc_conn (fst s)))
       (\<lambda>b s. ((fst s)\<lparr>rc_conn := (rc_conn (fst s))\<lparr>tc_input := b\<rparr>\<rparr>, snd s)) parse ''RpcMessage'' (OnRpcMessage_ptr ser)"

definition RpcChannel_SetConn :: "conn \<Rightarrow> rpc_channel \<Rightarrow> rpc_channel" where
  "RpcChannel_SetConn conn c = c\<lparr>rc_conn := conn\<rparr>"

section \<open>The server\<close>

record rpcd =
  rs_server :: server
  rs_services :: "byte list \<rightharpoonup> service"
  rs_channels :: "nat \<rightharpoonup> rpc_channel"

definition RpcServer_new :: "int \<Rightarrow> nat \<Rightarrow> epoll_poller \<Rightarrow> ip4addr \<Rightarrow> rpcd" where
  "RpcServer_new tid loop p addr =
     \<lparr>rs_server = TcpServer_OnConnCreate (TcpServer_new tid loop p (Some addr)), rs_services = Map.empty, rs_channels = Map.empty\<rparr>"

definition RpcServer_SetThreadNum :: "int \<Rightarrow> rpcd \<Rightarrow> rpcd" where
  "RpcServer_SetThreadNum numThreads d = d\<lparr>rs_server := TcpServer_SetThreadNum numThreads (rs_server d)\<rparr>"

definition RpcServer_RegisterService :: "byte list \<Rightarrow> service \<Rightarrow> rpcd \<Rightarrow> rpcd" where
  "RpcServer_RegisterService full_name service d = d\<lparr>rs_services := (rs_services d)(full_name \<mapsto> service)\<rparr>"

definition RpcServer_Start :: "(nat \<Rightarrow> nat) \<Rightarrow> int \<Rightarrow> cptr \<Rightarrow> int \<Rightarrow> int \<Rightarrow> bool \<Rightarrow> int \<Rightarrow> rpcd \<Rightarrow> rpcd res" where
  "RpcServer_Start StartLoop tid c fd ids bound err d =
     rbind (TcpServer_Start StartLoop tid c fd ids bound err (rs_server d)) (\<lambda>s. Inr (d\<lparr>rs_server := s\<rparr>))"

text \<open>
  The creation callback. \<open>fresh\<close> is the connection that \<^verbatim>\<open>make_shared\<close> made and \<open>garbage\<close> what the counter of the new channel
  starts with.
\<close>

definition RpcServer_create :: "(nat \<Rightarrow> int64) \<Rightarrow> (nat \<Rightarrow> conn) \<Rightarrow> nat \<Rightarrow> rpcd \<Rightarrow> rpcd" where
  "RpcServer_create garbage fresh con d =
     d\<lparr>rs_channels := (rs_channels d)(con \<mapsto> SetServices (rs_services d) (RpcChannel_new (garbage con) ((fresh con)\<lparr>tc_readcb := True\<rparr>)))\<rparr>"

fun creations :: "server_event list \<Rightarrow> nat list" where
  "creations [] = []"
| "creations (Created con # es) = con # creations es"
| "creations (_ # es) = creations es"

text \<open>Accepting: the server's accept loop, in which every creation runs the callback.\<close>

definition RpcServer_HandleAccept :: "(nat \<Rightarrow> int64) \<Rightarrow> (nat \<Rightarrow> conn) \<Rightarrow> int \<Rightarrow> accepted list \<Rightarrow> rpcd \<Rightarrow> rpcd res" where
  "RpcServer_HandleAccept garbage fresh tid as d =
     rbind (TcpServer_HandleAccept tid as (rs_server d)) (\<lambda>s.
     let new = creations (drop (length (sv_log (rs_server d))) (sv_log s)) in
     Inr (fold (RpcServer_create garbage fresh) new (d\<lparr>rs_server := s\<rparr>)))"

text \<open>Input on a connection: its channel handles it with the services that are registered now.\<close>

definition RpcServer_OnMessage :: "(rpc_message \<Rightarrow> byte list) \<Rightarrow> (byte list \<Rightarrow> rpc_message) \<Rightarrow> wres list \<Rightarrow> nat \<Rightarrow> rpcd \<Rightarrow> (rpcd \<times> wres list) res" where
  "RpcServer_OnMessage ser parse ws con d =
     (case rs_channels d con of
        None \<Rightarrow> Inl NullPointer
      | Some c \<Rightarrow>
          rbind (RpcChannel_OnMessage ser parse ws (SetServices (rs_services d) c)) (\<lambda>(c, ws).
          Inr (d\<lparr>rs_channels := (rs_channels d)(con \<mapsto> c)\<rparr>, ws)))"

section \<open>Requests in a row\<close>

text \<open>A request that some service answers, with its answer: identifier, service, method, request, response.\<close>

type_synonym rpc_exchange = "int64 \<times> byte list \<times> byte list \<times> byte list \<times> byte list"

fun request_frame :: "(rpc_message \<Rightarrow> byte list) \<Rightarrow> rpc_exchange \<Rightarrow> byte list" where
  "request_frame ser (k, sv, mt, rq, r) = frame_of (ser (request_message k sv mt rq))"

fun response_frame :: "(rpc_message \<Rightarrow> byte list) \<Rightarrow> rpc_exchange \<Rightarrow> byte list" where
  "response_frame ser (k, sv, mt, rq, r) = frame_of (ser (response_message k r))"

fun answered :: "(rpc_message \<Rightarrow> byte list) \<Rightarrow> (byte list \<rightharpoonup> service) \<Rightarrow> rpc_exchange \<Rightarrow> bool" where
  "answered ser svs (k, sv, mt, rq, r) \<longleftrightarrow>
     (\<exists>service run. svs sv = Some service \<and> service mt = Some run \<and> run rq = Some r) \<and>
     length (ser (request_message k sv mt rq)) \<le> 4092 \<and> length (ser (response_message k r)) \<le> 4092"

text \<open>Read events that deliver nothing new: each calls \<^verbatim>\<open>OnMessage\<close> once more.\<close>

fun OnMessage_times :: "(rpc_message \<Rightarrow> byte list) \<Rightarrow> (byte list \<Rightarrow> rpc_message) \<Rightarrow> nat \<Rightarrow> rpc_channel \<times> wres list \<Rightarrow> (rpc_channel \<times> wres list) res" where
  "OnMessage_times ser parse 0 s = Inr s"
| "OnMessage_times ser parse (Suc n) s = rbind (RpcChannel_OnMessage ser parse (snd s) (fst s)) (OnMessage_times ser parse n)"

lemma OnMessage_next:
  assumes law: "\<forall>m. parse (ser m) = m" and x: "answered ser svs x" and sv: "rc_services c = Some svs"
    and wf: "buffer_wf (tc_input (rc_conn c))" and ct: "content (tc_input (rc_conn c)) = map Some (request_frame ser x @ rest)"
    and rd: "ready (rc_conn c)" and n: "4096 \<le> n"
  shows "\<exists>c'. RpcChannel_OnMessage ser parse (Wrote n # ws) c = Inr (c', ws) \<and> rc_services c' = Some svs \<and>
    buffer_wf (tc_input (rc_conn c')) \<and> content (tc_input (rc_conn c')) = map Some rest \<and> ready (rc_conn c') \<and>
    tc_wire (rc_conn c') = tc_wire (rc_conn c) @ response_frame ser x"
proof -
  obtain k v mt rq r where x': "x = (k, v, mt, rq, r)" by (cases x)
  let ?c = "c\<lparr>rc_conn := (rc_conn c)\<lparr>tc_wire := tc_wire (rc_conn c) @ frame_of (ser (response_message k r))\<rparr>\<rparr>"
  have "RpcChannel_OnRpcMessage ser (Wrote n # ws) (request_message k v mt rq) c = Inr (?c, ws)"
    using x x' sv RpcChannel_send_ok [of c ser "response_message k r" n ws] rd n
    by (auto simp: RpcChannel_OnRpcMessage_def request_message_def DoneCallback_def)
  then have run: "RpcChannel_OnRpcMessage ser (Wrote n # ws) (parse (ser (request_message k v mt rq))) c = Inr (?c, ws)"
    using law by simp
  have ct': "content (tc_input (rc_conn c)) = map Some (frame_of (ser (request_message k v mt rq)) @ rest)" using ct x' by simp
  have q: "length (ser (request_message k v mt rq)) + 4 < 2 ^ 31" using x x' by simp
  show ?thesis using OnMessage_frame [where parse = parse, OF wf ct' q run] sv rd x' by auto
qed

lemma OnMessage_times_ok:
  assumes law: "\<forall>m. parse (ser m) = m" and "\<forall>x \<in> set xs. answered ser svs x" and "rc_services c = Some svs"
    and "buffer_wf (tc_input (rc_conn c))" and "content (tc_input (rc_conn c)) = map Some (concat (map (request_frame ser) xs))"
    and "ready (rc_conn c)" and n: "4096 \<le> n" and "j \<le> length xs"
  shows "\<exists>c'. OnMessage_times ser parse j (c, replicate j (Wrote n) @ ws) = Inr (c', ws) \<and>
    content (tc_input (rc_conn c')) = map Some (concat (map (request_frame ser) (drop j xs))) \<and>
    tc_wire (rc_conn c') = tc_wire (rc_conn c) @ concat (map (response_frame ser) (take j xs))"
  using assms(2-6,8)
proof (induction j arbitrary: xs c)
  case (Suc j)
  then obtain x ys where xs: "xs = x # ys" by (cases xs) auto
  obtain c1 where c1: "RpcChannel_OnMessage ser parse (Wrote n # replicate j (Wrote n) @ ws) c = Inr (c1, replicate j (Wrote n) @ ws)"
    "rc_services c1 = Some svs" "buffer_wf (tc_input (rc_conn c1))"
    "content (tc_input (rc_conn c1)) = map Some (concat (map (request_frame ser) ys))" "ready (rc_conn c1)"
    "tc_wire (rc_conn c1) = tc_wire (rc_conn c) @ response_frame ser x"
    using OnMessage_next [OF law _ Suc.prems(2,3) _ Suc.prems(5) n, of x "concat (map (request_frame ser) ys)" "replicate j (Wrote n) @ ws"]
      Suc.prems(1,4) xs by auto
  show ?case using Suc.IH [of ys c1] c1 Suc.prems xs by auto
qed auto

section \<open>Accepting\<close>

lemma creations_append [simp]: "creations (xs @ ys) = creations xs @ creations ys"
  by (induction xs rule: creations.induct) simp_all

text \<open>The connections that an accept loop adds are those it announced.\<close>

definition announced :: "server \<Rightarrow> server \<Rightarrow> bool" where
  "announced s s' \<longleftrightarrow> sv_createcb s' = sv_createcb s \<and>
     (\<exists>es. sv_log s' = sv_log s @ es \<and> (sv_createcb s \<longrightarrow> sv_conns s' = sv_conns s \<union> set (creations es)))"

lemma announced_refl [simp]: "announced s s"
  by (simp add: announced_def)

lemma announced_trans: "announced s t \<Longrightarrow> announced t u \<Longrightarrow> announced s u"
  by (fastforce simp: announced_def)

lemma accept_one_announced:
  assumes "accept_one tid cfd local peer s = Inr s'"
  shows "announced s s'"
  using assms
  by (cases "sv_createcb s"; cases "sv_statecb s"; cases "sv_readcb s") (auto simp: accept_one_def announced_def rbind_Inr_iff Let_def emit_def)

lemma accept_loop_announced: "accept_loop tid as s = Inr s' \<Longrightarrow> announced s s'"
  by (induction tid as s rule: accept_loop.induct) (auto simp: rbind_Inr_iff intro: announced_trans accept_one_announced)

lemma create_channels:
  "rs_channels (fold (RpcServer_create garbage fresh) cons d) con =
    (if con \<in> set cons then Some (SetServices (rs_services d) (RpcChannel_new (garbage con) ((fresh con)\<lparr>tc_readcb := True\<rparr>)))
     else rs_channels d con)"
  by (induction cons arbitrary: d) (auto simp: RpcServer_create_def)

lemma create_fields [simp]:
  "rs_services (fold (RpcServer_create garbage fresh) cons d) = rs_services d"
  "rs_server (fold (RpcServer_create garbage fresh) cons d) = rs_server d"
  by (induction cons arbitrary: d) (auto simp: RpcServer_create_def)

section \<open>Properties\<close>

text \<open>
  The channel's handler behind the typed codec: the message that the codec makes of its prototype always
  survives the cast to the type of the messages of the channel, so the three layers together do what the
  handler does on the parsed frame, on every input and in every error.
\<close>

theorem RpcChannel_OnMessage_layers:
  "RpcChannel_OnMessage_codec ser parse (c, ws) = RpcChannel_OnMessage ser parse ws c"
  by (simp add: RpcChannel_OnMessage_codec_def ProtobufCodecT_OnMessage_def ProtobufCodec_OnMessage_def ProtobufCodecT_OnRpcMessage_def
      dynamic_pointer_cast_def OnRpcMessage_ptr_def RpcChannel_OnMessage_def Let_def split_def cong: if_cong)

text \<open>
  C16. Requests that arrive together are answered one for each read event, in order: after \<open>j\<close> of them the first \<open>j\<close>
  requests are answered and nothing else is; the others wait in the input for more data to come.
\<close>

theorem RpcChannel_pipelined:
  assumes "\<forall>m. parse (ser m) = m" and "\<forall>x \<in> set xs. answered ser svs x" and "rc_services c = Some svs"
    and "buffer_wf (tc_input (rc_conn c))" and "content (tc_input (rc_conn c)) = map Some (concat (map (request_frame ser) xs))"
    and "ready (rc_conn c)" and "4096 \<le> n" and "j \<le> length xs"
  shows "\<exists>c'. OnMessage_times ser parse j (c, replicate j (Wrote n)) = Inr (c', []) \<and>
    content (tc_input (rc_conn c')) = map Some (concat (map (request_frame ser) (drop j xs))) \<and>
    tc_wire (rc_conn c') = tc_wire (rc_conn c) @ concat (map (response_frame ser) (take j xs))"
  using OnMessage_times_ok [OF assms, of "[]"] by simp

definition upcase_services :: "byte list \<rightharpoonup> service" where
  "upcase_services = [''Text'' \<mapsto> [''Up'' \<mapsto> \<lambda>rq. Some (upcase rq)]]"

definition two_exchanges :: "rpc_exchange list" where
  "two_exchanges = [(1, ''Text'', ''Up'', ''ab'', ''AB''), (2, ''Text'', ''Up'', ''cd'', ''CD'')]"

definition two_frames :: "byte list" where
  "two_frames = concat (map (request_frame example_ser) two_exchanges)"

definition pipelined_server :: rpc_channel where
  "pipelined_server = SetServices upcase_services (RpcChannel_new 0 (example_conn\<lparr>tc_input :=
     \<lparr>buf_mem = Some (map Some two_frames), buf_b = 0, buf_e = of_nat (length two_frames), buf_cap = of_nat (length two_frames),
      buf_exp = 0, buf_extra = 0\<rparr>\<rparr>))"

lemma pipelined_server_fields:
  "rc_services pipelined_server = Some upcase_services" "buffer_wf (tc_input (rc_conn pipelined_server))"
  "content (tc_input (rc_conn pipelined_server)) = map Some two_frames" "ready (rc_conn pipelined_server)"
  "tc_wire (rc_conn pipelined_server) = tc_wire example_conn"
proof -
  have "length two_frames < 2 ^ 64" by (simp add: two_frames_def two_exchanges_def example_ser_def request_message_def)
  then have "unat (of_nat (length two_frames) :: size_t) = length two_frames" by (rule unat_of_nat_nowrap)
  then show "buffer_wf (tc_input (rc_conn pipelined_server))" "content (tc_input (rc_conn pipelined_server)) = map Some two_frames"
    by (simp_all add: pipelined_server_def SetServices_def RpcChannel_new_def buffer_wf_def content_def)
qed (use example_ready in \<open>simp_all add: pipelined_server_def SetServices_def RpcChannel_new_def\<close>)

theorem RpcChannel_pipelined_witness:
  "\<exists>c'. OnMessage_times example_ser example_parse 1 (pipelined_server, [Wrote 4096]) = Inr (c', []) \<and>
    content (tc_input (rc_conn c')) = map Some (frame_of (example_ser (request_message 2 ''Text'' ''Up'' ''cd''))) \<and>
    tc_wire (rc_conn c') = tc_wire example_conn @ frame_of (example_ser (response_message 1 ''AB''))"
proof -
  have "\<exists>c'. OnMessage_times example_ser example_parse 1 (pipelined_server, replicate 1 (Wrote 4096)) = Inr (c', []) \<and>
      content (tc_input (rc_conn c')) = map Some (concat (map (request_frame example_ser) (drop 1 two_exchanges))) \<and>
      tc_wire (rc_conn c') = tc_wire (rc_conn pipelined_server) @ concat (map (response_frame example_ser) (take 1 two_exchanges))"
  proof (rule RpcChannel_pipelined)
    have "upcase ''ab'' = ''AB''" "upcase ''cd'' = ''CD''" by code_simp+
    then show "\<forall>x \<in> set two_exchanges. answered example_ser upcase_services x"
      by (simp add: two_exchanges_def upcase_services_def request_message_def response_message_def example_ser_def)
  qed (simp_all add: example_parse_ser pipelined_server_fields two_frames_def, simp add: two_exchanges_def)
  then show ?thesis by (simp add: two_exchanges_def pipelined_server_fields)
qed

text \<open>
  Every connection of a server has a channel, from its acceptance on, and the channel finds every service that is
  registered when a request comes, those registered after the connection was made included.
\<close>

theorem RpcServer_channels:
  assumes "RpcServer_HandleAccept garbage fresh tid as d = Inr d'" and "sv_createcb (rs_server d)"
    and "sv_conns (rs_server d) \<subseteq> dom (rs_channels d)" and "con \<in> sv_conns (rs_server d')"
  shows "\<exists>c. rs_channels d' con = Some c \<and>
    RpcServer_OnMessage ser parse ws con (RpcServer_RegisterService name service d') =
      rbind (RpcChannel_OnMessage ser parse ws (SetServices ((rs_services d)(name \<mapsto> service)) c)) (\<lambda>(c', ws).
      Inr ((RpcServer_RegisterService name service d')\<lparr>rs_channels := (rs_channels d')(con \<mapsto> c')\<rparr>, ws))"
proof -
  obtain s where s: "TcpServer_HandleAccept tid as (rs_server d) = Inr s" and
    d': "d' = fold (RpcServer_create garbage fresh) (creations (drop (length (sv_log (rs_server d))) (sv_log s))) (d\<lparr>rs_server := s\<rparr>)"
    using assms(1) by (auto simp: RpcServer_HandleAccept_def rbind_Inr_iff Let_def)
  have "announced (rs_server d) s"
    using s accept_loop_announced by (auto simp: TcpServer_HandleAccept_def rbind_Inr_iff split: option.splits if_splits)
  then have "con \<in> sv_conns (rs_server d) \<union> set (creations (drop (length (sv_log (rs_server d))) (sv_log s)))"
    using assms(2,4) d' by (auto simp: announced_def)
  then obtain c where "rs_channels d' con = Some c" using assms(3) d' by (fastforce simp: create_channels)
  moreover have "rs_services d' = rs_services d" using d' by simp
  ultimately show ?thesis by (auto simp: RpcServer_OnMessage_def RpcServer_RegisterService_def)
qed

text \<open>The server of two threads, which accepts two connections and then learns a service.\<close>

definition two_accepts :: "accepted list" where
  "two_accepts = (let a = Ip4Addr_new (\<lambda>_. None) [] 8080 in [Accepted 7 (Some a) (Some a), Accepted 8 (Some a) (Some a)])"

definition small_rpcd :: "server \<Rightarrow> rpcd" where
  "small_rpcd s = \<lparr>rs_server = TcpServer_OnConnCreate s, rs_services = Map.empty, rs_channels = Map.empty\<rparr>"

theorem RpcServer_channels_witness:
  "\<exists>s d c. TcpServer.example_server = Inr s \<and>
    RpcServer_HandleAccept (\<lambda>_. 0) (\<lambda>_. example_conn) 9 two_accepts (small_rpcd s) = Inr d \<and> rs_channels d 1 = Some c"
proof -
  obtain s where s: "TcpServer.example_server = Inr s" "listening s" "sv_tid s = 9" "pool_running [1, 2] (sv_pool s)"
    "lp_next (sv_pool s) = 0" "sv_fresh s = 0" "sv_log s = []" "sv_conns s = {}"
    by (rule example_server_ok)
  let ?s = "rs_server (small_rpcd s)"
  have len: "length (good two_accepts) = 2" by (simp add: two_accepts_def Let_def)
  have "next_loops (length (good two_accepts)) (sv_pool ?s) = Inr (map (\<lambda>k. [1, 2] ! ((lp_next (sv_pool s) + k) mod length [1, 2 :: nat])) [0 ..< 2])"
    using next_loops_round_robin [of "sv_pool s" "[1, 2]" 2] s(4) unfolding len pool_running_def by (simp add: small_rpcd_def del: next_loops.simps)
  then obtain t where t: "accept_loop 9 two_accepts ?s = Inr t" "sv_conns t = {0 ..< 2}"
    using accept_loop_ok [of 9 ?s two_accepts] s unfolding len by (force simp: small_rpcd_def)
  have "listening ?s" using s(2) by (simp add: listening_def small_rpcd_def)
  then obtain d where d: "RpcServer_HandleAccept (\<lambda>_. 0) (\<lambda>_. example_conn) 9 two_accepts (small_rpcd s) = Inr d" "rs_server d = t"
    using t(1) HandleAccept_listening by (simp add: RpcServer_HandleAccept_def)
  have "1 \<in> sv_conns (rs_server d)" using t d by simp
  moreover have "sv_createcb ?s" "sv_conns ?s \<subseteq> dom (rs_channels (small_rpcd s))" using s by (simp_all add: small_rpcd_def)
  ultimately obtain c where "rs_channels d 1 = Some c" using RpcServer_channels [OF d(1)] by blast
  then show ?thesis using s(1) d(1) by blast
qed

end
