(* ===== verification/Examples.thy ===== *)
theory Examples
  imports HttpServe TcpServer
begin

text \<open>
  The programs over the library: the example HTTP server (\<^verbatim>\<open>examples/http/http_server.cc\<close>) and the test
  runner (\<^verbatim>\<open>unit_test/unit_test.h\<close>, \<^verbatim>\<open>unit_test/unit_test.cc\<close>).

  The example calls \<^verbatim>\<open>Bind\<close> with a host and ignores what it returns; that function ends without a
  \<^verbatim>\<open>return\<close>, which the compiler options of the project (no optimisation) let pass, so the model takes the state
  that its call of \<^verbatim>\<open>Bind\<close> without a host leaves.
\<close>

section \<open>The example HTTP server\<close>

definition http_example_server :: "(byte list \<Rightarrow> 32 word option) \<Rightarrow> int \<Rightarrow> nat \<Rightarrow> epoll_poller \<Rightarrow> cptr \<Rightarrow> int \<Rightarrow> int \<Rightarrow> bool \<Rightarrow> int \<Rightarrow> server res" where
  "http_example_server resolve tid loop p c fd ids bound err =
     (let s = TcpServer_OnConnCreate (TcpServer_new tid loop p None);
          s = s\<lparr>sv_addr := Ip4Addr_new resolve ''0.0.0.0'' 8080\<rparr>
      in rbind (TcpServer_Bind tid c fd ids bound err s) (\<lambda>(r, s). Inr s))"

definition http_example_ref :: "wres list \<Rightarrow> http_conn \<Rightarrow> http_conn res" where
  "http_example_ref ws con =
     rbind (GetRequest con) (\<lambda>req.
     let b = hm_body (hr_msg req); v = hm_version (hr_msg req);
         rep = SetBody b HttpResponse_Clear
     in rbind (SendResponse ws rep con) (\<lambda>con.
        if v = ''HTTP/1.0'' then rbind (TcpConn_Close (hc_tcp con)) (\<lambda>t. Inr (con\<lparr>hc_tcp := t\<rparr>)) else Inr con))"

section \<open>The test runner\<close>

record 's test =
  te_base :: string
  te_name :: string
  te_func :: "'s \<Rightarrow> 's res"

definition RegisterTest :: "string \<Rightarrow> string \<Rightarrow> ('s \<Rightarrow> 's res) \<Rightarrow> 's test list \<Rightarrow> bool \<times> 's test list" where
  "RegisterTest base name func tests = (True, tests @ [\<lparr>te_base = base, te_name = name, te_func = func\<rparr>])"

definition RunAllTests :: "'s test list \<Rightarrow> 's \<Rightarrow> (int \<times> 's) res" where
  "RunAllTests tests s =
     rbind (if length tests \<noteq> 0 then rfold te_func tests s else Inr s) (\<lambda>s. Inr (0, s))"

section \<open>Lemmas\<close>

text \<open>Sending registers and unregisters nothing.\<close>

definition same_channels :: "conn \<Rightarrow> conn \<Rightarrow> bool" where
  "same_channels s s' \<longleftrightarrow> ep_channels (tc_poller s') = ep_channels (tc_poller s) \<and> tc_channel s' = tc_channel s"

lemma conn_switch_channels: "conn_switch Channel_EnableWrite s = Inr s' \<Longrightarrow> same_channels s s'"
  by (auto simp: same_channels_def conn_switch_def Channel_EnableWrite_def Channel_switch_def EpollPoller_UpdateChannel_def
      EpollPoller_Update_def rbind_Inr_iff)

lemma ISend_channels:
  assumes "TcpConn_ISend ws bs s = Inr (n, s', ws')"
  shows "same_channels s s'"
  using assms
  by (cases "write_loop ws bs") (auto simp: TcpConn_ISend_def same_channels_def rbind_Inr_iff Let_def dest!: conn_switch_channels split: if_splits)

lemma SendOutput_channels:
  assumes "TcpConn_SendOutput ws s = Inr (s', ws')"
  shows "same_channels s s'"
  using assms
  by (auto simp: TcpConn_SendOutput_def same_channels_def rbind_Inr_iff Let_def dest!: ISend_channels conn_switch_channels split: if_splits)

lemma ClearData_channels: "ClearData s = Inr s' \<Longrightarrow> same_channels (hc_tcp s) (hc_tcp s')"
  by (auto simp: ClearData_def same_channels_def rbind_Inr_iff split: if_splits)

lemma SendResponse_channels:
  assumes "SendResponse ws r s = Inr s'"
  shows "same_channels (hc_tcp s) (hc_tcp s')"
  using assms by (auto simp: SendResponse_def same_channels_def rbind_Inr_iff dest!: SendOutput_channels ClearData_channels)

lemma Close_registered:
  assumes "conn_live s" and "tc_channel s = Some c" and "c \<in> ep_registered (tc_poller s)"
  shows "\<exists>s'. TcpConn_Close s = Inr s' \<and> tc_wire s' = tc_wire s \<and> out s' = out s \<and> tc_input s' = tc_input s \<and>
    c \<notin> ep_registered (tc_poller s')"
proof -
  have "ep_wf (tc_poller s)" "ep_tid (tc_poller s) = tc_tid s" using assms(1) by (simp_all add: conn_live_def conn_ok_def)
  from Channel_Close_ok [OF this assms(3)] show ?thesis using assms(2) by (auto simp: TcpConn_Close_def out_def)
qed

section \<open>Properties\<close>

text \<open>
  C17. The example never starts the pool of its server: the first connection that it accepts stops the program on an assertion,
  whatever the addresses and the descriptors are.
\<close>

theorem http_example_first_connection:
  assumes "http_example_server resolve tid loop p c fd ids True err = Inr s" and "0 \<le> fd"
  shows "TcpServer_HandleAccept tid (Accepted cfd (Some peer) (Some local) # as) s = Inl AssertFailed"
  using assms
  by (auto simp: http_example_server_def TcpServer_Bind_def TcpServer_new_def EpollPoller_AddChannel_def EpollPoller_Update_def
      TcpServer_HandleAccept_def accept_one_def EventLoopPool_GetNextLoop_def EventLoopPool_new_def Channel_SetCallback_def
      Channel_new_def rbind_Inr_iff Let_def)

theorem http_example_first_connection_witness:
  "\<exists>s. http_example_server (\<lambda>_. None) 9 0 (EpollPoller_new 9 Map.empty) 1 3 0 True 0 = Inr s \<and>
    TcpServer_HandleAccept 9 [Accepted 7 (Some (Ip4Addr_new (\<lambda>_. None) [] 80)) (Some (Ip4Addr_new (\<lambda>_. None) [] 80))] s = Inl AssertFailed"
proof -
  obtain s where s: "http_example_server (\<lambda>_. None) 9 0 (EpollPoller_new 9 Map.empty) 1 3 0 True 0 = Inr s"
    by (simp add: http_example_server_def TcpServer_Bind_def TcpServer_new_def EpollPoller_AddChannel_def EpollPoller_Update_def
        EpollPoller_new_def Let_def)
  then show ?thesis using http_example_first_connection [OF s] by auto
qed

text \<open>
  A request for \<^verbatim>\<open>/ref\<close> is answered with its own body, byte for byte behind what was sent before, and the bytes after the
  request stay in the input. For HTTP/1.0 the connection is closed at once: what the socket did not take is still in the
  output buffer, and no event will ever send it.
\<close>

theorem http_example_echo:
  assumes "serving s req rep (msg @ rest)" and "hm_scanned (hr_msg req) = length msg" and "no_error ws"
    and "output_room (tc_output (hc_tcp s)) (length (response_bytes (SetBody (hm_body (hr_msg req)) HttpResponse_Clear)))"
    and "tc_channel (hc_tcp s) = Some c" and "c \<in> ep_registered (tc_poller (hc_tcp s))"
  shows "\<exists>s'. http_example_ref ws s = Inr s' \<and> content (tc_input (hc_tcp s')) = map Some rest \<and>
    tc_wire (hc_tcp s') @ out (hc_tcp s') =
      tc_wire (hc_tcp s) @ out (hc_tcp s) @ response_bytes (SetBody (hm_body (hr_msg req)) HttpResponse_Clear) \<and>
    (c \<in> ep_registered (tc_poller (hc_tcp s')) \<longleftrightarrow> hm_version (hr_msg req) \<noteq> ''HTTP/1.0'')"
proof -
  let ?r = "SetBody (hm_body (hr_msg req)) HttpResponse_Clear"
  have req: "GetRequest s = Inr req" using assms(1) GetRequest_ctx by (simp add: serving_def)
  obtain s1 where s1: "SendResponse ws ?r s = Inr s1" "serving s1 HttpRequest_Clear rep rest"
    "tc_wire (hc_tcp s1) @ out (hc_tcp s1) = tc_wire (hc_tcp s) @ out (hc_tcp s) @ response_bytes ?r"
    using SendResponse_serving [OF assms(1-4)] by blast
  have reg: "c \<in> ep_registered (tc_poller (hc_tcp s1))" and ch: "tc_channel (hc_tcp s1) = Some c"
    using SendResponse_channels [OF s1(1)] assms(5,6) by (simp_all add: same_channels_def ep_registered_def)
  have live: "conn_live (hc_tcp s1)" "content (tc_input (hc_tcp s1)) = map Some rest" using s1(2) by (simp_all add: serving_def)
  show ?thesis
  proof (cases "hm_version (hr_msg req) = ''HTTP/1.0''")
    case True
    then show ?thesis using Close_registered [OF live(1) ch reg] req s1 live(2) by (auto simp: http_example_ref_def Let_def)
  next
    case False
    then show ?thesis using req s1 live(2) reg by (auto simp: http_example_ref_def Let_def)
  qed
qed

theorem http_example_echo_witness:
  "\<exists>s'. http_example_ref [Wrote 5, WAgain] (put_request (HttpRequest_Clear\<lparr>hr_msg := HttpMsg_Clear\<lparr>hm_body := ''ab'', hm_version := ''HTTP/1.0''\<rparr>\<rparr>) example_http)
      = Inr s' \<and> 1 \<notin> ep_registered (tc_poller (hc_tcp s'))"
proof -
  let ?req = "HttpRequest_Clear\<lparr>hr_msg := HttpMsg_Clear\<lparr>hm_body := ''ab'', hm_version := ''HTTP/1.0''\<rparr>\<rparr>"
  have "serving (put_request ?req example_http) ?req HttpResponse_Clear ([] @ two_requests)"
    using example_http_serving put_ctx(1) [of example_http HttpRequest_Clear HttpResponse_Clear ?req] by (simp add: serving_def IsClient_def)
  moreover have "length (response_bytes (SetBody ''ab'' HttpResponse_Clear)) < 100" by code_simp
  then have "output_room (tc_output (hc_tcp example_http)) (length (response_bytes (SetBody ''ab'' HttpResponse_Clear)))"
    by (simp add: output_room_def example_http_def OnHttpMsg_def example_conn_def) (simp add: Buffer_SetSuggestSize_def Buffer_new_def)
  moreover have "tc_channel (hc_tcp example_http) = Some 1" "1 \<in> ep_registered (tc_poller (hc_tcp example_http))"
    using example_poller_wf by (simp_all add: example_http_def OnHttpMsg_def example_conn_def)
  ultimately show ?thesis
    using http_example_echo [of "put_request ?req example_http" ?req HttpResponse_Clear "[]" two_requests "[Wrote 5, WAgain]" 1]
    by (auto simp: no_error_def HttpMsg_Clear_def)
qed

text \<open>
  The runner runs every registered test once, in the order of registration, and returns 0 whatever the tests did.
\<close>

theorem RunAllTests_order:
  "RunAllTests (foldl (\<lambda>tests (base, name, func). snd (RegisterTest base name func tests)) [] ts) s =
    rbind (rfold (\<lambda>(base, name, func). func) ts s) (\<lambda>s. Inr (0, s))"
proof -
  have "foldl (\<lambda>tests (base, name, func). snd (RegisterTest base name func tests)) us ts =
      us @ map (\<lambda>(base, name, func). \<lparr>te_base = base, te_name = name, te_func = func\<rparr>) ts" for us
    by (induction ts arbitrary: us) (auto simp: RegisterTest_def)
  moreover have "rfold te_func (map (\<lambda>(base, name, func). \<lparr>te_base = base, te_name = name, te_func = func\<rparr>) ts) s =
      rfold (\<lambda>(base, name, func). func) ts s" for s
  proof (induction ts arbitrary: s)
    case (Cons t ts)
    then show ?case by (cases t) (auto simp: rbind_def split: sum.splits)
  qed simp
  ultimately show ?thesis by (cases ts) (simp_all add: RunAllTests_def)
qed

end
