(* ===== verification/Spec2Isabelle.thy ===== *)
theory Spec2Isabelle
  imports Slice Codec Status TimerQueue Channel Poller EventLoop Loop Threads TcpConn Remote Lines Connect TcpServer Http Raft Rpc Net Daemon Process Logger
    Socket StatusObjects ThreadExit ProcessSelf ChannelText RaftNode Any HttpServe RpcMemory LogThreads TcpClient NodeLife
    Round Pollers Multiplex RpcServe Examples
begin

text \<open>
  JNet: a verification of the network library, its RPC layer and its Raft prototype.

  \<^bold>\<open>The program.\<close> JNet is a reactor library in C++. An event loop (\<^verbatim>\<open>src/net/eventloop.cc\<close>) waits in a poller
  (\<^verbatim>\<open>epollpoller.cc\<close>, \<^verbatim>\<open>pollpoller.cc\<close>) for the descriptors of its channels (\<^verbatim>\<open>channel.cc\<close>), runs the callbacks of the channels
  that are ready, the timers of its timer queue (\<^verbatim>\<open>timerqueue.cc\<close>) and the functors that any thread has queued. Connections
  (\<^verbatim>\<open>tcpconn.cc\<close>) own a channel and two buffers (\<^verbatim>\<open>buffer.cc\<close>); servers (\<^verbatim>\<open>tcpserver.cc\<close>) accept connections and hand them to a pool of
  loops (\<^verbatim>\<open>eventloop_pool.cc\<close>, \<^verbatim>\<open>eventloop_thread.cc\<close>). HTTP (\<^verbatim>\<open>http.cc\<close>), a protobuf RPC (\<^verbatim>\<open>src/rpc\<close>) and Raft
  (\<^verbatim>\<open>src/raft\<close>) are built on connections. Around them stand a thread pool, a logger, daemon control and helpers.

  \<^bold>\<open>Conventions.\<close> Operations that can fail return \<open>cxx_error + 'a\<close> (\<open>res\<close> in the prelude): a failed assertion, undefined behaviour
  (access outside an object, through a null pointer, to a freed object, of a value that was never written, division by zero) and thrown exceptions are
  values of \<open>cxx_error\<close>. The state of a class is a record with the fields of the class; an object that is reached through pointers lives in a
  map from addresses, so that aliasing and deletion are visible. What the operating system answers, the readings of clocks, the
  addresses that \<^verbatim>\<open>new\<close> returns and the text of a \<^verbatim>\<open>printf\<close> format are arguments. Threads are interleavings of atomic steps given by
  inductive relations; critical sections under a mutex are single steps.

  \<^bold>\<open>Theories.\<close>

  \<^item> \<open>JNet_Prelude\<close>: results, raw memory with cells that may have no value, byte order, words. Every other theory imports it.
  \<^item> \<open>Buffer\<close> (\<^verbatim>\<open>net/buffer.h\<close>, \<^verbatim>\<open>buffer.cc\<close>): every operation on the memory of the buffer; well-formedness, the content as a byte
    sequence, the buffer as a queue of bytes (locale \<open>byte_queue\<close>), and the operation that leaves the allocation.
  \<^item> \<open>Slice\<close>, \<open>Codec\<close>, \<open>Status\<close> (\<^verbatim>\<open>slice.h\<close>, \<^verbatim>\<open>codec.cc\<close>, \<^verbatim>\<open>status.cc\<close>): views, framing (locale \<open>framing\<close>), errors with their heap layout; round trips and order.
  \<^item> \<open>StatusObjects\<close> (\<^verbatim>\<open>status.h\<close>): status objects that share the heap through copies, moves and assignments; they implement values, except under
    self-assignment.
  \<^item> \<open>TimeStamp\<close>, \<open>Calendar\<close> (\<^verbatim>\<open>timestamp.cc\<close>, \<^verbatim>\<open>timer.cc\<close>): times, the calendar of \<^verbatim>\<open>gmtime_r\<close>, printing. A double is a rational with
    a rounding function as an argument; the text of a time determines it.
  \<^item> \<open>TimerQueue\<close> (\<^verbatim>\<open>timerqueue.cc\<close>): the ordered set of timers, the heap of timers and the timer descriptor. The locale
    \<open>timer_callbacks\<close> states what the queue relies on in the callbacks it runs; callbacks that add and cancel timers are its
    interpretation. Reachable queues are ordered, live and armed.
  \<^item> \<open>Channel\<close>, \<open>Poller\<close> (\<^verbatim>\<open>channel.cc\<close>, \<^verbatim>\<open>poller.cc\<close>, \<^verbatim>\<open>epollpoller.cc\<close>, \<^verbatim>\<open>pollpoller.cc\<close>): masks, dispatch, both pollers with the
    kernel's interest list. The locale \<open>poller_interface\<close> is the contract of a poller as a set of channels; the epoll poller interprets it
    and refines its specification. \<open>ChannelText\<close>: the text of masks and of operations in the log, which determines the mask.
  \<^item> \<open>EventLoop\<close> (\<^verbatim>\<open>eventloop.cc\<close>): the loop thread as a machine, interleaved with other threads that queue functors and request the end.
    No wake-up is lost, functors run in order, a round of functors ends.
  \<^item> \<open>Round\<close> (\<^verbatim>\<open>eventloop.cc\<close>): the body of the loop over the heap of channels: poll, the callbacks of the active channels, the pending
    functors. The locale \<open>loop_client\<close> is the discipline of callbacks and functors; programs of channel operations interpret it. Such a loop
    never uses a freed channel, and a callback that deletes another active channel makes it do so.
  \<^item> \<open>Pollers\<close> (\<^verbatim>\<open>pollpoller.cc\<close>, \<^verbatim>\<open>epollpoller.cc\<close>): both pollers driven by the same calls; without removals they cannot be told apart.
  \<^item> \<open>Loop\<close> (\<^verbatim>\<open>eventloop.cc\<close>, \<^verbatim>\<open>timerqueue.cc\<close>): what a loop owns: construction, destruction, channel and timer entry points.
  \<^item> \<open>Threads\<close> (\<^verbatim>\<open>countdownlatch.h\<close>, \<^verbatim>\<open>eventloop_thread.cc\<close>, \<^verbatim>\<open>eventloop_pool.cc\<close>, \<^verbatim>\<open>threadpool.h\<close>): starting loops, handing them out, workers
    with their condition variable. A queued task is not left alone as long as fewer callers wait for room than the queue has room for.
  \<^item> \<open>ThreadExit\<close> (\<^verbatim>\<open>eventloop_thread.cc\<close>): the destructor of a loop thread against the thread that runs the loop, whose last step destroys the loop: in every
    interleaving the program is aborted by an assertion before the destructor returns.
  \<^item> \<open>TcpConn\<close>, \<open>Connect\<close> (\<^verbatim>\<open>tcpconn.cc\<close>, \<^verbatim>\<open>connector.cc\<close>): sending, receiving, handshake, closing, connecting with a timeout. The byte stream is
    kept in order under any mixture of operations; what goes wrong when a connection is closed.
  \<^item> \<open>Multiplex\<close> (\<^verbatim>\<open>tcpconn.cc\<close>): many connections on one loop, which share its poller and its timers; events reach them through the dispatch of their
    channels. The streams of each are independent of what happens on the others, until one of them ends, which ends the loop in a use after free.
  \<^item> \<open>Remote\<close> (\<^verbatim>\<open>tcpconn.cc\<close>): sending from any thread, the connection composed with its event loop and with the strings of the callers. Messages
    keep their order if the strings are kept until the functor has run, and what happens otherwise.
  \<^item> \<open>Lines\<close> (\<^verbatim>\<open>codec.cc\<close>, \<^verbatim>\<open>tcpconn.cc\<close>): the codec, the buffers and two connections composed: lines that one side encodes and sends are
    what the other side's read callback decodes.
  \<^item> \<open>Net\<close>, \<open>TcpServer\<close> (\<^verbatim>\<open>net.cc\<close>, \<^verbatim>\<open>tcpserver.cc\<close>): addresses, listening, accepting. Connections go to the loops in turn.
  \<^item> \<open>Socket\<close>, \<open>TcpClient\<close> (\<^verbatim>\<open>socket.cc\<close>, \<^verbatim>\<open>net.cc\<close>, \<^verbatim>\<open>tcpclient.cc\<close>): descriptors in the table of the kernel, socket options with
    their return values, the statistics text, and the descriptor that a connection closes twice; the client class, whose operations are empty.
  \<^item> \<open>Any\<close> (\<^verbatim>\<open>any.h\<close>): the type-erased context of a connection; programs of copies, moves and assignments keep it well typed.
  \<^item> \<open>Http\<close>, \<open>HttpServe\<close> (\<^verbatim>\<open>http.cc\<close>): decoding, encoding, routing. A loop of the code that may not end is a partial function whose
    value is then \<open>None\<close>. \<open>HttpServe\<close> follows a request from the input buffer through the table of callbacks to the bytes of the response, on a connection whose context has been
    set; the program itself never sets it, and then every read throws.
  \<^item> \<open>RaftLog\<close>, \<open>Raft\<close> (\<^verbatim>\<open>raft/\<close>): the log on storage with the locale \<open>entry_log\<close>, the handlers of a node, and clusters of nodes
    exchanging messages in any order.
  \<^item> \<open>Rpc\<close> (\<^verbatim>\<open>rpc/\<close>): frames, calls, responses. Serialisation is the protobuf library's: an argument with the law that parsing inverts it. The
    locale \<open>call_table\<close> is the contract of the table of outstanding calls. \<open>RpcServe\<close> (\<^verbatim>\<open>protobuf_codec.h\<close>, \<^verbatim>\<open>rpc_server.cc\<close>): the typed
    codec, the server with a channel for every connection, and requests that arrive together. \<open>RpcMemory\<close>: who deletes responses and closures, the destructor of the
    channel included. \<open>RaftNode\<close> (\<^verbatim>\<open>raft_service.cc\<close>, \<^verbatim>\<open>raft_peer.cc\<close>, \<^verbatim>\<open>node.cc\<close>): a vote that travels over the RPC layer, to a closure whose request is gone. \<open>NodeLife\<close>: what a
    node allocates, and what its destructor deletes.
  \<^item> \<open>Util\<close>, \<open>Process\<close>, \<open>ProcessSelf\<close>, \<open>Daemon\<close>, \<open>Logger\<close>, \<open>LogThreads\<close> (\<^verbatim>\<open>util.cc\<close>, \<^verbatim>\<open>file.cc\<close>, \<^verbatim>\<open>processinfo.cc\<close>, \<^verbatim>\<open>daemon.cc\<close>, \<^verbatim>\<open>log.cc\<close>): strings and numbers, files and
    \<^verbatim>\<open>/proc\<close>, pid files and daemon commands, log lines and rotation. In \<open>LogThreads\<close> any number of threads rotate at once, and one of them renames the file.
  \<^item> \<open>Examples\<close> (\<^verbatim>\<open>examples/http/http_server.cc\<close>, \<^verbatim>\<open>unit_test/unit_test.cc\<close>): the example server over the library, and the test runner.

  \<^bold>\<open>Bounds and fuel.\<close> Loops of the code are total functions with a measure, or recursive on the list of answers that the system gives:
    when the answers are used up the descriptor is not ready, which ends every such loop. The event loop itself runs until it is told to quit:
    its theorems hold for every number of rounds. The only bounded repetition is the code's own (1000
    attempts to stop a daemon). Sizes and offsets that can wrap are words of 64, 32 or 16 bits; times and identifiers that stay far
    from their limits are integers, and the printing of times is proved for the whole range of 64 bits. Positions in an HTTP message are integers too, which is exact
    for messages shorter than \<open>2 ^ 31\<close> bytes.

  \<^bold>\<open>Not modelled.\<close> The protobuf library and the code it generates are not part of the sources: serialisation, parsing and whether a closure
    deletes itself are arguments. The local time zone is an argument of \<^verbatim>\<open>ReadableTime\<close>. Interleaved \<^verbatim>\<open>write\<close> calls of log lines are the
    kernel's. A log statement inside an operation is left out where it only prints; the one of \<^verbatim>\<open>HttpConnPtr::HandleRead_\<close> that passes strings through a variable argument
    list is recorded as a defect. A channel of the RPC layer has one connection in the model, so the assertion that a message comes from it has no counterpart. The
    \<^verbatim>\<open>dynamic_cast\<close> of \<^verbatim>\<open>Any\<close> is the comparison of types before it. The macros of \<^verbatim>\<open>unit_test.h\<close> only generate a class for a test and register it, and the sources contain no test.
\<close>

end
